(* ===== verification/Go_Prelude.thy ===== *)
theory Go_Prelude
  imports Main "HOL-Library.Char_ord" "HOL-Library.List_Lexorder" "HOL-Library.AList"
    "HOL-Library.Multiset" "HOL-Library.Code_Target_Nat"
begin

text \<open>
  What the components share. A Go \<^verbatim>\<open>string\<close> and a Go \<^verbatim>\<open>[]byte\<close> are both a HOL
  \<open>string\<close>: a list of 8-bit characters, so \<open>length\<close> counts bytes as Go's \<^verbatim>\<open>len\<close> does
  and the order is the bytewise lexicographic one of Go's \<open><\<close> on strings. The functions
  of the package \<^verbatim>\<open>strings\<close> that the code calls follow, with their library names in
  snake case. Case mapping and white space are those of ASCII: bytes above 127 are left as
  they are (the code applies them to header names, media types, URL schemes and path
  suffixes).

  A Go map is an association list with distinct keys; the order of the list is the order in
  which one particular \<^verbatim>\<open>range\<close> visits it. A statement that permutes the list
  therefore says that the result does not depend on Go's unspecified iteration order.
\<close>

named_theorems str_simps
named_theorems gomap_simps

type_synonym bytes = string
type_synonym ('k, 'v) gomap = "('k \<times> 'v) list"

section \<open>Strings\<close>

definition byte_at :: "char \<Rightarrow> nat" where
  "byte_at c = of_char c"

definition in_range :: "char \<Rightarrow> char \<Rightarrow> char \<Rightarrow> bool" where
  "in_range lo hi c = (byte_at lo \<le> byte_at c \<and> byte_at c \<le> byte_at hi)"

definition is_digit :: "char \<Rightarrow> bool" where
  "is_digit c = in_range (CHR ''0'') (CHR ''9'') c"

definition is_upper :: "char \<Rightarrow> bool" where
  "is_upper c = in_range (CHR ''A'') (CHR ''Z'') c"

definition is_lower :: "char \<Rightarrow> bool" where
  "is_lower c = in_range (CHR ''a'') (CHR ''z'') c"

definition is_hex :: "char \<Rightarrow> bool" where
  "is_hex c = (is_digit c \<or> in_range (CHR ''a'') (CHR ''f'') c \<or> in_range (CHR ''A'') (CHR ''F'') c)"

definition is_space :: "char \<Rightarrow> bool" where
  "is_space c = (byte_at c = 32 \<or> (9 \<le> byte_at c \<and> byte_at c \<le> 13))"

definition lower_char :: "char \<Rightarrow> char" where
  "lower_char c = (if is_upper c then char_of (byte_at c + 32) else c)"

definition upper_char :: "char \<Rightarrow> char" where
  "upper_char c = (if is_lower c then char_of (byte_at c - 32) else c)"

definition to_lower :: "string \<Rightarrow> string" where
  "to_lower s = map lower_char s"

definition to_upper :: "string \<Rightarrow> string" where
  "to_upper s = map upper_char s"

definition equal_fold :: "string \<Rightarrow> string \<Rightarrow> bool" where
  "equal_fold s t = (to_lower s = to_lower t)"

definition has_prefix :: "string \<Rightarrow> string \<Rightarrow> bool" where
  "has_prefix s p = (take (length p) s = p)"

definition has_suffix :: "string \<Rightarrow> string \<Rightarrow> bool" where
  "has_suffix s p = (length p \<le> length s \<and> drop (length s - length p) s = p)"

fun contains :: "string \<Rightarrow> string \<Rightarrow> bool" where
  "contains [] sub = (sub = [])"
| "contains (c # s) sub = (has_prefix (c # s) sub \<or> contains s sub)"

text \<open>\<^verbatim>\<open>strings.Cut\<close> at the first occurrence of one character: what stands before
  it, and what follows it when it occurs.\<close>

definition cut :: "char \<Rightarrow> string \<Rightarrow> string \<times> string option" where
  "cut c s = (takeWhile (\<lambda>x. x \<noteq> c) s,
     (case dropWhile (\<lambda>x. x \<noteq> c) s of [] \<Rightarrow> None | _ # r \<Rightarrow> Some r))"

definition before_first :: "char \<Rightarrow> string \<Rightarrow> string" where
  "before_first c s = takeWhile (\<lambda>x. x \<noteq> c) s"

text \<open>Everything after the last occurrence of a character, when it occurs
  (\<^verbatim>\<open>s[strings.LastIndex(s, c)+1:]\<close>).\<close>

definition after_last :: "char \<Rightarrow> string \<Rightarrow> string option" where
  "after_last c s = (if c \<in> set s then Some (rev (takeWhile (\<lambda>x. x \<noteq> c) (rev s))) else None)"

definition trim_left :: "(char \<Rightarrow> bool) \<Rightarrow> string \<Rightarrow> string" where
  "trim_left p s = dropWhile p s"

definition trim_right :: "(char \<Rightarrow> bool) \<Rightarrow> string \<Rightarrow> string" where
  "trim_right p s = rev (dropWhile p (rev s))"

definition trim_space :: "string \<Rightarrow> string" where
  "trim_space s = trim_right is_space (trim_left is_space s)"

definition trim_char :: "char \<Rightarrow> string \<Rightarrow> string" where
  "trim_char c s = trim_right (\<lambda>x. x = c) (trim_left (\<lambda>x. x = c) s)"

definition trim_suffix :: "string \<Rightarrow> string \<Rightarrow> string" where
  "trim_suffix s p = (if has_suffix s p then take (length s - length p) s else s)"

definition trim_prefix :: "string \<Rightarrow> string \<Rightarrow> string" where
  "trim_prefix s p = (if has_prefix s p then drop (length p) s else s)"

fun split_on :: "char \<Rightarrow> string \<Rightarrow> string list" where
  "split_on c [] = [[]]"
| "split_on c (x # xs) =
     (if x = c then [] # split_on c xs
      else (case split_on c xs of [] \<Rightarrow> [[x]] | y # ys \<Rightarrow> (x # y) # ys))"

fun join :: "string \<Rightarrow> string list \<Rightarrow> string" where
  "join sep [] = []"
| "join sep [x] = x"
| "join sep (x # y # zs) = x @ sep @ join sep (y # zs)"

subsection \<open>Laws of the string functions\<close>

lemma has_prefix_iff [str_simps]: "has_prefix s p \<longleftrightarrow> (\<exists>r. s = p @ r)"
  unfolding has_prefix_def by (metis append_eq_conv_conj append_take_drop_id)

lemma has_suffix_iff [str_simps]: "has_suffix s p \<longleftrightarrow> (\<exists>r. s = r @ p)"
proof
  assume "has_suffix s p"
  then show "\<exists>r. s = r @ p" unfolding has_suffix_def by (metis append_take_drop_id)
qed (auto simp: has_suffix_def)

lemma has_prefix_append [simp]: "has_prefix (p @ r) p"
  by (auto simp: str_simps)

lemma has_suffix_append [simp]: "has_suffix (r @ p) p"
  by (auto simp: str_simps)

lemma contains_iff [str_simps]: "contains s sub \<longleftrightarrow> (\<exists>l r. s = l @ sub @ r)"
proof (induction s)
  case (Cons c s)
  have "(\<exists>l r. c # s = l @ sub @ r) \<longleftrightarrow> (\<exists>r. c # s = sub @ r) \<or> (\<exists>l r. s = l @ sub @ r)"
    by (subst Cons_eq_append_conv) blast
  then show ?case using Cons.IH by (simp add: has_prefix_iff)
qed simp

lemma trim_suffix_append [simp]: "trim_suffix (s @ p) p = s"
  by (simp add: trim_suffix_def)

lemma split_on_nonempty [simp]: "split_on c s \<noteq> []"
  by (induction s) (auto split: list.splits)

lemma split_on_sep_free: "x \<in> set (split_on c s) \<Longrightarrow> c \<notin> set x"
  by (induction s arbitrary: x) (auto split: list.splits if_splits)

lemma join_Cons: "ys \<noteq> [] \<Longrightarrow> join sep (x # ys) = x @ sep @ join sep ys"
  by (cases ys) auto

lemma join_split_on [simp]: "join [c] (split_on c s) = s"
proof (induction s)
  case (Cons x s)
  then show ?case
  proof (cases "split_on c s")
    case Nil then show ?thesis by simp
  next
    case (Cons y ys)
    then show ?thesis using Cons.IH
      by (cases ys) (auto simp: join_Cons)
  qed
qed simp

lemma split_on_append_sep: "c \<notin> set x \<Longrightarrow> split_on c (x @ c # s) = x # split_on c s"
  by (induction x) auto

lemma split_on_no_sep: "c \<notin> set x \<Longrightarrow> split_on c x = [x]"
  by (induction x) auto

lemma split_on_join:
  "xs \<noteq> [] \<Longrightarrow> \<forall>x\<in>set xs. c \<notin> set x \<Longrightarrow> split_on c (join [c] xs) = xs"
proof (induction xs)
  case (Cons x xs)
  then show ?case by (cases xs) (auto simp: split_on_append_sep split_on_no_sep)
qed simp

lemma cut_at [simp, str_simps]: "c \<notin> set s \<Longrightarrow> cut c (s @ c # t) = (s, Some t)"
  by (induction s) (auto simp: cut_def)

lemma cut_absent [simp, str_simps]: "c \<notin> set s \<Longrightarrow> cut c s = (s, None)"
  by (induction s) (auto simp: cut_def)

lemma cut_fst: "fst (cut c s) = before_first c s"
  by (simp add: cut_def before_first_def)

lemma equal_fold_refl [simp]: "equal_fold s s"
  by (simp add: equal_fold_def)

lemma equal_fold_sym: "equal_fold s t = equal_fold t s"
  by (auto simp: equal_fold_def)

lemma equal_fold_trans: "equal_fold s t \<Longrightarrow> equal_fold t u \<Longrightarrow> equal_fold s u"
  by (simp add: equal_fold_def)

lemma byte_at_less: "byte_at c < 256"
  by (simp add: byte_at_def)

lemma char_of_byte_at [simp]: "char_of (byte_at c) = c"
  by (simp add: byte_at_def)

lemma byte_at_char_of: "n < 256 \<Longrightarrow> byte_at (char_of n) = n"
  by (simp add: byte_at_def)

lemma lower_char_idem [simp]: "lower_char (lower_char c) = lower_char c"
  by (auto simp: lower_char_def is_upper_def in_range_def byte_at_char_of byte_at_def)

lemma to_lower_idem [simp]: "to_lower (to_lower s) = to_lower s"
  by (simp add: to_lower_def comp_def)

lemma to_lower_Nil [simp]: "to_lower [] = []"
  by (simp add: to_lower_def)

lemma to_lower_append [simp]: "to_lower (s @ t) = to_lower s @ to_lower t"
  by (simp add: to_lower_def)

section \<open>Decimal numbers\<close>

definition digit_char :: "nat \<Rightarrow> char" where
  "digit_char d = char_of (48 + d)"

definition digit_val :: "char \<Rightarrow> nat" where
  "digit_val c = byte_at c - 48"

fun itoa :: "nat \<Rightarrow> string" where
  "itoa n = (if n < 10 then [digit_char n] else itoa (n div 10) @ [digit_char (n mod 10)])"

declare itoa.simps [simp del]

definition atoi :: "string \<Rightarrow> nat" where
  "atoi s = foldl (\<lambda>a c. 10 * a + digit_val c) 0 s"

lemma digit_char_is_digit [simp]: "d < 10 \<Longrightarrow> is_digit (digit_char d)"
  by (simp add: is_digit_def in_range_def digit_char_def byte_at_def)

lemma digit_val_digit_char [simp]: "d < 10 \<Longrightarrow> digit_val (digit_char d) = d"
  by (simp add: digit_val_def digit_char_def byte_at_def)

lemma itoa_nonempty [simp]: "itoa n \<noteq> []"
  by (subst itoa.simps) simp

lemma itoa_digits: "\<forall>c\<in>set (itoa n). is_digit c"
proof (induction n rule: itoa.induct)
  case (1 n)
  then show ?case by (subst itoa.simps) auto
qed

lemma atoi_snoc: "atoi (s @ [c]) = 10 * atoi s + digit_val c"
  by (simp add: atoi_def)

lemma atoi_itoa [simp]: "atoi (itoa n) = n"
proof (induction n rule: itoa.induct)
  case (1 n)
  show ?case
  proof (cases "n < 10")
    case True
    then show ?thesis by (subst itoa.simps) (simp add: atoi_def)
  next
    case False
    then show ?thesis using 1 by (subst itoa.simps) (simp add: atoi_snoc)
  qed
qed

lemma itoa_inject [simp]: "itoa m = itoa n \<longleftrightarrow> m = n"
  by (metis atoi_itoa)

lemma length_itoa: "n < 10 ^ k \<Longrightarrow> 0 < k \<Longrightarrow> length (itoa n) \<le> k"
proof (induction k arbitrary: n)
  case (Suc k)
  show ?case
  proof (cases "n < 10")
    case True
    then show ?thesis by (subst itoa.simps) simp
  next
    case False
    then have "k \<noteq> 0" using Suc.prems by (cases k) auto
    moreover have "n div 10 < 10 ^ k" using Suc.prems by (simp add: less_mult_imp_div_less)
    ultimately show ?thesis using Suc.IH [of "n div 10"] False by (subst itoa.simps) simp
  qed
qed simp

lemma atoi_bound: "\<forall>c\<in>set s. is_digit c \<Longrightarrow> atoi s < 10 ^ length s"
proof (induction s rule: rev_induct)
  case (snoc c s)
  then have "digit_val c < 10" "atoi s < 10 ^ length s"
    by (auto simp: digit_val_def is_digit_def in_range_def byte_at_def)
  then show ?case by (simp add: atoi_snoc)
qed (simp add: atoi_def)

section \<open>Maps\<close>

definition map_put :: "'k \<Rightarrow> 'v \<Rightarrow> ('k, 'v) gomap \<Rightarrow> ('k, 'v) gomap" where
  "map_put k v m = AList.update k v m"

abbreviation map_get :: "('k, 'v) gomap \<Rightarrow> 'k \<Rightarrow> 'v option" where
  "map_get \<equiv> map_of"

abbreviation map_has :: "('k, 'v) gomap \<Rightarrow> 'k \<Rightarrow> bool" where
  "map_has m k \<equiv> map_get m k \<noteq> None"

definition map_wf :: "('k, 'v) gomap \<Rightarrow> bool" where
  "map_wf m = distinct (map fst m)"

lemma map_get_put [simp, gomap_simps]: "map_get (map_put k v m) = (map_get m)(k \<mapsto> v)"
  by (simp add: map_put_def update_conv')

lemma map_wf_put [simp, gomap_simps]: "map_wf m \<Longrightarrow> map_wf (map_put k v m)"
  by (simp add: map_wf_def map_put_def distinct_update)

lemma map_wf_Nil [simp, gomap_simps]: "map_wf []"
  by (simp add: map_wf_def)

lemma map_wf_Cons [gomap_simps]: "map_wf ((k, v) # m) \<longleftrightarrow> k \<notin> fst ` set m \<and> map_wf m"
  by (simp add: map_wf_def)

lemma dom_map_put: "fst ` set (map_put k v m) = insert k (fst ` set m)"
  by (simp add: map_put_def dom_update)

lemma map_wf_perm: "mset m = mset m' \<Longrightarrow> map_wf m \<Longrightarrow> map_wf m'"
  unfolding map_wf_def by (metis mset_eq_imp_distinct_iff mset_map)

text \<open>Two visiting orders of one map look keys up alike.\<close>

lemma map_get_perm: "mset m = mset m' \<Longrightarrow> map_wf m \<Longrightarrow> map_get m = map_get m'"
  using map_wf_perm [of m m'] unfolding map_wf_def
  by (metis map_of_inject_set set_mset_mset)

lemma map_get_SomeI: "map_wf m \<Longrightarrow> (k, v) \<in> set m \<Longrightarrow> map_get m k = Some v"
  by (simp add: map_wf_def)

lemma map_get_Some_iff: "map_wf m \<Longrightarrow> map_get m k = Some v \<longleftrightarrow> (k, v) \<in> set m"
  by (simp add: map_wf_def)

lemma distinct_submset: "mset ys \<subseteq># mset xs \<Longrightarrow> distinct xs \<Longrightarrow> distinct ys"
proof -
  assume sub: "mset ys \<subseteq># mset xs" and d: "distinct xs"
  have "count (mset ys) a = (if a \<in> set ys then 1 else 0)" for a
  proof -
    have "count (mset ys) a \<le> count (mset xs) a" using sub by (simp add: subseteq_mset_def)
    also have "\<dots> \<le> 1" using d by (simp add: distinct_count_atmost_1)
    finally show ?thesis by (metis count_greater_zero_iff le_antisym less_one linorder_not_le not_gr_zero set_mset_mset)
  qed
  then show ?thesis by (simp add: distinct_count_atmost_1)
qed

section \<open>First occurrences\<close>

definition nub :: "'a list \<Rightarrow> 'a list" where
  "nub xs = rev (remdups (rev xs))"

lemma nub_Nil [simp]: "nub [] = []"
  by (simp add: nub_def)

lemma nub_snoc [simp]: "nub (xs @ [x]) = (if x \<in> set xs then nub xs else nub xs @ [x])"
  by (simp add: nub_def)

lemma set_nub [simp]: "set (nub xs) = set xs"
  by (simp add: nub_def)

lemma distinct_nub [simp]: "distinct (nub xs)"
  by (simp add: nub_def)

lemma length_nub_le: "length (nub xs) \<le> length xs"
  by (metis nub_def length_remdups_leq length_rev)

lemma nub_distinct: "distinct xs \<Longrightarrow> nub xs = xs"
  by (simp add: nub_def distinct_remdups_id)

lemma nub_append_prefix: "\<exists>ys. nub (xs @ zs) = nub xs @ ys"
proof (induction zs rule: rev_induct)
  case (snoc z zs)
  then show ?case by (metis append.assoc nub_snoc)
qed simp

section \<open>The least element of a list\<close>

text \<open>A \<^verbatim>\<open>range\<close> that keeps the smallest matching key.\<close>

fun least_by :: "('a::linorder \<Rightarrow> bool) \<Rightarrow> 'a option \<Rightarrow> 'a list \<Rightarrow> 'a option" where
  "least_by p acc [] = acc"
| "least_by p acc (x # xs) =
     least_by p (if p x \<and> (case acc of None \<Rightarrow> True | Some y \<Rightarrow> x < y) then Some x else acc) xs"

lemma least_by_Some_fold: "least_by p (Some y) xs = Some (fold min (filter p xs) y)"
proof (induction xs arbitrary: y)
  case (Cons x xs)
  show ?case
  proof (cases "p x \<and> x < y")
    case True
    then have "min x y = x" by simp
    then show ?thesis using Cons.IH [of x] True by simp
  next
    case False
    then have "p x \<Longrightarrow> min x y = y" by (simp add: min_def)
    then show ?thesis using Cons.IH [of y] False by auto
  qed
qed simp

lemma least_by_Some_Min: "least_by p (Some y) xs = Some (Min (insert y {x\<in>set xs. p x}))"
  using Min.set_eq_fold [of y "filter p xs"] by (simp add: least_by_Some_fold)

lemma least_by_set:
  "least_by p None xs = (let S = {x\<in>set xs. p x} in if S = {} then None else Some (Min S))"
proof (induction xs)
  case (Cons x xs)
  have "{z \<in> set (x # xs). p z} = (if p x then insert x {z\<in>set xs. p z} else {z\<in>set xs. p z})"
    by auto
  then show ?case using Cons.IH by (simp add: least_by_Some_Min)
qed simp

lemma least_by_perm: "mset xs = mset ys \<Longrightarrow> least_by p None xs = least_by p None ys"
  using mset_eq_setD [of xs ys] by (simp only: least_by_set)

lemma least_by_None: "least_by p None xs = None \<longleftrightarrow> (\<forall>x\<in>set xs. \<not> p x)"
  by (auto simp: least_by_set Let_def)

lemma least_by_Some: "least_by p None xs = Some x \<Longrightarrow> x \<in> set xs \<and> p x \<and> (\<forall>y\<in>set xs. p y \<longrightarrow> x \<le> y)"
proof -
  assume "least_by p None xs = Some x"
  then have ne: "{x\<in>set xs. p x} \<noteq> {}" and x: "x = Min {x\<in>set xs. p x}"
    by (auto simp: least_by_set Let_def split: if_splits)
  have "Min {x\<in>set xs. p x} \<in> {x\<in>set xs. p x}" using ne by (intro Min_in) auto
  then show ?thesis using x by auto
qed

end
