(* ===== verification/Tnet_Encode.thy ===== *)
theory Tnet_Encode
  imports Go_Prelude
begin

text \<open>
  The tnetstring encoder, \<^verbatim>\<open>internal/tnetenc/tnetenc.go\<close>. The dynamic values the
  encoder switches on are the constructors of \<open>tnet\<close>; the \<^verbatim>\<open>int\<close> and
  \<^verbatim>\<open>int64\<close> cases coincide (\<open>TInt\<close>), and a value of any other Go type (the panic of
  the \<^verbatim>\<open>default\<close> case) has no constructor. A float is a value of the type parameter
  \<open>'f\<close>, and \<^verbatim>\<open>strconv.FormatFloat(x, 'g', -1, 64)\<close> is the argument \<open>ff\<close>.
\<close>

datatype 'f tnet =
    TNil
  | TBytes bytes
  | TStr string
  | TBool bool
  | TInt int
  | TFloat 'f
  | TList "'f tnet list"
  | TDict "(string \<times> 'f tnet) list"

text \<open>\<^verbatim>\<open>strconv.FormatInt\<close> in base 10.\<close>

definition formatInt :: "int \<Rightarrow> string" where
  "formatInt i = (if i < 0 then CHR ''-'' # itoa (nat (- i)) else itoa (nat i))"

definition encodeWithMarker :: "bytes \<Rightarrow> char \<Rightarrow> bytes" where
  "encodeWithMarker payload marker =
     itoa (length payload) @ [CHR '':''] @ payload @ [marker]"

text \<open>The keys of a map are sorted before the pairs are written; here the encoded pairs
  are sorted by their keys, which is the same list.\<close>

fun Encode :: "('f \<Rightarrow> string) \<Rightarrow> 'f tnet \<Rightarrow> bytes" where
  "Encode ff TNil = ''0:~''"
| "Encode ff (TBytes x) = encodeWithMarker x (CHR '','')"
| "Encode ff (TStr x) = encodeWithMarker x (CHR '','')"
| "Encode ff (TBool x) = (if x then ''4:true!'' else ''5:false!'')"
| "Encode ff (TInt x) = encodeWithMarker (formatInt x) (CHR ''#'')"
| "Encode ff (TFloat x) = encodeWithMarker (ff x) (CHR ''^'')"
| "Encode ff (TList x) = encodeWithMarker (concat (map (Encode ff) x)) (CHR '']'')"
| "Encode ff (TDict x) =
     encodeWithMarker
       (concat (map (\<lambda>(k, e). encodeWithMarker k (CHR '','') @ e)
         (sort_key fst (map (\<lambda>(k, v). (k, Encode ff v)) x))))
       (CHR ''}'')"

section \<open>What a decoder may return\<close>

text \<open>Strings come back as bytes, and a dictionary comes back in the order of its sorted
  keys: the value a reader of the encoding can recover.\<close>

fun tnet_norm :: "'f tnet \<Rightarrow> 'f tnet" where
  "tnet_norm (TStr x) = TBytes x"
| "tnet_norm (TList xs) = TList (map tnet_norm xs)"
| "tnet_norm (TDict kvs) = TDict (sort_key fst (map (\<lambda>(k, v). (k, tnet_norm v)) kvs))"
| "tnet_norm v = v"

lemma encodeWithMarker_nonempty [simp]: "encodeWithMarker p m \<noteq> []"
  by (simp add: encodeWithMarker_def)

lemma Encode_nonempty [simp]: "Encode ff v \<noteq> []"
  by (cases v) auto

lemma length_encodeWithMarker: "length p < length (encodeWithMarker p m)"
  by (simp add: encodeWithMarker_def)

text \<open>Sorting by key does not look at the values.\<close>

lemma sort_key_map_snd:
  "sort_key fst (map (\<lambda>(k, v). (k, f v)) kvs) = map (\<lambda>(k, v). (k, f v)) (sort_key fst kvs)"
proof -
  have ins: "insort_key fst (k, f v) (map (\<lambda>(k, v). (k, f v)) ys)
      = map (\<lambda>(k, v). (k, f v)) (insort_key fst (k, v) ys)" for k v ys
    by (induction ys) auto
  show ?thesis
  proof (induction kvs)
    case (Cons kv kvs)
    then show ?case by (cases kv) (simp add: ins)
  qed simp
qed

lemma Encode_TDict:
  "Encode ff (TDict x) =
     encodeWithMarker
       (concat (map (\<lambda>(k, v). encodeWithMarker k (CHR '','') @ Encode ff v) (sort_key fst x)))
       (CHR ''}'')"
  by (simp only: Encode.simps sort_key_map_snd map_map) (simp add: comp_def case_prod_unfold)

lemma tnet_norm_TDict:
  "tnet_norm (TDict kvs) = TDict (map (\<lambda>(k, v). (k, tnet_norm v)) (sort_key fst kvs))"
  by (simp add: sort_key_map_snd)

text \<open>The encoding of a map does not depend on the order in which its pairs are visited.\<close>

lemma sort_key_perm_distinct:
  fixes kvs kvs' :: "(string \<times> 'b) list"
  assumes "mset kvs = mset kvs'" "map_wf kvs"
  shows "sort_key fst kvs = sort_key fst kvs'"
proof (rule properties_for_sort_key)
  show "mset (sort_key fst kvs') = mset kvs" using assms(1) by simp
  fix p assume "p \<in> set (sort_key fst kvs')"
  then have p: "p \<in> set kvs'" "p \<in> set kvs" using mset_eq_setD [OF assms(1)] by auto
  have one: "filter (\<lambda>y. fst p = fst y) m = [p]"
    if "map_wf m" "p \<in> set m" for m :: "(string \<times> 'b) list"
    using that by (induction m) (force simp: map_wf_def filter_empty_conv)+
  have "filter (\<lambda>y. fst p = fst y) (sort_key fst kvs') = filter (\<lambda>y. fst p = fst y) kvs'"
    using sort_key_stable [of fst "fst p" kvs'] by (simp add: eq_commute)
  also have "\<dots> = filter (\<lambda>y. fst p = fst y) kvs"
    using p assms(2) map_wf_perm [OF assms] one by metis
  finally show "filter (\<lambda>y. fst p = fst y) (sort_key fst kvs') = filter (\<lambda>y. fst p = fst y) kvs" .
qed simp

text \<open>The encoder is deterministic on maps: two visiting orders of the same map (Go's
  \<^verbatim>\<open>range\<close> order is unspecified) give the same bytes.\<close>

theorem Encode_map_order:
  assumes "mset kvs = mset kvs'" "map_wf kvs"
  shows "Encode ff (TDict kvs) = Encode ff (TDict kvs')"
  using sort_key_perm_distinct [OF assms] by (simp only: Encode_TDict)

lemma Encode_map_order_witness:
  "Encode (\<lambda>_ :: unit. ''0'') (TDict [(''b'', TNil), (''a'', TBool True)])
     = Encode (\<lambda>_ :: unit. ''0'') (TDict [(''a'', TBool True), (''b'', TNil)])"
  by (rule Encode_map_order) (simp_all add: map_wf_def)

end
