(* ===== verification/Tnet_Decode.thy ===== *)
theory Tnet_Decode
  imports Tnet_Encode
begin

text \<open>
  The tnetstring decoder of the mitmproxy importer,
  \<^verbatim>\<open>pkg/importer/tnetstring.go\<close>. A reader is the string of its remaining bytes;
  reading returns the rest. Every \<^verbatim>\<open>fmt.Errorf\<close> of the code is a constructor of
  \<open>tnet_error\<close>, which keeps the wrapped cause and drops the message text.
  \<^verbatim>\<open>strconv.ParseFloat\<close> is the argument \<open>pf\<close>.
\<close>

datatype tnet_error =
    ErrTnetstringDepth
  | PrefixEOF
  | PrefixByte char
  | PrefixDigits
  | PrefixEmpty
  | ElementCap nat
  | RemainingCap nat nat
  | PayloadEOF nat
  | MarkerEOF
  | ParseInt bytes
  | ParseFloat bytes
  | InvalidBool bytes
  | NullPayload nat
  | UnknownMarker char
  | ListCap
  | ListElement tnet_error
  | DictCap
  | DictKey tnet_error
  | DictKeyType
  | DictNoValue string
  | DictValue string tnet_error

definition maxTnetstringDepth :: nat where "maxTnetstringDepth = 64"
definition maxLengthPrefixDigits :: nat where "maxLengthPrefixDigits = 9"
definition maxTnetstringElement :: nat where "maxTnetstringElement = 64 * 1024 * 1024"
definition maxTnetstringElements :: nat where "maxTnetstringElements = 2 ^ 20"

lemmas tnet_limits = maxTnetstringDepth_def maxLengthPrefixDigits_def
  maxTnetstringElement_def maxTnetstringElements_def

section \<open>Integers\<close>

text \<open>\<^verbatim>\<open>strconv.ParseInt(s, 10, 64)\<close>: an optional sign, at least one digit,
  digits only, and a value in the range of a 64-bit integer.\<close>

definition parseInt :: "string \<Rightarrow> int option" where
  "parseInt s =
     (let neg = has_prefix s ''-'';
          ds = (if neg \<or> has_prefix s ''+'' then tl s else s)
      in if ds = [] \<or> \<not> (\<forall>c\<in>set ds. is_digit c) then None
         else let n = int (atoi ds)
              in if neg then (if n \<le> 2 ^ 63 then Some (- n) else None)
                 else (if n < 2 ^ 63 then Some n else None))"

section \<open>Framing\<close>

text \<open>The loop of \<^verbatim>\<open>readLengthPrefix\<close>: the digits read so far and the reader.\<close>

fun readDigits :: "string \<Rightarrow> bytes \<Rightarrow> tnet_error + (string \<times> bytes)" where
  "readDigits digits [] = Inl PrefixEOF"
| "readDigits digits (b # r) =
     (if b = CHR '':'' then Inr (digits, r)
      else if \<not> is_digit b then Inl (PrefixByte b)
      else if length digits = maxLengthPrefixDigits then Inl PrefixDigits
      else readDigits (digits @ [b]) r)"

definition readLengthPrefix :: "bytes \<Rightarrow> nat \<Rightarrow> tnet_error + (nat \<times> bytes)" where
  "readLengthPrefix r maxLen =
     (case readDigits [] r of Inl e \<Rightarrow> Inl e
      | Inr (digits, r') \<Rightarrow>
          if digits = [] then Inl PrefixEmpty
          else let length' = atoi digits
               in if length' > maxTnetstringElement then Inl (ElementCap length')
                  else if length' > maxLen then Inl (RemainingCap length' maxLen)
                  else Inr (length', r'))"

text \<open>\<^verbatim>\<open>readStreamPayload\<close>, and \<^verbatim>\<open>io.ReadFull\<close> in
  \<^verbatim>\<open>decodeTnetstringInner\<close>: exactly \<open>n\<close> bytes, or an error.\<close>

definition readStreamPayload :: "bytes \<Rightarrow> nat \<Rightarrow> tnet_error + (bytes \<times> bytes)" where
  "readStreamPayload r n =
     (if n = 0 then Inr ([], r)
      else if length r < n then Inl (PayloadEOF n) else Inr (take n r, drop n r))"

text \<open>The part the two element decoders share: prefix, payload and type marker.\<close>

definition readElement :: "bytes \<Rightarrow> nat \<Rightarrow> tnet_error + (bytes \<times> char \<times> bytes)" where
  "readElement r maxLen =
     (case readLengthPrefix r maxLen of Inl e \<Rightarrow> Inl e
      | Inr (n, r1) \<Rightarrow>
          (case readStreamPayload r1 n of Inl e \<Rightarrow> Inl e
           | Inr (payload, r2) \<Rightarrow>
               (case r2 of [] \<Rightarrow> Inl MarkerEOF | t # r3 \<Rightarrow> Inr (payload, t, r3))))"

lemma readDigits_length: "readDigits ds r = Inr (ds', r') \<Longrightarrow> length r' < length r"
  by (induction ds r rule: readDigits.induct) (fastforce split: if_splits)+

lemma readLengthPrefix_length: "readLengthPrefix r m = Inr (n, r') \<Longrightarrow> length r' < length r"
  by (auto simp: readLengthPrefix_def Let_def split: sum.splits if_splits dest: readDigits_length)

lemma readStreamPayload_length:
  "readStreamPayload r n = Inr (p, r') \<Longrightarrow> length p + length r' = length r"
  by (auto simp: readStreamPayload_def split: if_splits)

lemma readElement_length:
  assumes "readElement r m = Inr (p, t, r')"
  shows "length p + length r' < length r"
proof -
  from assms obtain n r1 r2 where 1: "readLengthPrefix r m = Inr (n, r1)"
    and 2: "readStreamPayload r1 n = Inr (p, r2)" and 3: "r2 = t # r'"
    by (auto simp: readElement_def split: sum.splits list.splits)
  show ?thesis using readLengthPrefix_length [OF 1] readStreamPayload_length [OF 2] 3 by simp
qed

section \<open>Values\<close>

definition coerceDictKey :: "'f tnet \<Rightarrow> tnet_error + string" where
  "coerceDictKey v = (case v of TStr k \<Rightarrow> Inr k | TBytes k \<Rightarrow> Inr k | _ \<Rightarrow> Inl DictKeyType)"

text \<open>
  The mutually recursive decoders, function for function. \<open>parseTnetList\<close> and
  \<open>parseTnetDict\<close> carry the elements read so far, the payload left, and (for a
  dictionary) the number of pairs parsed. The guard
  \<open>length r' < length r\<close> is only there for the termination proof;
  \<open>decodeInner_length\<close> below proves that it always holds.
\<close>

function (sequential) decodeTnetstringInner ::
    "(string \<Rightarrow> 'f option) \<Rightarrow> bytes \<Rightarrow> nat \<Rightarrow> tnet_error + ('f tnet \<times> bytes)"
  and parseTnetPayload ::
    "(string \<Rightarrow> 'f option) \<Rightarrow> char \<Rightarrow> bytes \<Rightarrow> nat \<Rightarrow> tnet_error + 'f tnet"
  and parseTnetList ::
    "(string \<Rightarrow> 'f option) \<Rightarrow> 'f tnet list \<Rightarrow> bytes \<Rightarrow> nat \<Rightarrow> tnet_error + 'f tnet"
  and parseTnetDict ::
    "(string \<Rightarrow> 'f option) \<Rightarrow> nat \<Rightarrow> (string, 'f tnet) gomap \<Rightarrow> bytes \<Rightarrow> nat \<Rightarrow> tnet_error + 'f tnet"
where
  "decodeTnetstringInner pf r depth =
     (if depth > maxTnetstringDepth then Inl ErrTnetstringDepth
      else (case readElement r (length r) of Inl e \<Rightarrow> Inl e
        | Inr (payload, t, rest) \<Rightarrow>
            (case parseTnetPayload pf t payload depth of Inl e \<Rightarrow> Inl e
             | Inr v \<Rightarrow> Inr (v, rest))))"
| "parseTnetPayload pf t payload depth =
     (if t = CHR '','' then Inr (TBytes payload)
      else if t = CHR '';'' then Inr (TStr payload)
      else if t = CHR ''#'' then
        (case parseInt payload of None \<Rightarrow> Inl (ParseInt payload) | Some n \<Rightarrow> Inr (TInt n))
      else if t = CHR ''^'' then
        (case pf payload of None \<Rightarrow> Inl (ParseFloat payload) | Some f \<Rightarrow> Inr (TFloat f))
      else if t = CHR ''!'' then
        (if payload = ''true'' then Inr (TBool True)
         else if payload = ''false'' then Inr (TBool False)
         else Inl (InvalidBool payload))
      else if t = CHR ''~'' then
        (if payload \<noteq> [] then Inl (NullPayload (length payload)) else Inr TNil)
      else if t = CHR '']'' then parseTnetList pf [] payload (depth + 1)
      else if t = CHR ''}'' then parseTnetDict pf 0 [] payload (depth + 1)
      else Inl (UnknownMarker t))"
| "parseTnetList pf result r depth =
     (if r = [] then Inr (TList result)
      else if length result \<ge> maxTnetstringElements then Inl ListCap
      else (case decodeTnetstringInner pf r depth of Inl e \<Rightarrow> Inl (ListElement e)
        | Inr (val, r') \<Rightarrow>
            if length r' < length r then parseTnetList pf (result @ [val]) r' depth
            else Inl ListCap))"
| "parseTnetDict pf pairsParsed result r depth =
     (if r = [] then Inr (TDict result)
      else if pairsParsed \<ge> maxTnetstringElements then Inl DictCap
      else (case decodeTnetstringInner pf r depth of Inl e \<Rightarrow> Inl (DictKey e)
        | Inr (keyVal, r1) \<Rightarrow>
            if \<not> length r1 < length r then Inl DictCap
            else (case coerceDictKey keyVal of Inl e \<Rightarrow> Inl e
              | Inr key \<Rightarrow>
                  if r1 = [] then Inl (DictNoValue key)
                  else (case decodeTnetstringInner pf r1 depth of Inl e \<Rightarrow> Inl (DictValue key e)
                    | Inr (valueVal, r2) \<Rightarrow>
                        if length r2 < length r1
                        then parseTnetDict pf (pairsParsed + 1) (map_put key valueVal result) r2 depth
                        else Inl DictCap))))"
  by pat_completeness auto
termination
  by (relation "measures
      [\<lambda>x. case x of Inl (Inl (pf, r, d)) \<Rightarrow> length r | Inl (Inr (pf, t, p, d)) \<Rightarrow> length p
         | Inr (Inl (pf, a, r, d)) \<Rightarrow> length r | Inr (Inr (pf, n, a, r, d)) \<Rightarrow> length r,
       \<lambda>x. case x of Inl (Inl _) \<Rightarrow> 0 | Inl (Inr _) \<Rightarrow> 2 | Inr _ \<Rightarrow> 1]")
    (auto dest: readElement_length)

declare decodeTnetstringInner.simps [simp del] parseTnetPayload.simps [simp del]
  parseTnetList.simps [simp del] parseTnetDict.simps [simp del]

definition decodeTnetstringStream ::
    "(string \<Rightarrow> 'f option) \<Rightarrow> bytes \<Rightarrow> nat \<Rightarrow> tnet_error + ('f tnet \<times> bytes)" where
  "decodeTnetstringStream pf r depth =
     (if depth > maxTnetstringDepth then Inl ErrTnetstringDepth
      else (case readElement r maxTnetstringElement of Inl e \<Rightarrow> Inl e
        | Inr (payload, t, rest) \<Rightarrow>
            (case parseTnetPayload pf t payload depth of Inl e \<Rightarrow> Inl e
             | Inr v \<Rightarrow> Inr (v, rest))))"

lemma decodeInner_length:
  "decodeTnetstringInner pf r d = Inr (v, r') \<Longrightarrow> length r' < length r"
  by (auto simp: decodeTnetstringInner.simps split: if_splits sum.splits dest: readElement_length)

text \<open>The loops as the code writes them, without the guards.\<close>

lemma parseTnetList_simps [simp]:
  "parseTnetList pf result [] depth = Inr (TList result)"
  "r \<noteq> [] \<Longrightarrow> parseTnetList pf result r depth =
     (if length result \<ge> maxTnetstringElements then Inl ListCap
      else (case decodeTnetstringInner pf r depth of Inl e \<Rightarrow> Inl (ListElement e)
        | Inr (val, r') \<Rightarrow> parseTnetList pf (result @ [val]) r' depth))"
  by (auto simp: parseTnetList.simps [of pf result] split: sum.splits dest: decodeInner_length)

lemma parseTnetDict_simps [simp]:
  "parseTnetDict pf n result [] depth = Inr (TDict result)"
  "r \<noteq> [] \<Longrightarrow> parseTnetDict pf n result r depth =
     (if n \<ge> maxTnetstringElements then Inl DictCap
      else (case decodeTnetstringInner pf r depth of Inl e \<Rightarrow> Inl (DictKey e)
        | Inr (keyVal, r1) \<Rightarrow>
            (case coerceDictKey keyVal of Inl e \<Rightarrow> Inl e
             | Inr key \<Rightarrow>
                 if r1 = [] then Inl (DictNoValue key)
                 else (case decodeTnetstringInner pf r1 depth of Inl e \<Rightarrow> Inl (DictValue key e)
                   | Inr (valueVal, r2) \<Rightarrow>
                       parseTnetDict pf (n + 1) (map_put key valueVal result) r2 depth))))"
  by (auto simp: parseTnetDict.simps [of pf n result] split: sum.splits dest: decodeInner_length)

end
