(* ===== verification/Tnet_Roundtrip.thy ===== *)
theory Tnet_Roundtrip
  imports Tnet_Decode
begin

text \<open>
  The decoder against the encoder: everything the encoder writes within the decoder's
  limits is read back; what the decoder returns stays within its limits.
\<close>

section \<open>Reading one element back\<close>

lemma readDigits_itoa_aux:
  "\<forall>c\<in>set ds. is_digit c \<Longrightarrow> length acc + length ds \<le> maxLengthPrefixDigits \<Longrightarrow>
    readDigits acc (ds @ CHR '':'' # r) = Inr (acc @ ds, r)"
proof (induction ds arbitrary: acc)
  case (Cons c ds)
  then have "c \<noteq> CHR '':''" by (auto simp: is_digit_def in_range_def byte_at_def)
  with Cons show ?case by simp
qed simp

lemma readLengthPrefix_itoa:
  assumes "n \<le> maxTnetstringElement" "n \<le> maxLen"
  shows "readLengthPrefix (itoa n @ CHR '':'' # r) maxLen = Inr (n, r)"
proof -
  have "length (itoa n) \<le> 8"
    using assms(1) by (intro length_itoa) (simp_all add: tnet_limits)
  then have "readDigits [] (itoa n @ CHR '':'' # r) = Inr (itoa n, r)"
    using readDigits_itoa_aux [of "itoa n" "[]" r] itoa_digits by (simp add: tnet_limits)
  with assms show ?thesis by (simp add: readLengthPrefix_def)
qed

lemma readElement_encodeWithMarker:
  assumes "length p \<le> maxTnetstringElement" "length p \<le> maxLen"
  shows "readElement (encodeWithMarker p t @ rest) maxLen = Inr (p, t, rest)"
  using readLengthPrefix_itoa [OF assms, of "p @ t # rest"]
  by (auto simp: readElement_def encodeWithMarker_def readStreamPayload_def)

lemma readElement_encode_inner:
  assumes "length p \<le> maxTnetstringElement"
  shows "readElement (encodeWithMarker p t @ rest) (length (encodeWithMarker p t @ rest)) = Inr (p, t, rest)"
  by (rule readElement_encodeWithMarker [OF assms]) (simp add: encodeWithMarker_def)

lemma digits_not_sign: "\<forall>c\<in>set ds. is_digit c \<Longrightarrow> \<not> has_prefix ds ''-'' \<and> \<not> has_prefix ds ''+''"
  by (cases ds) (auto simp: has_prefix_def is_digit_def in_range_def byte_at_def)

lemma parseInt_formatInt:
  assumes "- (2 ^ 63) \<le> i" "i < 2 ^ 63"
  shows "parseInt (formatInt i) = Some i"
proof (cases "i < 0")
  case True
  then show ?thesis using assms itoa_digits
    by (simp add: parseInt_def formatInt_def has_prefix_def)
next
  case False
  then show ?thesis using assms itoa_digits digits_not_sign [of "itoa (nat i)"]
    by (simp add: parseInt_def formatInt_def)
qed

section \<open>Values within the decoder's limits\<close>

text \<open>\<open>tnet_ok ff d v\<close>: \<open>v\<close> may stand at nesting depth \<open>d\<close>. Integers are 64-bit, maps have
  distinct keys, no payload is longer than the element cap, no container holds more than
  the element-count cap, and a container with elements nests no deeper than the depth cap.\<close>

fun tnet_ok :: "('f \<Rightarrow> string) \<Rightarrow> nat \<Rightarrow> 'f tnet \<Rightarrow> bool" where
  "tnet_ok ff d TNil = True"
| "tnet_ok ff d (TBytes x) = (length x \<le> maxTnetstringElement)"
| "tnet_ok ff d (TStr x) = (length x \<le> maxTnetstringElement)"
| "tnet_ok ff d (TBool x) = True"
| "tnet_ok ff d (TInt x) = (- (2 ^ 63) \<le> x \<and> x < 2 ^ 63)"
| "tnet_ok ff d (TFloat x) = (length (ff x) \<le> maxTnetstringElement)"
| "tnet_ok ff d (TList xs) =
     (length xs \<le> maxTnetstringElements
      \<and> length (concat (map (Encode ff) xs)) \<le> maxTnetstringElement
      \<and> (xs \<noteq> [] \<longrightarrow> d < maxTnetstringDepth) \<and> (\<forall>x\<in>set xs. tnet_ok ff (d + 1) x))"
| "tnet_ok ff d (TDict kvs) =
     (length kvs \<le> maxTnetstringElements \<and> map_wf kvs
      \<and> length (Encode ff (TDict kvs)) \<le> maxTnetstringElement
      \<and> (kvs \<noteq> [] \<longrightarrow> d < maxTnetstringDepth) \<and> (\<forall>kv\<in>set kvs. tnet_ok ff (d + 1) (snd kv)))"

lemma length_formatInt:
  assumes "- (2 ^ 63) \<le> i" "i < 2 ^ 63"
  shows "length (formatInt i) \<le> maxTnetstringElement"
proof -
  have "nat (- i) < 10 ^ 19" "nat i < 10 ^ 19" using assms by (simp_all add: nat_less_iff)
  then have "length (itoa (nat (- i))) \<le> 19" "length (itoa (nat i)) \<le> 19"
    by (simp_all add: length_itoa)
  then show ?thesis by (simp add: formatInt_def tnet_limits)
qed

text \<open>Reading the elements of a list, and the pairs of a dictionary, one after the other.\<close>

lemma parseTnetList_encoded:
  assumes "\<And>x rest. x \<in> set xs \<Longrightarrow>
      decodeTnetstringInner pf (Encode ff x @ rest) d = Inr (tnet_norm x, rest)"
    and "length acc + length xs \<le> maxTnetstringElements"
  shows "parseTnetList pf acc (concat (map (Encode ff) xs)) d = Inr (TList (acc @ map tnet_norm xs))"
  using assms by (induction xs arbitrary: acc) simp_all

lemma decodeInner_key:
  assumes "length k \<le> maxTnetstringElement" "d \<le> maxTnetstringDepth"
  shows "decodeTnetstringInner pf (encodeWithMarker k (CHR '','') @ rest) d = Inr (TBytes k, rest)"
  using assms readElement_encode_inner [OF assms(1), of "CHR '',''" rest]
  by (simp add: decodeTnetstringInner.simps parseTnetPayload.simps)

lemma parseTnetDict_encoded:
  assumes "\<And>k v rest. (k, v) \<in> set kvs \<Longrightarrow>
      decodeTnetstringInner pf (Encode ff v @ rest) d = Inr (tnet_norm v, rest)"
    and "\<And>k v. (k, v) \<in> set kvs \<Longrightarrow> length k \<le> maxTnetstringElement"
    and "n + length kvs \<le> maxTnetstringElements" "d \<le> maxTnetstringDepth"
    and "distinct (map fst acc @ map fst kvs)"
  shows "parseTnetDict pf n acc
      (concat (map (\<lambda>(k, v). encodeWithMarker k (CHR '','') @ Encode ff v) kvs)) d
    = Inr (TDict (acc @ map (\<lambda>(k, v). (k, tnet_norm v)) kvs))"
  using assms
proof (induction kvs arbitrary: n acc)
  case (Cons kv kvs)
  obtain k v where kv: "kv = (k, v)" by fastforce
  have put: "map_put k w acc = acc @ [(k, w)]" for w :: "'a tnet"
    using Cons.prems(5) unfolding kv map_put_def
    by (induction acc) auto
  have IH: "parseTnetDict pf (n + 1) (acc @ [(k, tnet_norm v)])
      (concat (map (\<lambda>(k, v). encodeWithMarker k (CHR '','') @ Encode ff v) kvs)) d
    = Inr (TDict ((acc @ [(k, tnet_norm v)]) @ map (\<lambda>(k, v). (k, tnet_norm v)) kvs))"
  proof (rule Cons.IH)
    show "decodeTnetstringInner pf (Encode ff v' @ rest) d = Inr (tnet_norm v', rest)"
      if "(k', v') \<in> set kvs" for k' v' rest
      by (rule Cons.prems(1) [of k']) (use that in simp)
    show "length k' \<le> maxTnetstringElement" if "(k', v') \<in> set kvs" for k' v'
      by (rule Cons.prems(2) [of k' v']) (use that in simp)
  qed (use Cons.prems(3-5) kv in auto)
  have "decodeTnetstringInner pf (Encode ff v @ rest) d = Inr (tnet_norm v, rest)" for rest
    by (rule Cons.prems(1) [of k]) (simp add: kv)
  moreover have "length k \<le> maxTnetstringElement"
    by (rule Cons.prems(2) [of k v]) (simp add: kv)
  ultimately show ?case
    using Cons.prems(3,4) IH by (simp add: kv decodeInner_key coerceDictKey_def put)
qed simp

text \<open>The generic step: an element whose payload parses.\<close>

lemma decodeInner_encodeWithMarker:
  assumes "length p \<le> maxTnetstringElement" "d \<le> maxTnetstringDepth"
    and "parseTnetPayload pf t p d = Inr v"
  shows "decodeTnetstringInner pf (encodeWithMarker p t @ rest) d = Inr (v, rest)"
  using assms readElement_encode_inner [OF assms(1), of t rest]
  by (simp add: decodeTnetstringInner.simps)

lemma literal_elements:
  "''0:~'' = encodeWithMarker [] (CHR ''~'')"
  "''4:true!'' = encodeWithMarker ''true'' (CHR ''!'')"
  "''5:false!'' = encodeWithMarker ''false'' (CHR ''!'')"
  by (simp_all add: encodeWithMarker_def itoa.simps digit_char_def char_of_def bit_0)

lemma set_sort_key_fst: "(k, v) \<in> set (sort_key fst kvs) \<longleftrightarrow> (k, v) \<in> set kvs"
  by simp

lemma dict_key_length:
  assumes "(k, v) \<in> set kvs" "length (Encode ff (TDict kvs)) \<le> m"
  shows "length k \<le> m"
proof -
  let ?f = "\<lambda>(k, v). encodeWithMarker k (CHR '','') @ Encode ff v"
  have "length k \<le> length (?f (k, v))" by (simp add: encodeWithMarker_def)
  also have "\<dots> \<le> sum_list (map length (map ?f (sort_key fst kvs)))"
    by (rule member_le_sum_list) (use assms(1) in force)+
  also have "\<dots> \<le> length (Encode ff (TDict kvs))"
    by (simp only: Encode_TDict encodeWithMarker_def) (simp add: length_concat)
  finally show ?thesis using assms(2) by simp
qed

lemma decodeInner_Encode:
  assumes "\<And>x. pf (ff x) = Some x"
  shows "tnet_ok ff d v \<Longrightarrow> d \<le> maxTnetstringDepth \<Longrightarrow>
    decodeTnetstringInner pf (Encode ff v @ rest) d = Inr (tnet_norm v, rest)"
proof (induction v arbitrary: d rest)
  case (TInt x)
  then show ?case
    by (simp add: decodeInner_encodeWithMarker length_formatInt parseTnetPayload.simps parseInt_formatInt)
next
  case (TList xs)
  have "parseTnetList pf [] (concat (map (Encode ff) xs)) (d + 1) = Inr (TList ([] @ map tnet_norm xs))"
    by (rule parseTnetList_encoded) (use TList in auto)
  with TList show ?case
    by (simp add: decodeInner_encodeWithMarker parseTnetPayload.simps)
next
  case (TDict kvs)
  let ?kvs = "sort_key fst kvs"
  let ?p = "concat (map (\<lambda>(k, v). encodeWithMarker k (CHR '','') @ Encode ff v) ?kvs)"
  have "parseTnetDict pf 0 [] ?p (d + 1) = Inr (TDict ([] @ map (\<lambda>(k, v). (k, tnet_norm v)) ?kvs))"
    if "kvs \<noteq> []"
  proof (rule parseTnetDict_encoded)
    fix k v rest assume "(k, v) \<in> set ?kvs"
    then have kv: "(k, v) \<in> set kvs" by simp
    show "decodeTnetstringInner pf (Encode ff v @ rest) (d + 1) = Inr (tnet_norm v, rest)"
      using TDict.IH [of "(k, v)" v "d + 1" rest] kv TDict.prems that by auto
    show "length k \<le> maxTnetstringElement" using dict_key_length [OF kv] TDict.prems by auto
  next
    have "distinct (map fst ?kvs) \<longleftrightarrow> distinct (map fst kvs)"
      by (rule mset_eq_imp_distinct_iff) simp
    then show "distinct (map fst [] @ map fst ?kvs)" using TDict.prems by (simp add: map_wf_def)
  qed (use TDict.prems that in auto)
  moreover have "length ?p \<le> length (Encode ff (TDict kvs))"
    by (simp only: Encode_TDict encodeWithMarker_def) simp
  ultimately show ?case using TDict.prems
    by (cases "kvs = []")
      (simp_all only: Encode_TDict tnet_norm_TDict tnet_ok.simps,
       simp_all add: decodeInner_encodeWithMarker parseTnetPayload.simps tnet_limits)
qed (simp_all add: assms decodeInner_encodeWithMarker parseTnetPayload.simps literal_elements tnet_limits)

lemma decodeStream_Encode:
  assumes "\<And>x. pf (ff x) = Some x" "tnet_ok ff 0 v"
    and "length (Encode ff v) \<le> maxTnetstringElement"
  shows "decodeTnetstringStream pf (Encode ff v @ rest) 0 = Inr (tnet_norm v, rest)"
proof -
  have "decodeTnetstringInner pf (Encode ff v @ rest) 0 = Inr (tnet_norm v, rest)"
    by (rule decodeInner_Encode) (use assms in simp_all)
  then obtain p t r where el: "readElement (Encode ff v @ rest) (length (Encode ff v @ rest)) = Inr (p, t, r)"
    and rest: "parseTnetPayload pf t p 0 = Inr (tnet_norm v)" "r = rest"
    by (auto simp: decodeTnetstringInner.simps split: if_splits sum.splits)
  have "readElement (Encode ff v @ rest) maxTnetstringElement = Inr (p, t, r)"
    using el by (auto simp: readElement_def readLengthPrefix_def Let_def split: sum.splits if_splits)
  with rest show ?thesis by (simp add: decodeTnetstringStream_def tnet_limits)
qed

section \<open>The stated properties\<close>

text \<open>C13. Round trip: whatever the encoder writes for a value within the decoder's limits,
  the stream decoder reads back, up to the two changes of \<open>tnet_norm\<close> (strings come back as
  bytes, dictionaries in key order), and it leaves exactly the bytes that follow the element.
  The only assumption is the documented contract of \<^verbatim>\<open>strconv\<close>: the shortest
  representation of a float parses back to it.\<close>

theorem decode_Encode:
  assumes "\<And>x. pf (ff x) = Some x" "tnet_ok ff 0 v"
    and "length (Encode ff v) \<le> maxTnetstringElement"
  shows "decodeTnetstringStream pf (Encode ff v @ rest) 0 = Inr (tnet_norm v, rest)"
  using assms by (rule decodeStream_Encode)

lemma decode_Encode_witness:
  "decodeTnetstringStream (\<lambda>s. if s = ''1'' then Some () else None)
     (Encode (\<lambda>_. ''1'') (TDict [(''b'', TList [TInt (- 5), TFloat ()]), (''a'', TStr ''x'')]) @ ''tail'') 0
   = Inr (tnet_norm (TDict [(''b'', TList [TInt (- 5), TFloat ()]), (''a'', TStr ''x'')]), ''tail'')"
proof (rule decode_Encode)
  let ?v = "TDict [(''b'', TList [TInt (- 5), TFloat ()]), (''a'', TStr ''x'')]"
  have len: "length (Encode (\<lambda>_. ''1'') ?v) \<le> 100" by code_simp
  then show "length (Encode (\<lambda>_. ''1'') ?v) \<le> maxTnetstringElement" by (simp add: tnet_limits)
  have "length (concat (map (Encode (\<lambda>_. ''1'')) [TInt (- 5), TFloat ()])) \<le> 100" by code_simp
  with len show "tnet_ok (\<lambda>_. ''1'') 0 ?v"
    by (simp add: tnet_limits map_wf_def del: Encode.simps)
qed simp_all

end
