(* ===== verification/Tnet_Bounds.thy ===== *)
theory Tnet_Bounds
  imports Tnet_Decode
begin

text \<open>
  What a successful decode can return on any input, hostile ones included: the limits the
  decoder declares hold of every value inside the result.
\<close>

fun tnet_bounded :: "nat \<Rightarrow> 'f tnet \<Rightarrow> bool" where
  "tnet_bounded d TNil = True"
| "tnet_bounded d (TBytes x) = (length x \<le> maxTnetstringElement)"
| "tnet_bounded d (TStr x) = (length x \<le> maxTnetstringElement)"
| "tnet_bounded d (TBool x) = True"
| "tnet_bounded d (TInt x) = (- (2 ^ 63) \<le> x \<and> x < 2 ^ 63)"
| "tnet_bounded d (TFloat x) = True"
| "tnet_bounded d (TList xs) =
     (length xs \<le> maxTnetstringElements \<and> (xs \<noteq> [] \<longrightarrow> d < maxTnetstringDepth)
      \<and> (\<forall>x\<in>set xs. tnet_bounded (d + 1) x))"
| "tnet_bounded d (TDict kvs) =
     (length kvs \<le> maxTnetstringElements \<and> map_wf kvs \<and> (kvs \<noteq> [] \<longrightarrow> d < maxTnetstringDepth)
      \<and> (\<forall>kv\<in>set kvs. length (fst kv) \<le> maxTnetstringElement \<and> tnet_bounded (d + 1) (snd kv)))"

lemma parseInt_range: "parseInt s = Some i \<Longrightarrow> - (2 ^ 63) \<le> i \<and> i < 2 ^ 63"
proof -
  have "0 \<le> int (atoi ds)" for ds by simp
  then show "parseInt s = Some i \<Longrightarrow> ?thesis"
    by (auto simp: parseInt_def Let_def split: if_splits)
qed

lemma readElement_cap:
  assumes "readElement r m = Inr (p, t, r')"
  shows "length p \<le> maxTnetstringElement"
proof -
  from assms obtain n r1 r2 where 1: "readLengthPrefix r m = Inr (n, r1)"
    and 2: "readStreamPayload r1 n = Inr (p, r2)"
    by (auto simp: readElement_def split: sum.splits list.splits)
  from 1 have "n \<le> maxTnetstringElement"
    by (auto simp: readLengthPrefix_def Let_def split: sum.splits if_splits)
  moreover from 2 have "length p \<le> n" by (auto simp: readStreamPayload_def split: if_splits)
  ultimately show ?thesis by simp
qed

lemma coerceDictKey_bounded:
  "tnet_bounded d v \<Longrightarrow> coerceDictKey v = Inr k \<Longrightarrow> length k \<le> maxTnetstringElement"
  by (cases v) (auto simp: coerceDictKey_def)

lemma set_map_put: "kv \<in> set (map_put k v m) \<Longrightarrow> kv = (k, v) \<or> kv \<in> set m"
  unfolding map_put_def by (induction m) (auto split: if_splits)

lemma length_map_put: "length (map_put k v m) \<le> Suc (length m)"
  unfolding map_put_def by (induction m) auto

abbreviation entries_ok :: "nat \<Rightarrow> (string, 'f tnet) gomap \<Rightarrow> bool" where
  "entries_ok d m \<equiv> map_wf m \<and> (m \<noteq> [] \<longrightarrow> d \<le> maxTnetstringDepth)
    \<and> (\<forall>kv\<in>set m. length (fst kv) \<le> maxTnetstringElement \<and> tnet_bounded d (snd kv))"

lemma entries_ok_put:
  "entries_ok d m \<Longrightarrow> length k \<le> maxTnetstringElement \<Longrightarrow> tnet_bounded d v \<Longrightarrow>
    d \<le> maxTnetstringDepth \<Longrightarrow> entries_ok d (map_put k v m)"
  by (auto dest!: set_map_put)

lemma decode_bounded:
  fixes pf :: "string \<Rightarrow> 'f option"
  shows "decodeTnetstringInner pf r d = Inr (v, r') \<Longrightarrow> d \<le> maxTnetstringDepth \<and> tnet_bounded d v"
    and "parseTnetPayload pf t p d = Inr v \<Longrightarrow> length p \<le> maxTnetstringElement \<Longrightarrow>
          d \<le> maxTnetstringDepth \<Longrightarrow> tnet_bounded d v"
    and "parseTnetList pf xs r d = Inr v \<Longrightarrow>
          length xs \<le> maxTnetstringElements \<and> (xs \<noteq> [] \<longrightarrow> d \<le> maxTnetstringDepth)
            \<and> (\<forall>x\<in>set xs. tnet_bounded d x) \<Longrightarrow>
          \<exists>ys. v = TList ys \<and> length ys \<le> maxTnetstringElements
            \<and> (ys \<noteq> [] \<longrightarrow> d \<le> maxTnetstringDepth) \<and> (\<forall>x\<in>set ys. tnet_bounded d x)"
    and "parseTnetDict pf n m r d = Inr v \<Longrightarrow> length m \<le> n \<Longrightarrow> n \<le> maxTnetstringElements \<Longrightarrow>
          entries_ok d m \<Longrightarrow>
          \<exists>m'. v = TDict m' \<and> length m' \<le> maxTnetstringElements \<and> entries_ok d m'"
proof (induction pf r d and pf t p d and pf xs r d and pf n m r d arbitrary: v r' and v and v and v
    rule: decodeTnetstringInner_parseTnetPayload_parseTnetList_parseTnetDict.induct)
  case (1 pf r d)
  then show ?case
    by (auto simp: decodeTnetstringInner.simps split: if_splits sum.splits dest: readElement_cap)
next
  case (2 pf t p d)
  show ?case
  proof (cases "t = CHR '']'' \<or> t = CHR ''}''")
    case False
    then show ?thesis using "2.prems"
      by (auto simp: parseTnetPayload.simps split: if_splits option.splits dest: parseInt_range)
  next
    case True
    then consider "t = CHR '']''" | "t = CHR ''}''" by blast
    then show ?thesis
    proof cases
      case 1
      then show ?thesis using "2.prems" "2.IH"(1) by (auto simp: parseTnetPayload.simps)
    next
      case 2
      then show ?thesis using "2.prems" "2.IH"(2) by (auto simp: parseTnetPayload.simps)
    qed
  qed
next
  case (3 pf xs r d)
  show ?case
  proof (cases "r = []")
    case False
    with "3.prems" obtain val r1 where step: "decodeTnetstringInner pf r d = Inr (val, r1)"
      and rest: "parseTnetList pf (xs @ [val]) r1 d = Inr v" and n: "length xs < maxTnetstringElements"
      by (auto split: if_splits sum.splits)
    have val: "d \<le> maxTnetstringDepth" "tnet_bounded d val" using "3.IH"(1) [OF False _ step] n by auto
    have len: "length r1 < length r" using step by (rule decodeInner_length)
    show ?thesis
      by (rule "3.IH"(2) [OF False _ step refl len rest]) (use "3.prems"(2) val n in auto)
  qed (use "3.prems" in auto)
next
  case (4 pf n m r d)
  show ?case
  proof (cases "r = []")
    case False
    with "4.prems" obtain kv r1 k val r2 where
        key: "decodeTnetstringInner pf r d = Inr (kv, r1)" "coerceDictKey kv = Inr k" "r1 \<noteq> []"
      and step: "decodeTnetstringInner pf r1 d = Inr (val, r2)"
      and rest: "parseTnetDict pf (n + 1) (map_put k val m) r2 d = Inr v"
      and n: "n < maxTnetstringElements"
      by (simp split: if_splits sum.splits prod.splits)
    have len: "length r1 < length r" "length r2 < length r1"
      using key(1) step by (auto dest: decodeInner_length)
    have n': "\<not> maxTnetstringElements \<le> n" using n by simp
    have kb: "d \<le> maxTnetstringDepth" "length k \<le> maxTnetstringElement"
      using "4.IH"(1) [OF False n' key(1)] key(2) by (auto dest: coerceDictKey_bounded)
    have vb: "tnet_bounded d val"
      using "4.IH"(2) [OF False n' key(1) refl _ key(2,3) step] len by simp
    have m': "entries_ok d (map_put k val m)"
      using entries_ok_put [OF "4.prems"(4) kb(2) vb kb(1)] .
    have "length (map_put k val m) \<le> n + 1" using length_map_put [of k val m] "4.prems"(2) by simp
    then show ?thesis
      using "4.IH"(3) [OF False n' key(1) refl _ key(2,3) step refl len(2) rest] len n m' by simp
  qed (use "4.prems" in auto)
qed

text \<open>C14. Every value the stream decoder accepts, on any input bytes, respects the decoder's
  limits: nesting never passes \<^verbatim>\<open>maxTnetstringDepth\<close>, no byte string or key is longer than
  \<^verbatim>\<open>maxTnetstringElement\<close>, no list or dictionary holds more than
  \<^verbatim>\<open>maxTnetstringElements\<close> entries, dictionary keys are distinct, and every integer is in
  the range of a 64-bit integer.\<close>

theorem decode_within_limits:
  assumes "decodeTnetstringStream pf r 0 = Inr (v, r')"
  shows "tnet_bounded 0 v"
  using assms
  by (auto simp: decodeTnetstringStream_def split: if_splits sum.splits
      dest: readElement_cap intro: decode_bounded(2))

lemma decode_within_limits_witness:
  "tnet_bounded 0 (TList [TBytes ''ab'', TBool True] :: unit tnet)"
proof (rule decode_within_limits)
  show "decodeTnetstringStream (\<lambda>_. None) ''12:2:ab,4:true!]rest'' 0
      = Inr (TList [TBytes ''ab'', TBool True] :: unit tnet, ''rest'')"
    by code_simp
qed

end
