(* ===== verification/Grpc_Wire.thy ===== *)
theory Grpc_Wire
  imports Main "HOL-Library.Word"
begin

unbundle bit_operations_syntax

text \<open>
  gRPC framing and the protobuf wire format, \<^verbatim>\<open>internal/grpcwire/frame.go\<close>. A byte is
  an \<open>8 word\<close>; the length header is a \<open>32 word\<close>, varints are \<open>64 word\<close>s and all shifts and masks
  are those of the code. A slice is a list; \<open>unat\<close> of a length is compared with the list's
  length, as \<^verbatim>\<open>uint64(len(b))\<close> is exact for a Go slice.
\<close>

type_synonym byte = "8 word"

datatype wire_error =
    FrameHeaderTruncated nat
  | FrameBodyTruncated nat nat
  | VarintTooLong
  | VarintOverflow
  | VarintTruncated
  | FieldNumberZero
  | FieldNumberTooLarge
  | Fixed64Truncated
  | LengthDelimTruncated
  | Fixed32Truncated
  | UnsupportedWireType "64 word"

section \<open>Frames\<close>

definition FrameHeaderLen :: nat where "FrameHeaderLen = 5"

record frame =
  Compressed :: bool
  Message :: "byte list"

text \<open>\<^verbatim>\<open>binary.BigEndian.Uint32\<close>.\<close>

definition bigEndianUint32 :: "byte list \<Rightarrow> 32 word" where
  "bigEndianUint32 b =
     push_bit 24 (ucast (b ! 0)) OR push_bit 16 (ucast (b ! 1))
     OR push_bit 8 (ucast (b ! 2)) OR ucast (b ! 3)"

definition ParseFrame :: "byte list \<Rightarrow> wire_error + (frame \<times> nat)" where
  "ParseFrame b =
     (if length b < FrameHeaderLen then Inl (FrameHeaderTruncated (length b))
      else let length' = bigEndianUint32 (take 4 (drop 1 b));
               end' = of_nat FrameHeaderLen + (ucast length' :: 64 word)
           in if unat end' > length b
              then Inl (FrameBodyTruncated (unat length') (length b - FrameHeaderLen))
              else Inr (\<lparr>Compressed = (b ! 0 \<noteq> 0),
                         Message = drop FrameHeaderLen (take (unat end') b)\<rparr>, unat end'))"

lemma unat_frame_end:
  "unat (of_nat FrameHeaderLen + (ucast (l :: 32 word) :: 64 word)) = 5 + unat l"
proof -
  have "unat l < 2 ^ 32" using unsigned_less [of l] by simp
  then have "unat (ucast l :: 64 word) = unat l" by (simp add: unsigned_ucast_eq take_bit_nat_eq_self)
  with \<open>unat l < 2 ^ 32\<close> show ?thesis by (simp add: FrameHeaderLen_def unat_word_ariths)
qed

lemma ParseFrame_consumes:
  assumes "ParseFrame b = Inr (f, n)"
  shows "5 \<le> n" "n \<le> length b"
  using assms by (auto simp: ParseFrame_def Let_def unat_frame_end split: if_splits)

text \<open>The loop of \<^verbatim>\<open>ParseFrames\<close>: the frames so far, and the error that stopped it.\<close>

function parseFramesFrom :: "frame list \<Rightarrow> byte list \<Rightarrow> frame list \<times> wire_error option" where
  "parseFramesFrom frames b =
     (if b = [] then (frames, None)
      else (case ParseFrame b of Inl e \<Rightarrow> (frames, Some e)
        | Inr (f, n) \<Rightarrow> parseFramesFrom (frames @ [f]) (drop n b)))"
  by pat_completeness auto
termination
  by (relation "measure (\<lambda>(_, b). length b)") (auto dest: ParseFrame_consumes)

declare parseFramesFrom.simps [simp del]

definition ParseFrames :: "byte list \<Rightarrow> frame list \<times> wire_error option" where
  "ParseFrames b = parseFramesFrom [] b"

section \<open>Varints and tags\<close>

definition maxVarintBytes :: nat where "maxVarintBytes = 10"

fun parseVarintFrom :: "nat \<Rightarrow> 64 word \<Rightarrow> nat \<Rightarrow> byte list \<Rightarrow> wire_error + (64 word \<times> nat)" where
  "parseVarintFrom i v shift [] = Inl VarintTruncated"
| "parseVarintFrom i v shift (c # b) =
     (if i \<ge> maxVarintBytes then Inl VarintTooLong
      else if i = maxVarintBytes - 1 \<and> c > 1 then Inl VarintOverflow
      else let v' = v OR push_bit shift (ucast (c AND 127))
           in if c AND 128 = 0 then Inr (v', i + 1)
              else parseVarintFrom (i + 1) v' (shift + 7) b)"

definition ParseVarint :: "byte list \<Rightarrow> wire_error + (64 word \<times> nat)" where
  "ParseVarint b = parseVarintFrom 0 0 0 b"

record tag =
  FieldNumber :: nat
  WireType :: "64 word"

definition WireVarint :: "64 word" where "WireVarint = 0"
definition Wire64Bit :: "64 word" where "Wire64Bit = 1"
definition WireLengthDelim :: "64 word" where "WireLengthDelim = 2"
definition Wire32Bit :: "64 word" where "Wire32Bit = 5"

lemmas wire_types = WireVarint_def Wire64Bit_def WireLengthDelim_def Wire32Bit_def

definition maxProtoFieldNumber :: "64 word" where "maxProtoFieldNumber = 2 ^ 29 - 1"

definition ParseTag :: "byte list \<Rightarrow> wire_error + (tag \<times> nat)" where
  "ParseTag b =
     (case ParseVarint b of Inl e \<Rightarrow> Inl e
      | Inr (v, n) \<Rightarrow>
          let fieldNum = drop_bit 3 v
          in if fieldNum = 0 then Inl FieldNumberZero
             else if fieldNum > maxProtoFieldNumber then Inl FieldNumberTooLarge
             else Inr (\<lparr>FieldNumber = unat fieldNum, WireType = v AND 7\<rparr>, n))"

lemma parseVarintFrom_consumes:
  "parseVarintFrom i v s b = Inr (w, n) \<Longrightarrow> i < n \<and> n \<le> i + length b \<and> n \<le> maxVarintBytes"
  by (induction i v s b rule: parseVarintFrom.induct)
    (fastforce simp: Let_def split: if_splits)+

lemma ParseVarint_consumes:
  "ParseVarint b = Inr (w, n) \<Longrightarrow> 0 < n \<and> n \<le> length b \<and> n \<le> 10"
  using parseVarintFrom_consumes [of 0 0 0 b w n] by (simp add: ParseVarint_def maxVarintBytes_def)

lemma ParseTag_consumes: "ParseTag b = Inr (t, n) \<Longrightarrow> 0 < n \<and> n \<le> length b"
  by (auto simp: ParseTag_def Let_def split: sum.splits if_splits dest: ParseVarint_consumes)

section \<open>Walking the fields of a message\<close>

text \<open>
  The callback \<^verbatim>\<open>fn\<close> is a closure over mutable state; here it takes the state and
  returns whether to go on and the new state. The result is the error (\<open>None\<close> for Go's nil) and the
  final state.
\<close>

function WalkFields ::
    "(tag \<Rightarrow> byte list \<Rightarrow> 's \<Rightarrow> bool \<times> 's) \<Rightarrow> byte list \<Rightarrow> 's \<Rightarrow> wire_error option \<times> 's" where
  "WalkFields fn b s =
     (if b = [] then (None, s)
      else (case ParseTag b of Inl e \<Rightarrow> (Some e, s)
        | Inr (tag, n) \<Rightarrow>
            let b1 = drop n b in
            if WireType tag = WireVarint then
              (case ParseVarint b1 of Inl e \<Rightarrow> (Some e, s)
               | Inr (_, m) \<Rightarrow>
                   (case fn tag (take m b1) s of (go, s') \<Rightarrow>
                      if \<not> go then (None, s') else WalkFields fn (drop m b1) s'))
            else if WireType tag = Wire64Bit then
              (if length b1 < 8 then (Some Fixed64Truncated, s)
               else (case fn tag (take 8 b1) s of (go, s') \<Rightarrow>
                      if \<not> go then (None, s') else WalkFields fn (drop 8 b1) s'))
            else if WireType tag = WireLengthDelim then
              (case ParseVarint b1 of Inl e \<Rightarrow> (Some e, s)
               | Inr (length', m) \<Rightarrow>
                   let b2 = drop m b1 in
                   if length b2 < unat length' then (Some LengthDelimTruncated, s)
                   else (case fn tag (take (unat length') b2) s of (go, s') \<Rightarrow>
                      if \<not> go then (None, s') else WalkFields fn (drop (unat length') b2) s'))
            else if WireType tag = Wire32Bit then
              (if length b1 < 4 then (Some Fixed32Truncated, s)
               else (case fn tag (take 4 b1) s of (go, s') \<Rightarrow>
                      if \<not> go then (None, s') else WalkFields fn (drop 4 b1) s'))
            else (Some (UnsupportedWireType (WireType tag)), s)))"
  by pat_completeness auto
termination
proof (relation "measure (\<lambda>(_, b, _). length b)")
qed (auto dest!: ParseTag_consumes)

declare WalkFields.simps [simp del]

end
