(* ===== verification/Grpc_Wire_Spec.thy ===== *)
theory Grpc_Wire_Spec
  imports Grpc_Wire
begin

text \<open>
  The wire format as a specification, and the parsers of \<open>Grpc_Wire\<close> against it: reference encoders
  for frames, varints and fields, the value a varint denotes, and round-trip theorems.
\<close>

section \<open>Frames\<close>

definition encodeUint32 :: "nat \<Rightarrow> byte list" where
  "encodeUint32 n = [of_nat (n div 2 ^ 24), of_nat (n div 2 ^ 16), of_nat (n div 2 ^ 8), of_nat n]"

definition encodeFrame :: "frame \<Rightarrow> byte list" where
  "encodeFrame f = (if Compressed f then 1 else 0) # encodeUint32 (length (Message f)) @ Message f"

lemma or_push_bit_nat:
  assumes "(x :: nat) < 2 ^ s"
  shows "x OR push_bit s y = x + y * 2 ^ s"
proof -
  have x: "take_bit s x = x" using assms by (simp add: take_bit_nat_eq_self)
  have "x AND push_bit s y = 0"
    by (subst x [symmetric], rule bit_eqI) (auto simp: bit_simps)
  then show ?thesis by (simp add: disjunctive_add_eq_or [symmetric] push_bit_eq_mult)
qed

lemma unat_push_bit_small:
  assumes "unat (w :: 'a::len word) * 2 ^ s < 2 ^ LENGTH('a)"
  shows "unat (push_bit s w) = unat w * 2 ^ s"
  using assms by (subst unsigned_push_bit_eq) (simp add: push_bit_eq_mult take_bit_nat_eq_self)

lemma unat_byte_less: "unat (c :: byte) < 256"
  using unsigned_less [of c] by simp

lemma unat_be_bytes:
  "unat (bigEndianUint32 [a, b, c, d]) = unat a * 2 ^ 24 + unat b * 2 ^ 16 + unat c * 2 ^ 8 + unat d"
proof -
  note lt = unat_byte_less [of a] unat_byte_less [of b] unat_byte_less [of c] unat_byte_less [of d]
  have u: "unat (ucast x :: 32 word) = unat x" for x :: byte
    using unat_byte_less [of x] by (simp add: unsigned_ucast_eq take_bit_nat_eq_self)
  have p: "unat (push_bit s (ucast x :: 32 word)) = push_bit s (unat x)" if "s \<le> 24" for s and x :: byte
  proof -
    have "(2 :: nat) ^ s \<le> 2 ^ 24" using that by (intro power_increasing) auto
    then have "unat x * 2 ^ s \<le> 255 * 2 ^ 24" using unat_byte_less [of x] by (intro mult_le_mono) simp_all
    then have "unat (ucast x :: 32 word) * 2 ^ s < 2 ^ LENGTH(32)" by (simp add: u)
    from unat_push_bit_small [OF this] show ?thesis by (simp only: u push_bit_eq_mult)
  qed
  have "unat (bigEndianUint32 [a, b, c, d])
      = ((unat d OR push_bit 8 (unat c)) OR push_bit 16 (unat b)) OR push_bit 24 (unat a)"
    using p [of 24 a] p [of 16 b] p [of 8 c]
    by (simp only: bigEndianUint32_def unsigned_or_eq u or.commute or.left_commute nth_Cons_0 nth_Cons_Suc
        One_nat_def numeral_2_eq_2 numeral_3_eq_3 order.refl)
  also have "unat d OR push_bit 8 (unat c) = unat d + unat c * 2 ^ 8"
    using lt by (intro or_push_bit_nat) simp
  also have "(\<dots>) OR push_bit 16 (unat b) = unat d + unat c * 2 ^ 8 + unat b * 2 ^ 16"
    using lt by (intro or_push_bit_nat) simp
  also have "(\<dots>) OR push_bit 24 (unat a) = unat d + unat c * 2 ^ 8 + unat b * 2 ^ 16 + unat a * 2 ^ 24"
    using lt by (intro or_push_bit_nat) simp
  finally show ?thesis by simp
qed

lemma nat_bytes:
  assumes "(n :: nat) < 4294967296"
  shows "(n div 16777216) mod 256 * 16777216 + (n div 65536) mod 256 * 65536
    + (n div 256) mod 256 * 256 + n mod 256 = n"
proof -
  have top: "(n div 16777216) mod 256 = n div 16777216"
    using assms by (simp add: less_mult_imp_div_less)
  have 1: "n = n div 256 * 256 + n mod 256" by simp
  have 2: "n div 256 = n div 65536 * 256 + (n div 256) mod 256"
    using div_mult_mod_eq [of "n div 256" 256] by (simp only: div_mult2_eq [symmetric]) simp
  have 3: "n div 65536 = n div 16777216 * 256 + (n div 65536) mod 256"
    using div_mult_mod_eq [of "n div 65536" 256] by (simp only: div_mult2_eq [symmetric]) simp
  show ?thesis using top 1 2 3 by linarith
qed

lemma bigEndian_encode:
  assumes "n < 2 ^ 32"
  shows "unat (bigEndianUint32 (encodeUint32 n)) = n"
  using nat_bytes [of n] assms by (simp add: encodeUint32_def unat_be_bytes unsigned_of_nat take_bit_eq_mod)

lemma ParseFrame_encodeFrame:
  assumes "length (Message f) < 2 ^ 32"
  shows "ParseFrame (encodeFrame f @ rest) = Inr (f, length (encodeFrame f))"
proof -
  let ?b = "encodeFrame f @ rest"
  have len: "length (encodeFrame f) = 5 + length (Message f)"
    by (simp add: encodeFrame_def encodeUint32_def)
  have hdr: "take 4 (drop 1 ?b) = encodeUint32 (length (Message f))"
    by (simp add: encodeFrame_def encodeUint32_def)
  have body: "drop FrameHeaderLen (encodeFrame f) = Message f"
    by (simp add: encodeFrame_def encodeUint32_def FrameHeaderLen_def)
  have flag: "(?b ! 0 \<noteq> 0) = Compressed f" by (simp add: encodeFrame_def)
  have "take (5 + length (Message f)) ?b = encodeFrame f" using len by simp
  with len hdr body flag bigEndian_encode [OF assms] show ?thesis
    by (simp add: ParseFrame_def Let_def unat_frame_end) (simp add: FrameHeaderLen_def)
qed

lemma parseFramesFrom_encoded:
  "\<forall>f\<in>set fs. length (Message f) < 2 ^ 32 \<Longrightarrow>
    parseFramesFrom acc (concat (map encodeFrame fs)) = (acc @ fs, None)"
proof (induction fs arbitrary: acc)
  case Nil
  then show ?case by (simp add: parseFramesFrom.simps)
next
  case (Cons f fs)
  have ne: "encodeFrame f @ xs \<noteq> []" for xs by (simp add: encodeFrame_def)
  have "ParseFrame (encodeFrame f @ concat (map encodeFrame fs)) = Inr (f, length (encodeFrame f))"
    using Cons.prems by (intro ParseFrame_encodeFrame) simp
  then show ?case using Cons ne [of "concat (map encodeFrame fs)"]
    by (subst parseFramesFrom.simps) simp
qed

text \<open>C37. Framing is lossless: the concatenation of length-prefixed gRPC messages (each shorter
  than \<open>2^32\<close> bytes, all the header can say) parses into exactly those messages, flags included,
  with no error and no byte left over.\<close>

theorem ParseFrames_roundtrip:
  assumes "\<forall>f\<in>set fs. length (Message f) < 2 ^ 32"
  shows "ParseFrames (concat (map encodeFrame fs)) = (fs, None)"
  using parseFramesFrom_encoded [OF assms, of "[]"] by (simp add: ParseFrames_def)

lemma ParseFrames_roundtrip_witness:
  "ParseFrames (concat (map encodeFrame
      [\<lparr>Compressed = False, Message = [1, 2, 3]\<rparr>, \<lparr>Compressed = True, Message = []\<rparr>]))
    = ([\<lparr>Compressed = False, Message = [1, 2, 3]\<rparr>, \<lparr>Compressed = True, Message = []\<rparr>], None)"
  by (rule ParseFrames_roundtrip) simp

text \<open>Conversely, what was parsed is a prefix of the input, frame by frame.\<close>

abbreviation frame_of :: "byte list \<Rightarrow> frame \<Rightarrow> bool" where
  "frame_of h f \<equiv> length h = FrameHeaderLen + length (Message f) \<and> drop FrameHeaderLen h = Message f
     \<and> Compressed f = (h ! 0 \<noteq> 0)"

lemma ParseFrame_frame_of:
  assumes "ParseFrame b = Inr (f, n)"
  shows "frame_of (take n b) f"
proof -
  have "5 \<le> n" "n \<le> length b" using ParseFrame_consumes [OF assms] by auto
  moreover have "Message f = drop FrameHeaderLen (take n b)" "Compressed f = (b ! 0 \<noteq> 0)"
    using assms by (auto simp: ParseFrame_def Let_def split: if_splits)
  ultimately show ?thesis by (simp add: FrameHeaderLen_def)
qed

lemma parseFramesFrom_prefix:
  "parseFramesFrom acc b = (fs, e) \<Longrightarrow>
    \<exists>gs hs rest. fs = acc @ gs \<and> b = concat hs @ rest \<and> list_all2 frame_of hs gs
      \<and> (case e of None \<Rightarrow> rest = [] | Some err \<Rightarrow> rest \<noteq> [] \<and> ParseFrame rest = Inl err)"
proof (induction acc b arbitrary: fs rule: parseFramesFrom.induct)
  case (1 frames b)
  show ?case
  proof (cases "b = []")
    case True
    then show ?thesis using "1.prems" by (auto simp: parseFramesFrom.simps)
  next
    case nonempty: False
    show ?thesis
    proof (cases "ParseFrame b")
      case (Inl err)
      then show ?thesis using "1.prems" nonempty
        by (intro exI [of _ "[]"] exI [of _ b]) (auto simp: parseFramesFrom.simps [of frames])
    next
      case (Inr fn)
      obtain f n where fn: "fn = (f, n)" by fastforce
      with "1.prems" nonempty Inr have "parseFramesFrom (frames @ [f]) (drop n b) = (fs, e)"
        by (simp add: parseFramesFrom.simps [of frames])
      from "1.IH" [OF nonempty Inr fn [symmetric] this] obtain gs hs rest where
        IH: "fs = (frames @ [f]) @ gs" "drop n b = concat hs @ rest" "list_all2 frame_of hs gs"
          "case e of None \<Rightarrow> rest = [] | Some err \<Rightarrow> rest \<noteq> [] \<and> ParseFrame rest = Inl err" by blast
      have "b = take n b @ drop n b" by simp
      then have "b = concat (take n b # hs) @ rest" by (simp only: IH(2) concat.simps append.assoc)
      moreover have "list_all2 frame_of (take n b # hs) (f # gs)"
        using ParseFrame_frame_of [of b f n] Inr fn IH(3) by simp
      moreover have "fs = frames @ f # gs" using IH(1) by simp
      ultimately show ?thesis using IH(4) by blast
    qed
  qed
qed

text \<open>\<^verbatim>\<open>ParseFrames\<close> loses nothing: the input is the concatenation of the parsed frames'
  bytes, each with a five-byte header and exactly its message, followed by a rest on which
  \<^verbatim>\<open>ParseFrame\<close> fails with the reported error; with no error the rest is empty.\<close>

theorem ParseFrames_prefix:
  assumes "ParseFrames b = (fs, e)"
  shows "\<exists>hs rest. b = concat hs @ rest \<and> list_all2 frame_of hs fs
    \<and> (case e of None \<Rightarrow> rest = [] | Some err \<Rightarrow> rest \<noteq> [] \<and> ParseFrame rest = Inl err)"
  using parseFramesFrom_prefix [of "[]" b fs e] assms by (simp add: ParseFrames_def)

lemma ParseFrames_prefix_witness:
  "\<exists>hs rest. [0, 0, 0, 0, 1, 7, 0 :: byte] = concat hs @ rest
    \<and> list_all2 frame_of hs [\<lparr>Compressed = False, Message = [7]\<rparr>]
    \<and> (case Some (FrameHeaderTruncated 1) of None \<Rightarrow> rest = []
       | Some err \<Rightarrow> rest \<noteq> [] \<and> ParseFrame rest = Inl err)"
  by (rule ParseFrames_prefix) code_simp

section \<open>Varints\<close>

text \<open>The number a base-128 group sequence denotes, and its canonical encoding.\<close>

fun varint_value :: "byte list \<Rightarrow> nat" where
  "varint_value [] = 0"
| "varint_value (c # b) = unat c mod 128 + 128 * varint_value b"

fun encodeVarint :: "nat \<Rightarrow> byte list" where
  "encodeVarint n = (if n < 128 then [of_nat n] else of_nat (128 + n mod 128) # encodeVarint (n div 128))"

declare encodeVarint.simps [simp del]

lemma unat_and_127: "unat (c AND 127 :: byte) = unat c mod 128"
proof -
  have "c AND 127 = take_bit 7 c" by (simp add: take_bit_eq_mask mask_eq_exp_minus_1)
  then have "unat (c AND 127) = take_bit 7 (unat c)" by (simp only: unsigned_take_bit_eq)
  also have "\<dots> = unat c mod 2 ^ 7" by (rule take_bit_eq_mod)
  finally show ?thesis by simp
qed

lemma and_128_zero: "c AND 128 = (0 :: byte) \<longleftrightarrow> unat c < 128"
proof -
  have "(128 :: byte) = 2 ^ 7" by simp
  then have "c AND 128 = 0 \<longleftrightarrow> \<not> bit c 7" by (metis and_exp_eq_0_iff_not_bit)
  also have "\<dots> \<longleftrightarrow> \<not> bit (unat c) 7" by (simp add: bit_unsigned_iff)
  also have "\<dots> \<longleftrightarrow> even (unat c div 128)" by (simp add: bit_iff_odd)
  also have "\<dots> \<longleftrightarrow> unat c < 128"
  proof -
    have "unat c div 128 < 2" using unat_byte_less [of c] by (simp add: less_mult_imp_div_less)
    then show ?thesis by (auto simp: div_eq_0_iff less_2_cases_iff)
  qed
  finally show ?thesis .
qed

lemma varint_or_step:
  assumes "unat (v :: 64 word) < 2 ^ s" "s \<le> 57 \<or> s = 63 \<and> unat c \<le> 1"
  shows "unat (v OR push_bit s (ucast (c AND 127 :: byte))) = unat v + unat c mod 128 * 2 ^ s"
proof -
  let ?x = "unat c mod 128"
  have x: "unat (ucast (c AND 127 :: byte) :: 64 word) = ?x"
    using unat_and_127 [of c] by (simp add: unsigned_ucast_eq take_bit_nat_eq_self)
  have "?x * 2 ^ s < 2 ^ 64"
  proof (cases "s = 63")
    case True
    then have "?x \<le> 1" using assms(2) by auto
    then have "?x * 2 ^ s \<le> 1 * 2 ^ s" by (rule mult_le_mono1)
    then show ?thesis using True by simp
  next
    case False
    then have "(2 :: nat) ^ s \<le> 2 ^ 57" using assms(2) by (intro power_increasing) auto
    then have "?x * 2 ^ s \<le> 127 * 2 ^ 57" by (intro mult_le_mono) simp_all
    then show ?thesis by simp
  qed
  then have "unat (push_bit s (ucast (c AND 127 :: byte)) :: 64 word) = push_bit s ?x"
    using unat_push_bit_small [of "ucast (c AND 127 :: byte) :: 64 word" s] x
    by (simp add: push_bit_eq_mult)
  then show ?thesis using or_push_bit_nat [OF assms(1)] by (simp add: unsigned_or_eq)
qed

lemma parseVarintFrom_sound:
  "parseVarintFrom i v (7 * i) b = Inr (w, n) \<Longrightarrow> unat v < 2 ^ (7 * i) \<Longrightarrow>
    unat w = unat v + varint_value (take (n - i) b) * 2 ^ (7 * i)
    \<and> (\<forall>j<n - i - 1. 128 \<le> unat (b ! j)) \<and> unat (b ! (n - i - 1)) < 128"
proof (induction b arbitrary: i v)
  case (Cons c b)
  let ?v = "v OR push_bit (7 * i) (ucast (c AND 127)) :: 64 word"
  from Cons.prems(1) have i: "i < 10" and ov: "\<not> (i = 9 \<and> c > 1)"
    by (auto simp: maxVarintBytes_def split: if_splits)
  have step: "unat ?v = unat v + unat c mod 128 * 2 ^ (7 * i)"
    by (rule varint_or_step [OF Cons.prems(2)])
      (use i ov in \<open>auto simp: word_le_nat_alt not_less intro: ccontr\<close>)
  show ?case
  proof (cases "c AND 128 = 0")
    case True
    then show ?thesis using Cons.prems(1) i ov step
      by (auto simp: maxVarintBytes_def Let_def and_128_zero)
  next
    case False
    have rec: "parseVarintFrom (Suc i) ?v (7 * Suc i) b = Inr (w, n)"
      using Cons.prems(1) i ov False by (simp add: maxVarintBytes_def Let_def add.commute split: if_splits)
    have lt: "unat ?v < 2 ^ (7 * Suc i)"
    proof -
      have "unat c mod 128 * 2 ^ (7 * i) \<le> 127 * 2 ^ (7 * i)" by simp
      then have "unat ?v < 128 * 2 ^ (7 * i)" using step Cons.prems(2) by linarith
      also have "\<dots> = 2 ^ (7 * Suc i)" by (simp add: power_add)
      finally show ?thesis .
    qed
    have n: "Suc i < n" using parseVarintFrom_consumes [OF rec] by simp
    then obtain k where k: "n = Suc (Suc i) + k" by (metis less_iff_Suc_add add.commute add_Suc_right)
    from Cons.IH [OF rec lt] step False show ?thesis
      by (auto simp: k and_128_zero algebra_simps power_add less_Suc_eq_0_disj)
  qed
qed simp

text \<open>Varint decoding is exact: on success at most ten bytes are consumed, they are a
  continuation-bit group sequence (every byte but the last has its high bit set), and the 64-bit
  result is the number those groups denote. In particular nothing wraps around: encodings of more
  than 64 bits are refused, never truncated.\<close>

theorem ParseVarint_exact:
  assumes "ParseVarint b = Inr (v, n)"
  shows "0 < n \<and> n \<le> 10 \<and> n \<le> length b \<and> unat v = varint_value (take n b)
    \<and> (\<forall>j<n - 1. 128 \<le> unat (b ! j)) \<and> unat (b ! (n - 1)) < 128"
  using parseVarintFrom_sound [of 0 0 b v n] ParseVarint_consumes [OF assms] assms
  by (simp add: ParseVarint_def)

lemma ParseVarint_exact_witness:
  "(2 :: nat) \<le> 10 \<and> unat (300 :: 64 word) = varint_value (take 2 [172, 2, 7])
    \<and> unat ([172, 2, 7 :: byte] ! (2 - 1)) < 128"
proof -
  have "ParseVarint [172, 2, 7] = Inr (300, 2)" by code_simp
  from ParseVarint_exact [OF this] show ?thesis by blast
qed

text \<open>Encoding and back: canonical varints decode to the number they encode, and the parser
  stops exactly behind them.\<close>

lemma parseVarintFrom_encode:
  "n * 2 ^ (7 * i) < 2 ^ 64 \<Longrightarrow> i < 10 \<Longrightarrow> unat v < 2 ^ (7 * i) \<Longrightarrow>
    \<exists>w. parseVarintFrom i v (7 * i) (encodeVarint n @ rest) = Inr (w, i + length (encodeVarint n))
      \<and> unat w = unat v + n * 2 ^ (7 * i)"
proof (induction n arbitrary: i v rule: encodeVarint.induct)
  case (1 n)
  let ?c = "if n < 128 then of_nat n else of_nat (128 + n mod 128) :: byte"
  let ?v = "v OR push_bit (7 * i) (ucast (?c AND 127)) :: 64 word"
  have "128 + n mod 128 < 256" by simp
  then have c: "unat ?c = (if n < 128 then n else 128 + n mod 128)"
    by (simp only: unsigned_of_nat take_bit_eq_mod if_distrib [of unat]) simp
  have small: "i = 9 \<Longrightarrow> n < 2" using "1.prems"(1) by simp
  have step: "unat ?v = unat v + n mod 128 * 2 ^ (7 * i)"
  proof -
    have m: "unat ?c mod 128 = n mod 128" by (simp add: c)
    have "7 * i \<le> 57 \<or> 7 * i = 63 \<and> unat ?c \<le> 1"
    proof (cases "i = 9")
      case True
      then show ?thesis using small c by simp
    qed (use "1.prems"(2) in auto)
    from varint_or_step [OF "1.prems"(3) this] show ?thesis by (simp only: m)
  qed
  have ok: "\<not> maxVarintBytes \<le> i" "\<not> (i = maxVarintBytes - 1 \<and> ?c > 1)"
    using "1.prems"(2) small c by (auto simp: maxVarintBytes_def word_less_nat_alt)
  show ?case
  proof (cases "n < 128")
    case True
    then have z: "?c AND 128 = 0" using c by (simp only: and_128_zero) simp
    have e: "encodeVarint n = [?c]" using True by (simp add: encodeVarint.simps)
    have "parseVarintFrom i v (7 * i) (encodeVarint n @ rest) = Inr (?v, i + 1)"
      using ok z by (simp only: e append.simps parseVarintFrom.simps Let_def if_True if_False
          refl simp_thms)
    then show ?thesis using step True e by simp
  next
    case False
    have nz: "?c AND 128 \<noteq> 0" using c False by (simp only: and_128_zero) simp
    have e: "encodeVarint n = ?c # encodeVarint (n div 128)" using False by (subst encodeVarint.simps) simp
    have split_n: "n = n mod 128 + n div 128 * 128" by simp
    have pow: "(2 :: nat) ^ (7 * (i + 1)) = 128 * 2 ^ (7 * i)" by (simp add: power_add)
    have lt: "unat ?v < 2 ^ (7 * (i + 1))"
    proof -
      have "n mod 128 * 2 ^ (7 * i) \<le> 127 * 2 ^ (7 * i)" by (intro mult_le_mono1) simp
      then show ?thesis using step "1.prems"(3) pow by linarith
    qed
    have bound: "n div 128 * 2 ^ (7 * (i + 1)) < 2 ^ 64"
    proof -
      have "n div 128 * 128 * 2 ^ (7 * i) \<le> n * 2 ^ (7 * i)" by (intro mult_le_mono1) simp
      then have "n div 128 * 128 * 2 ^ (7 * i) < 2 ^ 64" using "1.prems"(1) by (rule le_less_trans)
      then show ?thesis by (simp only: pow mult.assoc)
    qed
    have "i + 1 < 10" using small "1.prems"(2) False by (cases "i = 9") auto
    from "1.IH" [OF False bound this lt] obtain w where
      w: "parseVarintFrom (i + 1) ?v (7 * (i + 1)) (encodeVarint (n div 128) @ rest)
            = Inr (w, i + 1 + length (encodeVarint (n div 128)))"
        "unat w = unat ?v + n div 128 * 2 ^ (7 * (i + 1))" by blast
    have "parseVarintFrom i v (7 * i) (encodeVarint n @ rest)
        = parseVarintFrom (i + 1) ?v (7 * i + 7) (encodeVarint (n div 128) @ rest)"
      using ok nz by (simp only: e append.simps parseVarintFrom.simps Let_def if_False)
    moreover have "unat w = unat v + n * 2 ^ (7 * i)"
    proof -
      have "n * 2 ^ (7 * i) = (n mod 128 + n div 128 * 128) * 2 ^ (7 * i)" by simp
      then show ?thesis using w(2) step pow by (simp only: algebra_simps)
    qed
    ultimately show ?thesis using w(1) e by (simp add: add.commute)
  qed
qed

lemma parseVarint_encoded:
  assumes "n < 2 ^ 64"
  shows "ParseVarint (encodeVarint n @ rest) = Inr (of_nat n, length (encodeVarint n))"
proof -
  from parseVarintFrom_encode [of n 0 0 rest] assms obtain w where
    w: "parseVarintFrom 0 0 0 (encodeVarint n @ rest) = Inr (w, length (encodeVarint n))" "unat w = n"
    by auto
  then have "w = of_nat n" by (metis of_nat_unat ucast_id)
  with w show ?thesis by (simp add: ParseVarint_def)
qed

text \<open>Varint round trip: every number below \<open>2^64\<close>, encoded canonically and followed by
  anything, is decoded to itself, and exactly its encoding is consumed.\<close>

theorem ParseVarint_encodeVarint:
  assumes "n < 2 ^ 64"
  shows "ParseVarint (encodeVarint n @ rest) = Inr (of_nat n, length (encodeVarint n))"
  by (rule parseVarint_encoded [OF assms])

lemma ParseVarint_encodeVarint_witness:
  "ParseVarint (encodeVarint (2 ^ 64 - 1) @ [7]) = Inr (of_nat (2 ^ 64 - 1), length (encodeVarint (2 ^ 64 - 1)))"
  by (rule ParseVarint_encodeVarint) simp

section \<open>Fields\<close>

text \<open>A protobuf field as a value, its encoding, and the tag and value bytes a callback sees.\<close>

datatype field_value =
    VarintField nat
  | Fixed64Field "byte list"
  | LengthDelimField "byte list"
  | Fixed32Field "byte list"

type_synonym pb_field = "nat \<times> field_value"

fun field_wire :: "field_value \<Rightarrow> 64 word" where
  "field_wire (VarintField _) = WireVarint"
| "field_wire (Fixed64Field _) = Wire64Bit"
| "field_wire (LengthDelimField _) = WireLengthDelim"
| "field_wire (Fixed32Field _) = Wire32Bit"

fun field_ok :: "pb_field \<Rightarrow> bool" where
  "field_ok (k, v) = (0 < k \<and> k < 2 ^ 29 \<and>
     (case v of VarintField n \<Rightarrow> n < 2 ^ 64 | Fixed64Field d \<Rightarrow> length d = 8
      | LengthDelimField d \<Rightarrow> length d < 2 ^ 64 | Fixed32Field d \<Rightarrow> length d = 4))"

definition encodeTag :: "nat \<Rightarrow> 64 word \<Rightarrow> byte list" where
  "encodeTag k w = encodeVarint (8 * k + unat w)"

fun encodeValue :: "field_value \<Rightarrow> byte list" where
  "encodeValue (VarintField n) = encodeVarint n"
| "encodeValue (Fixed64Field d) = d"
| "encodeValue (LengthDelimField d) = encodeVarint (length d) @ d"
| "encodeValue (Fixed32Field d) = d"

fun encodeField :: "pb_field \<Rightarrow> byte list" where
  "encodeField (k, v) = encodeTag k (field_wire v) @ encodeValue v"

fun field_view :: "pb_field \<Rightarrow> tag \<times> byte list" where
  "field_view (k, v) = (\<lparr>FieldNumber = k, WireType = field_wire v\<rparr>,
     (case v of LengthDelimField d \<Rightarrow> d | _ \<Rightarrow> encodeValue v))"

text \<open>The reference traversal: the callback over the fields in order, until it says stop.\<close>

fun visit_fields :: "(tag \<Rightarrow> byte list \<Rightarrow> 's \<Rightarrow> bool \<times> 's) \<Rightarrow> pb_field list \<Rightarrow> 's \<Rightarrow> 's" where
  "visit_fields fn [] s = s"
| "visit_fields fn (f # fs) s =
     (case field_view f of (t, d) \<Rightarrow>
       (case fn t d s of (go, s') \<Rightarrow> if go then visit_fields fn fs s' else s'))"

lemma encodeVarint_nonempty: "encodeVarint n \<noteq> []"
  by (subst encodeVarint.simps) simp

lemma ParseTag_encodeTag:
  assumes "0 < k" "k < 2 ^ 29" "unat w < 8"
  shows "ParseTag (encodeTag k w @ rest) = Inr (\<lparr>FieldNumber = k, WireType = w\<rparr>, length (encodeTag k w))"
proof -
  define v where "v = (of_nat (8 * k + unat w) :: 64 word)"
  have v: "unat v = 8 * k + unat w"
    using assms unfolding v_def by (simp only: unsigned_of_nat take_bit_eq_mod) simp
  have "unat (drop_bit 3 v) = drop_bit 3 (8 * k + unat w)" by (use assms in \<open>simp only: unsigned_drop_bit_eq v, simp add: take_bit_nat_eq_self\<close>)
  then have k: "unat (drop_bit 3 v) = k" using assms(3) by (simp add: drop_bit_eq_div)
  have "unat (take_bit 3 v) = take_bit 3 (8 * k + unat w)" by (simp only: unsigned_take_bit_eq v)
  also have "\<dots> = unat w" using assms(3) by (simp add: take_bit_eq_mod)
  finally have "take_bit 3 v = w" by (simp only: word_unat_eq_iff)
  moreover have "v AND 7 = take_bit 3 v" by (simp add: take_bit_eq_mask mask_eq_exp_minus_1)
  ultimately have w: "v AND 7 = w" by simp
  have "drop_bit 3 v \<noteq> 0" using k assms(1) by (metis neq0_conv unsigned_0)
  moreover have "\<not> drop_bit 3 v > maxProtoFieldNumber"
    unfolding word_less_nat_alt k using assms(2) by (simp add: maxProtoFieldNumber_def)
  moreover have "ParseVarint (encodeTag k w @ rest) = Inr (v, length (encodeTag k w))"
    unfolding encodeTag_def v_def using assms by (intro parseVarint_encoded) simp
  ultimately show ?thesis using k w by (simp add: ParseTag_def Let_def)
qed

lemma WalkFields_step:
  assumes "field_ok (k, v)"
  shows "WalkFields fn (encodeField (k, v) @ rest) s =
    (case field_view (k, v) of (t, d) \<Rightarrow> (case fn t d s of (go, s') \<Rightarrow>
      if go then WalkFields fn rest s' else (None, s')))"
proof -
  have ne: "encodeField (k, v) @ rest \<noteq> []" by (simp add: encodeTag_def encodeVarint_nonempty)
  have tag: "ParseTag (encodeField (k, v) @ rest)
      = Inr (\<lparr>FieldNumber = k, WireType = field_wire v\<rparr>, length (encodeTag k (field_wire v)))"
    using ParseTag_encodeTag [of k "field_wire v" "encodeValue v @ rest"] assms
    by (cases v) (simp_all add: wire_types)
  have dr: "drop (length (encodeTag k (field_wire v))) (encodeField (k, v) @ rest) = encodeValue v @ rest"
    by simp
  note unfold = WalkFields.simps [of fn "encodeField (k, v) @ rest"]
  show ?thesis
  proof (cases v)
    case (VarintField n)
    then show ?thesis using ne tag dr assms parseVarint_encoded [of n rest]
      by (subst unfold) (auto simp: wire_types split: prod.splits)
  next
    case (Fixed64Field d)
    then show ?thesis using ne tag dr assms
      by (subst unfold) (auto simp: wire_types split: prod.splits)
  next
    case (LengthDelimField d)
    then have n: "unat (of_nat (length d) :: 64 word) = length d"
      using assms by (simp add: unsigned_of_nat take_bit_eq_mod)
    with LengthDelimField show ?thesis
      using ne tag dr assms parseVarint_encoded [of "length d" "d @ rest"]
      by (subst unfold) (auto simp: wire_types split: prod.splits)
  next
    case (Fixed32Field d)
    then show ?thesis using ne tag dr assms
      by (subst unfold) (auto simp: wire_types split: prod.splits)
  qed
qed

text \<open>C35. Walking an encoded message calls the callback once per field, in order, with the field's
  number, wire type and value bytes (the length prefix stripped), stops exactly when the callback
  says so, and never reports an error, for every callback and every starting state.\<close>

theorem WalkFields_encoded:
  assumes "\<forall>f\<in>set fs. field_ok f"
  shows "WalkFields fn (concat (map encodeField fs)) s = (None, visit_fields fn fs s)"
  using assms
proof (induction fs arbitrary: s)
  case Nil
  then show ?case by (simp add: WalkFields.simps)
next
  case (Cons f fs)
  obtain k v where f: "f = (k, v)" by fastforce
  show ?case using Cons WalkFields_step [of k v fn "concat (map encodeField fs)" s] f
    by (auto split: prod.splits)
qed

lemma WalkFields_encoded_witness:
  "WalkFields (\<lambda>t d n. (n < 2, n + length d)) (concat (map encodeField
      [(1, LengthDelimField [104, 105]), (2, VarintField 300), (3, Fixed32Field [1, 2, 3, 4])])) (0 :: nat)
    = (None, visit_fields (\<lambda>t d n. (n < 2, n + length d))
        [(1, LengthDelimField [104, 105]), (2, VarintField 300), (3, Fixed32Field [1, 2, 3, 4])] 0)"
  by (rule WalkFields_encoded) simp

end
