(* ===== verification/Media_Type.thy ===== *)
theory Media_Type
  imports Go_Prelude
begin

text \<open>
  Media types and header lookup, \<^verbatim>\<open>pkg/mediatype/mediatype.go\<close>. A header map is an
  association list in the order one \<^verbatim>\<open>range\<close> visits it; \<open>Header\<close> is shown not to
  depend on that order.
\<close>

type_synonym headers = "(string, string) gomap"

definition Base :: "string \<Rightarrow> string" where
  "Base ct = (if ct = [] then [] else to_lower (trim_space (before_first (CHR '';'') ct)))"

definition Header :: "headers \<Rightarrow> string \<Rightarrow> string" where
  "Header hs name =
     (case map_get hs name of Some v \<Rightarrow> v
      | None \<Rightarrow>
          (case least_by (\<lambda>k. equal_fold k name) None (map fst hs) of None \<Rightarrow> []
           | Some k \<Rightarrow> (case map_get hs k of Some v \<Rightarrow> v | None \<Rightarrow> [])))"

lemma Base_Nil [simp]: "Base [] = []"
  by (simp add: Base_def)

lemma Base_lower [simp]: "to_lower (Base ct) = Base ct"
  by (simp add: Base_def)

lemma Header_perm: "mset hs = mset hs' \<Longrightarrow> map_wf hs \<Longrightarrow> Header hs name = Header hs' name"
  using map_get_perm [of hs hs'] least_by_perm [of "map fst hs" "map fst hs'" "\<lambda>k. equal_fold k name"]
  by (simp only: Header_def mset_map)

lemma Header_absent: "(\<forall>k\<in>fst ` set hs. \<not> equal_fold k name) \<Longrightarrow> Header hs name = []"
proof -
  assume a: "\<forall>k\<in>fst ` set hs. \<not> equal_fold k name"
  then have "map_get hs name = None" by (metis equal_fold_refl map_of_eq_None_iff)
  moreover have "least_by (\<lambda>k. equal_fold k name) None (map fst hs) = None"
    using a by (subst least_by_None) auto
  ultimately show ?thesis by (simp add: Header_def)
qed

lemma Header_unique:
  assumes "map_wf hs" "(k, v) \<in> set hs" "equal_fold k name"
    and "\<forall>k'\<in>fst ` set hs. equal_fold k' name \<longrightarrow> k' = k"
  shows "Header hs name = v"
proof (cases "map_get hs name")
  case None
  have m: "map_get hs k = Some v" using assms(1,2) by (rule map_get_SomeI)
  have "least_by (\<lambda>k. equal_fold k name) None (map fst hs) = Some k"
  proof (cases "least_by (\<lambda>k. equal_fold k name) None (map fst hs)")
    case None
    moreover have "k \<in> set (map fst hs)" using assms(2) by force
    ultimately show ?thesis using assms(3) by (subst (asm) least_by_None) auto
  next
    case (Some k')
    then have "k' \<in> fst ` set hs" "equal_fold k' name" using least_by_Some [OF Some] by auto
    with Some assms(4) show ?thesis by blast
  qed
  then show ?thesis using None m by (simp add: Header_def)
next
  case (Some v')
  then have "name = k" using assms(4) by (metis equal_fold_refl image_eqI fst_conv map_of_SomeD)
  then show ?thesis using Some assms(1,2) by (simp add: Header_def map_get_SomeI)
qed

text \<open>Header lookup is a function of the header map alone: it does not depend on the order in
  which Go visits the map, it finds a header whatever its letter case, and when several spellings
  of one name are present it takes the exact one, or else the lexicographically smallest.\<close>

theorem Header_deterministic:
  assumes "map_wf hs" "mset hs' = mset hs"
  shows "Header hs' name = Header hs name
    \<and> (case map_get hs name of Some v \<Rightarrow> Header hs name = v
       | None \<Rightarrow> Header hs name = [] \<and> (\<forall>k\<in>fst ` set hs. \<not> equal_fold k name)
           \<or> (\<exists>k. equal_fold k name \<and> map_get hs k = Some (Header hs name)
                \<and> (\<forall>k'\<in>fst ` set hs. equal_fold k' name \<longrightarrow> k \<le> k')))"
proof
  show "Header hs' name = Header hs name" using Header_perm [of hs hs' name] assms by simp
  show "case map_get hs name of Some v \<Rightarrow> Header hs name = v
       | None \<Rightarrow> Header hs name = [] \<and> (\<forall>k\<in>fst ` set hs. \<not> equal_fold k name)
           \<or> (\<exists>k. equal_fold k name \<and> map_get hs k = Some (Header hs name)
                \<and> (\<forall>k'\<in>fst ` set hs. equal_fold k' name \<longrightarrow> k \<le> k'))"
  proof (cases "map_get hs name")
    case None
    show ?thesis
    proof (cases "least_by (\<lambda>k. equal_fold k name) None (map fst hs)")
      case (Some k)
      have k: "k \<in> set (map fst hs) \<and> equal_fold k name
          \<and> (\<forall>k'\<in>set (map fst hs). equal_fold k' name \<longrightarrow> k \<le> k')"
        using least_by_Some [OF Some] .
      then obtain v where "map_get hs k = Some v"
        by (metis list.set_map map_of_eq_None_iff option.exhaust)
      with None Some k show ?thesis by (auto simp: Header_def)
    next
      case n: None
      then have "\<forall>k\<in>fst ` set hs. \<not> equal_fold k name" by (subst (asm) least_by_None) simp
      with None show ?thesis by (simp add: Header_absent)
    qed
  qed (simp add: Header_def)
qed

lemma Header_deterministic_witness:
  "Header [(''X'', ''3''), (''Content-type'', ''2''), (''CONTENT-TYPE'', ''1'')] ''content-type''
     = Header [(''CONTENT-TYPE'', ''1''), (''Content-type'', ''2''), (''X'', ''3'')] ''content-type''"
  by (rule Header_deterministic [THEN conjunct1]) (simp_all add: map_wf_def)

end
