(* ===== verification/Go_Netip.thy ===== *)
theory Go_Netip
  imports Go_Prelude "HOL-Library.Word"
begin

unbundle bit_operations_syntax

text \<open>
  What the code uses of \<^verbatim>\<open>net\<close> and \<^verbatim>\<open>net/netip\<close>: textual IP
  addresses and CIDR membership. An address is its bytes (4 or 16 of them, \<open>8 word\<close>s), as
  \<^verbatim>\<open>net.IP\<close> is a byte slice.
\<close>

type_synonym ip = "8 word list"

section \<open>Textual addresses\<close>

definition ipv4_octet :: "string \<Rightarrow> 8 word option" where
  "ipv4_octet f =
     (if f = [] \<or> length f > 3 \<or> \<not> list_all is_digit f \<or> (length f > 1 \<and> hd f = CHR ''0'') \<or> atoi f > 255
      then None else Some (of_nat (atoi f)))"

definition parse_ipv4 :: "string \<Rightarrow> ip option" where
  "parse_ipv4 s =
     (let fs = map ipv4_octet (split_on (CHR ''.'') s)
      in if length fs = 4 \<and> None \<notin> set fs then Some (map the fs) else None)"

definition hex_val :: "char \<Rightarrow> nat" where
  "hex_val c =
     (if is_digit c then byte_at c - 48
      else if in_range (CHR ''a'') (CHR ''f'') c then byte_at c - 87
      else byte_at c - 55)"

definition hex_nat :: "string \<Rightarrow> nat" where
  "hex_nat s = foldl (\<lambda>a c. 16 * a + hex_val c) 0 s"

text \<open>The group loop of \<^verbatim>\<open>parseIPv6\<close>: the bytes so far, the position of the
  ellipsis, and the text left. The result is the bytes and the ellipsis position, before the
  ellipsis is expanded.\<close>

function ipv6_groups :: "ip \<Rightarrow> nat option \<Rightarrow> string \<Rightarrow> (ip \<times> nat option) option" where
  "ipv6_groups acc ell s =
     (if length acc \<ge> 16 then (if s = [] then Some (acc, ell) else None)
      else
        let h = takeWhile is_hex s; r = dropWhile is_hex s in
        if h = [] \<or> length h > 4 then None
        else if r \<noteq> [] \<and> hd r = CHR ''.'' then
          (if (ell = None \<and> length acc \<noteq> 12) \<or> length acc + 4 > 16 then None
           else map_option (\<lambda>v4. (acc @ v4, ell)) (parse_ipv4 s))
        else
          let acc' = acc @ [of_nat (hex_nat h div 256), of_nat (hex_nat h)] in
          (case r of [] \<Rightarrow> Some (acc', ell)
           | [_] \<Rightarrow> None
           | c # d # r' \<Rightarrow>
               if c \<noteq> CHR '':'' then None
               else if d = CHR '':'' then
                 (if ell \<noteq> None then None
                  else if r' = [] then Some (acc', Some (length acc'))
                  else ipv6_groups acc' (Some (length acc')) r')
               else ipv6_groups acc' ell (d # r')))"
  by pat_completeness auto
termination
proof (relation "measure (\<lambda>(_, _, s). length s)", goal_cases)
  case (2 acc ell s h r acc' c l d r')
  have "length s = length h + length r" using 2 by (metis length_append takeWhile_dropWhile_id)
  moreover have "length r = Suc (Suc (length r'))" using 2 by (metis length_Cons)
  ultimately show ?case by simp
next
  case (3 acc ell s h r acc' c l d r')
  have "length s = length h + length r" using 3 by (metis length_append takeWhile_dropWhile_id)
  moreover have "length r = Suc (Suc (length r'))" using 3 by (metis length_Cons)
  ultimately show ?case using 3 by simp
qed simp

declare ipv6_groups.simps [simp del]

definition parse_ipv6 :: "string \<Rightarrow> (ip \<times> string) option" where
  "parse_ipv6 t =
     (let (s, z) = cut (CHR ''%'') t in
      if z = Some [] then None
      else let zone = (case z of None \<Rightarrow> [] | Some x \<Rightarrow> x);
               lead = has_prefix s ''::'';
               s' = (if lead then drop 2 s else s)
           in if lead \<and> s' = [] then Some (replicate 16 0, zone)
              else (case ipv6_groups [] (if lead then Some 0 else None) s' of None \<Rightarrow> None
                | Some (bs, ell) \<Rightarrow>
                    if length bs < 16 then
                      (case ell of None \<Rightarrow> None
                       | Some e \<Rightarrow> Some (take e bs @ replicate (16 - length bs) 0 @ drop e bs, zone))
                    else if ell \<noteq> None then None else Some (bs, zone)))"

text \<open>\<^verbatim>\<open>netip.ParseAddr\<close>: the bytes and the zone.\<close>

definition ParseAddr :: "string \<Rightarrow> (ip \<times> string) option" where
  "ParseAddr s =
     (case filter (\<lambda>c. c \<in> {CHR ''.'', CHR '':'', CHR ''%''}) s of [] \<Rightarrow> None
      | c # _ \<Rightarrow> if c = CHR ''.'' then map_option (\<lambda>a. (a, [])) (parse_ipv4 s)
                else if c = CHR '':'' then parse_ipv6 s else None)"

definition v4_prefix :: ip where
  "v4_prefix = replicate 10 0 @ [255, 255]"

text \<open>\<^verbatim>\<open>net.ParseIP\<close>: always 16 bytes, IPv4 in its mapped form; zones are refused.\<close>

definition ParseIP :: "string \<Rightarrow> ip option" where
  "ParseIP s =
     (case ParseAddr s of None \<Rightarrow> None
      | Some (a, zone) \<Rightarrow> if zone \<noteq> [] then None
          else Some (if length a = 4 then v4_prefix @ a else a))"

definition To4 :: "ip \<Rightarrow> ip option" where
  "To4 a = (if length a = 4 then Some a
            else if length a = 16 \<and> take 12 a = v4_prefix then Some (drop 12 a) else None)"

definition IsUnspecified :: "ip \<Rightarrow> bool" where
  "IsUnspecified a = (a = v4_prefix @ [0, 0, 0, 0] \<or> a = [0, 0, 0, 0] \<or> a = replicate 16 0)"

section \<open>Networks\<close>

type_synonym ipnet = "ip \<times> 8 word list"

text \<open>The mask bytes of a prefix length, and \<^verbatim>\<open>IPNet.Contains\<close>.\<close>

fun cidr_mask :: "nat \<Rightarrow> nat \<Rightarrow> 8 word list" where
  "cidr_mask 0 ones = []"
| "cidr_mask (Suc k) ones = (if ones \<ge> 8 then 255 # cidr_mask k (ones - 8)
     else (255 - (2 ^ (8 - ones) - 1)) # cidr_mask k 0)"

definition Contains :: "ipnet \<Rightarrow> ip \<Rightarrow> bool" where
  "Contains n ip =
     (case n of (nip, m) \<Rightarrow>
        let nn = (case To4 nip of Some x \<Rightarrow> x | None \<Rightarrow> nip);
            a = (case To4 ip of Some x \<Rightarrow> x | None \<Rightarrow> ip)
        in length a = length nn \<and> map2 (AND) nn m = map2 (AND) a m)"

text \<open>\<^verbatim>\<open>net.ParseCIDR\<close>, its network part.\<close>

definition ParseCIDR :: "string \<Rightarrow> ipnet option" where
  "ParseCIDR s =
     (case cut (CHR ''/'') s of (addr, Some bits) \<Rightarrow>
        (case ParseAddr addr of Some (a, zone) \<Rightarrow>
           if zone \<noteq> [] \<or> bits = [] \<or> \<not> list_all is_digit bits \<or> atoi bits > 8 * length a then None
           else let m = cidr_mask (length a) (atoi bits) in Some (map2 (AND) a m, m)
         | None \<Rightarrow> None)
      | _ \<Rightarrow> None)"

section \<open>Lengths\<close>

lemma parse_ipv4_length: "parse_ipv4 s = Some a \<Longrightarrow> length a = 4"
  by (auto simp: parse_ipv4_def Let_def split: if_splits)

definition ell_ok :: "ip \<Rightarrow> nat option \<Rightarrow> bool" where
  "ell_ok acc ell = (length acc \<le> 16 \<and> (case ell of None \<Rightarrow> True | Some k \<Rightarrow> k \<le> length acc))"

lemma ell_ok_more:
  "ell_ok acc ell \<Longrightarrow> length acc + length b \<le> 16 \<Longrightarrow> ell_ok (acc @ b) ell"
  "length acc + 2 \<le> 16 \<Longrightarrow> ell_ok (acc @ [x, y]) (Some (length acc + 2))"
  by (auto simp: ell_ok_def split: option.splits)

lemma ipv6_groups_length:
  "ipv6_groups acc ell s = Some (bs, e) \<Longrightarrow> even (length acc) \<Longrightarrow> ell_ok acc ell \<Longrightarrow> ell_ok bs e"
proof (induction acc ell s rule: ipv6_groups.induct)
  case (1 acc ell s)
  show ?case
  proof (cases "length acc \<ge> 16")
    case True
    then show ?thesis using "1.prems" by (auto simp: ipv6_groups.simps split: if_splits)
  next
    case small: False
    let ?h = "takeWhile is_hex s" and ?r = "dropWhile is_hex s"
    let ?acc = "acc @ [of_nat (hex_nat ?h div 256), of_nat (hex_nat ?h)] :: ip"
    have l: "length acc + 2 \<le> 16" using small "1.prems"(2) by presburger
    have h: "\<not> (?h = [] \<or> length ?h > 4)"
      using "1.prems"(1) small by (subst (asm) ipv6_groups.simps) (auto simp: Let_def simp del: dropWhile_eq_Nil_conv takeWhile_eq_Nil_iff split: if_splits)
    note IH = "1.IH"(1) [OF small refl refl h] "1.IH"(2) [OF small refl refl h]
    have ok: "ell_ok ?acc ell" using ell_ok_more(1) [OF "1.prems"(3)] l by simp
    have ok': "ell_ok ?acc (Some (length ?acc))"
      using ell_ok_more(2) [OF l] by simp
    show ?thesis
    proof (cases "?r \<noteq> [] \<and> hd ?r = CHR ''.''")
      case True
      then show ?thesis using "1.prems"(1,3) small h
        by (subst (asm) ipv6_groups.simps)
          (auto simp: Let_def intro!: ell_ok_more dest: parse_ipv4_length split: if_splits)
    next
      case dot: False
      consider "?r = []" | c where "?r = [c]" | c d r' where "?r = c # d # r'"
        by (metis list.exhaust)
      then show ?thesis
      proof cases
        case 1
        then show ?thesis using "1.prems"(1) small h ok
          by (subst (asm) ipv6_groups.simps) (simp add: Let_def del: dropWhile_eq_Nil_conv takeWhile_eq_Nil_iff)
      next
        case 2
        then show ?thesis using "1.prems"(1) small h dot
          by (subst (asm) ipv6_groups.simps) (auto simp: Let_def simp del: dropWhile_eq_Nil_conv takeWhile_eq_Nil_iff split: if_splits)
      next
        case (3 c d r')
        have c: "c = CHR '':''"
          using "1.prems"(1) small h dot 3 by (subst (asm) ipv6_groups.simps) (auto simp: Let_def simp del: dropWhile_eq_Nil_conv takeWhile_eq_Nil_iff split: if_splits)
        show ?thesis
        proof (cases "d = CHR '':''")
          case True
          have e: "ell = None"
            using "1.prems"(1) small h dot 3 c True by (subst (asm) ipv6_groups.simps) (auto simp: Let_def simp del: dropWhile_eq_Nil_conv takeWhile_eq_Nil_iff split: if_splits)
          show ?thesis
          proof (cases "r' = []")
            case True
            then show ?thesis using "1.prems"(1) small h dot 3 c \<open>d = CHR '':''\<close> e ok'
              by (subst (asm) ipv6_groups.simps) (auto simp: Let_def simp del: dropWhile_eq_Nil_conv takeWhile_eq_Nil_iff split: if_splits)
          next
            case False
            have "ipv6_groups ?acc (Some (length ?acc)) r' = Some (bs, e)"
              using "1.prems"(1) small h dot 3 c True \<open>ell = None\<close> False
              by (subst (asm) ipv6_groups.simps) (simp add: Let_def del: dropWhile_eq_Nil_conv takeWhile_eq_Nil_iff)
            with IH(1) [OF dot refl 3 refl] c True \<open>ell = None\<close> False "1.prems"(2) ok' show ?thesis by simp
          qed
        next
          case False
          have "ipv6_groups ?acc ell (d # r') = Some (bs, e)"
            using "1.prems"(1) small h dot 3 c False by (subst (asm) ipv6_groups.simps) (simp add: Let_def del: dropWhile_eq_Nil_conv takeWhile_eq_Nil_iff)
          with IH(2) [OF dot refl 3 refl] c False "1.prems"(2) ok show ?thesis by simp
        qed
      qed
    qed
  qed
qed

lemma parse_ipv6_length: "parse_ipv6 s = Some (a, z) \<Longrightarrow> length a = 16"
  by (auto simp: parse_ipv6_def Let_def split: if_splits prod.splits option.splits
      simp: ell_ok_def dest!: ipv6_groups_length)

lemma ParseIP_length: "ParseIP s = Some a \<Longrightarrow> length a = 16"
  by (auto simp: ParseIP_def ParseAddr_def v4_prefix_def split: option.splits if_splits list.splits
      dest: parse_ipv4_length parse_ipv6_length)

end
