(* ===== verification/Go_Url.thy ===== *)
theory Go_Url
  imports Go_Netip
begin

text \<open>
  What the code uses of \<^verbatim>\<open>net/url\<close> (Go 1.25): \<open>parse_url\<close> is
  \<^verbatim>\<open>url.Parse\<close> with \<open>None\<close> for an error, \<open>url_string\<close> is
  \<^verbatim>\<open>URL.String\<close>, \<open>Hostname\<close> and \<open>Port\<close> the methods of those
  names. Error values are not distinguished, as no caller does.
\<close>

record url =
  Scheme :: string
  Opaque :: string
  User :: "(string \<times> string option) option"
  Host :: string
  Path :: string
  RawPath :: string
  OmitHost :: bool
  ForceQuery :: bool
  RawQuery :: string
  Fragment :: string
  RawFragment :: string

definition empty_url :: url where
  "empty_url = \<lparr>Scheme = [], Opaque = [], User = None, Host = [], Path = [], RawPath = [],
     OmitHost = False, ForceQuery = False, RawQuery = [], Fragment = [], RawFragment = []\<rparr>"

section \<open>Escaping\<close>

datatype enc_mode = EncPath | EncHost | EncZone | EncUser | EncFragment

definition is_alnum :: "char \<Rightarrow> bool" where
  "is_alnum c = (is_digit c \<or> is_lower c \<or> is_upper c)"

definition should_escape :: "enc_mode \<Rightarrow> char \<Rightarrow> bool" where
  "should_escape mode c =
     (if is_alnum c then False
      else if (mode = EncHost \<or> mode = EncZone) \<and> c \<in> set (CHR 0x27 # CHR 0x22 # ''!$&()*+,;=:[]<>'') then False
      else if c \<in> set ''-_.~'' then False
      else if c \<in> set ''$&+,/:;=?@''
        then (case mode of EncPath \<Rightarrow> c = CHR ''?'' | EncUser \<Rightarrow> c \<in> set ''@/?:''
          | EncFragment \<Rightarrow> False | _ \<Rightarrow> True)
      else if mode = EncFragment \<and> c \<in> set ''!()*'' then False
      else True)"

definition unhex2 :: "char \<Rightarrow> char \<Rightarrow> char" where
  "unhex2 a b = char_of (16 * hex_val a + hex_val b)"

fun unescape :: "enc_mode \<Rightarrow> string \<Rightarrow> string option" where
  "unescape m [] = Some []"
| "unescape m (c # s) =
     (if c = CHR ''%'' then
        (case s of h1 # h2 # r \<Rightarrow>
           if \<not> is_hex h1 \<or> \<not> is_hex h2 then None
           else if m = EncHost \<and> hex_val h1 < 8 \<and> [h1, h2] \<noteq> ''25'' then None
           else if m = EncZone \<and> [h1, h2] \<noteq> ''25'' \<and> unhex2 h1 h2 \<noteq> CHR '' ''
             \<and> should_escape EncHost (unhex2 h1 h2) then None
           else map_option ((#) (unhex2 h1 h2)) (unescape m r)
         | _ \<Rightarrow> None)
      else if (m = EncHost \<or> m = EncZone) \<and> byte_at c < 128 \<and> should_escape m c then None
      else map_option ((#) c) (unescape m s))"

definition hex_digit :: "nat \<Rightarrow> char" where
  "hex_digit n = (if n < 10 then digit_char n else char_of (55 + n))"

definition escape :: "enc_mode \<Rightarrow> string \<Rightarrow> string" where
  "escape m s = concat (map (\<lambda>c. if should_escape m c
     then [CHR ''%'', hex_digit (byte_at c div 16), hex_digit (byte_at c mod 16)] else [c]) s)"

definition valid_encoded :: "enc_mode \<Rightarrow> string \<Rightarrow> bool" where
  "valid_encoded m s = list_all (\<lambda>c. c \<in> set (CHR 0x27 # ''!$&()*+,;=:@[]%'') \<or> \<not> should_escape m c) s"

section \<open>Parsing\<close>

definition cut_last :: "char \<Rightarrow> string \<Rightarrow> (string \<times> string) option" where
  "cut_last c s = (if c \<in> set s
     then let r = takeWhile (\<lambda>x. x \<noteq> c) (rev s)
          in Some (take (length s - length r - 1) s, rev r) else None)"

fun find_sub :: "string \<Rightarrow> string \<Rightarrow> (string \<times> string) option" where
  "find_sub sub [] = (if sub = [] then Some ([], []) else None)"
| "find_sub sub (c # s) = (if has_prefix (c # s) sub then Some ([], c # s)
     else map_option (\<lambda>(a, b). (c # a, b)) (find_sub sub s))"

definition valid_optional_port :: "string \<Rightarrow> bool" where
  "valid_optional_port p = (case p of [] \<Rightarrow> True | c # ds \<Rightarrow> c = CHR '':'' \<and> list_all is_digit ds)"

text \<open>\<^verbatim>\<open>getScheme\<close>: the scheme and the rest, or an error.\<close>

fun scheme_from :: "string \<Rightarrow> string \<Rightarrow> string \<Rightarrow> (string \<times> string) option" where
  "scheme_from whole acc [] = Some ([], whole)"
| "scheme_from whole acc (c # s) =
     (if is_lower c \<or> is_upper c then scheme_from whole (acc @ [c]) s
      else if is_digit c \<or> c \<in> set ''+-.'' then
        (if acc = [] then Some ([], whole) else scheme_from whole (acc @ [c]) s)
      else if c = CHR '':'' then (if acc = [] then None else Some (acc, s))
      else Some ([], whole))"

definition getScheme :: "string \<Rightarrow> (string \<times> string) option" where
  "getScheme s = scheme_from s [] s"

definition parseHost :: "string \<Rightarrow> string option" where
  "parseHost host =
     (if CHR ''['' \<in> set host then
        (if hd host \<noteq> CHR ''['' \<or> CHR ''['' \<in> set (tl host) then None
         else (case cut_last (CHR '']'') (tl host) of None \<Rightarrow> None
           | Some (name, port) \<Rightarrow>
               if \<not> valid_optional_port port then None
               else
                 (case (case find_sub ''%25'' name of None \<Rightarrow> unescape EncHost name
                     | Some (h, z) \<Rightarrow>
                         (case (unescape EncHost h, unescape EncZone z) of
                            (Some h', Some z') \<Rightarrow> Some (h' @ z') | _ \<Rightarrow> None)) of None \<Rightarrow> None
                  | Some name' \<Rightarrow>
                      (case ParseAddr name' of None \<Rightarrow> None
                       | Some (a, _) \<Rightarrow> if length a = 4 then None
                           else Some (''['' @ name' @ '']'' @ port)))))
      else if (case after_last (CHR '':'') host of None \<Rightarrow> True | Some p \<Rightarrow> list_all is_digit p)
        then unescape EncHost host else None)"

definition valid_userinfo :: "string \<Rightarrow> bool" where
  "valid_userinfo s = list_all (\<lambda>c. is_alnum c \<or> c \<in> set (CHR 0x27 # ''-._:~!$&()*+,;=%@'')) s"

definition parseAuthority :: "string \<Rightarrow> ((string \<times> string option) option \<times> string) option" where
  "parseAuthority auth =
     (case cut_last (CHR ''@'') auth of
        None \<Rightarrow> map_option (\<lambda>h. (None, h)) (parseHost auth)
      | Some (ui, h) \<Rightarrow>
          (case parseHost h of None \<Rightarrow> None
           | Some host \<Rightarrow>
               if \<not> valid_userinfo ui then None
               else (case cut (CHR '':'') ui of
                   (name, None) \<Rightarrow> map_option (\<lambda>n. (Some (n, None), host)) (unescape EncUser name)
                 | (name, Some pw) \<Rightarrow>
                     (case (unescape EncUser name, unescape EncUser pw) of
                        (Some n, Some p) \<Rightarrow> Some (Some (n, Some p), host) | _ \<Rightarrow> None))))"

definition setPath :: "string \<Rightarrow> url \<Rightarrow> url option" where
  "setPath p u = (case unescape EncPath p of None \<Rightarrow> None
     | Some path \<Rightarrow> Some (u\<lparr>Path := path, RawPath := (if escape EncPath path = p then [] else p)\<rparr>))"

definition setFragment :: "string \<Rightarrow> url \<Rightarrow> url option" where
  "setFragment f u = (case unescape EncFragment f of None \<Rightarrow> None
     | Some fr \<Rightarrow> Some (u\<lparr>Fragment := fr, RawFragment := (if escape EncFragment fr = f then [] else f)\<rparr>))"

definition is_ctl :: "char \<Rightarrow> bool" where
  "is_ctl c = (byte_at c < 32 \<or> byte_at c = 127)"

text \<open>\<^verbatim>\<open>parse(rawURL, false)\<close>: everything but the fragment.\<close>

definition parse_rest :: "url \<Rightarrow> string \<Rightarrow> url option" where
  "parse_rest u rest =
     (if \<not> has_prefix rest ''/'' \<and> Scheme u \<noteq> [] then Some (u\<lparr>Opaque := rest\<rparr>)
      else if \<not> has_prefix rest ''/'' \<and> CHR '':'' \<in> set (before_first (CHR ''/'') rest) then None
      else if (Scheme u \<noteq> [] \<or> \<not> has_prefix rest ''///'') \<and> has_prefix rest ''//'' then
        (let auth = before_first (CHR ''/'') (drop 2 rest); rest' = drop (length auth) (drop 2 rest)
         in (case parseAuthority auth of None \<Rightarrow> None
             | Some (user, host) \<Rightarrow> setPath rest' (u\<lparr>User := user, Host := host\<rparr>)))
      else if Scheme u \<noteq> [] \<and> has_prefix rest ''/'' then setPath rest (u\<lparr>OmitHost := True\<rparr>)
      else setPath rest u)"

definition parse_nofrag :: "string \<Rightarrow> url option" where
  "parse_nofrag raw =
     (if list_ex is_ctl raw then None
      else if raw = ''*'' then Some (empty_url\<lparr>Path := ''*''\<rparr>)
      else (case getScheme raw of None \<Rightarrow> None
        | Some (sch, rest) \<Rightarrow>
            let u = empty_url\<lparr>Scheme := to_lower sch\<rparr>;
                q = CHR ''?'' in
            if has_suffix rest [q] \<and> length (filter (\<lambda>c. c = q) rest) = 1
            then parse_rest (u\<lparr>ForceQuery := True\<rparr>) (butlast rest)
            else (case cut q rest of (r, oq) \<Rightarrow>
              parse_rest (u\<lparr>RawQuery := (case oq of None \<Rightarrow> [] | Some x \<Rightarrow> x)\<rparr>) r)))"

definition parse_url :: "string \<Rightarrow> url option" where
  "parse_url raw =
     (case cut (CHR ''#'') raw of (u, frag) \<Rightarrow>
        (case parse_nofrag u of None \<Rightarrow> None
         | Some r \<Rightarrow> (case frag of None \<Rightarrow> Some r
             | Some f \<Rightarrow> if f = [] then Some r else setFragment f r)))"

section \<open>Host and port\<close>

definition split_host_port :: "string \<Rightarrow> string \<times> string" where
  "split_host_port hp =
     (case (case cut_last (CHR '':'') hp of
          Some (h, p) \<Rightarrow> if list_all is_digit p then (h, p) else (hp, []) | None \<Rightarrow> (hp, [])) of
        (h, p) \<Rightarrow> (if has_prefix h ''['' \<and> has_suffix h '']'' then butlast (tl h) else h, p))"

definition Hostname :: "url \<Rightarrow> string" where "Hostname u = fst (split_host_port (Host u))"
definition Port :: "url \<Rightarrow> string" where "Port u = snd (split_host_port (Host u))"

section \<open>Printing\<close>

definition escaped_path :: "url \<Rightarrow> string" where
  "escaped_path u =
     (if RawPath u \<noteq> [] \<and> valid_encoded EncPath (RawPath u) \<and> unescape EncPath (RawPath u) = Some (Path u)
      then RawPath u
      else if Path u = ''*'' then ''*'' else escape EncPath (Path u))"

definition escaped_fragment :: "url \<Rightarrow> string" where
  "escaped_fragment u =
     (if RawFragment u \<noteq> [] \<and> valid_encoded EncFragment (RawFragment u)
         \<and> unescape EncFragment (RawFragment u) = Some (Fragment u)
      then RawFragment u else escape EncFragment (Fragment u))"

definition user_string :: "string \<times> string option \<Rightarrow> string" where
  "user_string ui = escape EncUser (fst ui) @
     (case snd ui of None \<Rightarrow> [] | Some p \<Rightarrow> '':'' @ escape EncUser p)"

definition url_string :: "url \<Rightarrow> string" where
  "url_string u =
     (let sch = (if Scheme u \<noteq> [] then Scheme u @ '':'' else []);
          body =
            (if Opaque u \<noteq> [] then sch @ Opaque u
             else
               let auth =
                     (if (Scheme u \<noteq> [] \<or> Host u \<noteq> [] \<or> User u \<noteq> None)
                         \<and> \<not> (OmitHost u \<and> Host u = [] \<and> User u = None)
                      then (if Host u \<noteq> [] \<or> Path u \<noteq> [] \<or> User u \<noteq> None then ''//'' else [])
                         @ (case User u of None \<Rightarrow> [] | Some ui \<Rightarrow> user_string ui @ ''@'')
                         @ (if Host u \<noteq> [] then escape EncHost (Host u) else [])
                      else []);
                   path = escaped_path u;
                   slash = (if path \<noteq> [] \<and> hd path \<noteq> CHR ''/'' \<and> Host u \<noteq> [] then ''/'' else []);
                   buf = sch @ auth @ slash;
                   dot = (if buf = [] \<and> CHR '':'' \<in> set (before_first (CHR ''/'') path) then ''./'' else [])
               in buf @ dot @ path)
      in body
         @ (if ForceQuery u \<or> RawQuery u \<noteq> [] then ''?'' @ RawQuery u else [])
         @ (if Fragment u \<noteq> [] then ''#'' @ escaped_fragment u else []))"

section \<open>Laws\<close>

lemma parse_url_fragment:
  assumes "CHR ''#'' \<notin> set raw" "parse_url (raw @ ''#'' @ f) = Some u"
  shows "\<exists>u'. parse_url raw = Some u' \<and> u = u'\<lparr>Fragment := Fragment u, RawFragment := RawFragment u\<rparr>"
proof -
  show ?thesis
  proof (cases "parse_nofrag raw")
    case None
    then show ?thesis using assms by (simp add: parse_url_def)
  next
    case (Some r)
    then show ?thesis using assms
      by (auto simp: parse_url_def setFragment_def split: if_splits option.splits)
  qed
qed

end
