(* ===== verification/Ssrf.thy ===== *)
theory Ssrf
  imports Go_Url
begin

text \<open>
  Protection against server-side request forgery, \<^verbatim>\<open>pkg/ssrf/ssrf.go\<close>. DNS and
  the dialer are not under \<^verbatim>\<open>src/\<close> and can fail at any time: they are the
  arguments \<open>lookup\<close> (\<open>None\<close> for a failed or timed-out lookup) and \<open>dial\<close>
  (\<open>None\<close> for a failed connection) of the definitions that call them, unconstrained.
\<close>

type_synonym resolver = "string \<Rightarrow> ip list option"

definition cidrs :: "string list" where
  "cidrs =
    [''0.0.0.0/8'', ''10.0.0.0/8'', ''100.64.0.0/10'', ''127.0.0.0/8'', ''169.254.0.0/16'',
     ''172.16.0.0/12'', ''192.0.0.0/24'', ''192.0.2.0/24'', ''192.168.0.0/16'', ''198.18.0.0/15'',
     ''198.51.100.0/24'', ''203.0.113.0/24'', ''224.0.0.0/4'', ''240.0.0.0/4'',
     ''::1/128'', ''fe80::/10'', ''fc00::/7'', ''2002::/16'', ''64:ff9b::/96'']"

text \<open>The package's \<^verbatim>\<open>init\<close>: \<open>None\<close> is the panic on a malformed entry.\<close>

fun init_networks :: "string list \<Rightarrow> ipnet list option" where
  "init_networks [] = Some []"
| "init_networks (c # cs) =
     (case ParseCIDR c of None \<Rightarrow> None | Some n \<Rightarrow> map_option ((#) n) (init_networks cs))"

definition privateNetworks :: "ipnet list" where
  "privateNetworks = (case init_networks cidrs of Some ns \<Rightarrow> ns | None \<Rightarrow> [])"

definition IsPrivateIP :: "ip \<Rightarrow> bool" where
  "IsPrivateIP a =
     (if length a = 0 then True
      else if IsUnspecified a then True
      else list_ex (\<lambda>n. Contains n a) privateNetworks)"

datatype ssrf_error =
    InvalidURL | UnsupportedScheme string | BlockedIP ip | LookupFailed string | ResolvesPrivate string ip
  | InvalidAddress string | NoAddresses string | DialFailed

fun first_private :: "ip list \<Rightarrow> ip option" where
  "first_private [] = None"
| "first_private (a # as) = (if IsPrivateIP a then Some a else first_private as)"

definition ValidateURLContext :: "resolver \<Rightarrow> string \<Rightarrow> ssrf_error + unit" where
  "ValidateURLContext lookup raw =
     (case parse_url raw of None \<Rightarrow> Inl InvalidURL
      | Some u \<Rightarrow>
          if Scheme u \<noteq> ''http'' \<and> Scheme u \<noteq> ''https'' then Inl (UnsupportedScheme (Scheme u))
          else
            let hostname = Hostname u in
            (case ParseIP hostname of
               Some a \<Rightarrow> if IsPrivateIP a then Inl (BlockedIP a) else Inr ()
             | None \<Rightarrow>
                 (case lookup hostname of None \<Rightarrow> Inl (LookupFailed hostname)
                  | Some addrs \<Rightarrow>
                      (case first_private addrs of Some a \<Rightarrow> Inl (ResolvesPrivate hostname a)
                       | None \<Rightarrow> Inr ()))))"

definition ValidateURL :: "resolver \<Rightarrow> string \<Rightarrow> ssrf_error + unit" where
  "ValidateURL lookup raw = ValidateURLContext lookup raw"

text \<open>\<^verbatim>\<open>net.SplitHostPort\<close>.\<close>

definition SplitHostPort :: "string \<Rightarrow> (string \<times> string) option" where
  "SplitHostPort hp =
     (case cut_last (CHR '':'') hp of None \<Rightarrow> None
      | Some (host, port) \<Rightarrow>
          if hd hp = CHR ''['' then
            (let inner = before_first (CHR '']'') (tl hp) in
             if CHR '']'' \<notin> set hp then None
             else if length inner + 2 \<noteq> length host then None
             else if CHR ''['' \<in> set (tl hp) \<or> CHR '']'' \<in> set (drop (length inner + 2) hp) then None
             else Some (inner, port))
          else if CHR '':'' \<in> set host \<or> CHR ''['' \<in> set hp \<or> CHR '']'' \<in> set hp then None
          else Some (host, port))"

text \<open>The dial loop: the addresses tried in order, and the first connection.\<close>

fun dial_first :: "(ip \<Rightarrow> string \<Rightarrow> 'conn option) \<Rightarrow> string \<Rightarrow> ip list \<Rightarrow> ip list \<times> 'conn option" where
  "dial_first dial port [] = ([], None)"
| "dial_first dial port (a # as) =
     (case dial a port of Some c \<Rightarrow> ([a], Some c)
      | None \<Rightarrow> (case dial_first dial port as of (tried, r) \<Rightarrow> (a # tried, r)))"

text \<open>The first component of the result is the trace of addresses dialled.\<close>

definition SafeDialContext ::
    "resolver \<Rightarrow> (ip \<Rightarrow> string \<Rightarrow> 'conn option) \<Rightarrow> string \<Rightarrow> ip list \<times> (ssrf_error + 'conn)" where
  "SafeDialContext lookup dial addr =
     (case SplitHostPort addr of None \<Rightarrow> ([], Inl (InvalidAddress addr))
      | Some (host, port) \<Rightarrow>
          (case lookup host of None \<Rightarrow> ([], Inl (LookupFailed host))
           | Some ips \<Rightarrow>
               if length ips = 0 then ([], Inl (NoAddresses host))
               else (case first_private ips of Some a \<Rightarrow> ([], Inl (ResolvesPrivate host a))
                 | None \<Rightarrow> (case dial_first dial port ips of
                     (tried, Some c) \<Rightarrow> (tried, Inr c) | (tried, None) \<Rightarrow> (tried, Inl DialFailed)))))"

section \<open>The block list, spelled out\<close>

lemma privateNetworks_list:
  "privateNetworks =
    [([0, 0, 0, 0], [255, 0, 0, 0]), ([10, 0, 0, 0], [255, 0, 0, 0]),
     ([100, 64, 0, 0], [255, 192, 0, 0]), ([127, 0, 0, 0], [255, 0, 0, 0]),
     ([169, 254, 0, 0], [255, 255, 0, 0]), ([172, 16, 0, 0], [255, 240, 0, 0]),
     ([192, 0, 0, 0], [255, 255, 255, 0]), ([192, 0, 2, 0], [255, 255, 255, 0]),
     ([192, 168, 0, 0], [255, 255, 0, 0]), ([198, 18, 0, 0], [255, 254, 0, 0]),
     ([198, 51, 100, 0], [255, 255, 255, 0]), ([203, 0, 113, 0], [255, 255, 255, 0]),
     ([224, 0, 0, 0], [240, 0, 0, 0]), ([240, 0, 0, 0], [240, 0, 0, 0]),
     ([0, 0, 0, 0, 0, 0, 0, 0, 0, 0, 0, 0, 0, 0, 0, 1], replicate 16 255),
     ([254, 128, 0, 0, 0, 0, 0, 0, 0, 0, 0, 0, 0, 0, 0, 0], [255, 192] @ replicate 14 0),
     ([252, 0, 0, 0, 0, 0, 0, 0, 0, 0, 0, 0, 0, 0, 0, 0], [254] @ replicate 15 0),
     ([32, 2, 0, 0, 0, 0, 0, 0, 0, 0, 0, 0, 0, 0, 0, 0], [255, 255] @ replicate 14 0),
     ([0, 100, 255, 155, 0, 0, 0, 0, 0, 0, 0, 0, 0, 0, 0, 0], replicate 12 255 @ replicate 4 0)]"
  by code_simp

text \<open>Masking the top bits of a byte rounds it down.\<close>

lemma unat_byte: "unat (b :: 8 word) < 256"
  using unsigned_less [of b] by simp

lemma unat_mask_high: "unat (b AND NOT (mask k) :: 8 word) = unat b div 2 ^ k * 2 ^ k"
proof -
  have "b AND NOT (mask k) = push_bit k (drop_bit k b)"
    by (rule bit_eqI) (auto simp: bit_simps)
  moreover have t: "take_bit 8 (unat b) = unat b"
    using unat_byte [of b] by (simp add: take_bit_nat_eq_self)
  ultimately have "unat (b AND NOT (mask k)) = take_bit 8 (push_bit k (drop_bit k (unat b)))"
    by (simp only: unsigned_push_bit_eq unsigned_drop_bit_eq) (simp add: t)
  also have "\<dots> = unat b div 2 ^ k * 2 ^ k"
  proof -
    have "unat b div 2 ^ k * 2 ^ k \<le> unat b" by simp
    also have "\<dots> < 2 ^ 8" using unsigned_less [of b] by simp
    finally show ?thesis by (simp add: push_bit_eq_mult drop_bit_eq_div take_bit_nat_eq_self)
  qed
  finally show ?thesis .
qed

lemma high_masks:
  "(192 :: 8 word) = NOT (mask 6)" "(240 :: 8 word) = NOT (mask 4)" "(254 :: 8 word) = NOT (mask 1)"
  by code_simp+

lemma mask_255: "b AND 255 = (b :: 8 word)"
proof -
  have "(255 :: 8 word) = - 1" by simp
  then show ?thesis by (simp only: and.right_neutral)
qed

lemma div_floor: "0 < (k :: nat) \<Longrightarrow> c * k = n div k * k \<longleftrightarrow> c * k \<le> n \<and> n < Suc c * k"
  by (metis div_nat_eqI div_times_less_eq_dividend dividend_less_div_times mult.commute mult_cancel2
      mult_Suc less_not_refl add.commute)

lemma mask_192_64: "64 = b AND 192 \<longleftrightarrow> 64 \<le> b \<and> b \<le> (127 :: 8 word)"
  unfolding high_masks word_unat_eq_iff unat_mask_high word_le_nat_alt
  using div_floor [of "2 ^ 6" 1 "unat b"] by simp linarith

lemma mask_240_16: "16 = b AND 240 \<longleftrightarrow> 16 \<le> b \<and> b \<le> (31 :: 8 word)"
  unfolding high_masks word_unat_eq_iff unat_mask_high word_le_nat_alt
  using div_floor [of "2 ^ 4" 1 "unat b"] by simp linarith

lemma mask_254_18: "18 = b AND 254 \<longleftrightarrow> 18 \<le> b \<and> b \<le> (19 :: 8 word)"
  unfolding high_masks word_unat_eq_iff unat_mask_high word_le_nat_alt
  using div_floor [of "2 ^ 1" 9 "unat b"] by simp linarith

lemma mask_192_128: "128 = b AND 192 \<longleftrightarrow> 128 \<le> b \<and> b \<le> (191 :: 8 word)"
  unfolding high_masks word_unat_eq_iff unat_mask_high word_le_nat_alt
  using div_floor [of "2 ^ 6" 2 "unat b"] by simp linarith

lemma mask_254_252: "252 = b AND 254 \<longleftrightarrow> 252 \<le> b \<and> b \<le> (253 :: 8 word)"
  unfolding high_masks word_unat_eq_iff unat_mask_high word_le_nat_alt
  using div_floor [of "2 ^ 1" 126 "unat b"] by simp linarith

lemma mask_240_224: "224 = b AND 240 \<longleftrightarrow> 224 \<le> b \<and> b \<le> (239 :: 8 word)"
  unfolding high_masks word_unat_eq_iff unat_mask_high word_le_nat_alt
  using div_floor [of "2 ^ 4" 14 "unat b"] by simp linarith

lemma mask_240_240: "240 = b AND 240 \<longleftrightarrow> (240 :: 8 word) \<le> b"
proof -
  have "unat (b AND 240) = unat b div 2 ^ 4 * 2 ^ 4" by (simp only: high_masks unat_mask_high)
  then show ?thesis using unat_byte [of b] div_floor [of "2 ^ 4" 15 "unat b"]
    unfolding word_unat_eq_iff word_le_nat_alt by simp
qed

lemma mask_240_top: "224 = b AND 240 \<or> 240 = b AND 240 \<longleftrightarrow> (224 :: 8 word) \<le> b"
  using unat_byte [of b] unfolding mask_240_224 mask_240_240 word_le_nat_alt by simp linarith

lemmas masks = mask_255 mask_192_64 mask_240_16 mask_254_18 mask_192_128 mask_254_252

definition private_v4 :: "8 word \<Rightarrow> 8 word \<Rightarrow> 8 word \<Rightarrow> 8 word \<Rightarrow> bool" where
  "private_v4 a b c d =
     (a = 0 \<or> a = 10 \<or> a = 100 \<and> 64 \<le> b \<and> b \<le> 127 \<or> a = 127 \<or> a = 169 \<and> b = 254
      \<or> a = 172 \<and> 16 \<le> b \<and> b \<le> 31 \<or> a = 192 \<and> (b = 0 \<and> (c = 0 \<or> c = 2) \<or> b = 168)
      \<or> a = 198 \<and> (18 \<le> b \<and> b \<le> 19 \<or> b = 51 \<and> c = 100) \<or> a = 203 \<and> b = 0 \<and> c = 113
      \<or> 224 \<le> a)"

definition private_v6 :: "ip \<Rightarrow> bool" where
  "private_v6 a =
     (a = replicate 15 0 @ [1] \<or> a ! 0 = 254 \<and> 128 \<le> a ! 1 \<and> a ! 1 \<le> 191
      \<or> 252 \<le> a ! 0 \<and> a ! 0 \<le> 253 \<or> a ! 0 = 32 \<and> a ! 1 = 2
      \<or> take 12 a = [0, 100, 255, 155, 0, 0, 0, 0, 0, 0, 0, 0] \<or> a = replicate 16 0)"

lemma Contains_v4: "Contains ([n0, n1, n2, n3], [m0, m1, m2, m3]) [a, b, c, d] \<longleftrightarrow>
    n0 AND m0 = a AND m0 \<and> n1 AND m1 = b AND m1 \<and> n2 AND m2 = c AND m2 \<and> n3 AND m3 = d AND m3"
  by (simp add: Contains_def To4_def)

definition v6_net :: "ipnet \<Rightarrow> bool" where
  "v6_net n = (length (fst n) = 16 \<and> take 12 (fst n) \<noteq> v4_prefix)"

lemma Contains_v6_v4: "v6_net n \<Longrightarrow> length a = 4 \<Longrightarrow> \<not> Contains n a"
  by (auto simp: Contains_def To4_def v6_net_def split: prod.splits)

lemma Contains_v4_v6: "length n = 4 \<Longrightarrow> length a = 16 \<Longrightarrow> take 12 a \<noteq> v4_prefix \<Longrightarrow> \<not> Contains (n, m) a"
  by (simp add: Contains_def To4_def)

lemma Contains_v6: "v6_net (n, m) \<Longrightarrow> length a = 16 \<Longrightarrow>
    take 12 a \<noteq> v4_prefix \<Longrightarrow> Contains (n, m) a \<longleftrightarrow> map2 (AND) n m = map2 (AND) a m"
  by (simp add: Contains_def To4_def v6_net_def)

lemma Contains_mapped: "length a = 4 \<Longrightarrow> Contains n (v4_prefix @ a) = Contains n a"
  by (simp add: Contains_def To4_def v4_prefix_def)

lemma networks_split:
  "list_all (\<lambda>n. length (fst n) = 4) (take 14 privateNetworks)"
  "list_all v6_net (drop 14 privateNetworks)"
  unfolding privateNetworks_list by code_simp+

lemma list_ex_networks: "list_ex P privateNetworks = (list_ex P (take 14 privateNetworks) \<or> list_ex P (drop 14 privateNetworks))"
  by (metis append_take_drop_id list_ex_append)

lemma private_nets_v4: "list_ex (\<lambda>n. Contains n [a, b, c, d]) privateNetworks = private_v4 a b c d"
proof -
  have "\<not> list_ex (\<lambda>n. Contains n [a, b, c, d]) (drop 14 privateNetworks)"
    using networks_split(2) Contains_v6_v4 by (fastforce simp: list_ex_iff list_all_iff)
  then have "list_ex (\<lambda>n. Contains n [a, b, c, d]) privateNetworks
      = list_ex (\<lambda>n. Contains n [a, b, c, d]) (take 14 privateNetworks)"
    by (simp add: list_ex_networks)
  also have "\<dots> = private_v4 a b c d"
    using mask_240_top [of a]
    by (simp add: privateNetworks_list Contains_v4 masks private_v4_def conj_disj_distribL)
  finally show ?thesis .
qed

lemma private_nets_v6:
  assumes "length a = 16" "take 12 a \<noteq> v4_prefix"
  shows "list_ex (\<lambda>n. Contains n a) privateNetworks \<or> a = replicate 16 0 \<longleftrightarrow> private_v6 a"
proof -
  have "\<not> list_ex (\<lambda>n. Contains n a) (take 14 privateNetworks)"
    using networks_split(1) Contains_v4_v6 [OF _ assms] by (fastforce simp: list_ex_iff list_all_iff)
  then have "list_ex (\<lambda>n. Contains n a) privateNetworks
      = list_ex (\<lambda>n. Contains n a) (drop 14 privateNetworks)"
    by (simp add: list_ex_networks)
  also have "\<dots> = list_ex (\<lambda>(n, m). map2 (AND) n m = map2 (AND) a m) (drop 14 privateNetworks)"
    using networks_split(2) Contains_v6 [OF _ assms] by (fastforce simp: list_ex_iff list_all_iff)
  also have "\<dots> \<or> a = replicate 16 0 \<longleftrightarrow> private_v6 a"
  proof -
    obtain b0 b1 b2 b3 b4 b5 b6 b7 b8 b9 b10 b11 b12 b13 b14 b15 where
      a: "a = [b0, b1, b2, b3, b4, b5, b6, b7, b8, b9, b10, b11, b12, b13, b14, b15]"
      using assms(1) by (auto simp: length_Suc_conv numeral_eq_Suc)
    have r: "replicate 16 x = [x, x, x, x, x, x, x, x, x, x, x, x, x, x, x, x]"
        "replicate 15 x = [x, x, x, x, x, x, x, x, x, x, x, x, x, x, x]"
        "replicate 14 x = [x, x, x, x, x, x, x, x, x, x, x, x, x, x]"
        "replicate 12 x = [x, x, x, x, x, x, x, x, x, x, x, x]"
        "replicate 4 x = [x, x, x, x]" for x :: "8 word"
      by (simp_all add: numeral_eq_Suc)
    show ?thesis unfolding privateNetworks_list private_v6_def a r
      by (simp add: masks)
  qed
  finally show ?thesis .
qed

text \<open>C31. The block list means what its comments say: an IPv4 address (in 4-byte form or mapped
  into IPv6) is private exactly when its octets lie in one of the fourteen reserved ranges, any
  other IPv6 address exactly when it is unspecified, loopback, link-local, unique-local, 6to4 or
  NAT64, and an address of no bytes is private. In particular every CIDR literal parses, so
  the package's \<^verbatim>\<open>init\<close> does not panic.\<close>

theorem IsPrivateIP_ranges:
  assumes "length a = 16" "take 12 a \<noteq> v4_prefix"
  shows "IsPrivateIP [] \<and> IsPrivateIP [b, c, d, e] = private_v4 b c d e
    \<and> IsPrivateIP (v4_prefix @ [b, c, d, e]) = private_v4 b c d e
    \<and> IsPrivateIP a = private_v6 a \<and> init_networks cidrs \<noteq> None"
proof (intro conjI)
  have u: "IsUnspecified [b, c, d, e] \<Longrightarrow> private_v4 b c d e"
      "IsUnspecified (v4_prefix @ [b, c, d, e]) \<Longrightarrow> private_v4 b c d e"
    by (auto simp: IsUnspecified_def v4_prefix_def numeral_eq_Suc private_v4_def)
  then show "IsPrivateIP [b, c, d, e] = private_v4 b c d e"
      "IsPrivateIP (v4_prefix @ [b, c, d, e]) = private_v4 b c d e"
    using private_nets_v4 [of b c d e] by (auto simp: IsPrivateIP_def Contains_mapped v4_prefix_def [symmetric]
        Contains_mapped [of "[b, c, d, e]", unfolded list.size, simplified])
  have "IsUnspecified a \<longleftrightarrow> a = replicate 16 0"
    using assms by (auto simp: IsUnspecified_def v4_prefix_def)
  then show "IsPrivateIP a = private_v6 a"
    using private_nets_v6 [OF assms] assms(1) by (auto simp: IsPrivateIP_def)
  show "init_networks cidrs \<noteq> None"
  proof
    assume "init_networks cidrs = None"
    then have "privateNetworks = []" by (simp add: privateNetworks_def)
    then show False by (simp add: privateNetworks_list)
  qed
qed (simp add: IsPrivateIP_def)

lemma IsPrivateIP_ranges_witness:
  "IsPrivateIP [] \<and> IsPrivateIP [169, 254, 169, 254] = private_v4 169 254 169 254
    \<and> IsPrivateIP (v4_prefix @ [169, 254, 169, 254]) = private_v4 169 254 169 254
    \<and> IsPrivateIP (32 # 1 # replicate 14 0) = private_v6 (32 # 1 # replicate 14 0)
    \<and> init_networks cidrs \<noteq> None"
  by (rule IsPrivateIP_ranges) (simp_all add: v4_prefix_def numeral_eq_Suc)

section \<open>Validation and dialling\<close>

lemma first_private_None: "first_private as = None \<longleftrightarrow> (\<forall>a\<in>set as. \<not> IsPrivateIP a)"
  by (induction as) auto

lemma first_private_list_all: "list_all (\<lambda>a. \<not> IsPrivateIP a) as \<longleftrightarrow> first_private as = None"
  by (simp add: first_private_None list_all_iff)

lemma first_private_Some: "first_private as = Some a \<Longrightarrow> a \<in> set as \<and> IsPrivateIP a"
  by (induction as) (auto split: if_splits)

lemma dial_first_tried: "dial_first dial port as = (tried, r) \<Longrightarrow>
    (\<exists>rest. as = tried @ rest) \<and> (case r of Some c \<Rightarrow> tried \<noteq> [] \<and> dial (last tried) port = Some c
        \<and> (\<forall>a\<in>set (butlast tried). dial a port = None)
      | None \<Rightarrow> tried = as \<and> (\<forall>a\<in>set as. dial a port = None))"
  by (induction as arbitrary: tried r) (auto split: option.splits prod.splits)

text \<open>C30. \<^verbatim>\<open>SafeDialContext\<close>, whatever DNS and the dialer answer, on success and on
  failure: no address it dials is private, and if any address DNS returned is private it dials none and says
  which. Otherwise it dials a non-empty prefix of DNS's addresses, in order, each but the last in vain: on
  success the connection is the one to the last address tried, and it fails only when all addresses were
  tried and none answered. An address without host and port, a failed lookup and an empty answer are
  reported without dialling.\<close>

theorem SafeDialContext_safe:
  "case SafeDialContext lookup dial addr of (tried, r) \<Rightarrow>
     list_all (\<lambda>a. \<not> IsPrivateIP a) tried
     \<and> (case SplitHostPort addr of
          None \<Rightarrow> tried = [] \<and> r = Inl (InvalidAddress addr)
        | Some (host, port) \<Rightarrow>
            (case lookup host of
               None \<Rightarrow> tried = [] \<and> r = Inl (LookupFailed host)
             | Some ips \<Rightarrow>
                 if ips = [] then tried = [] \<and> r = Inl (NoAddresses host)
                 else if list_ex IsPrivateIP ips
                 then tried = [] \<and> (\<exists>a. a \<in> set ips \<and> IsPrivateIP a \<and> r = Inl (ResolvesPrivate host a))
                 else tried \<noteq> [] \<and> (\<exists>rest. ips = tried @ rest
                   \<and> list_all (\<lambda>a. dial a port = None) (butlast tried)
                   \<and> (case r of Inr c \<Rightarrow> dial (last tried) port = Some c
                      | Inl e \<Rightarrow> e = DialFailed \<and> rest = [] \<and> dial (last tried) port = None))))"
proof (cases "SplitHostPort addr")
  case None
  then show ?thesis by (simp add: SafeDialContext_def)
next
  case (Some hp)
  obtain host port where hp: "SplitHostPort addr = Some (host, port)" using Some by (cases hp) simp
  show ?thesis
  proof (cases "lookup host")
    case None
    then show ?thesis by (simp add: SafeDialContext_def hp)
  next
    case ips: (Some ips)
    show ?thesis
    proof (cases "ips = [] \<or> first_private ips \<noteq> None")
      case True
      then show ?thesis using first_private_Some [of ips] first_private_None [of ips]
        by (auto simp: SafeDialContext_def hp ips list_ex_iff split: option.splits)
    next
      case False
      obtain tried r where d: "dial_first dial port ips = (tried, r)" by fastforce
      have "list_all (\<lambda>a. \<not> IsPrivateIP a) ips" "\<not> list_ex IsPrivateIP ips"
        using False first_private_None [of ips] by (auto simp: list_all_iff list_ex_iff)
      moreover have "SafeDialContext lookup dial addr = (tried, case r of Some c \<Rightarrow> Inr c | None \<Rightarrow> Inl DialFailed)"
        using False by (simp add: SafeDialContext_def hp ips d split: option.splits)
      moreover have "tried \<noteq> [] \<and> (\<exists>rest. ips = tried @ rest \<and> list_all (\<lambda>a. dial a port = None) (butlast tried)
          \<and> (case r of Some c \<Rightarrow> dial (last tried) port = Some c | None \<Rightarrow> rest = [] \<and> dial (last tried) port = None))"
        using dial_first_tried [OF d] False by (auto simp: list_all_iff dest: in_set_butlastD split: option.splits)
      ultimately show ?thesis using False by (auto simp: hp ips list_all_iff split: option.splits)
    qed
  qed
qed
text \<open>C32. A URL that passes \<^verbatim>\<open>ValidateURL\<close> is http or https, and neither the address its
  host spells nor any address DNS gave for it is private; a host that spells a private address is
  always refused, without a DNS lookup.\<close>

theorem ValidateURL_sound:
  "(ValidateURL lookup raw = Inr () \<longleftrightarrow>
      (\<exists>u. parse_url raw = Some u \<and> Scheme u \<in> {''http'', ''https''}
        \<and> (case ParseIP (Hostname u) of Some a \<Rightarrow> \<not> IsPrivateIP a
           | None \<Rightarrow> (\<exists>as. lookup (Hostname u) = Some as \<and> list_all (\<lambda>a. \<not> IsPrivateIP a) as))))"
proof (cases "parse_url raw")
  case (Some u)
  show ?thesis
  proof (cases "Scheme u \<in> {''http'', ''https''}")
    case True
    then have s: "\<not> (Scheme u \<noteq> ''http'' \<and> Scheme u \<noteq> ''https'')" by blast
    have "ValidateURL lookup raw = Inr () \<longleftrightarrow> (case ParseIP (Hostname u) of Some a \<Rightarrow> \<not> IsPrivateIP a
           | None \<Rightarrow> (\<exists>as. lookup (Hostname u) = Some as \<and> list_all (\<lambda>a. \<not> IsPrivateIP a) as))"
      by (cases "ParseIP (Hostname u)"; cases "lookup (Hostname u)")
        (simp_all add: ValidateURL_def ValidateURLContext_def Some s first_private_list_all split: option.splits)
    with Some True show ?thesis by simp
  qed (simp add: ValidateURL_def ValidateURLContext_def Some)
qed (simp add: ValidateURL_def ValidateURLContext_def)

end
