(* ===== verification/Url_Laws.thy ===== *)
theory Url_Laws
  imports Go_Url
begin

text \<open>
  Laws of the URL parser: what the scheme and the host of a parsed URL can contain, and that a
  URL made of a scheme and a host that came out of the parser goes through it unchanged.
\<close>

section \<open>Schemes\<close>

lemma colon_not_letter: "\<not> is_lower (CHR '':'')" "\<not> is_upper (CHR '':'')" "\<not> is_digit (CHR '':'')"
  by code_simp+

lemma scheme_no_colon: "scheme_from whole acc s = Some (sch, rest) \<Longrightarrow> CHR '':'' \<notin> set acc \<Longrightarrow> CHR '':'' \<notin> set sch"
proof (induction s arbitrary: acc)
  case (Cons c s)
  show ?case
  proof (cases "c = CHR '':''")
    case True
    then show ?thesis using Cons.prems by (auto simp: colon_not_letter split: if_splits)
  next
    case False
    then have "CHR '':'' \<notin> set (acc @ [c])" using Cons.prems(2) by simp
    then show ?thesis using Cons.prems(1) Cons.IH [of "acc @ [c]"] False by (auto split: if_splits)
  qed
qed simp

lemma lower_char_colon: "lower_char c = CHR '':'' \<longleftrightarrow> c = CHR '':''"
proof (cases "is_upper c")
  case True
  then have "byte_at (lower_char c) = byte_at c + 32" "65 \<le> byte_at c"
    by (auto simp: lower_char_def is_upper_def in_range_def byte_at_def)
  moreover have "byte_at (CHR '':'') = 58" by (simp add: byte_at_def)
  ultimately show ?thesis using True colon_not_letter(2) by fastforce
qed (simp add: lower_char_def)

lemma parse_url_scheme:
  assumes "parse_url raw = Some u"
  shows "CHR '':'' \<notin> set (Scheme u)"
proof -
  have rest: "Scheme v = Scheme w" if "parse_rest w r = Some v" for v w r
    using that by (auto simp: parse_rest_def setPath_def Let_def split: if_splits option.splits prod.splits)
  have "CHR '':'' \<notin> set (Scheme v)" if "parse_nofrag r = Some v" for r v
  proof -
    have *: "CHR '':'' \<notin> set (to_lower sch)" if "getScheme r = Some (sch, t)" for sch t
    proof -
      have "CHR '':'' \<notin> set sch" using that scheme_no_colon [of r "[]" r sch t] by (simp add: getScheme_def)
      then show ?thesis by (auto simp: to_lower_def) (metis lower_char_colon)
    qed
    show ?thesis
      using that by (auto simp: parse_nofrag_def empty_url_def Let_def dest!: rest *
          split: if_splits option.splits prod.splits)
  qed
  then show ?thesis using assms
    by (auto simp: parse_url_def setFragment_def split: prod.splits option.splits if_splits)
qed

lemma origin_inject:
  assumes "CHR '':'' \<notin> set s" "CHR '':'' \<notin> set t"
  shows "s @ ''://'' @ h = t @ ''://'' @ k \<longleftrightarrow> s = t \<and> h = k"
proof
  assume "s @ ''://'' @ h = t @ ''://'' @ k"
  then have "cut (CHR '':'') (s @ ''://'' @ h) = cut (CHR '':'') (t @ ''://'' @ k)" by (rule arg_cong)
  then show "s = t \<and> h = k" 
    by (simp only: cut_at [OF assms(1)] cut_at [OF assms(2)] append.simps prod.inject option.inject
        list.inject simp_thms)
qed (simp only: simp_thms)

lemma lower_char_eq:
  assumes "\<not> is_upper c" "\<not> is_lower c"
  shows "lower_char x = c \<longleftrightarrow> x = c"
proof (cases "is_upper x")
  case True
  then have "is_lower (lower_char x)"
    by (auto simp: lower_char_def is_upper_def is_lower_def in_range_def byte_at_char_of)
      (simp_all add: byte_at_def)
  then show ?thesis using assms True by metis
qed (simp add: lower_char_def)

lemma in_to_lower:
  "\<not> is_upper c \<Longrightarrow> \<not> is_lower c \<Longrightarrow> c \<in> set (to_lower s) \<longleftrightarrow> c \<in> set s"
proof -
  assume a: "\<not> is_upper c" "\<not> is_lower c"
  have "c = lower_char x \<longleftrightarrow> x = c" for x using lower_char_eq [OF a] by metis
  then show ?thesis by (simp add: to_lower_def image_iff)
qed

lemma marks_not_letters:
  "\<not> is_upper (CHR ''%'')" "\<not> is_lower (CHR ''%'')" "\<not> is_upper (CHR ''['')" "\<not> is_lower (CHR ''['')"
  "\<not> is_upper (CHR '']'')" "\<not> is_lower (CHR '']'')" "\<not> is_upper (CHR '':'')" "\<not> is_lower (CHR '':'')"
  "\<not> is_digit (CHR '':'')" "\<not> is_digit (CHR '']'')" "\<not> is_digit (CHR ''%'')" "\<not> is_digit (CHR ''['')"
  by code_simp+

lemmas in_to_lower_marks [simp] = in_to_lower [OF marks_not_letters(1,2)]
  in_to_lower [OF marks_not_letters(3,4)] in_to_lower [OF marks_not_letters(5,6)]
  in_to_lower [OF marks_not_letters(7,8)]

text \<open>A parsed scheme is in lower case, and starts with a letter unless it is empty.\<close>

definition scheme_char :: "char \<Rightarrow> bool" where
  "scheme_char c = (is_lower c \<or> is_upper c \<or> is_digit c \<or> c \<in> set ''+-.'')"

definition scheme_ok :: "string \<Rightarrow> bool" where
  "scheme_ok s = (s = [] \<or> (is_lower (hd s) \<or> is_upper (hd s)) \<and> list_all scheme_char s)"

lemma scheme_from_ok:
  "scheme_from whole acc s = Some (sch, rest) \<Longrightarrow> scheme_ok acc \<Longrightarrow> scheme_ok sch"
proof (induction whole acc s rule: scheme_from.induct)
  case (2 whole acc c s)
  show ?case
  proof (cases "is_lower c \<or> is_upper c")
    case True
    then have "scheme_ok (acc @ [c])" using "2.prems"(2) by (cases acc) (auto simp: scheme_ok_def scheme_char_def)
    with True "2.IH"(1) "2.prems"(1) show ?thesis by simp
  next
    case False
    show ?thesis
    proof (cases "is_digit c \<or> c \<in> set ''+-.''")
      case True
      then show ?thesis
      proof (cases "acc = []")
        case True
        then show ?thesis using "2.prems" False \<open>is_digit c \<or> c \<in> set ''+-.''\<close> by (auto simp: scheme_ok_def)
      next
        case ne: False
        then have "scheme_ok (acc @ [c])" using "2.prems"(2) True
          by (cases acc) (auto simp: scheme_ok_def scheme_char_def)
        with ne True False "2.IH"(2) "2.prems"(1) show ?thesis by simp
      qed
    next
      case no: False
      then show ?thesis using "2.prems" False by (auto simp: scheme_ok_def split: if_splits)
    qed
  qed
qed (simp add: scheme_ok_def)

lemma letters_lower: "is_lower (lower_char c) = (is_lower c \<or> is_upper c)" "is_upper (lower_char c) = False"
  "is_digit (lower_char c) = is_digit c"
  by (auto simp: lower_char_def is_upper_def is_lower_def is_digit_def in_range_def byte_at_char_of byte_at_def)

lemma scheme_punct_lower: "lower_char c \<in> set ''+-.'' \<longleftrightarrow> c \<in> set ''+-.''"
proof -
  have "\<forall>x\<in>set ''+-.''. \<not> is_upper x \<and> \<not> is_lower x" by code_simp
  then have "lower_char c = x \<longleftrightarrow> c = x" if "x \<in> set ''+-.''" for x using that lower_char_eq by blast
  then show ?thesis by (metis (no_types))
qed

lemma scheme_char_lower: "scheme_char (lower_char c) = scheme_char c"
  unfolding scheme_char_def scheme_punct_lower by (auto simp: letters_lower)

lemma scheme_ok_lower: "scheme_ok s \<Longrightarrow> scheme_ok (to_lower s)"
  by (cases s) (auto simp: scheme_ok_def to_lower_def letters_lower scheme_char_lower list_all_iff)

text \<open>The parts of a parsed URL.\<close>

lemma parse_rest_parts:
  assumes "parse_rest u r = Some v"
  shows "Scheme v = Scheme u" "Host v = Host u \<or> (\<exists>h. parseHost h = Some (Host v))"
  using assms by (auto simp: parse_rest_def setPath_def Let_def parseAuthority_def
      split: if_splits option.splits prod.splits)

lemma parse_url_parts:
  assumes "parse_url raw = Some u"
  shows "scheme_ok (Scheme u)" "to_lower (Scheme u) = Scheme u" "Host u = [] \<or> (\<exists>h. parseHost h = Some (Host u))"
proof -
  have nf: "scheme_ok (Scheme v) \<and> to_lower (Scheme v) = Scheme v \<and> (Host v = [] \<or> (\<exists>h. parseHost h = Some (Host v)))"
    if "parse_nofrag r = Some v" for r v
  proof (cases "r = ''*'' \<or> list_ex is_ctl r")
    case True
    then show ?thesis using that by (auto simp: parse_nofrag_def empty_url_def scheme_ok_def split: if_splits)
  next
    case False
    obtain sch rest where g: "getScheme r = Some (sch, rest)"
    proof (cases "getScheme r")
      case None
      then show ?thesis using that False \<open>parse_nofrag r = Some v\<close> by (simp add: parse_nofrag_def)
    qed auto
    let ?u = "empty_url\<lparr>Scheme := to_lower sch\<rparr>"
    have "\<exists>q r'. parse_rest (?u\<lparr>ForceQuery := True\<rparr>) r' = Some v \<or> parse_rest (?u\<lparr>RawQuery := q\<rparr>) r' = Some v"
      using that False g unfolding parse_nofrag_def
      by (simp add: Let_def split: if_splits prod.splits del: url.update_convs) blast+
    then obtain w r' where w: "getScheme r = Some (sch, rest)" "parse_rest w r' = Some v"
      "Scheme w = to_lower sch" "Host w = []"
      using g by (auto simp: empty_url_def)
    have "scheme_ok sch" using w(1) scheme_from_ok [of r "[]" r sch rest] by (simp add: getScheme_def scheme_ok_def)
    then show ?thesis using parse_rest_parts [OF w(2)] w(3,4) scheme_ok_lower by auto
  qed
  obtain r v where "parse_nofrag r = Some v" "Scheme u = Scheme v" "Host u = Host v"
    using assms by (auto simp: parse_url_def setFragment_def split: prod.splits option.splits if_splits)
  with nf show "scheme_ok (Scheme u)" "to_lower (Scheme u) = Scheme u"
    "Host u = [] \<or> (\<exists>h. parseHost h = Some (Host u))" by auto
qed

section \<open>Hosts\<close>

definition host_char :: "char \<Rightarrow> bool" where
  "host_char c = (128 \<le> byte_at c \<or> \<not> should_escape EncHost c)"

lemma unescape_host_chars:
  "unescape EncHost s = Some t \<Longrightarrow> c \<in> set t \<Longrightarrow> c = CHR ''%'' \<or> 128 \<le> byte_at c \<or> (c \<in> set s \<and> host_char c)"
proof (induction EncHost s arbitrary: t rule: unescape.induct)
  case (2 x s)
  show ?case
  proof (cases "x = CHR ''%''")
    case True
    then obtain h1 h2 r t' where s: "s = h1 # h2 # r" "t = unhex2 h1 h2 # t'" "unescape EncHost r = Some t'"
      "is_hex h1" "is_hex h2" "8 \<le> hex_val h1 \<or> [h1, h2] = ''25''"
      using "2.prems"(1) by (auto split: list.splits if_splits)
    have u: "unhex2 h1 h2 = CHR ''%'' \<or> 128 \<le> byte_at (unhex2 h1 h2)"
    proof (cases "[h1, h2] = ''25''")
      case True
      then have "h1 = CHR ''2''" "h2 = CHR ''5''" by simp_all
      moreover have "unhex2 (CHR ''2'') (CHR ''5'') = CHR ''%''" by code_simp
      ultimately show ?thesis by simp
    next
      case False
      have "hex_val h1 < 16" "hex_val h2 < 16" using s(4,5)
        by (auto simp: hex_val_def is_hex_def is_digit_def in_range_def byte_at_def)
      then have "byte_at (unhex2 h1 h2) = 16 * hex_val h1 + hex_val h2"
        unfolding unhex2_def by (intro byte_at_char_of) linarith
      moreover have "8 \<le> hex_val h1" using False s(6) by blast
      ultimately show ?thesis by linarith
    qed
    show ?thesis
    proof (cases "c = unhex2 h1 h2")
      case False
      then have "c \<in> set t'" using "2.prems"(2) s(2) by simp
      with "2.hyps"(1) [of h1 "h2 # r" h2 r t'] True s show ?thesis by auto
    qed (use u in blast)
  next
    case False
    then obtain t' where "t = x # t'" "unescape EncHost s = Some t'" "host_char x"
      using "2.prems"(1) by (auto simp: host_char_def split: if_splits)
    moreover have "\<not> ((EncHost = EncHost \<or> EncHost = EncZone) \<and> byte_at x < 128 \<and> should_escape EncHost x)"
      using \<open>host_char x\<close> by (auto simp: host_char_def)
    ultimately show ?thesis using False "2.hyps"(2) "2.prems"(2) by auto
  qed
qed simp

lemma unescape_no_percent: "unescape EncHost s = Some t \<Longrightarrow> CHR ''%'' \<notin> set t \<Longrightarrow>
    list_all (\<lambda>c. 128 \<le> byte_at c \<or> (c \<in> set s \<and> host_char c)) t"
  using unescape_host_chars by (fastforce simp: list_all_iff)

lemma unescape_host_id: "CHR ''%'' \<notin> set s \<Longrightarrow> list_all host_char s \<Longrightarrow> unescape EncHost s = Some s"
  by (induction s) (auto simp: host_char_def)

text \<open>A host is a bracketed address or free of brackets; outside an escaped percent sign and non-ASCII
  bytes it is what was written.\<close>

lemma parse_host_plain:
  assumes "parseHost h = Some k" "\<not> has_prefix k ''[''" "CHR ''%'' \<notin> set k"
  shows "list_all host_char k" "CHR ''['' \<notin> set k"
proof -
  have nb: "CHR ''['' \<notin> set h" and u: "unescape EncHost h = Some k"
    using assms by (auto simp: parseHost_def has_prefix_def split: if_splits option.splits prod.splits)
  note c = unescape_no_percent [OF u assms(3)]
  then show "list_all host_char k" by (auto simp: list_all_iff host_char_def)
  have "byte_at (CHR ''['') < 128" by code_simp
  then show "CHR ''['' \<notin> set k" using c nb by (auto simp: list_all_iff)
qed

lemma find_sub_head: "find_sub (c # sub) s = Some (a, b) \<Longrightarrow> \<exists>r. b = c # r"
  by (induction s arbitrary: a b) (auto simp: has_prefix_def split: if_splits)

lemma find_sub_None: "c \<notin> set s \<Longrightarrow> find_sub (c # sub) s = None"
  by (induction s) (auto simp: has_prefix_def)

lemma unescape_zone_head: "unescape EncZone (CHR ''%'' # r) = Some z \<Longrightarrow> \<exists>c z'. z = c # z'"
  by (auto split: list.splits if_splits)

lemma cut_last_at: "c \<notin> set t \<Longrightarrow> cut_last c (s @ c # t) = Some (s, t)"
proof -
  assume "c \<notin> set t"
  then have "\<And>x. x \<in> set (rev t) \<Longrightarrow> x \<noteq> c" by auto
  then have "takeWhile (\<lambda>x. x \<noteq> c) (rev t @ c # rev s) = rev t" by (subst takeWhile_append2) auto
  then show ?thesis by (simp add: cut_last_def Let_def)
qed

lemma cut_last_None: "c \<notin> set s \<Longrightarrow> cut_last c s = None"
  by (simp add: cut_last_def)

lemma cut_last_Some: "cut_last c s = Some (a, b) \<Longrightarrow> s = a @ c # b \<and> c \<notin> set b"
proof -
  assume a: "cut_last c s = Some (a, b)"
  then have "c \<in> set s" by (simp add: cut_last_def split: if_splits)
  then obtain x y where "s = x @ c # y" "c \<notin> set y" by (metis split_list_last)
  with a show ?thesis by (simp add: cut_last_at)
qed

lemma valid_port_chars: "valid_optional_port p \<Longrightarrow> c \<in> set p \<Longrightarrow> c = CHR '':'' \<or> is_digit c"
  by (cases p) (auto simp: valid_optional_port_def list_all_iff)

definition bracketed_host :: "string \<Rightarrow> string \<Rightarrow> bool" where
  "bracketed_host n p = (CHR ''['' \<notin> set n \<and> CHR ''%'' \<notin> set n \<and> list_all host_char n \<and> valid_optional_port p
     \<and> (\<exists>a z. ParseAddr n = Some (a, z) \<and> length a \<noteq> 4))"

lemma parse_host_bracketed:
  assumes "parseHost h = Some k" "has_prefix k ''[''"
  shows "\<exists>n p. k = ''['' @ n @ '']'' @ p \<and> valid_optional_port p \<and> (CHR ''%'' \<notin> set n \<longrightarrow> bracketed_host n p)"
proof (cases "CHR ''['' \<in> set h")
  case False
  then have "unescape EncHost h = Some k" using assms(1) by (auto simp: parseHost_def split: if_splits)
  moreover have "CHR ''['' \<in> set k" using assms(2) by (auto simp: str_simps)
  moreover have "byte_at (CHR ''['') < 128" by code_simp
  ultimately show ?thesis using unescape_host_chars False by fastforce
next
  case True
  then obtain name p where h: "hd h = CHR ''[''" "CHR ''['' \<notin> set (tl h)" "cut_last (CHR '']'') (tl h) = Some (name, p)"
    "valid_optional_port p"
    using assms(1) by (auto simp: parseHost_def split: if_splits option.splits prod.splits)
  have bare: "CHR ''['' \<notin> set name" using cut_last_Some [OF h(3)] h(2) by auto
  show ?thesis
  proof (cases "find_sub ''%25'' name")
    case None
    then obtain n a z where n: "unescape EncHost name = Some n" "ParseAddr n = Some (a, z)" "length a \<noteq> 4"
      "k = ''['' @ n @ '']'' @ p"
      using assms(1) True h by (auto simp: parseHost_def split: if_splits option.splits prod.splits)
    have "bracketed_host n p" if "CHR ''%'' \<notin> set n"
    proof -
      have "byte_at (CHR ''['') < 128" by code_simp
      with unescape_no_percent [OF n(1) that] bare have "CHR ''['' \<notin> set n" by (auto simp: list_all_iff)
      with unescape_no_percent [OF n(1) that] n(2,3) h(4) that show ?thesis
        by (auto simp: bracketed_host_def list_all_iff host_char_def)
    qed
    then show ?thesis using n(4) h(4) by blast
  next
    case (Some hz)
    then obtain x y where xy: "find_sub ''%25'' name = Some (x, CHR ''%'' # y)"
      using find_sub_head by (cases hz) fastforce
    then obtain x' y' where n: "unescape EncZone (CHR ''%'' # y) = Some y'" "k = ''['' @ (x' @ y') @ '']'' @ p"
      using assms(1) True h by (auto simp: parseHost_def simp del: unescape.simps split: if_splits option.splits prod.splits)
    have "\<exists>r. CHR ''%'' # y = ''%25'' @ r"
      using xy by (induction name arbitrary: x) (auto simp: has_prefix_iff split: if_splits)
    then have "CHR ''%'' \<in> set y'" using n(1) by (auto split: if_splits) (code_simp)
    then show ?thesis using n(2) h(4) by (intro exI [of _ "x' @ y'"] exI [of _ p]) auto
  qed
qed

lemma parseHost_plain:
  assumes "list_all host_char k" "CHR ''%'' \<notin> set k" "CHR ''['' \<notin> set k"
    and "case after_last (CHR '':'') k of None \<Rightarrow> True | Some p \<Rightarrow> list_all is_digit p"
  shows "parseHost k = Some k"
  using assms by (simp add: parseHost_def unescape_host_id)

lemma parseHost_bracketed:
  assumes "bracketed_host n p"
  shows "parseHost (''['' @ n @ '']'' @ p) = Some (''['' @ n @ '']'' @ p)"
proof -
  have p: "CHR '']'' \<notin> set p" "CHR ''['' \<notin> set p"
    using assms valid_port_chars marks_not_letters by (fastforce simp: bracketed_host_def)+
  then have "cut_last (CHR '']'') (n @ CHR '']'' # p) = Some (n, p)" by (simp add: cut_last_at)
  moreover have "find_sub ''%25'' n = None" using assms by (simp add: bracketed_host_def find_sub_None)
  ultimately show ?thesis using assms p
    by (auto simp: parseHost_def bracketed_host_def unescape_host_id)
qed

section \<open>Addresses in lower case\<close>

lemma hex_lower: "is_hex (lower_char c) = is_hex c" "is_hex c \<Longrightarrow> hex_val (lower_char c) = hex_val c"
  by (auto simp: lower_char_def is_hex_def hex_val_def is_upper_def is_digit_def in_range_def byte_at_char_of byte_at_def)

lemma takeWhile_lower: "takeWhile is_hex (to_lower s) = to_lower (takeWhile is_hex s)"
  "dropWhile is_hex (to_lower s) = to_lower (dropWhile is_hex s)"
  by (induction s) (auto simp: to_lower_def hex_lower)

lemma hex_nat_lower: "list_all is_hex s \<Longrightarrow> hex_nat (to_lower s) = hex_nat s"
proof -
  assume "list_all is_hex s"
  then have "foldl (\<lambda>a c. 16 * a + hex_val c) n (to_lower s) = foldl (\<lambda>a c. 16 * a + hex_val c) n s" for n
    by (induction s arbitrary: n) (auto simp: to_lower_def hex_lower)
  then show ?thesis by (simp add: hex_nat_def)
qed

lemma split_lower: "\<not> is_upper d \<Longrightarrow> \<not> is_lower d \<Longrightarrow> split_on d (to_lower s) = map to_lower (split_on d s)"
  by (induction s) (auto simp: to_lower_def lower_char_eq split: list.splits)

lemma digits_lower: "list_all is_digit (to_lower s) = list_all is_digit s"
  "list_all is_digit s \<Longrightarrow> to_lower s = s"
proof -
  show "list_all is_digit (to_lower s) = list_all is_digit s"
    by (simp add: to_lower_def list_all_iff letters_lower)
  have "is_digit c \<Longrightarrow> lower_char c = c" for c
    by (auto simp: is_digit_def is_upper_def lower_char_def in_range_def byte_at_def)
  then show "list_all is_digit s \<Longrightarrow> to_lower s = s" by (simp add: to_lower_def list_all_iff map_idI)
qed

lemma octet_lower: "ipv4_octet (to_lower f) = ipv4_octet f"
proof (cases "list_all is_digit f")
  case False
  then show ?thesis by (simp add: ipv4_octet_def digits_lower(1))
qed (simp add: digits_lower(2))

lemma parse_ipv4_lower: "parse_ipv4 (to_lower s) = parse_ipv4 s"
proof -
  have "\<not> is_upper (CHR ''.'')" "\<not> is_lower (CHR ''.'')" by code_simp+
  then have "map ipv4_octet (split_on (CHR ''.'') (to_lower s)) = map ipv4_octet (split_on (CHR ''.'') s)"
    by (simp add: split_lower octet_lower)
  then show ?thesis by (simp only: parse_ipv4_def)
qed

text \<open>One turn of the group loop, from the hex digits \<open>h\<close> and what follows them.\<close>

definition groups_step :: "ip \<Rightarrow> nat option \<Rightarrow> string \<Rightarrow> string \<Rightarrow> string \<Rightarrow> (ip \<times> nat option) option" where
  "groups_step acc ell h r s =
     (if length acc \<ge> 16 then (if s = [] then Some (acc, ell) else None)
      else if h = [] \<or> length h > 4 then None
      else if r \<noteq> [] \<and> hd r = CHR ''.'' then
        (if (ell = None \<and> length acc \<noteq> 12) \<or> length acc + 4 > 16 then None
         else map_option (\<lambda>v4. (acc @ v4, ell)) (parse_ipv4 s))
      else
        let acc' = acc @ [of_nat (hex_nat h div 256), of_nat (hex_nat h)] in
        (case r of [] \<Rightarrow> Some (acc', ell)
         | [_] \<Rightarrow> None
         | c # d # r' \<Rightarrow>
             if c \<noteq> CHR '':'' then None
             else if d = CHR '':'' then
               (if ell \<noteq> None then None
                else if r' = [] then Some (acc', Some (length acc'))
                else ipv6_groups acc' (Some (length acc')) r')
             else ipv6_groups acc' ell (d # r')))"

lemma ipv6_groups_step: "ipv6_groups acc ell s = groups_step acc ell (takeWhile is_hex s) (dropWhile is_hex s) s"
  by (subst ipv6_groups.simps) (simp only: groups_step_def Let_def)

lemma to_lower_Cons [simp]: "to_lower (c # s) = lower_char c # to_lower s"
  by (simp add: to_lower_def)

lemma to_lower_length [simp]: "length (to_lower s) = length s" "to_lower s = [] \<longleftrightarrow> s = []"
  by (simp_all add: to_lower_def)

lemma lower_char_dot: "lower_char c = CHR ''.'' \<longleftrightarrow> c = CHR ''.''"
  by (rule lower_char_eq) code_simp+

lemma groups_step_lower:
  assumes "list_all is_hex h"
    and "\<And>acc ell r'. length r' < length r \<Longrightarrow> ipv6_groups acc ell (to_lower r') = ipv6_groups acc ell r'"
  shows "groups_step acc ell (to_lower h) (to_lower r) (to_lower s) = groups_step acc ell h r s"
proof (cases r)
  case Nil
  then show ?thesis by (simp add: groups_step_def hex_nat_lower [OF assms(1)])
next
  case (Cons c r1)
  show ?thesis
  proof (cases r1)
    case Nil
    then show ?thesis using Cons
      by (simp add: groups_step_def hex_nat_lower [OF assms(1)] lower_char_dot parse_ipv4_lower)
  next
    case r1: (Cons d r')
    have "ipv6_groups acc ell (to_lower r') = ipv6_groups acc ell r'"
      "ipv6_groups acc ell (lower_char d # to_lower r') = ipv6_groups acc ell (d # r')" for acc ell
      using assms(2) [of r'] assms(2) [of "d # r'"] Cons r1 by simp_all
    then show ?thesis using Cons r1
      by (simp add: groups_step_def hex_nat_lower [OF assms(1)] lower_char_dot lower_char_colon parse_ipv4_lower Let_def)
  qed
qed

lemma ipv6_groups_lower: "ipv6_groups acc ell (to_lower s) = ipv6_groups acc ell s"
proof (induction "length s" arbitrary: acc ell s rule: less_induct)
  case less
  have IH: "ipv6_groups acc ell (to_lower r') = ipv6_groups acc ell r'"
    if "length r' < length (dropWhile is_hex s)" for acc ell r'
    using that length_dropWhile_le [of is_hex s] by (rule less.hyps [OF less_le_trans])
  have hex: "list_all is_hex (takeWhile is_hex s)" by (auto simp: list_all_iff dest: set_takeWhileD)
  have "ipv6_groups acc ell (to_lower s)
      = groups_step acc ell (to_lower (takeWhile is_hex s)) (to_lower (dropWhile is_hex s)) (to_lower s)"
    unfolding takeWhile_lower [symmetric] by (rule ipv6_groups_step)
  also have "\<dots> = groups_step acc ell (takeWhile is_hex s) (dropWhile is_hex s) s"
    using hex IH by (rule groups_step_lower)
  also have "\<dots> = ipv6_groups acc ell s" by (rule ipv6_groups_step [symmetric])
  finally show ?case .
qed

lemma ParseAddr_lower:
  assumes "CHR ''%'' \<notin> set s"
  shows "ParseAddr (to_lower s) = ParseAddr s"
proof -
  have m: "\<not> is_upper c \<and> \<not> is_lower c" if "c \<in> {CHR ''.'', CHR '':'', CHR ''%''}" for c
    using that by (auto simp: is_upper_def is_lower_def in_range_def byte_at_def)
  have "lower_char c \<in> {CHR ''.'', CHR '':'', CHR ''%''} \<longleftrightarrow> c \<in> {CHR ''.'', CHR '':'', CHR ''%''}" for c
    using lower_char_dot [of c] lower_char_colon [of c] lower_char_eq [OF marks_not_letters(1,2), of c] by simp
  moreover have "c \<in> {CHR ''.'', CHR '':'', CHR ''%''} \<Longrightarrow> lower_char c = c" for c using m by (auto simp: lower_char_def)
  ultimately have f: "filter (\<lambda>c. c \<in> {CHR ''.'', CHR '':'', CHR ''%''}) (to_lower s)
      = filter (\<lambda>c. c \<in> {CHR ''.'', CHR '':'', CHR ''%''}) s"
    by (induction s) (auto simp del: insert_iff)
  have cut: "Go_Prelude.cut (CHR ''%'') (to_lower s) = (to_lower s, None)" "Go_Prelude.cut (CHR ''%'') s = (s, None)"
    using assms by simp_all
  have drop: "drop 2 (to_lower s) = to_lower (drop 2 s)" by (simp add: to_lower_def drop_map)
  have pre: "has_prefix (to_lower s) ''::'' = has_prefix s ''::''"
    by (cases s; cases "tl s") (auto simp: has_prefix_def lower_char_colon)
  have "parse_ipv6 (to_lower s) = parse_ipv6 s"
    unfolding parse_ipv6_def cut prod.case Let_def pre drop by (simp add: ipv6_groups_lower)
  with f parse_ipv4_lower show ?thesis by (simp only: ParseAddr_def)
qed

section \<open>Host and port of an origin\<close>

lemma digits_no_colon: "list_all is_digit p \<Longrightarrow> CHR '':'' \<notin> set p"
  using marks_not_letters by (auto simp: list_all_iff)

lemma split_host_port_digits: "list_all is_digit (snd (split_host_port k))"
  by (auto simp: split_host_port_def split: option.splits prod.splits if_splits)

lemma split_plain_port:
  assumes "list_all is_digit p" "\<not> has_prefix h ''[''"
  shows "split_host_port (h @ '':'' @ p) = (h, p)"
  using assms digits_no_colon by (simp add: split_host_port_def cut_last_at)

lemma split_plain:
  assumes "CHR '':'' \<notin> set h" "\<not> has_prefix h ''[''"
  shows "split_host_port h = (h, [])"
  using assms by (simp add: split_host_port_def cut_last_None)

lemma split_bracketed_port:
  assumes "list_all is_digit p"
  shows "split_host_port (''['' @ n @ '']'' @ '':'' @ p) = (n, p)"
proof -
  have "cut_last (CHR '':'') ((''['' @ n @ '']'') @ CHR '':'' # p) = Some (''['' @ n @ '']'', p)"
    using assms digits_no_colon by (intro cut_last_at)
  then have "cut_last (CHR '':'') (''['' @ n @ '']'' @ '':'' @ p) = Some (''['' @ n @ '']'', p)" by simp
  moreover have "has_suffix (''['' @ n @ '']'') '']''" "has_prefix (''['' @ n @ '']'') ''[''"
    by (auto simp: str_simps)
  ultimately show ?thesis using assms by (simp add: split_host_port_def del: append.simps) (simp add: butlast_append)
qed

lemma split_bracketed: "split_host_port (''['' @ n @ '']'') = (n, [])"
proof -
  have s: "has_suffix (''['' @ n @ '']'') '']''" "has_prefix (''['' @ n @ '']'') ''[''"
    by (auto simp: str_simps)
  have "(case cut_last (CHR '':'') (''['' @ n @ '']'') of
          Some (h, p) \<Rightarrow> if list_all is_digit p then (h, p) else (''['' @ n @ '']'', [])
        | None \<Rightarrow> (''['' @ n @ '']'', [])) = (''['' @ n @ '']'', [])"
  proof (cases "cut_last (CHR '':'') (''['' @ n @ '']'')")
    case (Some hp)
    obtain h p where hp: "hp = (h, p)" by (cases hp)
    from cut_last_Some [of "CHR '':''" "''['' @ n @ '']''" h p] Some hp have e: "(CHR ''['' # n) @ [CHR '']''] = h @ CHR '':'' # p"
      by simp
    then have "last (CHR '':'' # p) = CHR '']''" by (metis last_appendR list.distinct(1) last.simps)
    then have "p \<noteq> [] \<and> last p = CHR '']''" by (auto split: if_splits)
    then have "\<not> list_all is_digit p" using marks_not_letters(10) by (metis last_in_set list_all_iff)
    then show ?thesis using Some hp by simp
  qed simp
  then show ?thesis using s by (simp add: split_host_port_def del: append.simps) (simp add: butlast_append)
qed

lemmas split_host_port_simps = split_plain split_plain_port split_bracketed split_bracketed_port

text \<open>\<^verbatim>\<open>scheme://host\<close> is parsed into its two parts.\<close>

lemma scheme_from_run:
  "scheme_ok (acc @ s) \<Longrightarrow> acc @ s \<noteq> [] \<Longrightarrow> scheme_from whole acc (s @ CHR '':'' # r) = Some (acc @ s, r)"
proof (induction s arbitrary: acc)
  case Nil
  then show ?case using marks_not_letters by simp
next
  case (Cons c s)
  have ok: "scheme_ok ((acc @ [c]) @ s)" "(acc @ [c]) @ s \<noteq> []" using Cons.prems by simp_all
  have c: "scheme_char c" "acc = [] \<Longrightarrow> is_lower c \<or> is_upper c"
    using Cons.prems by (auto simp: scheme_ok_def)
  have "c \<noteq> CHR '':''" using c(1) marks_not_letters by (auto simp: scheme_char_def)
  then show ?case using Cons.IH [OF ok] c by (auto simp: scheme_char_def)
qed

definition clean_host :: "string \<Rightarrow> bool" where
  "clean_host k = (k \<noteq> [] \<and> list_all (\<lambda>c. c \<notin> set ''/?#@'' \<and> \<not> is_ctl c) k \<and> parseHost k = Some k)"

lemma scheme_char_plain: "scheme_char c \<Longrightarrow> c \<notin> set ''/?#@*'' \<and> \<not> is_ctl c"
proof -
  assume c: "scheme_char c"
  have "\<forall>x\<in>set ''/?#@*''. \<not> scheme_char x" by code_simp
  moreover have "\<not> is_ctl c" using c
    by (auto simp: scheme_char_def is_ctl_def is_lower_def is_upper_def is_digit_def in_range_def byte_at_def)
  ultimately show ?thesis using c by blast
qed

lemma parse_origin:
  assumes "scheme_ok s" "s \<noteq> []" "to_lower s = s" "clean_host k"
  shows "parse_url (s @ ''://'' @ k) = Some (empty_url\<lparr>Scheme := s, Host := k\<rparr>)"
proof -
  let ?w = "s @ ''://'' @ k"
  have sc: "list_all scheme_char s" using assms(1) by (auto simp: scheme_ok_def)
  have k: "k \<noteq> []" "list_all (\<lambda>c. c \<notin> set ''/?#@'' \<and> \<not> is_ctl c) k" "parseHost k = Some k"
    using assms(4) by (auto simp: clean_host_def)
  have colon: "\<not> is_ctl (CHR '':'')" "\<not> is_ctl (CHR ''/'')" by code_simp+
  have no: "CHR ''#'' \<notin> set ?w" "CHR ''?'' \<notin> set (''//'' @ k)" "CHR ''@'' \<notin> set k" "CHR ''/'' \<notin> set k"
    using sc scheme_char_plain k(2) by (fastforce simp: list_all_iff)+
  have "\<not> list_ex is_ctl s" "\<not> list_ex is_ctl k"
    using sc scheme_char_plain k(2) by (auto simp: list_all_iff list_ex_iff)
  then have ctl: "\<not> list_ex is_ctl ?w" using colon by simp
  have star: "?w \<noteq> ''*''" by (cases s) auto
  have g: "getScheme ?w = Some (s, ''//'' @ k)"
    using scheme_from_run [of "[]" s ?w "''//'' @ k"] assms(1,2) by (simp add: getScheme_def)
  have b: "before_first (CHR ''/'') k = k" using no(4) unfolding before_first_def takeWhile_eq_all_conv by blast
  have auth: "parseAuthority k = Some (None, k)" using no(3) k(3) by (simp add: parseAuthority_def cut_last_None)
  have path: "setPath [] u = Some (u\<lparr>Path := [], RawPath := []\<rparr>)" for u by (simp add: setPath_def escape_def)
  have "parse_rest (empty_url\<lparr>Scheme := s, RawQuery := []\<rparr>) (''//'' @ k) = Some (empty_url\<lparr>Scheme := s, Host := k\<rparr>)"
    using assms(2) by (simp add: parse_rest_def has_prefix_def b auth path Let_def) (simp add: empty_url_def)
  moreover have "\<not> has_suffix (''//'' @ k) ''?''"
  proof
    assume "has_suffix (''//'' @ k) ''?''"
    then obtain r where r: "''//'' @ k = r @ ''?''" unfolding has_suffix_iff ..
    have "CHR ''?'' \<in> set (''//'' @ k)" unfolding r by simp
    then show False using no(2) by contradiction
  qed
  ultimately have "parse_nofrag ?w = Some (empty_url\<lparr>Scheme := s, Host := k\<rparr>)"
    using ctl star g no(2) assms(3) by (simp add: parse_nofrag_def Let_def del: append.simps)
  then show ?thesis using no(1) by (simp add: parse_url_def)
qed

end
