(* ===== verification/Scope.thy ===== *)
theory Scope
  imports Ssrf Url_Laws
begin

text \<open>
  The crawl scope, \<^verbatim>\<open>pkg/crawl/scope.go\<close>. The public suffix list is a third-party
  package and DNS a service: they are the fields of \<open>scope_env\<close>
  (\<open>effectiveTLDPlusOne\<close>, and \<open>lookupHost\<close>, the textual addresses
  \<^verbatim>\<open>net.LookupHost\<close> gives), unconstrained.
\<close>

record scope_env =
  effectiveTLDPlusOne :: "string \<Rightarrow> string option"
  lookupHost :: "string \<Rightarrow> string list option"

definition isPrivateIP :: "ip \<Rightarrow> bool" where
  "isPrivateIP a = IsPrivateIP a"

definition isPrivateHost :: "scope_env \<Rightarrow> string \<Rightarrow> bool" where
  "isPrivateHost env hostname =
     (case ParseIP hostname of Some a \<Rightarrow> isPrivateIP a
      | None \<Rightarrow>
          (case lookupHost env hostname of None \<Rightarrow> True
           | Some addrs \<Rightarrow> list_ex (\<lambda>addr. case ParseIP addr of Some a \<Rightarrow> isPrivateIP a | None \<Rightarrow> False) addrs))"

definition parseHTTPURL :: "string \<Rightarrow> url option" where
  "parseHTTPURL raw =
     (case parse_url raw of None \<Rightarrow> None
      | Some u \<Rightarrow> if Host u = [] then None
          else if Scheme u \<noteq> ''http'' \<and> Scheme u \<noteq> ''https'' then None else Some u)"

definition registeredDomain :: "scope_env \<Rightarrow> string \<Rightarrow> string option" where
  "registeredDomain env host = effectiveTLDPlusOne env host"

datatype scope_error = SeedParse | SeedNoHost string | SeedDomain

definition scopeChecker :: "scope_env \<Rightarrow> string \<Rightarrow> string \<Rightarrow> bool \<Rightarrow> scope_error + (string \<Rightarrow> bool)" where
  "scopeChecker env seedURL scope allowPrivate =
     (case parse_url seedURL of None \<Rightarrow> Inl SeedParse
      | Some seed \<Rightarrow>
          if Host seed = [] then Inl (SeedNoHost seedURL)
          else
            let ssrfCheck = (\<lambda>u. if allowPrivate then True else \<not> isPrivateHost env (Hostname u))
            in if scope = ''same-domain'' then
              (case registeredDomain env (Hostname seed) of None \<Rightarrow> Inl SeedDomain
               | Some seedDomain \<Rightarrow> Inr (\<lambda>raw.
                   (case parseHTTPURL raw of None \<Rightarrow> False
                    | Some u \<Rightarrow>
                        (case registeredDomain env (Hostname u) of None \<Rightarrow> False
                         | Some d \<Rightarrow> equal_fold d seedDomain \<and> ssrfCheck u))))
            else
              (let seedOrigin = Scheme seed @ ''://'' @ Host seed
               in Inr (\<lambda>raw.
                   (case parseHTTPURL raw of None \<Rightarrow> False
                    | Some u \<Rightarrow> Scheme u @ ''://'' @ Host u = seedOrigin \<and> ssrfCheck u))))"

definition ssrfSafeDialContext ::
    "resolver \<Rightarrow> (ip \<Rightarrow> string \<Rightarrow> 'conn option) \<Rightarrow> string \<Rightarrow> ip list \<times> (ssrf_error + 'conn)" where
  "ssrfSafeDialContext lookup dial addr = SafeDialContext lookup dial addr"

definition normalizeURL :: "string \<Rightarrow> string" where
  "normalizeURL raw =
     (case parse_url raw of None \<Rightarrow> []
      | Some u \<Rightarrow>
          let u1 = u\<lparr>Fragment := [], Host := to_lower (Host u), Scheme := to_lower (Scheme u)\<rparr>;
              hostname = Hostname u1; port = Port u1;
              u2 = (if (Scheme u1 = ''http'' \<and> port = ''80'') \<or> (Scheme u1 = ''https'' \<and> port = ''443'')
                    then u1\<lparr>Host := hostname\<rparr> else u1)
          in url_string u2)"

section \<open>What a scope checker accepts\<close>

text \<open>The specification: same origin or same registered domain, over http or https, and not
  private unless that is allowed.\<close>

definition in_scope_spec :: "scope_env \<Rightarrow> url \<Rightarrow> string \<Rightarrow> bool \<Rightarrow> url \<Rightarrow> bool" where
  "in_scope_spec env seed scope allowPrivate u =
     (Host u \<noteq> [] \<and> Scheme u \<in> {''http'', ''https''}
      \<and> (if scope = ''same-domain''
         then (\<exists>d e. effectiveTLDPlusOne env (Hostname u) = Some d
                 \<and> effectiveTLDPlusOne env (Hostname seed) = Some e \<and> to_lower d = to_lower e)
         else Scheme u = Scheme seed \<and> Host u = Host seed)
      \<and> (allowPrivate \<or> \<not> isPrivateHost env (Hostname u)))"

text \<open>C33. A scope checker accepts exactly the URLs the policy describes: well-formed http or https
  URLs with a host, of the seed's origin (or, under \<^verbatim>\<open>same-domain\<close>, of its registered
  domain up to letter case), whose host is not private unless that is allowed. Any other policy
  name means same-origin.\<close>

theorem scopeChecker_spec:
  assumes "scopeChecker env seedURL scope allowPrivate = Inr f"
  shows "\<exists>seed. parse_url seedURL = Some seed \<and> Host seed \<noteq> []
    \<and> (\<forall>raw. f raw = (case parse_url raw of None \<Rightarrow> False
          | Some u \<Rightarrow> in_scope_spec env seed scope allowPrivate u))"
proof -
  from assms obtain seed where seed: "parse_url seedURL = Some seed" "Host seed \<noteq> []"
    by (auto simp: scopeChecker_def split: option.splits if_splits)
  have "f raw = (case parse_url raw of None \<Rightarrow> False
          | Some u \<Rightarrow> in_scope_spec env seed scope allowPrivate u)" for raw
  proof (cases "parse_url raw")
    case None
    then show ?thesis using assms seed
      by (auto simp: scopeChecker_def Let_def parseHTTPURL_def split: if_splits option.splits)
  next
    case (Some u)
    have o: "Scheme u @ ''://'' @ Host u = Scheme seed @ ''://'' @ Host seed
        \<longleftrightarrow> Scheme u = Scheme seed \<and> Host u = Host seed"
      using parse_url_scheme [OF Some] parse_url_scheme [OF seed(1)] by (rule origin_inject)
    show ?thesis
    proof (cases "scope = ''same-domain''")
      case True
      then show ?thesis using assms seed Some
        by (cases allowPrivate) (auto simp: scopeChecker_def Let_def parseHTTPURL_def in_scope_spec_def
            registeredDomain_def equal_fold_def split: if_splits option.splits)
    next
      case False
      then have "f raw = (case parseHTTPURL raw of None \<Rightarrow> False
          | Some u \<Rightarrow> Scheme u @ ''://'' @ Host u = Scheme seed @ ''://'' @ Host seed
              \<and> (if allowPrivate then True else \<not> isPrivateHost env (Hostname u)))"
      proof -
        have "scopeChecker env seedURL scope allowPrivate = Inr (\<lambda>raw. case parseHTTPURL raw of None \<Rightarrow> False
          | Some u \<Rightarrow> Scheme u @ ''://'' @ Host u = Scheme seed @ ''://'' @ Host seed
              \<and> (if allowPrivate then True else \<not> isPrivateHost env (Hostname u)))"
          using False seed by (simp only: scopeChecker_def Let_def option.case if_False)
        from this [unfolded assms sum.inject] show ?thesis by (rule fun_cong)
      qed
      then have "f raw = (case parseHTTPURL raw of None \<Rightarrow> False
          | Some u \<Rightarrow> (Scheme u = Scheme seed \<and> Host u = Host seed)
              \<and> (allowPrivate \<or> \<not> isPrivateHost env (Hostname u)))"
        using o Some by (simp add: parseHTTPURL_def)
      then show ?thesis using False Some seed(2) by (auto simp: parseHTTPURL_def in_scope_spec_def)
    qed
  qed
  then show ?thesis using seed by blast
qed

definition sample_env :: scope_env where
  "sample_env = \<lparr>effectiveTLDPlusOne = (\<lambda>h. if has_suffix h ''x.com'' then Some ''x.com'' else None),
     lookupHost = (\<lambda>h. if h = ''a.x.com'' then Some [''93.184.216.34''] else None)\<rparr>"

lemma scopeChecker_spec_witness:
  "\<exists>seed. parse_url ''https://x.com/'' = Some seed \<and> Host seed \<noteq> []
    \<and> (\<forall>raw. (case scopeChecker sample_env ''https://x.com/'' ''same-domain'' False of Inr f \<Rightarrow> f) raw
        = (case parse_url raw of None \<Rightarrow> False
          | Some u \<Rightarrow> in_scope_spec sample_env seed ''same-domain'' False u))"
proof (rule scopeChecker_spec)
  have "parse_url ''https://x.com/'' = Some (empty_url\<lparr>Scheme := ''https'', Host := ''x.com'', Path := ''/''\<rparr>)"
    by code_simp
  moreover have "Hostname (empty_url\<lparr>Scheme := ''https'', Host := ''x.com'', Path := ''/''\<rparr>) = ''x.com''"
    by code_simp
  moreover have "registeredDomain sample_env ''x.com'' = Some ''x.com''" by code_simp
  ultimately have "\<exists>f. scopeChecker sample_env ''https://x.com/'' ''same-domain'' False = Inr f"
    by (simp add: scopeChecker_def)
  then show "scopeChecker sample_env ''https://x.com/'' ''same-domain'' False
      = Inr (case scopeChecker sample_env ''https://x.com/'' ''same-domain'' False of Inr f \<Rightarrow> f)"
    by auto
qed

section \<open>Normalised URLs\<close>

lemma host_raw_fragment [simp]:
  "Hostname (w\<lparr>RawFragment := y\<rparr>) = Hostname w" "Port (w\<lparr>RawFragment := y\<rparr>) = Port w"
  by (simp_all add: Hostname_def Port_def)

lemma url_string_raw_fragment: "Fragment w = [] \<Longrightarrow> url_string (w\<lparr>RawFragment := y\<rparr>) = url_string w"
  unfolding url_string_def by (simp add: escaped_path_def cong: if_cong)

definition strip_port :: "url \<Rightarrow> string" where
  "strip_port w = url_string (if (Scheme w = ''http'' \<and> Port w = ''80'') \<or> (Scheme w = ''https'' \<and> Port w = ''443'')
     then w\<lparr>Host := Hostname w\<rparr> else w)"

definition folded :: "url \<Rightarrow> url" where
  "folded u = u\<lparr>Fragment := [], Host := to_lower (Host u), Scheme := to_lower (Scheme u)\<rparr>"

lemma normalizeURL_parsed:
  "normalizeURL raw = (case parse_url raw of None \<Rightarrow> [] | Some u \<Rightarrow> strip_port (folded u))"
  by (cases "parse_url raw") (simp_all only: normalizeURL_def strip_port_def folded_def Let_def option.case)

lemma strip_port_raw_fragment: "Fragment w = [] \<Longrightarrow> strip_port (w\<lparr>RawFragment := y\<rparr>) = strip_port w"
proof -
  assume f: "Fragment w = []"
  then have f': "Fragment (w\<lparr>Host := Hostname w\<rparr>) = []" by simp
  have c: "w\<lparr>RawFragment := y, Host := Hostname w\<rparr> = w\<lparr>Host := Hostname w, RawFragment := y\<rparr>" by simp
  show ?thesis
    using url_string_raw_fragment [OF f, of y] url_string_raw_fragment [OF f', of y]
    by (auto simp: strip_port_def c simp del: url.update_convs)
qed

lemma folded_fragment: "folded (u\<lparr>Fragment := x, RawFragment := y\<rparr>) = folded u\<lparr>RawFragment := y\<rparr>"
  by (simp add: folded_def)

lemma folded_no_fragment [simp]: "Fragment (folded u) = []"
  by (simp add: folded_def)

text \<open>Normalisation ignores the fragment: a URL and the same URL followed by any well-formed
  fragment are one URL to the frontier.\<close>

theorem normalizeURL_fragment:
  assumes "CHR ''#'' \<notin> set raw" "parse_url (raw @ ''#'' @ f) \<noteq> None"
  shows "normalizeURL (raw @ ''#'' @ f) = normalizeURL raw"
proof -
  from assms(2) obtain u where u: "parse_url (raw @ ''#'' @ f) = Some u" by blast
  from parse_url_fragment [OF assms(1) u] obtain u' where
    "parse_url raw = Some u'" "u = u'\<lparr>Fragment := Fragment u, RawFragment := RawFragment u\<rparr>" by blast
  then have "folded u = folded u'\<lparr>RawFragment := RawFragment u\<rparr>"
    by (metis folded_fragment)
  then show ?thesis using u \<open>parse_url raw = Some u'\<close> strip_port_raw_fragment [of "folded u'" "RawFragment u"]
    by (simp add: normalizeURL_parsed)
qed

lemma normalizeURL_fragment_witness:
  "normalizeURL (''HTTP://Ex.com:80/a?b'' @ ''#'' @ ''top'') = normalizeURL ''HTTP://Ex.com:80/a?b''"
  by (rule normalizeURL_fragment) code_simp+

text \<open>A default port is removed together with the brackets of an IPv6 host, so the two spellings
  of one IPv6 origin are not normalised to one URL.\<close>

lemma normalizeURL_ipv6_default_port:
  "normalizeURL ''http://[::1]:80/'' = ''http://::1/''" "normalizeURL ''http://[::1]/'' = ''http://[::1]/''"
  by code_simp+

text \<open>A resolver answer with an IPv6 zone is not an address to \<^verbatim>\<open>net.ParseIP\<close> and
  is skipped, although the bare address is private.\<close>

lemma isPrivateHost_zoned:
  "\<not> isPrivateHost (sample_env\<lparr>lookupHost := \<lambda>_. Some [''fe80::1%eth0'']\<rparr>) ''h''"
  by code_simp

lemma isPrivateHost_unzoned:
  "isPrivateHost (sample_env\<lparr>lookupHost := \<lambda>_. Some [''fe80::1'']\<rparr>) ''h''"
  by (simp add: isPrivateHost_def isPrivateIP_def) code_simp

end
