(* ===== verification/Frontier.thy ===== *)
theory Frontier
  imports Scope "HOL-Library.Sublist"
begin

text \<open>
  The URL frontier, \<^verbatim>\<open>pkg/crawl/frontier.go\<close>: each method as a function of the
  frontier's state. Every method holds the mutex from its first to its last access, so a call is one
  atomic step, except \<^verbatim>\<open>Pop\<close>, which releases it in \<^verbatim>\<open>cond.Wait\<close>:
  \<open>Pop\<close> is one pass through the loop of the code and says whether it returned or
  waits. A broadcast is reported by the operation (second component). The workers that share a
  frontier are in \<open>Crawl_Engine\<close>. A slice's backing array (zeroed slots, compaction)
  is invisible and not modelled.
\<close>

record urlEntry =
  URL :: string
  Depth :: int

record urlFrontier =
  queue :: "urlEntry list"
  seen :: "(string, bool) gomap"
  maxDepth :: int
  scopeFn :: "(string \<Rightarrow> bool) option"
  active :: int
  closed :: bool
  dfs :: bool

definition newURLFrontier :: "int \<Rightarrow> (string \<Rightarrow> bool) option \<Rightarrow> urlFrontier" where
  "newURLFrontier depth fn = \<lparr>queue = [], seen = [], maxDepth = depth, scopeFn = fn,
     active = 0, closed = False, dfs = False\<rparr>"

text \<open>The loop of \<^verbatim>\<open>Push\<close>, with the number of entries added so far.\<close>

fun push_entries :: "urlFrontier \<Rightarrow> nat \<Rightarrow> urlEntry list \<Rightarrow> urlFrontier \<times> nat" where
  "push_entries f added [] = (f, added)"
| "push_entries f added (e # es) =
     (if maxDepth f \<ge> 0 \<and> Depth e > maxDepth f then push_entries f added es
      else
        let normalized = normalizeURL (URL e) in
        if normalized = [] then push_entries f added es
        else if map_get (seen f) normalized = Some True then push_entries f added es
        else if (case scopeFn f of None \<Rightarrow> False | Some fn \<Rightarrow> \<not> fn (URL e)) then push_entries f added es
        else push_entries (f\<lparr>seen := map_put normalized True (seen f), queue := queue f @ [e]\<rparr>) (added + 1) es)"

definition Push :: "urlEntry list \<Rightarrow> urlFrontier \<Rightarrow> (urlFrontier \<times> bool) \<times> nat" where
  "Push es f =
     (if closed f then ((f, False), 0)
      else (case push_entries f 0 es of (f', added) \<Rightarrow> ((f', added > 0), added)))"

definition SetDFS :: "bool \<Rightarrow> urlFrontier \<Rightarrow> urlFrontier" where
  "SetDFS v f = f\<lparr>dfs := v\<rparr>"

datatype pop_result = Popped urlEntry | Exhausted | Waits

definition take_fifo :: "'a list \<Rightarrow> 'a \<times> 'a list" where
  "take_fifo q = (hd q, tl q)"

definition take_lifo :: "'a list \<Rightarrow> 'a \<times> 'a list" where
  "take_lifo q = (last q, butlast q)"

definition Pop :: "urlFrontier \<Rightarrow> urlFrontier \<times> pop_result" where
  "Pop f =
     (if length (queue f) > 0 then
        (case (if dfs f then take_lifo (queue f) else take_fifo (queue f)) of
           (entry, rest) \<Rightarrow> (f\<lparr>queue := rest, active := active f + 1\<rparr>, Popped entry))
      else if active f = 0 \<or> closed f then (f, Exhausted)
      else (f, Waits))"

definition MarkIdle :: "urlFrontier \<Rightarrow> urlFrontier \<times> bool" where
  "MarkIdle f = (let f' = f\<lparr>active := active f - 1\<rparr> in (f', active f' = 0 \<and> length (queue f') = 0))"

definition Close :: "urlFrontier \<Rightarrow> urlFrontier \<times> bool" where
  "Close f = (f\<lparr>closed := True\<rparr>, True)"

definition Len :: "urlFrontier \<Rightarrow> nat" where "Len f = length (queue f)"
definition Seen :: "urlFrontier \<Rightarrow> nat" where "Seen f = length (seen f)"

section \<open>Queue disciplines\<close>

text \<open>What the crawl needs of the order in which a queue is served: taking an element removes
  exactly that element. Both orders of the code provide it.\<close>

locale discipline =
  fixes tk :: "'a list \<Rightarrow> 'a \<times> 'a list"
  assumes takes_one: "q \<noteq> [] \<Longrightarrow> mset q = add_mset (fst (tk q)) (mset (snd (tk q)))"
begin

lemma taken_in: "q \<noteq> [] \<Longrightarrow> fst (tk q) \<in> set q"
  using takes_one [of q] by (metis set_mset_mset union_single_eq_member add_mset_add_single)

lemma rest_subset: "q \<noteq> [] \<Longrightarrow> set (snd (tk q)) \<subseteq> set q"
  using takes_one [of q] by (metis set_mset_mset set_mset_add_mset_insert subset_insertI)

lemma rest_length: "q \<noteq> [] \<Longrightarrow> length q = Suc (length (snd (tk q)))"
  using takes_one [of q] by (metis size_add_mset size_mset)

lemma rest_distinct: "q \<noteq> [] \<Longrightarrow> distinct (map g q) \<Longrightarrow>
    distinct (map g (snd (tk q))) \<and> g (fst (tk q)) \<notin> g ` set (snd (tk q))"
proof -
  assume q: "q \<noteq> []" "distinct (map g q)"
  have "mset (map g q) = mset (map g (fst (tk q) # snd (tk q)))" using takes_one [OF q(1)] by simp
  then have "distinct (map g (fst (tk q) # snd (tk q)))" using q(2) by (metis mset_eq_imp_distinct_iff)
  then show ?thesis by simp
qed

end

interpretation fifo: discipline take_fifo
  by unfold_locales (simp add: take_fifo_def neq_Nil_conv, auto)

interpretation lifo: discipline take_lifo
proof (rule discipline.intro)
  fix q :: "'a list"
  assume "q \<noteq> []"
  then have "q = butlast q @ [last q]" by simp
  then have "mset q = mset (butlast q @ [last q])" by (rule arg_cong)
  then show "mset q = add_mset (fst (take_lifo q)) (mset (snd (take_lifo q)))" by (simp add: take_lifo_def)
qed

definition serve :: "urlFrontier \<Rightarrow> urlEntry list \<Rightarrow> urlEntry \<times> urlEntry list" where
  "serve f = (if dfs f then take_lifo else take_fifo)"

interpretation served: discipline "serve f" for f
  unfolding serve_def by (cases "dfs f") (simp_all add: fifo.discipline_axioms lifo.discipline_axioms)

lemma Pop_Popped:
  "Pop f = (f', Popped e) \<longleftrightarrow> queue f \<noteq> [] \<and> e = fst (serve f (queue f))
     \<and> f' = f\<lparr>queue := snd (serve f (queue f)), active := active f + 1\<rparr>"
  by (auto simp: Pop_def serve_def split: prod.splits if_splits)

lemma Pop_Exhausted:
  "Pop f = (f', Exhausted) \<longleftrightarrow> queue f = [] \<and> (active f = 0 \<or> closed f) \<and> f' = f"
  by (auto simp: Pop_def split: prod.splits if_splits)

lemma Pop_Waits:
  "Pop f = (f', Waits) \<longleftrightarrow> queue f = [] \<and> active f \<noteq> 0 \<and> \<not> closed f \<and> f' = f"
  by (auto simp: Pop_def split: prod.splits if_splits)

section \<open>Pushing\<close>

abbreviation norm :: "urlEntry \<Rightarrow> string" where
  "norm e \<equiv> normalizeURL (URL e)"

definition acceptable :: "urlFrontier \<Rightarrow> urlEntry \<Rightarrow> bool" where
  "acceptable f e = (\<not> (maxDepth f \<ge> 0 \<and> Depth e > maxDepth f) \<and> norm e \<noteq> []
     \<and> (case scopeFn f of None \<Rightarrow> True | Some fn \<Rightarrow> fn (URL e)))"

definition known :: "urlFrontier \<Rightarrow> string set" where
  "known f = dom (map_get (seen f))"

definition seen_ok :: "urlFrontier \<Rightarrow> bool" where
  "seen_ok f = (map_wf (seen f) \<and> (\<forall>k v. map_get (seen f) k = Some v \<longrightarrow> v))"

lemma seen_ok_get: "seen_ok f \<Longrightarrow> map_get (seen f) k = Some True \<longleftrightarrow> k \<in> known f"
  unfolding seen_ok_def known_def dom_def by (cases "map_get (seen f) k") auto

lemma seen_ok_put: "seen_ok f \<Longrightarrow> seen_ok (f\<lparr>seen := map_put k True (seen f), queue := q\<rparr>)"
  by (auto simp: seen_ok_def)

lemma known_put: "known (f\<lparr>seen := map_put k True (seen f), queue := q\<rparr>) = insert k (known f)"
  by (auto simp: known_def)

lemma Seen_known: "map_wf (seen f) \<Longrightarrow> Seen f = card (known f)"
  unfolding Seen_def known_def map_wf_def dom_map_of_conv_image_fst
  by (metis distinct_card length_map list.set_map)

text \<open>The loop: what it leaves alone, what it adds, and that it misses nothing acceptable.\<close>

definition pushed :: "urlFrontier \<Rightarrow> urlEntry list \<Rightarrow> urlFrontier \<Rightarrow> urlEntry list \<Rightarrow> bool" where
  "pushed f es f' new =
     (f' = f\<lparr>seen := seen f', queue := queue f @ new\<rparr> \<and> seen_ok f'
      \<and> subseq new es \<and> distinct (map norm new) \<and> norm ` set new \<inter> known f = {}
      \<and> known f' = known f \<union> norm ` set new \<and> (\<forall>e\<in>set new. acceptable f e)
      \<and> (\<forall>e\<in>set es. acceptable f e \<longrightarrow> norm e \<in> known f'))"

lemma push_entries_spec:
  "seen_ok f \<Longrightarrow> \<exists>new. pushed f es (fst (push_entries f added es)) new
     \<and> snd (push_entries f added es) = added + length new"
proof (induction es arbitrary: f added)
  case Nil
  then show ?case by (intro exI [of _ "[]"]) (simp add: pushed_def)
next
  case (Cons e es)
  show ?case
  proof (cases "acceptable f e \<and> norm e \<notin> known f")
    case True
    let ?f = "f\<lparr>seen := map_put (norm e) True (seen f), queue := queue f @ [e]\<rparr>"
    have eq: "push_entries f added (e # es) = push_entries ?f (added + 1) es"
      using True seen_ok_get [OF Cons.prems, of "norm e"]
      by (auto simp: acceptable_def Let_def split: option.splits)
    from Cons.IH [OF seen_ok_put [OF Cons.prems, where k = "norm e" and q = "queue f @ [e]"], of "added + 1"] obtain new where
      new: "pushed ?f es (fst (push_entries ?f (added + 1) es)) new"
        "snd (push_entries ?f (added + 1) es) = added + 1 + length new" by blast
    have acc: "acceptable ?f x = acceptable f x" for x by (simp add: acceptable_def)
    let ?g = "fst (push_entries ?f (added + 1) es)"
    have "pushed f (e # es) ?g (e # new)"
      unfolding pushed_def
    proof (intro conjI)
      have "?g = ?f\<lparr>seen := seen ?g, queue := queue ?f @ new\<rparr>" using new(1) unfolding pushed_def by blast
      then show "?g = f\<lparr>seen := seen ?g, queue := queue f @ e # new\<rparr>" by simp
    qed (use new(1) True in \<open>auto simp: pushed_def known_put acc\<close>)
    then show ?thesis using eq new(2) by (intro exI [of _ "e # new"]) simp
  next
    case False
    have eq: "push_entries f added (e # es) = push_entries f added es"
      using False seen_ok_get [OF Cons.prems, of "norm e"]
      by (auto simp: acceptable_def Let_def split: option.splits)
    from Cons.IH [OF Cons.prems] obtain new where
      "pushed f es (fst (push_entries f added es)) new" "snd (push_entries f added es) = added + length new"
      by blast
    moreover from this(1) have "pushed f (e # es) (fst (push_entries f added es)) new"
      using False by (auto simp: pushed_def)
    ultimately show ?thesis using eq by (intro exI [of _ new]) simp
  qed
qed

lemma Push_spec_raw:
  assumes "seen_ok f" "\<not> closed f" "Push es f = ((f', wake), n)"
  shows "\<exists>new. pushed f es f' new \<and> n = length new \<and> wake = (new \<noteq> [])"
  using push_entries_spec [OF assms(1), of es 0] assms(2,3) by (auto simp: Push_def split: prod.splits)

text \<open>C34. \<^verbatim>\<open>Push\<close> on an open frontier appends, in order, a subsequence of the given
  entries: entries within the depth limit, in scope and parseable, with pairwise different
  normalised URLs that were never seen before; it returns their number, and afterwards the
  normalised URL of every acceptable entry is seen. Nothing else of the frontier changes, waiting
  workers are woken exactly when something was added, and a closed frontier is left as it is.\<close>

theorem Push_spec:
  assumes "seen_ok f" "Push es f = ((f', wake), n)"
  shows "if closed f then f' = f \<and> \<not> wake \<and> n = 0
    else (\<exists>new. pushed f es f' new \<and> n = length new \<and> wake = (new \<noteq> []) \<and> Seen f' = Seen f + n)"
proof (cases "closed f")
  case False
  from push_entries_spec [OF assms(1), of es 0] obtain new where
    new: "pushed f es f' new" "n = length new" "wake = (new \<noteq> [])"
    using assms(2) False by (auto simp: Push_def split: prod.splits)
  have fin: "finite (known f)" by (simp add: known_def finite_dom_map_of)
  have "Seen f' = card (known f \<union> norm ` set new)"
    using new(1) Seen_known [of f'] by (simp add: pushed_def seen_ok_def)
  also have "\<dots> = card (known f) + card (norm ` set new)"
    using new(1) fin by (intro card_Un_disjoint) (auto simp: pushed_def)
  also have "card (norm ` set new) = length new"
    using new(1) distinct_card [of "map norm new"] by (simp add: pushed_def)
  also have "card (known f) = Seen f" using assms(1) by (simp add: Seen_known seen_ok_def)
  finally show ?thesis using False new by auto
qed (use assms in \<open>simp add: Push_def\<close>)

lemma Push_spec_witness:
  "let f = newURLFrontier 1 None; es = [\<lparr>URL = ''http://x/'', Depth = 0\<rparr>, \<lparr>URL = ''http://X/#t'', Depth = 1\<rparr>,
       \<lparr>URL = ''http://x/a'', Depth = 2\<rparr>]
   in if closed f then fst (fst (Push es f)) = f \<and> \<not> snd (fst (Push es f)) \<and> snd (Push es f) = 0
    else (\<exists>new. pushed f es (fst (fst (Push es f))) new \<and> snd (Push es f) = length new
      \<and> snd (fst (Push es f)) = (new \<noteq> []) \<and> Seen (fst (fst (Push es f))) = Seen f + snd (Push es f))"
  unfolding Let_def by (rule Push_spec) (simp_all add: seen_ok_def newURLFrontier_def)

end
