(* ===== verification/Crawl_Engine.thy ===== *)
theory Crawl_Engine
  imports Frontier
begin

text \<open>
  The concurrent headless crawl, \<^verbatim>\<open>pkg/crawl/engine.go\<close>
  (\<^verbatim>\<open>rodEngine.Crawl\<close>, \<^verbatim>\<open>worker\<close>,
  \<^verbatim>\<open>pageBudgetReached\<close>): workers share one frontier, a page counter and a
  context. A worker's program counter is a \<open>worker_state\<close>; a step is one critical section
  or one read of the context, and workers interleave freely. What a page visit yields (an error, or
  links) is not determined by the code: it is the argument of the step. \<open>handed\<close>,
  \<open>visited\<close> and \<open>offered\<close> record what was popped, visited and pushed; no
  step reads them.
\<close>

datatype worker_state =
    AtTop
  | AtBudget
  | InPop
  | InWait
  | Got urlEntry
  | Visiting urlEntry
  | Linking urlEntry "string list"
  | Idling
  | Leaving
  | Finished

record crawl =
  front :: urlFrontier
  workers :: "worker_state list"
  pageCount :: nat
  canceled :: bool
  handed :: "urlEntry list"
  visited :: "urlEntry list"
  offered :: "urlEntry list"

text \<open>\<^verbatim>\<open>pageBudgetReached\<close>: the answer and the counter afterwards; a limit of
  0 or less is no limit.\<close>

definition pageBudgetReached :: "nat \<Rightarrow> int \<Rightarrow> bool \<Rightarrow> bool \<times> nat" where
  "pageBudgetReached n maxPages reserve =
     (if maxPages > 0 \<and> int n \<ge> maxPages then (True, n)
      else (False, if reserve then n + 1 else n))"

text \<open>\<^verbatim>\<open>cond.Broadcast\<close>: every waiter goes back into the loop of \<^verbatim>\<open>Pop\<close>.\<close>

definition wake_all :: "worker_state list \<Rightarrow> worker_state list" where
  "wake_all ws = map (\<lambda>w. if w = InWait then InPop else w) ws"

definition woken :: "bool \<Rightarrow> worker_state list \<Rightarrow> worker_state list" where
  "woken b ws = (if b then wake_all ws else ws)"

abbreviation at :: "crawl \<Rightarrow> nat \<Rightarrow> worker_state \<Rightarrow> bool" where
  "at s i w \<equiv> i < length (workers s) \<and> workers s ! i = w"

abbreviation goto :: "nat \<Rightarrow> worker_state \<Rightarrow> crawl \<Rightarrow> crawl" where
  "goto i w s \<equiv> s\<lparr>workers := (workers s)[i := w]\<rparr>"

definition child :: "urlEntry \<Rightarrow> string \<Rightarrow> urlEntry" where
  "child e link = \<lparr>URL = link, Depth = Depth e + 1\<rparr>"

inductive wstep :: "int \<Rightarrow> crawl \<Rightarrow> crawl \<Rightarrow> bool" for maxPages :: int where
  ctx_done: "at s i AtTop \<Longrightarrow> canceled s \<Longrightarrow> wstep maxPages s (goto i Finished s)"
| ctx_live: "at s i AtTop \<Longrightarrow> \<not> canceled s \<Longrightarrow> wstep maxPages s (goto i AtBudget s)"
| budget_hit: "at s i AtBudget \<Longrightarrow> fst (pageBudgetReached (pageCount s) maxPages False) \<Longrightarrow>
    wstep maxPages s (goto i Finished s)"
| budget_left: "at s i AtBudget \<Longrightarrow> \<not> fst (pageBudgetReached (pageCount s) maxPages False) \<Longrightarrow>
    wstep maxPages s (goto i InPop s)"
| popped: "at s i InPop \<Longrightarrow> Pop (front s) = (f, Popped e) \<Longrightarrow>
    wstep maxPages s ((goto i (Got e) s)\<lparr>front := f, handed := handed s @ [e]\<rparr>)"
| exhausted: "at s i InPop \<Longrightarrow> Pop (front s) = (f, Exhausted) \<Longrightarrow>
    wstep maxPages s ((goto i Finished s)\<lparr>front := f\<rparr>)"
| waits: "at s i InPop \<Longrightarrow> Pop (front s) = (f, Waits) \<Longrightarrow>
    wstep maxPages s ((goto i InWait s)\<lparr>front := f\<rparr>)"
| no_slot: "at s i (Got e) \<Longrightarrow> pageBudgetReached (pageCount s) maxPages True = (True, c) \<Longrightarrow>
    wstep maxPages s ((goto i Leaving s)\<lparr>pageCount := c\<rparr>)"
| slot: "at s i (Got e) \<Longrightarrow> pageBudgetReached (pageCount s) maxPages True = (False, c) \<Longrightarrow>
    wstep maxPages s ((goto i (Visiting e) s)\<lparr>pageCount := c, visited := visited s @ [e]\<rparr>)"
| visit_canceled: "at s i (Visiting e) \<Longrightarrow> canceled s \<Longrightarrow> wstep maxPages s (goto i Leaving s)"
| visit_error: "at s i (Visiting e) \<Longrightarrow> \<not> canceled s \<Longrightarrow> wstep maxPages s (goto i Idling s)"
| visit_links: "at s i (Visiting e) \<Longrightarrow> links \<noteq> [] \<Longrightarrow> wstep maxPages s (goto i (Linking e links) s)"
| visit_no_links: "at s i (Visiting e) \<Longrightarrow> wstep maxPages s (goto i Idling s)"
| push_links: "at s i (Linking e links) \<Longrightarrow> Push (map (child e) links) (front s) = ((f, wake), n) \<Longrightarrow>
    wstep maxPages s (s\<lparr>workers := woken wake ((workers s)[i := Idling]), front := f,
      offered := offered s @ map (child e) links\<rparr>)"
| idle: "at s i Idling \<Longrightarrow> MarkIdle (front s) = (f, wake) \<Longrightarrow>
    wstep maxPages s (s\<lparr>workers := woken wake ((workers s)[i := AtTop]), front := f\<rparr>)"
| leave: "at s i Leaving \<Longrightarrow> MarkIdle (front s) = (f, wake) \<Longrightarrow>
    wstep maxPages s (s\<lparr>workers := woken wake ((workers s)[i := Finished]), front := f\<rparr>)"

text \<open>The environment may cancel the context at any time; \<^verbatim>\<open>Crawl\<close> closes the
  frontier once every worker has returned (\<^verbatim>\<open>wg.Wait\<close>).\<close>

inductive step :: "int \<Rightarrow> crawl \<Rightarrow> crawl \<Rightarrow> bool" for maxPages :: int where
  work: "wstep maxPages s t \<Longrightarrow> step maxPages s t"
| cancel: "step maxPages s (s\<lparr>canceled := True\<rparr>)"
| close: "set (workers s) \<subseteq> {Finished} \<Longrightarrow> Close (front s) = (f, wake) \<Longrightarrow>
    step maxPages s (s\<lparr>front := f, workers := woken wake (workers s)\<rparr>)"

text \<open>The start of \<^verbatim>\<open>Crawl\<close>: \<open>None\<close> is the rejected seed.\<close>

definition start :: "int \<Rightarrow> (string \<Rightarrow> bool) option \<Rightarrow> nat \<Rightarrow> string \<Rightarrow> crawl option" where
  "start depth fn n seedURL =
     (let seed = \<lparr>URL = seedURL, Depth = 0\<rparr> in
      (case Push [seed] (newURLFrontier depth fn) of ((f, _), added) \<Rightarrow>
         if added = 0 then None
         else Some \<lparr>front = f, workers = replicate n AtTop, pageCount = 0, canceled = False,
           handed = [], visited = [], offered = [seed]\<rparr>))"

inductive reachable :: "int \<Rightarrow> crawl \<Rightarrow> crawl \<Rightarrow> bool" for maxPages :: int and s0 :: crawl where
  init: "reachable maxPages s0 s0"
| more: "reachable maxPages s0 s \<Longrightarrow> step maxPages s t \<Longrightarrow> reachable maxPages s0 t"

inductive_cases wstepE: "wstep maxPages s t"
inductive_cases stepE: "step maxPages s t"

section \<open>Bookkeeping lemmas\<close>

fun busy :: "worker_state \<Rightarrow> bool" where
  "busy (Got _) = True"
| "busy (Visiting _) = True"
| "busy (Linking _ _) = True"
| "busy Idling = True"
| "busy Leaving = True"
| "busy _ = False"

fun got :: "worker_state \<Rightarrow> urlEntry list" where
  "got (Got e) = [e]"
| "got _ = []"

definition busy_count :: "worker_state list \<Rightarrow> nat" where
  "busy_count ws = length (filter busy ws)"

definition gots :: "worker_state list \<Rightarrow> urlEntry multiset" where
  "gots ws = mset (concat (map got ws))"

lemma busy_count_update:
  "i < length ws \<Longrightarrow> busy_count (ws[i := w]) + of_bool (busy (ws ! i)) = busy_count ws + of_bool (busy w)"
proof (induction ws arbitrary: i)
  case (Cons a ws)
  show ?case
  proof (cases i)
    case (Suc j)
    then show ?thesis using Cons.IH [of j] Cons.prems by (simp add: busy_count_def)
  qed (simp add: busy_count_def)
qed simp

lemma busy_count_same:
  "i < length ws \<Longrightarrow> busy (ws ! i) = busy w \<Longrightarrow> busy_count (ws[i := w]) = busy_count ws"
  using busy_count_update [of i ws w] by simp

lemma busy_count_woken [simp]: "busy_count (woken b ws) = busy_count ws"
proof -
  have "busy_count (wake_all ws) = busy_count ws"
    by (induction ws) (auto simp: busy_count_def wake_all_def)
  then show ?thesis by (simp add: woken_def)
qed

lemma gots_update:
  "i < length ws \<Longrightarrow> gots (ws[i := w]) + mset (got (ws ! i)) = gots ws + mset (got w)"
proof (induction ws arbitrary: i)
  case (Cons a ws)
  show ?case
  proof (cases i)
    case (Suc j)
    then show ?thesis using Cons.IH [of j] Cons.prems by (simp add: gots_def ac_simps)
  qed (simp add: gots_def ac_simps)
qed simp

lemma gots_same: "i < length ws \<Longrightarrow> got (ws ! i) = got w \<Longrightarrow> gots (ws[i := w]) = gots ws"
  using gots_update [of i ws w] by simp

lemma gots_woken [simp]: "gots (woken b ws) = gots ws"
proof -
  have "gots (wake_all ws) = gots ws"
    by (induction ws) (auto simp: gots_def wake_all_def)
  then show ?thesis by (simp add: woken_def)
qed

lemma busy_count_pos: "at s i w \<Longrightarrow> busy w \<Longrightarrow> 0 < busy_count (workers s)"
  by (auto simp: busy_count_def filter_empty_conv)

lemma mem_update: "x \<in> set (xs[i := y]) \<Longrightarrow> x \<noteq> y \<Longrightarrow> x \<in> set xs"
  using set_update_subset_insert [of xs i y] by blast

lemma mem_woken: "x \<in> set (woken b ws) \<Longrightarrow> x \<noteq> InPop \<Longrightarrow> x \<in> set ws \<and> (b \<longrightarrow> x \<noteq> InWait)"
  by (auto simp: woken_def wake_all_def split: if_splits)

section \<open>The invariant\<close>

definition budget_hit_now :: "int \<Rightarrow> crawl \<Rightarrow> bool" where
  "budget_hit_now maxPages s = (maxPages > 0 \<and> int (pageCount s) \<ge> maxPages)"

definition active_ok :: "crawl \<Rightarrow> bool" where
  "active_ok s = (active (front s) = int (busy_count (workers s)))"

definition wait_ok :: "crawl \<Rightarrow> bool" where
  "wait_ok s = (InWait \<in> set (workers s) \<longrightarrow>
     queue (front s) = [] \<and> active (front s) \<noteq> 0 \<and> \<not> closed (front s))"

definition pages_ok :: "int \<Rightarrow> crawl \<Rightarrow> bool" where
  "pages_ok maxPages s = ((maxPages > 0 \<longrightarrow> int (pageCount s) \<le> maxPages) \<and> pageCount s = length (visited s))"

definition urls_ok :: "crawl \<Rightarrow> bool" where
  "urls_ok s =
     (let all = handed s @ queue (front s) in
      seen_ok (front s) \<and> distinct (map norm all) \<and> norm ` set all = known (front s)
      \<and> (\<forall>e\<in>set all. acceptable (front s) e)
      \<and> (\<forall>e\<in>set (offered s). acceptable (front s) e \<longrightarrow> norm e \<in> known (front s)))"

definition visits_ok :: "int \<Rightarrow> crawl \<Rightarrow> bool" where
  "visits_ok maxPages s =
     (mset (visited s) + gots (workers s) \<subseteq># mset (handed s)
      \<and> (\<not> budget_hit_now maxPages s \<longrightarrow> mset (visited s) + gots (workers s) = mset (handed s)))"

definition done_ok :: "int \<Rightarrow> crawl \<Rightarrow> bool" where
  "done_ok maxPages s =
     (Leaving \<in> set (workers s) \<or> Finished \<in> set (workers s) \<longrightarrow>
       canceled s \<or> budget_hit_now maxPages s \<or> (queue (front s) = [] \<and> active (front s) = 0))"

definition closed_ok :: "crawl \<Rightarrow> bool" where
  "closed_ok s = (closed (front s) \<longrightarrow> set (workers s) \<subseteq> {Finished})"

definition crawl_ok :: "int \<Rightarrow> crawl \<Rightarrow> bool" where
  "crawl_ok maxPages s = (active_ok s \<and> wait_ok s \<and> pages_ok maxPages s \<and> urls_ok s
     \<and> visits_ok maxPages s \<and> done_ok maxPages s \<and> closed_ok s)"

lemmas crawl_ok_parts = active_ok_def wait_ok_def pages_ok_def visits_ok_def done_ok_def closed_ok_def
  budget_hit_now_def

lemma Push_frame:
  assumes "Push es f = ((f', wake), n)" "seen_ok f"
  shows "active f' = active f \<and> closed f' = closed f \<and> (\<forall>e. acceptable f' e = acceptable f e)
    \<and> (\<not> wake \<longrightarrow> queue f' = queue f)"
proof (cases "closed f")
  case False
  from push_entries_spec [OF assms(2), of es 0] assms(1) False obtain new where
    new: "pushed f es f' new" "wake = (new \<noteq> [])"
    by (auto simp: Push_def split: prod.splits)
  then obtain sn where "f' = f\<lparr>seen := sn, queue := queue f @ new\<rparr>" unfolding pushed_def by blast
  then show ?thesis using new(2) by (simp add: acceptable_def)
qed (use assms in \<open>simp add: Push_def\<close>)

section \<open>Preservation\<close>

lemma active_ok_step:
  assumes "wstep maxPages s t" "active_ok s" "seen_ok (front s)"
  shows "active_ok t"
  using assms(1)
proof cases
  case (popped i f e)
  then show ?thesis using assms(2) busy_count_update [of i "workers s" "Got e"]
    by (auto simp: active_ok_def Pop_Popped)
next
  case (push_links i e links f wake n)
  then show ?thesis using assms(2) busy_count_update [of i "workers s" Idling] Push_frame [OF _ assms(3)]
    by (auto simp: active_ok_def)
next
  case (idle i f wake)
  then show ?thesis using assms(2) busy_count_update [of i "workers s" AtTop]
    by (auto simp: active_ok_def MarkIdle_def Let_def)
next
  case (leave i f wake)
  then show ?thesis using assms(2) busy_count_update [of i "workers s" Finished]
    by (auto simp: active_ok_def MarkIdle_def Let_def)
qed (use assms(2) in \<open>auto simp: active_ok_def Pop_Exhausted Pop_Waits busy_count_same\<close>)

lemma wait_ok_step:
  assumes "wstep maxPages s t" "wait_ok s" "active_ok s" "seen_ok (front s)"
  shows "wait_ok t"
  using assms(1)
proof cases
  case (push_links i e links f wake n)
  have "busy_count (workers s) > 0" using push_links busy_count_pos [of i s "Linking e links"] by simp
  then show ?thesis using push_links assms(2,3) Push_frame [OF push_links(3) assms(4)]
    by (auto simp: wait_ok_def dest!: mem_woken mem_update)
next
  case (idle i f wake)
  then show ?thesis using assms(2)
    by (auto simp: wait_ok_def MarkIdle_def Let_def dest!: mem_woken mem_update)
next
  case (leave i f wake)
  then show ?thesis using assms(2)
    by (auto simp: wait_ok_def MarkIdle_def Let_def dest!: mem_woken mem_update)
qed (use assms(2) in \<open>auto simp: wait_ok_def Pop_Exhausted Pop_Popped Pop_Waits dest!: mem_update\<close>)

lemma pages_ok_step:
  assumes "wstep maxPages s t" "pages_ok maxPages s"
  shows "pages_ok maxPages t"
  using assms by cases (auto simp: pages_ok_def pageBudgetReached_def split: if_splits)

lemma acceptable_update [simp]:
  "acceptable (f\<lparr>queue := q\<rparr>) = acceptable f" "acceptable (f\<lparr>active := a\<rparr>) = acceptable f"
  "acceptable (f\<lparr>closed := c\<rparr>) = acceptable f"
  by (auto simp: acceptable_def fun_eq_iff)

lemma known_update [simp]:
  "known (f\<lparr>queue := q\<rparr>) = known f" "known (f\<lparr>active := a\<rparr>) = known f" "known (f\<lparr>closed := c\<rparr>) = known f"
  by (simp_all add: known_def)

lemma seen_ok_update [simp]:
  "seen_ok (f\<lparr>queue := q\<rparr>) = seen_ok f" "seen_ok (f\<lparr>active := a\<rparr>) = seen_ok f"
  "seen_ok (f\<lparr>closed := c\<rparr>) = seen_ok f"
  by (simp_all add: seen_ok_def)

lemma urls_ok_push:
  assumes "urls_ok s" "Push es (front s) = ((f, wake), n)"
  shows "urls_ok (s\<lparr>workers := ws, front := f, offered := offered s @ es\<rparr>) \<or> closed (front s)"
proof (cases "closed (front s)")
  case False
  have ok: "seen_ok (front s)" using assms(1) by (simp add: urls_ok_def Let_def)
  from push_entries_spec [OF ok, of es 0] assms(2) False obtain new where
    new: "pushed (front s) es f new" by (auto simp: Push_def split: prod.splits)
  then obtain sn where f: "f = (front s)\<lparr>seen := sn, queue := queue (front s) @ new\<rparr>"
    unfolding pushed_def by blast
  have acc: "acceptable f = acceptable (front s)" by (simp add: f acceptable_def fun_eq_iff)
  have q: "queue f = queue (front s) @ new" by (simp add: f)
  let ?A = "handed s @ queue (front s)"
  have d: "distinct (map norm ?A)" "norm ` set ?A = known (front s)"
    using assms(1) unfolding urls_ok_def Let_def by blast+
  have n: "distinct (map norm new)" "known (front s) \<inter> norm ` set new = {}"
    using new by (auto simp: pushed_def)
  have "distinct (map norm (?A @ new))"
    unfolding map_append [of norm ?A new] distinct_append set_map d(2) using d(1) n by (intro conjI)
  then have "distinct (map norm (handed s @ queue f))" by (simp only: q append.assoc)
  moreover have "norm ` set (handed s @ queue f) = known f"
    using assms(1) new by (auto simp: urls_ok_def Let_def pushed_def q)
  ultimately show ?thesis
    using assms(1) new by (auto simp: urls_ok_def Let_def pushed_def acc q)
qed simp

lemma urls_ok_pop:
  assumes "urls_ok s" "Pop (front s) = (f, Popped e)"
  shows "urls_ok (s\<lparr>workers := ws, front := f, handed := handed s @ [e]\<rparr>)"
proof -
  let ?q = "queue (front s)" and ?r = "snd (serve (front s) (queue (front s)))"
  have pop: "?q \<noteq> []" "e = fst (serve (front s) ?q)" "f = (front s)\<lparr>queue := ?r, active := active (front s) + 1\<rparr>"
    using assms(2) by (simp_all add: Pop_Popped)
  have "mset ?q = add_mset e (mset ?r)" using served.takes_one [OF pop(1), of "front s"] pop(2) by simp
  then have m: "mset (handed s @ [e] @ ?r) = mset (handed s @ ?q)" by simp
  then have "mset (map norm (handed s @ [e] @ ?r)) = mset (map norm (handed s @ ?q))"
    by (simp only: mset_map)
  then have d: "distinct (map norm (handed s @ [e] @ ?r)) = distinct (map norm (handed s @ ?q))"
    by (rule mset_eq_imp_distinct_iff)
  have st: "set (handed s @ [e] @ ?r) = set (handed s @ ?q)" using m by (rule mset_eq_setD)
  show ?thesis using assms(1) d st by (simp add: urls_ok_def Let_def pop(3) del: set_append)
qed

lemma urls_ok_frame:
  "urls_ok s \<Longrightarrow> front t = (front s)\<lparr>active := a\<rparr> \<or> front t = front s \<Longrightarrow> handed t = handed s
    \<Longrightarrow> offered t = offered s \<Longrightarrow> urls_ok t"
  by (auto simp: urls_ok_def Let_def)

lemma urls_ok_step:
  assumes "wstep maxPages s t" "urls_ok s" "closed_ok s"
  shows "urls_ok t"
  using assms(1)
proof cases
  case (popped i f e)
  then show ?thesis using urls_ok_pop [OF assms(2), of f e "(workers s)[i := Got e]"] by simp
next
  case (push_links i e links f wake n)
  have "Linking e links \<in> set (workers s)" using push_links(2) by (metis nth_mem)
  then have "\<not> closed (front s)" using assms(3) by (auto simp: closed_ok_def)
  then show ?thesis using urls_ok_push [OF assms(2) push_links(3)] push_links(1) by blast
next
  case (idle i f wake)
  then show ?thesis by (intro urls_ok_frame [OF assms(2)]) (auto simp: MarkIdle_def Let_def)
next
  case (leave i f wake)
  then show ?thesis by (intro urls_ok_frame [OF assms(2)]) (auto simp: MarkIdle_def Let_def)
qed (auto intro!: urls_ok_frame [OF assms(2)] simp: Pop_Exhausted Pop_Waits)

lemma closed_ok_step: "wstep maxPages s t \<Longrightarrow> closed_ok s \<Longrightarrow> seen_ok (front s) \<Longrightarrow> closed_ok t"
proof (cases "closed (front s)")
  case True
  assume "wstep maxPages s t" "closed_ok s"
  with True have "False"
    by (auto simp: closed_ok_def elim!: wstep.cases) (metis insertE nth_mem singletonD subsetD worker_state.distinct)+
  then show ?thesis ..
next
  case False
  assume "wstep maxPages s t" "seen_ok (front s)"
  then have "closed (front t) = closed (front s)"
  proof cases
    case (push_links i e links f wake n)
    then show ?thesis using Push_frame [OF push_links(3) \<open>seen_ok (front s)\<close>] by simp
  qed (auto simp: MarkIdle_def Let_def Pop_Popped Pop_Exhausted Pop_Waits)
  with False show ?thesis by (simp add: closed_ok_def)
qed

lemma visits_ok_step:
  assumes "wstep maxPages s t" "visits_ok maxPages s"
  shows "visits_ok maxPages t"
  using assms(1)
proof cases
  case (popped i f e)
  have "gots ((workers s)[i := Got e]) = add_mset e (gots (workers s))"
    using gots_update [of i "workers s" "Got e"] popped by simp
  then show ?thesis using popped assms(2) by (simp add: visits_ok_def budget_hit_now_def)
next
  case (no_slot i e c)
  have g: "gots (workers s) = add_mset e (gots ((workers s)[i := Leaving]))"
    using gots_update [of i "workers s" Leaving] no_slot by simp
  have "budget_hit_now maxPages t" "c = pageCount s"
    using no_slot by (auto simp: budget_hit_now_def pageBudgetReached_def split: if_splits)
  moreover have "mset (visited s) + gots ((workers s)[i := Leaving]) \<subseteq># mset (handed s)"
  proof -
    have "mset (visited s) + gots ((workers s)[i := Leaving]) \<subseteq># mset (visited s) + gots (workers s)"
      using g by simp
    also have "\<dots> \<subseteq># mset (handed s)" using assms(2) by (simp add: visits_ok_def)
    finally show ?thesis .
  qed
  ultimately show ?thesis using no_slot by (simp add: visits_ok_def)
next
  case (slot i e c)
  have g: "gots (workers s) = add_mset e (gots ((workers s)[i := Visiting e]))"
    using gots_update [of i "workers s" "Visiting e"] slot by simp
  have "\<not> budget_hit_now maxPages s"
    using slot by (auto simp: budget_hit_now_def pageBudgetReached_def split: if_splits)
  then have "mset (visited s) + gots (workers s) = mset (handed s)"
    using assms(2) by (simp add: visits_ok_def)
  then show ?thesis using slot g by (simp add: visits_ok_def)
qed (use assms(2) in \<open>auto simp: visits_ok_def budget_hit_now_def gots_same Pop_Exhausted Pop_Waits\<close>)

lemma done_ok_step:
  assumes "wstep maxPages s t" "done_ok maxPages s" "active_ok s" "wait_ok s" "closed_ok s" "seen_ok (front s)"
  shows "done_ok maxPages t"
proof -
  have nobusy: "\<not> (queue (front s) = [] \<and> active (front s) = 0)" if "at s i w" "busy w" for i w
    using assms(3) busy_count_pos [OF that] by (simp add: active_ok_def)
  have open': "\<not> closed (front s)" if "at s i w" "w \<noteq> Finished" for i w
    using assms(5) that by (auto simp: closed_ok_def dest: nth_mem)
  show ?thesis using assms(1)
  proof cases
    case (exhausted i f)
    then show ?thesis using assms(2) open' [of i InPop]
      by (auto simp: done_ok_def budget_hit_now_def Pop_Exhausted dest!: mem_update)
  next
    case (budget_hit i)
    then have "budget_hit_now maxPages t"
      by (auto simp: budget_hit_now_def pageBudgetReached_def split: if_splits)
    then show ?thesis by (simp add: done_ok_def)
  next
    case (no_slot i e c)
    then have "budget_hit_now maxPages t"
      by (auto simp: budget_hit_now_def pageBudgetReached_def split: if_splits)
    then show ?thesis by (simp add: done_ok_def)
  next
    case (slot i e c)
    then show ?thesis using assms(2) nobusy [of i "Got e"]
      by (auto simp: done_ok_def budget_hit_now_def pageBudgetReached_def split: if_splits dest!: mem_update)
  next
    case (push_links i e links f wake n)
    then show ?thesis using assms(2) nobusy [of i "Linking e links"]
      by (auto simp: done_ok_def budget_hit_now_def dest!: mem_woken mem_update)
  next
    case (idle i f wake)
    then show ?thesis using assms(2) nobusy [of i Idling]
      by (auto simp: done_ok_def budget_hit_now_def dest!: mem_woken mem_update)
  next
    case (leave i f wake)
    then have "Leaving \<in> set (workers s)" by (metis nth_mem)
    then show ?thesis using assms(2) nobusy [of i Leaving] leave
      by (auto simp: done_ok_def budget_hit_now_def)
  qed (use assms(2) in \<open>auto simp: done_ok_def budget_hit_now_def Pop_Popped Pop_Waits dest!: mem_update\<close>)
qed

lemma crawl_ok_step:
  assumes "step maxPages s t" "crawl_ok maxPages s"
  shows "crawl_ok maxPages t"
  using assms(1)
proof cases
  case work
  have ok: "seen_ok (front s)" using assms(2) by (simp add: crawl_ok_def urls_ok_def Let_def)
  show ?thesis
    using assms(2) active_ok_step [OF work _ ok] wait_ok_step [OF work _ _ ok] pages_ok_step [OF work]
      urls_ok_step [OF work] visits_ok_step [OF work] done_ok_step [OF work _ _ _ _ ok]
      closed_ok_step [OF work _ ok]
    unfolding crawl_ok_def by blast
next
  case cancel
  have "urls_ok t" using assms(2) cancel by (intro urls_ok_frame [of s t]) (auto simp: crawl_ok_def)
  then show ?thesis using assms(2) cancel by (auto simp: crawl_ok_def crawl_ok_parts)
next
  case (close f wake)
  have f: "f = (front s)\<lparr>closed := True\<rparr>" using close(3) by (simp add: Close_def)
  have w: "x \<in> set (woken wake (workers s)) \<Longrightarrow> x = Finished" for x
    using close(2) by (auto simp: woken_def wake_all_def split: if_splits)
  have "urls_ok t" using assms(2) close(1) f by (auto simp: crawl_ok_def urls_ok_def Let_def)
  moreover have "InWait \<notin> set (workers t)" "Leaving \<notin> set (workers t)" "set (workers t) \<subseteq> {Finished}"
    using w close(1) by auto
  moreover have "Finished \<in> set (workers t) \<Longrightarrow> Finished \<in> set (workers s)"
    using close(1) by (auto dest!: mem_woken)
  ultimately show ?thesis using assms(2) close(1) f
    by (auto simp: crawl_ok_def crawl_ok_parts)
qed

lemma start_ok:
  assumes "start depth fn n seedURL = Some s0"
  shows "crawl_ok maxPages s0" "acceptable (front s0) = acceptable (newURLFrontier depth fn)"
proof -
  let ?f0 = "newURLFrontier depth fn" and ?seed = "\<lparr>URL = seedURL, Depth = 0\<rparr>"
  obtain f wake added where push: "Push [?seed] ?f0 = ((f, wake), added)"
    by (metis surj_pair)
  have ok: "seen_ok ?f0" "\<not> closed ?f0" "known ?f0 = {}" "queue ?f0 = []"
    by (simp_all add: seen_ok_def newURLFrontier_def known_def)
  have s0: "s0 = \<lparr>front = f, workers = replicate n AtTop, pageCount = 0, canceled = False,
           handed = [], visited = [], offered = [?seed]\<rparr>" "added \<noteq> 0"
    using assms push by (simp_all add: start_def Let_def split: if_splits)
  from Push_spec_raw [OF ok(1,2) push] obtain new where new: "pushed ?f0 [?seed] f new" by blast
  note fr = Push_frame [OF push ok(1)]
  have q: "queue f = new" using new ok(4) unfolding pushed_def by (metis append_Nil urlFrontier.select_convs(1) urlFrontier.surjective urlFrontier.update_convs(1) urlFrontier.update_convs(2))
  have "busy_count (replicate n AtTop) = 0" "gots (replicate n AtTop) = {#}"
    by (auto simp: busy_count_def gots_def)
  moreover have "active f = 0" "\<not> closed f" using fr by (simp_all add: newURLFrontier_def)
  moreover have "acceptable f = acceptable ?f0" using fr by (simp add: fun_eq_iff)
  ultimately show "crawl_ok maxPages s0" "acceptable (front s0) = acceptable ?f0"
    using new ok(3) by (auto simp: crawl_ok_def crawl_ok_parts urls_ok_def Let_def s0(1) pushed_def q)
qed

lemma step_acceptable:
  assumes "step maxPages s t" "crawl_ok maxPages s"
  shows "acceptable (front t) = acceptable (front s)"
  using assms(1)
proof cases
  case work
  have ok: "seen_ok (front s)" using assms(2) by (simp add: crawl_ok_def urls_ok_def Let_def)
  from work show ?thesis
  proof cases
    case (push_links i e links f wake n)
    then show ?thesis using Push_frame [OF push_links(3) ok] by (simp add: fun_eq_iff)
  qed (auto simp: MarkIdle_def Let_def Pop_Popped Pop_Exhausted Pop_Waits)
qed (auto simp: Close_def)

lemma reachable_ok:
  assumes "start depth fn n seedURL = Some s0" "reachable maxPages s0 s"
  shows "crawl_ok maxPages s \<and> acceptable (front s) = acceptable (newURLFrontier depth fn)"
  using assms(2)
proof induction
  case init
  then show ?case using start_ok [OF assms(1)] by blast
next
  case (more s t)
  then show ?case using crawl_ok_step step_acceptable by metis
qed

section \<open>Running the model\<close>

text \<open>An executable step of one worker, given what a page visit would yield, and runs of a
  schedule: they are steps of the relation.\<close>

datatype outcome = Fails | Links "string list"

definition exec :: "int \<Rightarrow> nat \<times> outcome \<Rightarrow> crawl \<Rightarrow> crawl" where
  "exec maxPages choice s =
     (case choice of (i, out) \<Rightarrow>
      if i \<ge> length (workers s) then s
      else (case workers s ! i of
          AtTop \<Rightarrow> if canceled s then goto i Finished s else goto i AtBudget s
        | AtBudget \<Rightarrow> if fst (pageBudgetReached (pageCount s) maxPages False) then goto i Finished s
            else goto i InPop s
        | InPop \<Rightarrow> (case Pop (front s) of
              (f, Popped e) \<Rightarrow> (goto i (Got e) s)\<lparr>front := f, handed := handed s @ [e]\<rparr>
            | (f, Exhausted) \<Rightarrow> (goto i Finished s)\<lparr>front := f\<rparr>
            | (f, Waits) \<Rightarrow> (goto i InWait s)\<lparr>front := f\<rparr>)
        | Got e \<Rightarrow> (case pageBudgetReached (pageCount s) maxPages True of
              (True, c) \<Rightarrow> (goto i Leaving s)\<lparr>pageCount := c\<rparr>
            | (False, c) \<Rightarrow> (goto i (Visiting e) s)\<lparr>pageCount := c, visited := visited s @ [e]\<rparr>)
        | Visiting e \<Rightarrow> (case out of
              Fails \<Rightarrow> if canceled s then goto i Leaving s else goto i Idling s
            | Links ls \<Rightarrow> if ls = [] then goto i Idling s else goto i (Linking e ls) s)
        | Linking e ls \<Rightarrow> (case Push (map (child e) ls) (front s) of ((f, wake), n) \<Rightarrow>
              s\<lparr>workers := woken wake ((workers s)[i := Idling]), front := f,
                offered := offered s @ map (child e) ls\<rparr>)
        | Idling \<Rightarrow> (case MarkIdle (front s) of (f, wake) \<Rightarrow>
              s\<lparr>workers := woken wake ((workers s)[i := AtTop]), front := f\<rparr>)
        | Leaving \<Rightarrow> (case MarkIdle (front s) of (f, wake) \<Rightarrow>
              s\<lparr>workers := woken wake ((workers s)[i := Finished]), front := f\<rparr>)
        | _ \<Rightarrow> s))"

lemma exec_step: "exec maxPages (i, out) s = s \<or> wstep maxPages s (exec maxPages (i, out) s)"
proof (cases "i < length (workers s)")
  case True
  show ?thesis
  proof (cases "workers s ! i")
    case InPop
    obtain f r where "Pop (front s) = (f, r)" by fastforce
    with True InPop show ?thesis
      by (cases r) (auto simp: exec_def intro: wstep.popped wstep.exhausted wstep.waits)
  next
    case (Got e)
    obtain b c where "pageBudgetReached (pageCount s) maxPages True = (b, c)" by fastforce
    with True Got show ?thesis by (cases b) (auto simp: exec_def intro: wstep.no_slot wstep.slot)
  next
    case (Linking e ls)
    obtain f wake n where "Push (map (child e) ls) (front s) = ((f, wake), n)" by (metis surj_pair)
    with True Linking show ?thesis by (auto simp: exec_def intro: wstep.push_links)
  next
    case Idling
    obtain f wake where "MarkIdle (front s) = (f, wake)" by fastforce
    with True Idling show ?thesis by (auto simp: exec_def intro: wstep.idle)
  next
    case Leaving
    obtain f wake where "MarkIdle (front s) = (f, wake)" by fastforce
    with True Leaving show ?thesis by (auto simp: exec_def intro: wstep.leave)
  qed (use True in \<open>auto simp: exec_def intro: wstep.intros split: outcome.splits\<close>)
qed (simp add: exec_def)

definition run :: "int \<Rightarrow> (nat \<times> outcome) list \<Rightarrow> crawl \<Rightarrow> crawl" where
  "run maxPages cs s = fold (exec maxPages) cs s"

lemma run_reachable: "reachable maxPages s0 (run maxPages cs s0)"
proof (induction cs rule: rev_induct)
  case Nil
  then show ?case by (simp add: run_def reachable.init)
next
  case (snoc c cs)
  obtain i out where "c = (i, out)" by fastforce
  then show ?case
    using snoc exec_step [of maxPages i out "run maxPages cs s0"] reachable.more [OF snoc step.work]
    by (auto simp: run_def)
qed

text \<open>A crawl of two workers over a site of two pages.\<close>

definition sample_start :: crawl where
  "sample_start = the (start 5 None 2 ''http://x/'')"

definition all_returned :: "crawl \<Rightarrow> bool" where
  "all_returned s = (workers s \<noteq> [] \<and> list_all (\<lambda>w. w = Finished) (workers s) \<and> \<not> canceled s)"

definition sample_run :: crawl where
  "sample_run = run 0
     ([(0, Fails), (1, Fails), (0, Fails), (1, Fails), (0, Fails), (1, Fails), (0, Fails),
       (0, Links [''http://x/a'', ''http://x/#t'']), (0, Fails), (1, Fails), (1, Fails),
       (1, Links []), (1, Fails)]
      @ concat (replicate 8 [(0, Fails), (1, Fails)])) sample_start"

lemma sample_start: "start 5 None 2 ''http://x/'' = Some sample_start"
proof -
  have "\<not> Option.is_none (start 5 None 2 ''http://x/'')" by code_simp
  then show ?thesis by (cases "start 5 None 2 ''http://x/''") (auto simp: sample_start_def)
qed

lemma sample_reachable: "reachable 0 sample_start sample_run"
  by (simp only: sample_run_def run_reachable)

section \<open>Safety, progress and completeness of the crawl\<close>

text \<open>C28. Safety of the concurrent crawl: in every reachable state, under every interleaving, no
  two visited pages have the same normalised URL, every visited page is within the depth limit and
  accepted by the scope function, and with a page limit no more pages than the limit are visited.\<close>

theorem crawl_safe:
  assumes "start depth fn n seedURL = Some s0" "reachable maxPages s0 s"
  shows "distinct (map norm (visited s))
    \<and> (\<forall>e\<in>set (visited s). acceptable (newURLFrontier depth fn) e)
    \<and> (maxPages > 0 \<longrightarrow> int (length (visited s)) \<le> maxPages)"
proof -
  have ok: "crawl_ok maxPages s" and acc: "acceptable (front s) = acceptable (newURLFrontier depth fn)"
    using reachable_ok [OF assms] by blast+
  have sub: "mset (visited s) \<subseteq># mset (handed s)"
    using ok by (auto simp: crawl_ok_def visits_ok_def intro: subset_mset.order_trans [OF mset_subset_eq_add_left])
  have "image_mset norm (mset (visited s)) \<subseteq># image_mset norm (mset (handed s))"
    using sub by (rule image_mset_subseteq_mono)
  moreover have "distinct (map norm (handed s))" using ok by (simp add: crawl_ok_def urls_ok_def Let_def)
  ultimately have "distinct (map norm (visited s))" by (metis mset_map distinct_submset)
  moreover have "set (visited s) \<subseteq> set (handed s)" using sub by (metis set_mset_mono set_mset_mset)
  ultimately show ?thesis using ok acc by (auto simp: crawl_ok_def urls_ok_def Let_def pages_ok_def)
qed

lemma crawl_safe_witness:
  "distinct (map norm (visited sample_run))"
  by (rule crawl_safe [OF sample_start sample_reachable, THEN conjunct1])

text \<open>C27. No deadlock and no lost wake-up: as long as some worker has not returned, some worker can
  take a step. In particular the workers blocked in \<^verbatim>\<open>Pop\<close> are never left waiting with
  work in the queue or with nobody to wake them.\<close>

theorem crawl_progress:
  assumes "start depth fn n seedURL = Some s0" "reachable maxPages s0 s" "\<not> set (workers s) \<subseteq> {Finished}"
  shows "\<exists>t. wstep maxPages s t"
proof -
  have ok: "crawl_ok maxPages s" using reachable_ok [OF assms(1,2)] by blast
  have go: "\<exists>t. wstep maxPages s t" if at: "at s i w" and w: "w \<noteq> Finished" "w \<noteq> InWait" for i w
  proof (cases w)
    case AtTop
    then show ?thesis using at by (cases "canceled s") (blast intro: wstep.ctx_done wstep.ctx_live)+
  next
    case AtBudget
    then show ?thesis using at
      by (cases "fst (pageBudgetReached (pageCount s) maxPages False)") (blast intro: wstep.budget_hit wstep.budget_left)+
  next
    case InPop
    obtain f r where "Pop (front s) = (f, r)" by fastforce
    with at InPop show ?thesis by (cases r) (blast intro: wstep.popped wstep.exhausted wstep.waits)+
  next
    case (Got e)
    obtain b c where bc: "pageBudgetReached (pageCount s) maxPages True = (b, c)" by fastforce
    show ?thesis
    proof (cases b)
      case True
      with at Got bc show ?thesis by (intro exI) (rule wstep.no_slot, simp, simp)
    next
      case False
      with at Got bc show ?thesis by (intro exI) (rule wstep.slot, simp, simp)
    qed
  next
    case (Linking e links)
    obtain f wake m where "Push (map (child e) links) (front s) = ((f, wake), m)" by (metis surj_pair)
    with at Linking show ?thesis by (blast intro: wstep.push_links)
  next
    case Idling
    obtain f wake where "MarkIdle (front s) = (f, wake)" by fastforce
    with at Idling show ?thesis by (blast intro: wstep.idle)
  next
    case Leaving
    obtain f wake where "MarkIdle (front s) = (f, wake)" by fastforce
    with at Leaving show ?thesis by (blast intro: wstep.leave)
  qed (use at w in \<open>blast intro: wstep.visit_no_links\<close>)+
  obtain w where w: "w \<in> set (workers s)" "w \<noteq> Finished" using assms(3) by blast
  show ?thesis
  proof (cases "w = InWait")
    case True
    then have "busy_count (workers s) > 0"
      using ok w(1) by (auto simp: crawl_ok_def wait_ok_def active_ok_def)
    then obtain v where "v \<in> set (workers s)" "busy v"
      by (auto simp: busy_count_def filter_empty_conv)
    moreover from this(1) obtain i where "at s i v" by (metis in_set_conv_nth)
    moreover have "v \<noteq> Finished" "v \<noteq> InWait" using \<open>busy v\<close> by auto
    ultimately show ?thesis by (intro go [of i v])
  next
    case False
    moreover from w(1) obtain i where "at s i w" by (metis in_set_conv_nth)
    ultimately show ?thesis using w(2) by (intro go [of i w])
  qed
qed

lemma crawl_progress_witness: "\<exists>t. wstep 0 sample_start t"
proof (rule crawl_progress [OF sample_start reachable.init])
  have "AtTop \<in> set (workers sample_start)" by code_simp
  then show "\<not> set (workers sample_start) \<subseteq> {Finished}" by auto
qed

text \<open>C29. Completeness: when all workers have returned, the context was not cancelled and the page
  limit was not reached, the queue is empty, every page that was handed out was visited, and so was
  the seed and every acceptable link found on any visited page, up to normalisation.\<close>

theorem crawl_complete:
  assumes "start depth fn n seedURL = Some s0" "reachable maxPages s0 s"
    and "workers s \<noteq> []" "set (workers s) \<subseteq> {Finished}"
    and "\<not> canceled s" "\<not> (maxPages > 0 \<and> int (pageCount s) \<ge> maxPages)"
  shows "queue (front s) = [] \<and> mset (visited s) = mset (handed s)
    \<and> (\<forall>e\<in>set (offered s). acceptable (newURLFrontier depth fn) e \<longrightarrow> norm e \<in> norm ` set (visited s))"
proof -
  have ok: "crawl_ok maxPages s" and acc: "acceptable (front s) = acceptable (newURLFrontier depth fn)"
    using reachable_ok [OF assms(1,2)] by blast+
  have "Finished \<in> set (workers s)" using assms(3,4) by (cases "workers s") auto
  then have q: "queue (front s) = []" using ok assms(5,6) by (auto simp: crawl_ok_def crawl_ok_parts)
  have "gots (workers s) = {#}" using assms(4) by (auto simp: gots_def)
  then have m: "mset (visited s) = mset (handed s)"
    using ok assms(6) by (simp add: crawl_ok_def crawl_ok_parts)
  then have "set (visited s) = set (handed s)" by (rule mset_eq_setD)
  then show ?thesis using q m ok acc by (auto simp: crawl_ok_def urls_ok_def Let_def)
qed

lemma crawl_complete_witness:
  "queue (front sample_run) = [] \<and> mset (visited sample_run) = mset (handed sample_run)"
proof -
  have "all_returned sample_run" by code_simp
  then have "workers sample_run \<noteq> []" "set (workers sample_run) \<subseteq> {Finished}" "\<not> canceled sample_run"
    by (auto simp: all_returned_def list_all_iff)
  from crawl_complete [OF sample_start sample_reachable this] show ?thesis by simp
qed

end
