(* ===== verification/Crawl_Types.thy ===== *)
theory Crawl_Types
  imports Media_Type
begin

text \<open>
  Captured traffic: \<^verbatim>\<open>pkg/crawl/types.go\<close> and \<^verbatim>\<open>capture.go\<close>. A Go map that
  is compared with \<^verbatim>\<open>nil\<close> somewhere is an option; elsewhere nil and the empty map are
  the same list. The JSON reader and writer of captures are \<^verbatim>\<open>encoding/json\<close> on these
  records and not modelled.
\<close>

type_synonym url_values = "(string, string list) gomap"

record ObservedResponse =
  StatusCode :: int
  RespHeaders :: headers
  ContentType :: string
  RespBody :: bytes

record ObservedRequest =
  Method :: string
  URL :: string
  Headers :: headers
  QueryParams :: "url_values option"
  Body :: bytes
  Response :: ObservedResponse
  Source :: string
  Tag :: string
  Attribute :: string
  PageURL :: string

definition empty_response :: ObservedResponse where
  "empty_response = \<lparr>StatusCode = 0, RespHeaders = [], ContentType = [], RespBody = []\<rparr>"

definition empty_request :: ObservedRequest where
  "empty_request = \<lparr>Method = [], URL = [], Headers = [], QueryParams = None, Body = [],
     Response = empty_response, Source = [], Tag = [], Attribute = [], PageURL = []\<rparr>"

definition SourceStaticJS :: string where "SourceStaticJS = ''static:js''"
definition SourceStaticJSSourcemap :: string where "SourceStaticJSSourcemap = ''static:js-sourcemap''"
definition SourceStaticJSConcat :: string where "SourceStaticJSConcat = ''static:js-concat''"

definition IsJSStaticSource :: "string \<Rightarrow> bool" where
  "IsJSStaticSource source =
     (source = SourceStaticJS \<or> source = SourceStaticJSSourcemap \<or> source = SourceStaticJSConcat)"

definition AnyStaticSource :: "ObservedRequest list \<Rightarrow> bool" where
  "AnyStaticSource reqs = list_ex (\<lambda>r. IsJSStaticSource (Source r)) reqs"

section \<open>Caps on query parameters\<close>

definition MaxQueryParamValues :: nat where "MaxQueryParamValues = 256"
definition MaxQueryParamKeys :: nat where "MaxQueryParamKeys = 512"

text \<open>\<^verbatim>\<open>q[k] = vs[:MaxQueryParamValues]\<close> for every key.\<close>

definition cap_values :: "url_values \<Rightarrow> url_values" where
  "cap_values q = map (\<lambda>(k, vs). (k, if length vs > MaxQueryParamValues then take MaxQueryParamValues vs else vs)) q"

text \<open>Then the keys past the cap in sorted order are deleted.\<close>

definition CapQueryValues :: "url_values \<Rightarrow> url_values" where
  "CapQueryValues q =
     (let q1 = cap_values q
      in if length q1 > MaxQueryParamKeys
         then fold AList.delete (drop MaxQueryParamKeys (sort (map fst q1))) q1
         else q1)"

subsection \<open>What the caps keep\<close>

lemma cap_values_keys [simp]: "map fst (cap_values q) = map fst q"
  by (simp add: cap_values_def case_prod_beta comp_def)

lemma cap_values_length [simp]: "length (cap_values q) = length q"
  by (simp add: cap_values_def)

lemma cap_values_entry: "(k, vs) \<in> set (cap_values q) \<longleftrightarrow> (\<exists>ws. (k, ws) \<in> set q \<and> vs = take MaxQueryParamValues ws)"
proof -
  have "cap_values q = map (\<lambda>(k, vs). (k, take MaxQueryParamValues vs)) q" by (auto simp: cap_values_def)
  then show ?thesis by auto
qed

lemma fold_delete: "fold AList.delete ks q = filter (\<lambda>kv. fst kv \<notin> set ks) q"
proof (induction ks arbitrary: q)
  case (Cons a ks)
  then show ?case by (auto simp: AList.delete_eq case_prod_beta intro: filter_cong)
qed simp

lemma set_drop_sorted: "distinct ks \<Longrightarrow> set ks - set (drop n ks) = set (take n ks)"
proof -
  assume "distinct ks"
  then have "distinct (take n ks @ drop n ks)" by simp
  then have "set (take n ks) \<inter> set (drop n ks) = {}" unfolding distinct_append by blast
  moreover have "set ks = set (take n ks) \<union> set (drop n ks)" by (metis append_take_drop_id set_append)
  ultimately show ?thesis by blast
qed

lemma CapQueryValues_as_filter:
  "CapQueryValues q = (if length q > MaxQueryParamKeys
     then filter (\<lambda>kv. fst kv \<notin> set (drop MaxQueryParamKeys (sort (map fst q)))) (cap_values q)
     else cap_values q)"
  by (simp add: CapQueryValues_def Let_def fold_delete)

lemma CapQueryValues_keys:
  assumes "map_wf q"
  shows "fst ` set (CapQueryValues q) = set (take MaxQueryParamKeys (sort (map fst q)))"
proof (cases "length q > MaxQueryParamKeys")
  case True
  have k: "fst ` set (cap_values q) = set (sort (map fst q))"
    by (metis cap_values_keys list.set_map set_sort)
  have "fst ` set (filter (\<lambda>kv. fst kv \<notin> A) m) = fst ` set m - A" for A and m :: url_values
    by auto
  then have "fst ` set (CapQueryValues q)
      = set (sort (map fst q)) - set (drop MaxQueryParamKeys (sort (map fst q)))"
    using True k by (simp add: CapQueryValues_as_filter del: set_sort)
  then show ?thesis using assms by (simp add: set_drop_sorted map_wf_def del: set_sort)
next
  case False
  have "fst ` set (cap_values q) = set (map fst q)"
    by (metis cap_values_keys list.set_map)
  then show ?thesis using False by (simp add: CapQueryValues_as_filter)
qed

text \<open>The caps bound an untrusted query: at most 512 keys survive, namely the lexicographically
  smallest, each with a prefix of at most 256 of its values; nothing is invented, and which keys and
  values survive does not depend on the map's iteration order.\<close>

theorem CapQueryValues_bounds:
  assumes "map_wf q"
  shows "length (CapQueryValues q) \<le> MaxQueryParamKeys
    \<and> fst ` set (CapQueryValues q) = set (take MaxQueryParamKeys (sort (map fst q)))
    \<and> (\<forall>(k, vs)\<in>set (CapQueryValues q). length vs \<le> MaxQueryParamValues
        \<and> (\<exists>ws. map_get q k = Some ws \<and> vs = take MaxQueryParamValues ws))
    \<and> (\<forall>q'. mset q' = mset q \<longrightarrow> set (CapQueryValues q') = set (CapQueryValues q))"
proof (intro conjI)
  have d: "distinct (map fst (CapQueryValues q))"
    using assms by (simp add: CapQueryValues_as_filter map_wf_def distinct_map_filter)
  have "length (CapQueryValues q) = card (fst ` set (CapQueryValues q))"
    using distinct_card [OF d] by simp
  also have "\<dots> \<le> MaxQueryParamKeys"
    unfolding CapQueryValues_keys [OF assms]
    by (rule order.trans [OF card_length]) simp
  finally show "length (CapQueryValues q) \<le> MaxQueryParamKeys" .
  show "\<forall>(k, vs)\<in>set (CapQueryValues q). length vs \<le> MaxQueryParamValues
        \<and> (\<exists>ws. map_get q k = Some ws \<and> vs = take MaxQueryParamValues ws)"
    using map_get_SomeI [OF assms] by (fastforce simp: CapQueryValues_as_filter cap_values_entry split: if_splits)
  show "\<forall>q'. mset q' = mset q \<longrightarrow> set (CapQueryValues q') = set (CapQueryValues q)"
  proof (intro allI impI)
    fix q'
    assume m: "mset q' = mset q"
    have "sort (map fst q') = sort (map fst q)"
      using m by (metis mset_map properties_for_sort mset_sort sorted_sort)
    moreover have "set (cap_values q') = set (cap_values q)"
      using mset_eq_setD [OF m] by (simp add: cap_values_def)
    moreover have "length q' = length q" using m by (metis size_mset)
    ultimately show "set (CapQueryValues q') = set (CapQueryValues q)"
      by (simp add: CapQueryValues_as_filter)
  qed
qed (rule CapQueryValues_keys [OF assms])

lemma CapQueryValues_bounds_witness:
  "length (CapQueryValues [(''b'', [''1'']), (''a'', [])]) \<le> MaxQueryParamKeys"
  by (rule CapQueryValues_bounds [THEN conjunct1]) (simp add: map_wf_def)

end
