(* ===== verification/Classify_Types.thy ===== *)
theory Classify_Types
  imports Crawl_Types
begin

text \<open>
  What a classifier produces: the records of \<^verbatim>\<open>pkg/classify/types.go\<close>, the
  confidence scores, and the contract of a classifier
  (\<^verbatim>\<open>DetailedClassifier\<close> of \<^verbatim>\<open>classifier.go\<close>). Go's struct
  embedding is record extension. A confidence is a non-negative float64 of at most 1: it is the
  natural number of \<open>2^-60\<close>s, so the constants below are the exact values of the Go
  constants and comparing is exact; the one addition of the code is rounded to 53 bits, half to
  even, as IEEE does.
\<close>

type_synonym confidence = nat

section \<open>Introspection results\<close>

datatype GraphQLTypeRef = GraphQLTypeRef (RefName: "string option") (RefKind: string) (OfType: "GraphQLTypeRef option")

record GraphQLInputValue =
  InputName :: string
  InputDescription :: string
  InputType :: GraphQLTypeRef
  DefaultValue :: "string option"

record GraphQLEnumValue =
  EnumName :: string
  EnumDescription :: string
  EnumIsDeprecated :: bool
  EnumDeprecationReason :: string

record GraphQLField =
  FieldName :: string
  FieldDescription :: string
  FieldType :: GraphQLTypeRef
  Args :: "GraphQLInputValue list"
  IsDeprecated :: bool
  DeprecationReason :: string

record GraphQLType =
  TypeName :: string
  Kind :: string
  Description :: string
  Fields :: "GraphQLField list"
  InputFields :: "GraphQLInputValue list"
  EnumValues :: "GraphQLEnumValue list"
  Interfaces :: "GraphQLTypeRef list"
  PossibleTypes :: "GraphQLTypeRef list"

record GraphQLIntrospection =
  IntrospectionEnabled :: bool
  Types :: "GraphQLType list"
  RawResponse :: bytes
  QueryTypeName :: string
  MutationTypeName :: string
  SubscriptionTypeName :: string

record GRPCMethod =
  RPCName :: string
  RPCInputType :: string
  RPCOutputType :: string
  ClientStreaming :: bool
  ServerStreaming :: bool

record GRPCService =
  ServiceName :: string
  Methods :: "GRPCMethod list"

record GRPCReflectionResult =
  ReflectionEnabled :: bool
  ReflectionUnavailableReason :: string
  Services :: "GRPCService list"
  FileDescriptors :: "(string, bytes) gomap"

section \<open>Classified requests\<close>

record 'schema ClassifiedRequest = ObservedRequest +
  IsAPI :: bool
  Confidence :: confidence
  Reason :: string
  APIType :: string
  MultiValueQueryKeys :: "(string, bool) gomap option"
  AllowedMethods :: "string list"
  ResponseSchema :: "'schema option"
  WSDLDocument :: bytes
  GraphQLSchema :: "GraphQLIntrospection option"
  GRPCSchema :: "GRPCReflectionResult option"

section \<open>Scores\<close>

definition one :: confidence where "one = 2 ^ 60"

definition DefaultConfidenceThreshold :: confidence where
  "DefaultConfidenceThreshold = 576460752303423488"

fun bit_len :: "nat \<Rightarrow> nat" where
  "bit_len n = (if n = 0 then 0 else Suc (bit_len (n div 2)))"

declare bit_len.simps [simp del]

text \<open>Rounding to 53 significant bits, half to even.\<close>

definition f64_round :: "nat \<Rightarrow> nat" where
  "f64_round x =
     (let k = bit_len x - 53; q = x div 2 ^ k; r = x mod 2 ^ k
      in (if k > 0 \<and> (2 * r > 2 ^ k \<or> (2 * r = 2 ^ k \<and> odd q)) then q + 1 else q) * 2 ^ k)"

section \<open>Classifiers\<close>

type_synonym verdict = "bool \<times> confidence \<times> string"

record classifier =
  ClassifierName :: string
  ClassifyDetail :: "ObservedRequest \<Rightarrow> verdict"

definition rejected :: verdict where "rejected = (False, 0, [])"

text \<open>The contract the runner relies on: a verdict is positive exactly when its confidence is, a
  confidence is at most 1, and a positive verdict gives a reason.\<close>

locale api_classifier =
  fixes detail :: "ObservedRequest \<Rightarrow> verdict"
  assumes api_iff_confident: "detail req = (is_api, c, reason) \<Longrightarrow> is_api \<longleftrightarrow> 0 < c"
    and confidence_le_one: "detail req = (is_api, c, reason) \<Longrightarrow> c \<le> one"
    and reason_given: "detail req = (True, c, reason) \<Longrightarrow> reason \<noteq> []"
begin

lemma negative_is_zero: "detail req = (False, c, reason) \<Longrightarrow> c = 0"
  using api_iff_confident [of req False c reason] by simp

lemma positive: "detail req = (True, c, reason) \<Longrightarrow> 0 < c \<and> c \<le> one \<and> reason \<noteq> []"
  using api_iff_confident confidence_le_one reason_given by blast

end

section \<open>Signals the classifiers share\<close>

definition staticExtensions :: "string list" where
  "staticExtensions = [''.js'', ''.css'', ''.png'', ''.jpg'', ''.jpeg'', ''.gif'', ''.ico'',
     ''.woff'', ''.woff2'', ''.ttf'', ''.eot'', ''.svg'', ''.map'']"

definition is_static_path :: "string \<Rightarrow> bool" where
  "is_static_path lowerPath = list_ex (\<lambda>e. has_suffix lowerPath e) staticExtensions"

definition firstNonSpace :: "bytes \<Rightarrow> char option" where
  "firstNonSpace b =
     (case dropWhile (\<lambda>c. c \<in> {CHR '' '', CHR 0x09, CHR 0x0A, CHR 0x0D}) b of [] \<Rightarrow> None | c # _ \<Rightarrow> Some c)"

text \<open>\<^verbatim>\<open>getContentType\<close> of \<^verbatim>\<open>classifier.go\<close>.\<close>

definition getContentType :: "headers \<Rightarrow> string" where
  "getContentType hs = Header hs ''content-type''"

definition raise_to :: "confidence \<Rightarrow> confidence \<Rightarrow> confidence" where
  "raise_to floor c = (if c < floor then floor else c)"

lemma raise_to_max: "raise_to a c = max a c"
  by (simp add: raise_to_def max_def)

end
