(* ===== verification/Classify_Rest.thy ===== *)
theory Classify_Rest
  imports Classify_Types Go_Url
begin

text \<open>
  The REST classifier, \<^verbatim>\<open>pkg/classify/rest.go\<close>: its seven rules in the order of
  the code. The regular expression \<^verbatim>\<open>/v[1-9][0-9]*/\<close> is the function
  \<open>apiVersionPath\<close>.
\<close>

definition staticPathSegments :: "string list" where
  "staticPathSegments = [''/static/'', ''/assets/'', ''/dist/'', ''/bundle/'']"

definition apiContentTypes :: "string list" where
  "apiContentTypes = [''application/json'', ''application/xml'', ''text/xml'', ''application/problem+json'',
     ''application/vnd.api+json'', ''application/hal+json'']"

definition apiPathSegments :: "string list" where
  "apiPathSegments = [''/api/'', ''/rest/'', ''/rpc/'', ''/graphql'']"

fun version_tail :: "string \<Rightarrow> bool" where
  "version_tail (c # s) =
     (in_range (CHR ''1'') (CHR ''9'') c \<and> has_prefix (dropWhile is_digit s) ''/'')"
| "version_tail [] = False"

fun apiVersionPath :: "string \<Rightarrow> bool" where
  "apiVersionPath [] = False"
| "apiVersionPath (c # s) =
     ((c = CHR ''/'' \<and> has_prefix s ''v'' \<and> version_tail (tl s)) \<or> apiVersionPath s)"

definition ContentTypeConfidence :: confidence where "ContentTypeConfidence = 922337203685477632"
definition PathHeuristicBoost :: confidence where "PathHeuristicBoost = 172938225691027040"
definition HTTPMethodConfidence :: confidence where "HTTPMethodConfidence = 807045053224792832"
definition JSONBodyConfidence :: confidence where "JSONBodyConfidence = 979983278915819904"
definition RequestSignalConfidence :: confidence where "RequestSignalConfidence = 691752902764108160"
definition StaticJSConfidence :: confidence where "StaticJSConfidence = DefaultConfidenceThreshold"

lemmas rest_scores = ContentTypeConfidence_def PathHeuristicBoost_def HTTPMethodConfidence_def
  JSONBodyConfidence_def RequestSignalConfidence_def StaticJSConfidence_def DefaultConfidenceThreshold_def

definition appendReason :: "string \<Rightarrow> string \<Rightarrow> string" where
  "appendReason existing sig = (if existing = [] then sig else existing @ ''+'' @ sig)"

fun first_equal :: "string \<Rightarrow> string list \<Rightarrow> string" where
  "first_equal b [] = []"
| "first_equal b (x # xs) = (if b = x then x else first_equal b xs)"

definition matchAPIContentType :: "string \<Rightarrow> string" where
  "matchAPIContentType ct = first_equal (Base ct) apiContentTypes"

fun accept_ranges :: "string \<Rightarrow> string list \<Rightarrow> string" where
  "accept_ranges match [] = match"
| "accept_ranges match (part # ps) =
     (let mt = to_lower (trim_space (before_first (CHR '';'') part)) in
      if mt = ''text/html'' \<or> mt = ''application/xhtml+xml'' then []
      else accept_ranges (if match = [] then matchAPIContentType mt else match) ps)"

definition acceptSignalsAPI :: "string \<Rightarrow> string" where
  "acceptSignalsAPI accept = (if accept = [] then [] else accept_ranges [] (split_on (CHR '','') accept))"

definition staticJSFloor :: "ObservedRequest \<Rightarrow> bool \<Rightarrow> confidence \<Rightarrow> string \<Rightarrow> confidence \<times> string" where
  "staticJSFloor req pathIsAPI c reason =
     (if pathIsAPI \<and> c < StaticJSConfidence \<and> IsJSStaticSource (Source req)
      then (StaticJSConfidence, appendReason reason ''static-js-candidate'') else (c, reason))"

text \<open>Rules 2 to 6, each from the score and reason so far to the new ones.\<close>

definition path_is_api :: "string \<Rightarrow> bool" where
  "path_is_api lowerPath =
     (list_ex (\<lambda>seg. contains lowerPath seg) apiPathSegments \<or> apiVersionPath lowerPath)"

definition response_content_type :: "ObservedResponse \<Rightarrow> string" where
  "response_content_type r =
     (if ContentType r = [] then Header (RespHeaders r) ''content-type'' else ContentType r)"

definition request_signal :: "ObservedRequest \<Rightarrow> string \<Rightarrow> string" where
  "request_signal req rule2CT =
     (let a = acceptSignalsAPI (Header (Headers req) ''accept'') in
      if a \<noteq> [] then ''accept:'' @ a
      else
        let b = matchAPIContentType (Header (Headers req) ''content-type'') in
        if b \<noteq> [] \<and> b \<noteq> rule2CT then ''content-type:'' @ b else [])"

type_synonym score = "confidence \<times> string"

definition rule2 :: "string \<Rightarrow> score" where
  "rule2 rule2CT = (if rule2CT \<noteq> [] then (ContentTypeConfidence, appendReason [] (''content-type:'' @ rule2CT)) else (0, []))"

definition rule3 :: "bool \<Rightarrow> score \<Rightarrow> score" where
  "rule3 pathIsAPI s = (case s of (c, r) \<Rightarrow>
     if pathIsAPI
     then (let c' = f64_round (c + PathHeuristicBoost) in (if c' > one then one else c', appendReason r ''path-heuristic''))
     else (c, r))"

definition rule4 :: "string \<Rightarrow> score \<Rightarrow> score" where
  "rule4 method s = (case s of (c, r) \<Rightarrow>
     let upper = to_upper method in
     if upper = ''POST'' \<or> upper = ''PUT'' \<or> upper = ''PATCH'' \<or> upper = ''DELETE''
     then (raise_to HTTPMethodConfidence c, appendReason r (''method:'' @ upper)) else (c, r))"

definition rule5 :: "bytes \<Rightarrow> score \<Rightarrow> score" where
  "rule5 body s = (case s of (c, r) \<Rightarrow>
     case firstNonSpace body of
       Some b \<Rightarrow> if b = CHR ''{'' \<or> b = CHR ''[''
         then (raise_to JSONBodyConfidence c, appendReason r ''response-structure:json'') else (c, r)
     | None \<Rightarrow> (c, r))"

definition rule6 :: "ObservedRequest \<Rightarrow> string \<Rightarrow> bool \<Rightarrow> score \<Rightarrow> score" where
  "rule6 req rule2CT pathIsAPI s = (case s of (c, r) \<Rightarrow>
     if pathIsAPI
     then (let signal = request_signal req rule2CT in
       if signal \<noteq> [] then (raise_to RequestSignalConfidence c, appendReason r (''request-signal:'' @ signal))
       else (c, r))
     else (c, r))"

definition rest_score :: "ObservedRequest \<Rightarrow> string \<Rightarrow> score" where
  "rest_score req lowerPath =
     (let rule2CT = matchAPIContentType (response_content_type (Response req));
          pathIsAPI = path_is_api lowerPath
      in case rule6 req rule2CT pathIsAPI (rule5 (RespBody (Response req)) (rule4 (Method req)
           (rule3 pathIsAPI (rule2 rule2CT)))) of (c, r) \<Rightarrow> staticJSFloor req pathIsAPI c r)"

definition rest_detail :: "ObservedRequest \<Rightarrow> verdict" where
  "rest_detail req =
     (case parse_url (URL req) of None \<Rightarrow> rejected
      | Some u \<Rightarrow>
          let lowerPath = to_lower (Path u) in
          if is_static_path lowerPath then rejected
          else if list_ex (\<lambda>seg. contains lowerPath seg) staticPathSegments then rejected
          else (case rest_score req lowerPath of (c, r) \<Rightarrow> (c > 0, c, r)))"

definition RESTClassifier :: classifier where
  "RESTClassifier = \<lparr>ClassifierName = ''rest'', ClassifyDetail = rest_detail\<rparr>"

section \<open>The contract\<close>

lemmas rest_rules = rule2_def rule3_def rule4_def rule5_def rule6_def staticJSFloor_def

definition sound_score :: "score \<Rightarrow> bool" where
  "sound_score s = (fst s \<le> one \<and> (0 < fst s \<longrightarrow> snd s \<noteq> []))"

lemma appendReason_nonempty [simp]: "sig \<noteq> [] \<Longrightarrow> appendReason r sig \<noteq> []"
  by (simp add: appendReason_def)

lemma scores_le_one:
  "ContentTypeConfidence \<le> one" "HTTPMethodConfidence \<le> one" "JSONBodyConfidence \<le> one"
  "RequestSignalConfidence \<le> one" "StaticJSConfidence \<le> one"
  by (simp_all add: rest_scores one_def)

lemma sound_rules:
  "sound_score (rule2 ct)"
  "sound_score s \<Longrightarrow> sound_score (rule3 p s)"
  "sound_score s \<Longrightarrow> sound_score (rule4 m s)"
  "sound_score s \<Longrightarrow> sound_score (rule5 b s)"
  "sound_score s \<Longrightarrow> sound_score (rule6 req ct p s)"
  "sound_score (c, r) \<Longrightarrow> sound_score (staticJSFloor req p c r)"
  using scores_le_one
  by (auto simp: rest_rules sound_score_def raise_to_def Let_def split: prod.splits option.splits)

lemma sound_rest_score: "sound_score (rest_score req p)"
  unfolding rest_score_def Let_def by (auto split: prod.splits intro: sound_rules) (metis sound_rules)

interpretation rest: api_classifier rest_detail
proof
  fix req is_api c reason
  assume d: "rest_detail req = (is_api, c, reason)"
  have *: "(is_api, c, reason) = rejected \<or> (\<exists>p. rest_score req p = (c, reason) \<and> is_api = (c > 0))"
    using d by (auto simp: rest_detail_def Let_def split: option.splits if_splits prod.splits)
  then show "is_api \<longleftrightarrow> 0 < c" by (auto simp: rejected_def)
  show "c \<le> one" using * sound_rest_score [of req] by (auto simp: rejected_def sound_score_def) (metis fst_conv)
next
  fix req c reason
  assume d: "rest_detail req = (True, c, reason)"
  then obtain p where "rest_score req p = (c, reason)" "c > 0"
    by (auto simp: rest_detail_def Let_def rejected_def split: option.splits if_splits prod.splits)
  then show "reason \<noteq> []" using sound_rest_score [of req p] by (simp add: sound_score_def)
qed

section \<open>What the score is\<close>

definition is_write_method :: "string \<Rightarrow> bool" where
  "is_write_method m = (to_upper m \<in> {''POST'', ''PUT'', ''PATCH'', ''DELETE''})"

definition is_json_body :: "bytes \<Rightarrow> bool" where
  "is_json_body b = (firstNonSpace b = Some (CHR ''{'') \<or> firstNonSpace b = Some (CHR ''[''))"

text \<open>The score as the maximum of what each signal is worth; only the content type and the path
  add up.\<close>

definition rest_score_spec :: "ObservedRequest \<Rightarrow> string \<Rightarrow> confidence" where
  "rest_score_spec req lowerPath =
     (let api = path_is_api lowerPath;
          ct = matchAPIContentType (response_content_type (Response req));
          base = (if ct \<noteq> [] then ContentTypeConfidence else 0)
      in Max {if api then min one (f64_round (base + PathHeuristicBoost)) else base,
              if is_write_method (Method req) then HTTPMethodConfidence else 0,
              if is_json_body (RespBody (Response req)) then JSONBodyConfidence else 0,
              if api \<and> request_signal req ct \<noteq> [] then RequestSignalConfidence else 0,
              if api \<and> IsJSStaticSource (Source req) then StaticJSConfidence else 0})"

lemma rule_confidences:
  "fst (rule3 p s) = (if p then min one (f64_round (fst s + PathHeuristicBoost)) else fst s)"
  "fst (rule4 m s) = max (fst s) (if is_write_method m then HTTPMethodConfidence else 0)"
  "fst (rule5 b s) = max (fst s) (if is_json_body b then JSONBodyConfidence else 0)"
  "fst (rule6 req ct p s) = max (fst s) (if p \<and> request_signal req ct \<noteq> [] then RequestSignalConfidence else 0)"
  "fst (staticJSFloor req p (fst s) (snd s)) = max (fst s) (if p \<and> IsJSStaticSource (Source req) then StaticJSConfidence else 0)"
  by (auto simp: rest_rules raise_to_max is_write_method_def is_json_body_def Let_def min_def max_def
      split: prod.splits option.splits)

lemma rest_score_confidence: "fst (rest_score req p) = rest_score_spec req p"
proof -
  let ?ct = "matchAPIContentType (response_content_type (Response req))"
  have r2: "fst (rule2 ?ct) = (if ?ct \<noteq> [] then ContentTypeConfidence else 0)" by (simp add: rule2_def)
  let ?api = "path_is_api p"
  let ?s6 = "rule6 req ?ct ?api (rule5 (RespBody (Response req)) (rule4 (Method req) (rule3 ?api (rule2 ?ct))))"
  have "rest_score req p = staticJSFloor req ?api (fst ?s6) (snd ?s6)"
    by (simp add: rest_score_def Let_def case_prod_beta)
  then have "fst (rest_score req p)
      = max (fst ?s6) (if ?api \<and> IsJSStaticSource (Source req) then StaticJSConfidence else 0)"
    by (simp only: rule_confidences(5))
  also have "fst ?s6 = max (max (max (if ?api then min one (f64_round ((if ?ct \<noteq> [] then ContentTypeConfidence else 0)
        + PathHeuristicBoost)) else (if ?ct \<noteq> [] then ContentTypeConfidence else 0))
      (if is_write_method (Method req) then HTTPMethodConfidence else 0))
      (if is_json_body (RespBody (Response req)) then JSONBodyConfidence else 0))
      (if ?api \<and> request_signal req ?ct \<noteq> [] then RequestSignalConfidence else 0)"
    by (simp only: rule_confidences(1-4) r2)
  finally show ?thesis
    by (simp only: Let_def rest_score_spec_def Max_insert finite.emptyI finite.insertI
        Max_singleton insert_not_empty simp_thms max.assoc)
qed

text \<open>The REST verdict: an unparseable URL or a static asset is rejected; otherwise the
  confidence is the maximum of the signals' scores (content type and path adding up, at most 1), and
  the request is an API call exactly when that is positive.\<close>

theorem rest_verdict:
  "case parse_url (URL req) of None \<Rightarrow> rest_detail req = rejected
   | Some u \<Rightarrow>
       let p = to_lower (Path u) in
       if is_static_path p \<or> list_ex (contains p) staticPathSegments then rest_detail req = rejected
       else \<exists>reason. rest_detail req = (rest_score_spec req p > 0, rest_score_spec req p, reason)"
proof (cases "parse_url (URL req)")
  case (Some u)
  let ?p = "to_lower (Path u)"
  obtain c r where cr: "rest_score req ?p = (c, r)" by fastforce
  then have "c = rest_score_spec req ?p" using rest_score_confidence [of req ?p] by simp
  with cr Some show ?thesis by (simp add: rest_detail_def Let_def)
qed (simp add: rest_detail_def)

lemma spec_bounds:
  assumes "path_is_api p"
  shows "StaticJSConfidence \<le> rest_score_spec req p
      \<longleftrightarrow> IsJSStaticSource (Source req) \<or> is_write_method (Method req) \<or> is_json_body (RespBody (Response req))
        \<or> matchAPIContentType (response_content_type (Response req)) \<noteq> []
        \<or> request_signal req (matchAPIContentType (response_content_type (Response req))) \<noteq> []"
proof -
  have "f64_round PathHeuristicBoost = PathHeuristicBoost"
      "f64_round (ContentTypeConfidence + PathHeuristicBoost) = 1095275429376504704"
    by (simp_all add: f64_round_def Let_def rest_scores bit_len.simps)
  then have base: "StaticJSConfidence \<le> min one (f64_round ((if ct \<noteq> [] then ContentTypeConfidence else 0)
      + PathHeuristicBoost)) \<longleftrightarrow> ct \<noteq> []" for ct :: string
    by (simp add: rest_scores one_def)
  have pos: "\<not> StaticJSConfidence \<le> 0" "StaticJSConfidence \<le> HTTPMethodConfidence"
      "StaticJSConfidence \<le> JSONBodyConfidence" "StaticJSConfidence \<le> RequestSignalConfidence"
    by (simp_all add: rest_scores)
  have if_le: "StaticJSConfidence \<le> (if b then x else 0) \<longleftrightarrow> b" if "StaticJSConfidence \<le> x" for b x
    using that pos(1) by simp
  show ?thesis
    unfolding rest_score_spec_def Let_def
    by (subst Max_ge_iff) (simp_all only: finite.emptyI finite.insertI insert_not_empty simp_thms bex_simps assms if_True
        base if_le [OF pos(2)] if_le [OF pos(3)] if_le [OF pos(4)] if_le [OF order.refl] ball_simps, blast)
qed

text \<open>On an API path, a request reaches the default threshold exactly when it shows one more
  sign of an API: an API content type, a write method, a JSON response body, API intent in the
  request, or being an offline JavaScript candidate. In particular every offline candidate on an API
  path survives the default threshold, and a plain page visit under an API-like path never does.\<close>

theorem rest_default_threshold:
  assumes "parse_url (URL req) = Some u" "path_is_api (to_lower (Path u))"
    and "\<not> is_static_path (to_lower (Path u))" "\<not> list_ex (contains (to_lower (Path u))) staticPathSegments"
  shows "DefaultConfidenceThreshold \<le> fst (snd (rest_detail req))
    \<longleftrightarrow> IsJSStaticSource (Source req) \<or> is_write_method (Method req) \<or> is_json_body (RespBody (Response req))
        \<or> matchAPIContentType (response_content_type (Response req)) \<noteq> []
        \<or> request_signal req (matchAPIContentType (response_content_type (Response req))) \<noteq> []"
proof -
  have "fst (snd (rest_detail req)) = rest_score_spec req (to_lower (Path u))"
    using assms(1,3,4) rest_score_confidence
    by (auto simp: rest_detail_def Let_def split: prod.splits) (metis fst_conv)
  then show ?thesis using spec_bounds [OF assms(2), of req] by (simp add: StaticJSConfidence_def)
qed

lemma rest_default_threshold_witness:
  "DefaultConfidenceThreshold \<le> fst (snd (rest_detail (empty_request\<lparr>URL := ''/v2/users'', Source := ''static:js''\<rparr>)))
    \<longleftrightarrow> IsJSStaticSource (Source (empty_request\<lparr>URL := ''/v2/users'', Source := ''static:js''\<rparr>))
      \<or> is_write_method (Method (empty_request\<lparr>URL := ''/v2/users'', Source := ''static:js''\<rparr>))
      \<or> is_json_body (RespBody (Response (empty_request\<lparr>URL := ''/v2/users'', Source := ''static:js''\<rparr>)))
      \<or> matchAPIContentType (response_content_type (Response (empty_request\<lparr>URL := ''/v2/users'', Source := ''static:js''\<rparr>))) \<noteq> []
      \<or> request_signal (empty_request\<lparr>URL := ''/v2/users'', Source := ''static:js''\<rparr>)
          (matchAPIContentType (response_content_type (Response (empty_request\<lparr>URL := ''/v2/users'', Source := ''static:js''\<rparr>)))) \<noteq> []"
  by (rule rest_default_threshold [where u = "empty_url\<lparr>Path := ''/v2/users''\<rparr>"]) code_simp+

end
