(* ===== verification/Go_Json.thy ===== *)
theory Go_Json
  imports Go_Prelude
begin

text \<open>
  What the code uses of \<^verbatim>\<open>encoding/json\<close>: decoding a whole text into
  \<^verbatim>\<open>interface{}\<close> or \<^verbatim>\<open>map[string]interface{}\<close>. A number keeps
  its literal (the code only asks whether it is an integer), an object is a Go map: the last of
  duplicate keys wins. The text must be one value and white space, nested at most 10000 deep.
  Two corners differ: invalid UTF-8 in strings is left as it is instead of being replaced, and a
  number beyond the range of float64 is accepted.
\<close>

datatype json =
    JNull
  | JBool bool
  | JNum string
  | JStr string
  | JArr "json list"
  | JObj "(string \<times> json) list"

definition json_space :: "char \<Rightarrow> bool" where
  "json_space c = (c \<in> {CHR '' '', CHR 0x09, CHR 0x0A, CHR 0x0D})"

definition skip_ws :: "string \<Rightarrow> string" where
  "skip_ws s = dropWhile json_space s"

section \<open>Literals\<close>

text \<open>UTF-8 of a code point.\<close>

definition utf8 :: "nat \<Rightarrow> string" where
  "utf8 n =
     (if n < 0x80 then [char_of n]
      else if n < 0x800 then [char_of (0xC0 + n div 0x40), char_of (0x80 + n mod 0x40)]
      else if n < 0x10000 then
        [char_of (0xE0 + n div 0x1000), char_of (0x80 + n div 0x40 mod 0x40), char_of (0x80 + n mod 0x40)]
      else [char_of (0xF0 + n div 0x40000), char_of (0x80 + n div 0x1000 mod 0x40),
            char_of (0x80 + n div 0x40 mod 0x40), char_of (0x80 + n mod 0x40)])"

definition hex_digit_val :: "char \<Rightarrow> nat" where
  "hex_digit_val c =
     (if is_digit c then byte_at c - 48
      else if in_range (CHR ''a'') (CHR ''f'') c then byte_at c - 87 else byte_at c - 55)"

definition hex4 :: "string \<Rightarrow> (nat \<times> string) option" where
  "hex4 s = (case s of a # b # c # d # r \<Rightarrow>
       if list_all is_hex [a, b, c, d]
       then Some (((hex_digit_val a * 16 + hex_digit_val b) * 16 + hex_digit_val c) * 16 + hex_digit_val d, r)
       else None
     | _ \<Rightarrow> None)"

definition simple_escape :: "char \<Rightarrow> char option" where
  "simple_escape c =
     (if c \<in> {CHR 0x22, CHR 0x5C, CHR ''/''} then Some c
      else if c = CHR ''b'' then Some (CHR 0x08) else if c = CHR ''f'' then Some (CHR 0x0C)
      else if c = CHR ''n'' then Some (CHR 0x0A) else if c = CHR ''r'' then Some (CHR 0x0D)
      else if c = CHR ''t'' then Some (CHR 0x09) else None)"

definition is_surrogate :: "nat \<Rightarrow> bool" where
  "is_surrogate n = (0xD800 \<le> n \<and> n < 0xE000)"

text \<open>The characters of a string literal after its opening quote. A lone surrogate is the
  replacement character; a high one followed by an escaped low one is their code point.\<close>

lemma hex4_shorter: "hex4 s = Some (n, r) \<Longrightarrow> length r < length s"
  by (auto simp: hex4_def split: list.splits if_splits)

function json_string :: "string \<Rightarrow> (string \<times> string) option" where
  "json_string [] = None"
| "json_string (c # s) =
     (if c = CHR 0x22 then Some ([], s)
      else if byte_at c < 32 then None
      else if c \<noteq> CHR 0x5C then map_option (\<lambda>(t, r). (c # t, r)) (json_string s)
      else (case s of [] \<Rightarrow> None
        | e # s1 \<Rightarrow>
            if e = CHR ''u'' then
              (case hex4 s1 of None \<Rightarrow> None
               | Some (n, s2) \<Rightarrow>
                   if n < 0xD800 \<or> n \<ge> 0xE000 then map_option (\<lambda>(t, r). (utf8 n @ t, r)) (json_string s2)
                   else
                     (case s2 of b # u # s3 \<Rightarrow>
                        if b = CHR 0x5C \<and> u = CHR ''u'' then
                          (case hex4 s3 of None \<Rightarrow> None
                           | Some (m, s4) \<Rightarrow>
                               if n < 0xDC00 \<and> 0xDC00 \<le> m \<and> m < 0xE000
                               then map_option (\<lambda>(t, r). (utf8 ((n - 0xD800) * 0x400 + (m - 0xDC00) + 0x10000) @ t, r))
                                      (json_string s4)
                               else map_option (\<lambda>(t, r). (utf8 0xFFFD @ t, r)) (json_string s2))
                        else map_option (\<lambda>(t, r). (utf8 0xFFFD @ t, r)) (json_string s2)
                      | _ \<Rightarrow> map_option (\<lambda>(t, r). (utf8 0xFFFD @ t, r)) (json_string s2)))
            else (case simple_escape e of None \<Rightarrow> None
              | Some x \<Rightarrow> map_option (\<lambda>(t, r). (x # t, r)) (json_string s1))))"
  by pat_completeness auto
termination
  by (relation "measure length") (auto dest!: hex4_shorter)

declare json_string.simps(2) [simp del]

text \<open>The number grammar of JSON: the literal and the rest.\<close>

definition json_number :: "string \<Rightarrow> (string \<times> string) option" where
  "json_number s =
     (let (sign, s1) = (case s of c # r \<Rightarrow> if c = CHR ''-'' then ([c], r) else ([], s) | [] \<Rightarrow> ([], s));
          ip = (case s1 of c # r \<Rightarrow> if c = CHR ''0'' then [c] else takeWhile is_digit s1 | [] \<Rightarrow> []);
          s2 = drop (length ip) s1;
          frac = (case s2 of c # r \<Rightarrow> if c = CHR ''.'' then c # takeWhile is_digit r else [] | [] \<Rightarrow> []);
          s3 = drop (length frac) s2;
          ex = (case s3 of c # r \<Rightarrow> if c \<in> {CHR ''e'', CHR ''E''} then
                   (case r of d # q \<Rightarrow> if d \<in> {CHR ''+'', CHR ''-''} then c # d # takeWhile is_digit q
                                  else c # takeWhile is_digit r
                    | [] \<Rightarrow> [c]) else [] | [] \<Rightarrow> []);
          s4 = drop (length ex) s3
      in if ip = [] \<or> (frac \<noteq> [] \<and> length frac = 1) \<or> (ex \<noteq> [] \<and> \<not> is_digit (last ex)) then None
         else Some (sign @ ip @ frac @ ex, s4))"

section \<open>Values\<close>

text \<open>\<open>n\<close> bounds the calls (twice the length of the text is enough) and \<open>d\<close>
  counts the nesting still allowed.\<close>

fun json_value :: "nat \<Rightarrow> nat \<Rightarrow> string \<Rightarrow> (json \<times> string) option"
  and json_elems :: "nat \<Rightarrow> nat \<Rightarrow> string \<Rightarrow> (json list \<times> string) option"
  and json_members :: "nat \<Rightarrow> nat \<Rightarrow> string \<Rightarrow> ((string \<times> json) list \<times> string) option" where
  "json_value 0 d s = None"
| "json_value (Suc n) d s =
     (case skip_ws s of [] \<Rightarrow> None
      | c # r \<Rightarrow>
          if c = CHR ''{'' then
            (if d = 0 then None
             else if has_prefix (skip_ws r) ''}'' then Some (JObj [], tl (skip_ws r))
             else map_option (\<lambda>(m, q). (JObj m, q)) (json_members n (d - 1) r))
          else if c = CHR ''['' then
            (if d = 0 then None
             else if has_prefix (skip_ws r) '']'' then Some (JArr [], tl (skip_ws r))
             else map_option (\<lambda>(m, q). (JArr m, q)) (json_elems n (d - 1) r))
          else if c = CHR 0x22 then map_option (\<lambda>(t, q). (JStr t, q)) (json_string r)
          else if has_prefix (c # r) ''true'' then Some (JBool True, drop 3 r)
          else if has_prefix (c # r) ''false'' then Some (JBool False, drop 4 r)
          else if has_prefix (c # r) ''null'' then Some (JNull, drop 3 r)
          else map_option (\<lambda>(t, q). (JNum t, q)) (json_number (c # r)))"
| "json_elems 0 d s = None"
| "json_elems (Suc n) d s =
     (case json_value n d s of None \<Rightarrow> None
      | Some (v, q) \<Rightarrow>
          (case skip_ws q of [] \<Rightarrow> None
           | c # r \<Rightarrow>
               if c = CHR '']'' then Some ([v], r)
               else if c = CHR '','' then map_option (\<lambda>(vs, q'). (v # vs, q')) (json_elems n d r)
               else None))"
| "json_members 0 d s = None"
| "json_members (Suc n) d s =
     (case skip_ws s of [] \<Rightarrow> None
      | c # r \<Rightarrow>
          if c \<noteq> CHR 0x22 then None
          else (case json_string r of None \<Rightarrow> None
            | Some (k, q) \<Rightarrow>
                (case skip_ws q of [] \<Rightarrow> None
                 | c2 # r2 \<Rightarrow>
                     if c2 \<noteq> CHR '':'' then None
                     else (case json_value n d r2 of None \<Rightarrow> None
                       | Some (v, q2) \<Rightarrow>
                           (case skip_ws q2 of [] \<Rightarrow> None
                            | c3 # r3 \<Rightarrow>
                                if c3 = CHR ''}'' then Some ([(k, v)], r3)
                                else if c3 = CHR '','' then
                                  map_option (\<lambda>(ms, q'). ((k, v) # ms, q')) (json_members n d r3)
                                else None)))))"

text \<open>Later members of an object replace earlier ones of the same key.\<close>

fun json_maps :: "json \<Rightarrow> json" where
  "json_maps (JArr vs) = JArr (map json_maps vs)"
| "json_maps (JObj ms) = JObj (fold (\<lambda>(k, v) m. map_put k v m) (map (\<lambda>(k, v). (k, json_maps v)) ms) [])"
| "json_maps v = v"

definition unmarshal :: "string \<Rightarrow> json option" where
  "unmarshal s =
     (case json_value (2 * length s + 2) 10000 s of None \<Rightarrow> None
      | Some (v, r) \<Rightarrow> if skip_ws r = [] then Some (json_maps v) else None)"

text \<open>\<^verbatim>\<open>json.Unmarshal\<close> into a \<^verbatim>\<open>map[string]interface{}\<close>:
  \<^verbatim>\<open>null\<close> leaves the nil map, any other value is an error.\<close>

definition unmarshal_map :: "string \<Rightarrow> (string \<times> json) list option" where
  "unmarshal_map s = (case unmarshal s of Some (JObj m) \<Rightarrow> Some m | Some JNull \<Rightarrow> Some [] | _ \<Rightarrow> None)"

end
