(* ===== verification/Classify_Others.thy ===== *)
theory Classify_Others
  imports Classify_Types Go_Url Go_Json
begin

text \<open>
  The GraphQL, SOAP and gRPC classifiers: \<^verbatim>\<open>pkg/classify/graphql.go\<close>,
  \<^verbatim>\<open>wsdl.go\<close> and \<^verbatim>\<open>grpc.go\<close>.
\<close>

section \<open>GraphQL\<close>

definition GraphQLPathConfidence :: confidence where "GraphQLPathConfidence = 807045053224792832"
definition GraphQLBodyConfidence :: confidence where "GraphQLBodyConfidence = 979983278915819904"
definition GraphQLResponseConfidence :: confidence where "GraphQLResponseConfidence = 922337203685477632"
definition GraphQLFullMatchConfidence :: confidence where "GraphQLFullMatchConfidence = 1095275429376504576"

lemmas graphql_scores = GraphQLPathConfidence_def GraphQLBodyConfidence_def GraphQLResponseConfidence_def
  GraphQLFullMatchConfidence_def

definition graphqlResponseContentTypes :: "string list" where
  "graphqlResponseContentTypes =
     [''application/json'', ''application/graphql+json'', ''application/graphql-response+json'']"

definition looksLikeGraphQL :: "string \<Rightarrow> bool" where
  "looksLikeGraphQL s =
     (let trimmed = trim_space s in
      trimmed \<noteq> [] \<and> list_ex (\<lambda>p. has_prefix (to_lower trimmed) p)
        [''{'', ''query'', ''mutation'', ''subscription'', ''fragment''])"

definition hasGraphQLBody :: "bytes \<Rightarrow> bool" where
  "hasGraphQLBody body =
     (case unmarshal_map body of None \<Rightarrow> False
      | Some obj \<Rightarrow> (case map_get obj ''query'' of Some (JStr q) \<Rightarrow> looksLikeGraphQL q | _ \<Rightarrow> False))"

fun first_header :: "string \<Rightarrow> headers \<Rightarrow> string option" where
  "first_header name [] = None"
| "first_header name ((k, v) # hs) = (if equal_fold k name then Some v else first_header name hs)"

definition hasGraphQLContentType :: "ObservedResponse \<Rightarrow> bool" where
  "hasGraphQLContentType resp =
     (let ct = to_lower (ContentType resp);
          ct1 = (if ct = [] then (case first_header ''content-type'' (RespHeaders resp) of
                    Some v \<Rightarrow> to_lower v | None \<Rightarrow> ct) else ct);
          ct2 = (if CHR '';'' \<in> set ct1 then trim_space (before_first (CHR '';'') ct1) else ct1)
      in ct2 \<in> set graphqlResponseContentTypes)"

definition hasGraphQLResponseStructure :: "bytes \<Rightarrow> bool" where
  "hasGraphQLResponseStructure body =
     (firstNonSpace body = Some (CHR ''{'') \<and>
      (case unmarshal_map body of None \<Rightarrow> False
       | Some obj \<Rightarrow> map_has obj ''data'' \<or> map_has obj ''errors''))"

definition classifyGraphQLBody :: "ObservedRequest \<Rightarrow> bool \<Rightarrow> confidence \<Rightarrow> string \<Rightarrow> confidence \<times> string" where
  "classifyGraphQLBody req pathMatched c reason =
     (if \<not> equal_fold (Method req) ''POST'' \<or> Body req = [] then (c, reason)
      else if firstNonSpace (Body req) \<noteq> Some (CHR ''{'') \<or> \<not> hasGraphQLBody (Body req) then (c, reason)
      else if pathMatched then (GraphQLFullMatchConfidence, ''graphql-path+graphql-body'')
      else (raise_to GraphQLBodyConfidence c,
            if reason = [] then ''graphql-body'' else reason @ ''+graphql-body''))"

definition graphql_detail :: "ObservedRequest \<Rightarrow> verdict" where
  "graphql_detail req =
     (case parse_url (URL req) of None \<Rightarrow> rejected
      | Some u \<Rightarrow>
          let lowerPath = to_lower (Path u) in
          if is_static_path lowerPath then rejected
          else
            let pathMatched = contains lowerPath ''/graphql'';
                (c, r) = (if pathMatched then (GraphQLPathConfidence, ''graphql-path'') else (0, []));
                (c1, r1) = classifyGraphQLBody req pathMatched c r;
                (c2, r2) = (if c1 > 0 \<and> RespBody (Response req) \<noteq> [] \<and> hasGraphQLContentType (Response req)
                              \<and> hasGraphQLResponseStructure (RespBody (Response req))
                            then (raise_to GraphQLResponseConfidence c1, r1 @ ''+graphql-response'') else (c1, r1))
            in (c2 > 0, c2, r2))"

definition GraphQLClassifier :: classifier where
  "GraphQLClassifier = \<lparr>ClassifierName = ''graphql'', ClassifyDetail = graphql_detail\<rparr>"

lemma graphql_shape:
  assumes "graphql_detail req = (a, c, r)"
  shows "(a, c, r) = rejected \<or> a = (c > 0) \<and> c \<le> one \<and> (c > 0 \<longrightarrow> r \<noteq> [])"
proof (cases "parse_url (URL req)")
  case None
  then show ?thesis using assms by (simp add: graphql_detail_def)
next
  case (Some u)
  let ?p = "contains (to_lower (Path u)) ''/graphql''"
  obtain c0 r0 where cr0: "(if ?p then (GraphQLPathConfidence, ''graphql-path'') else (0, [])) = (c0, r0)" by fastforce
  obtain c1 r1 where cr1: "classifyGraphQLBody req ?p c0 r0 = (c1, r1)" by fastforce
  have "c1 \<le> one \<and> (c1 > 0 \<longrightarrow> r1 \<noteq> [])"
    using cr0 cr1 by (auto simp: classifyGraphQLBody_def graphql_scores one_def raise_to_def split: if_splits)
  then show ?thesis using assms Some
    by (auto simp: graphql_detail_def Let_def cr0 cr1 graphql_scores one_def raise_to_def split: if_splits)
qed

interpretation graphql: api_classifier graphql_detail
  by unfold_locales (auto dest: graphql_shape simp: rejected_def)

section \<open>SOAP\<close>

definition wsdl095 :: confidence where "wsdl095 = 1095275429376504576"
definition wsdl090 :: confidence where "wsdl090 = 1037629354146162304"
definition wsdl085 :: confidence where "wsdl085 = 979983278915819904"
definition wsdl030 :: confidence where "wsdl030 = 345876451382054080"

lemmas wsdl_scores = wsdl095_def wsdl090_def wsdl085_def wsdl030_def

fun getHeaderCaseInsensitive :: "headers \<Rightarrow> string \<Rightarrow> string option" where
  "getHeaderCaseInsensitive [] key = None"
| "getHeaderCaseInsensitive ((k, v) # hs) key =
     (if to_lower k = to_lower key then Some v else getHeaderCaseInsensitive hs key)"

definition hasSoapEnvelope :: "bytes \<Rightarrow> bool" where
  "hasSoapEnvelope body =
     (contains body ''<soap:Envelope'' \<or> contains body ''<SOAP-ENV:Envelope''
      \<or> contains body ''schemas.xmlsoap.org/soap/envelope'')"

definition add_signal :: "confidence \<Rightarrow> string \<Rightarrow> confidence \<times> string \<Rightarrow> confidence \<times> string" where
  "add_signal floor name s = (case s of (c, r) \<Rightarrow>
     (raise_to floor c, if r = [] then name else r @ ''+'' @ name))"

definition base_lower :: "string \<Rightarrow> string" where
  "base_lower ct = (let l = to_lower ct in if CHR '';'' \<in> set l then trim_space (before_first (CHR '';'') l) else l)"

definition wsdl_detail :: "ObservedRequest \<Rightarrow> verdict" where
  "wsdl_detail req =
     (case parse_url (URL req) of None \<Rightarrow> rejected
      | Some u \<Rightarrow>
          let lowerPath = to_lower (Path u) in
          if is_static_path lowerPath then rejected
          else
            let s1 = (if getHeaderCaseInsensitive (Headers req) ''SOAPAction'' \<noteq> None
                      then (wsdl095, ''soapaction-header'') else (0, []));
                s2 = (if hasSoapEnvelope (Body req) then add_signal wsdl090 ''soap-envelope'' s1 else s1);
                s3 = (if contains (to_lower (RawQuery u)) ''wsdl'' \<or> has_suffix lowerPath ''/wsdl''
                      then add_signal wsdl090 ''wsdl-url'' s2 else s2);
                ct = base_lower (ContentType (Response req));
                s4 = (if ct = ''text/xml'' \<or> ct = ''application/soap+xml''
                      then add_signal wsdl085 ''soap-content-type'' s3 else s3);
                body = RespBody (Response req);
                c = (if fst s4 = wsdl085 \<and> snd s4 = ''soap-content-type''
                       \<and> (contains body ''<rss'' \<or> contains body ''<feed'' \<or> contains body ''<channel'')
                     then wsdl030 else fst s4)
            in (c > 0, c, snd s4))"

definition WSDLClassifier :: classifier where
  "WSDLClassifier = \<lparr>ClassifierName = ''wsdl'', ClassifyDetail = wsdl_detail\<rparr>"

definition sound_pair :: "confidence \<times> string \<Rightarrow> bool" where
  "sound_pair s = (fst s \<le> one \<and> (0 < fst s \<longrightarrow> snd s \<noteq> []))"

lemma sound_add_signal: "sound_pair s \<Longrightarrow> floor \<le> one \<Longrightarrow> name \<noteq> [] \<Longrightarrow> sound_pair (add_signal floor name s)"
  by (auto simp: sound_pair_def add_signal_def raise_to_def split: prod.splits)

lemma wsdl_shape:
  assumes "wsdl_detail req = (a, c, r)"
  shows "(a, c, r) = rejected \<or> a = (c > 0) \<and> sound_pair (c, r)"
proof (cases "parse_url (URL req)")
  case None
  then show ?thesis using assms by (simp add: wsdl_detail_def)
next
  case (Some u)
  have "wsdl_detail req = rejected \<or> (\<exists>s d. sound_pair s \<and> (d = fst s \<or> d = wsdl030 \<and> snd s \<noteq> [])
      \<and> wsdl_detail req = (d > 0, d, snd s))"
    unfolding wsdl_detail_def Some Let_def
    by (auto simp: wsdl_scores one_def sound_pair_def add_signal_def raise_to_def)
  then show ?thesis using assms by (auto simp: sound_pair_def wsdl_scores one_def)
qed

interpretation wsdl: api_classifier wsdl_detail
  by unfold_locales (auto dest!: wsdl_shape simp: rejected_def sound_pair_def)

section \<open>gRPC\<close>

definition GRPCContentTypeConfidence :: confidence where "GRPCContentTypeConfidence = 1095275429376504576"
definition GRPCTrailerConfidence :: confidence where "GRPCTrailerConfidence = 922337203685477632"
definition GRPCPathConfidence :: confidence where "GRPCPathConfidence = 691752902764108160"
definition GRPCContentTypeTrailerConfidence :: confidence where
  "GRPCContentTypeTrailerConfidence = 1141392289560778496"

lemmas grpc_scores = GRPCContentTypeConfidence_def GRPCTrailerConfidence_def GRPCPathConfidence_def
  GRPCContentTypeTrailerConfidence_def

definition MaxGRPCFileDescriptors :: nat where "MaxGRPCFileDescriptors = 1000"
definition MaxGRPCDescriptorBytes :: nat where "MaxGRPCDescriptorBytes = 64 * 2 ^ 20"

definition word_char :: "char \<Rightarrow> bool" where
  "word_char c = (is_alnum c \<or> c = CHR ''_'')"

text \<open>\<^verbatim>\<open>^/[A-Za-z][\w.]*/[A-Z]\w*$\<close>: the service runs to the second slash.\<close>

definition grpcPath :: "string \<Rightarrow> bool" where
  "grpcPath p =
     (case p of [] \<Rightarrow> False
      | c # r \<Rightarrow> c = CHR ''/'' \<and>
          (case cut (CHR ''/'') r of
             (svc, Some m) \<Rightarrow>
               svc \<noteq> [] \<and> (is_lower (hd svc) \<or> is_upper (hd svc)) \<and> list_all (\<lambda>c. word_char c \<or> c = CHR ''.'') svc
               \<and> m \<noteq> [] \<and> is_upper (hd m) \<and> list_all word_char m
           | _ \<Rightarrow> False))"

definition hasGRPCContentType :: "string \<Rightarrow> bool" where
  "hasGRPCContentType ct = has_prefix (Base ct) ''application/grpc''"

definition hasGRPCTrailerHeader :: "headers \<Rightarrow> bool" where
  "hasGRPCTrailerHeader hs = list_ex (\<lambda>(k, _). equal_fold k ''grpc-status'' \<or> equal_fold k ''grpc-message'') hs"

definition grpc_detail :: "ObservedRequest \<Rightarrow> verdict" where
  "grpc_detail req =
     (let ctSignal = (if hasGRPCContentType (getContentType (Headers req)) then [''grpc-content-type'']
                      else if hasGRPCContentType (ContentType (Response req)) then [''grpc-response-content-type'']
                      else []);
          hasContentType = (ctSignal \<noteq> []);
          hasTrailer = hasGRPCTrailerHeader (RespHeaders (Response req));
          hasPath = (equal_fold (Method req) ''POST''
                     \<and> (case parse_url (URL req) of Some u \<Rightarrow> grpcPath (Path u) | None \<Rightarrow> False));
          signals = ctSignal @ (if hasTrailer then [''grpc-trailer-header''] else [])
                      @ (if hasPath then [''grpc-path-shape''] else [])
      in if signals = [] then rejected
         else
           let c = (if hasContentType \<and> hasTrailer then GRPCContentTypeTrailerConfidence
                    else if hasContentType then GRPCContentTypeConfidence
                    else if hasTrailer then GRPCTrailerConfidence
                    else GRPCPathConfidence)
           in (True, c, join ''+'' signals))"

definition GRPCClassifier :: classifier where
  "GRPCClassifier = \<lparr>ClassifierName = ''grpc'', ClassifyDetail = grpc_detail\<rparr>"

lemma join_nonempty: "xs \<noteq> [] \<Longrightarrow> hd xs \<noteq> [] \<Longrightarrow> join sep xs \<noteq> []"
  by (cases xs; cases "tl xs") auto

interpretation grpc: api_classifier grpc_detail
proof
  fix req is_api c reason
  assume "grpc_detail req = (is_api, c, reason)"
  then show "is_api \<longleftrightarrow> 0 < c" "c \<le> one"
    by (auto simp: grpc_detail_def Let_def rejected_def grpc_scores one_def split: if_splits)
next
  fix req c reason
  assume "grpc_detail req = (True, c, reason)"
  then show "reason \<noteq> []"
    by (auto simp: grpc_detail_def Let_def rejected_def split: if_splits)
qed

end
