(* ===== verification/Selection.thy ===== *)
theory Selection
  imports Go_Prelude "HOL-Library.Product_Lexorder"
begin

text \<open>
  Choosing one of several observations. A \<open>selector\<close> picks between two values by a key in
  a linear order and keeps the first on a tie; a fold of it over a list then finds the smallest key,
  whatever the order of the list. \<open>down\<close> reverses an order, so that a maximum is a minimum
  too.
\<close>

datatype 'a down = Down (undown: 'a)

instantiation down :: (linorder) linorder
begin

definition less_eq_down :: "'a down \<Rightarrow> 'a down \<Rightarrow> bool" where
  "less_eq_down a b = (undown b \<le> undown a)"

definition less_down :: "'a down \<Rightarrow> 'a down \<Rightarrow> bool" where
  "less_down a b = (undown b < undown a)"

instance
  by standard (auto simp: less_eq_down_def less_down_def down.expand)

end

locale selector =
  fixes sel :: "'a \<Rightarrow> 'a \<Rightarrow> 'a" and key :: "'a \<Rightarrow> 'k::linorder"
  assumes sel_second: "key b < key a \<Longrightarrow> sel a b = b"
    and sel_first: "\<not> key b < key a \<Longrightarrow> sel a b = a"
begin

lemma sel_in: "sel a b = a \<or> sel a b = b"
  using sel_second sel_first by (cases "key b < key a") auto

lemma key_sel: "key (sel a b) = min (key a) (key b)"
  using sel_second [of b a] sel_first [of b a] by (cases "key b < key a") (auto simp: min_def)

lemma key_fold: "key (fold (\<lambda>b a. sel a b) bs a) = Min (insert (key a) (key ` set bs))"
proof (induction bs arbitrary: a)
  case (Cons b bs)
  have "insert (key a) (key ` set (b # bs)) = insert (key a) (insert (key b) (key ` set bs))" by simp
  then show ?case using Cons.IH [of "sel a b"]
    by (cases "set bs = {}") (simp_all add: key_sel min.assoc)
qed simp

lemma fold_in: "fold (\<lambda>b a. sel a b) bs a \<in> insert a (set bs)"
proof (induction bs arbitrary: a)
  case (Cons b bs)
  then show ?case using sel_in [of a b] by fastforce
qed simp

lemma fold_least: "x \<in> insert a (set bs) \<Longrightarrow> key (fold (\<lambda>b a. sel a b) bs a) \<le> key x"
  unfolding key_fold by (auto intro: Min_le)

text \<open>The key of the winner depends on the set of candidates only.\<close>

lemma order_free:
  "insert a (set bs) = insert a' (set bs') \<Longrightarrow>
    key (fold (\<lambda>b a. sel a b) bs a) = key (fold (\<lambda>b a. sel a b) bs' a')"
  unfolding key_fold by (metis image_insert)

end

end
