(* ===== verification/Classifier.thy ===== *)
theory Classifier
  imports Classify_Rest Classify_Others Selection
begin

text \<open>
  Running the classifiers, \<^verbatim>\<open>RunClassifiers\<close> of
  \<^verbatim>\<open>pkg/classify/classifier.go\<close>. Every classifier of the program is a
  \<^verbatim>\<open>DetailedClassifier\<close>; a classifier is its name and its
  \<^verbatim>\<open>ClassifyDetail\<close>.
\<close>

definition multi_value_keys :: "url_values option \<Rightarrow> (string, bool) gomap" where
  "multi_value_keys q =
     (case q of None \<Rightarrow> [] | Some m \<Rightarrow>
        fold (\<lambda>(k, vs) acc. if length vs > 1 then map_put k True acc else acc) m [])"

definition unclassified :: "ObservedRequest \<Rightarrow> 's ClassifiedRequest" where
  "unclassified req =
     ObservedRequest.extend req
       \<lparr>IsAPI = False, Confidence = 0, Reason = [], APIType = [],
        MultiValueQueryKeys = Some (multi_value_keys (QueryParams req)), AllowedMethods = [],
        ResponseSchema = None, WSDLDocument = [], GraphQLSchema = None, GRPCSchema = None\<rparr>"

text \<open>One turn of the inner loop.\<close>

definition better_match :: "ObservedRequest \<Rightarrow> classifier \<Rightarrow> 's ClassifiedRequest \<Rightarrow> 's ClassifiedRequest" where
  "better_match req cl best =
     (case ClassifyDetail cl req of (isAPI, confidence, reason) \<Rightarrow>
        if isAPI \<and> confidence > Confidence best
        then best\<lparr>IsAPI := True, Confidence := confidence, APIType := ClassifierName cl, Reason := reason\<rparr>
        else best)"

definition classify_one :: "classifier list \<Rightarrow> ObservedRequest \<Rightarrow> 's ClassifiedRequest" where
  "classify_one classifiers req = fold (better_match req) classifiers (unclassified req)"

fun RunClassifiers ::
    "classifier list \<Rightarrow> ObservedRequest list \<Rightarrow> confidence \<Rightarrow> 's ClassifiedRequest list" where
  "RunClassifiers classifiers [] threshold = []"
| "RunClassifiers classifiers (req # reqs) threshold =
     (let best = classify_one classifiers req
      in if Confidence best \<ge> threshold then best # RunClassifiers classifiers reqs threshold
         else RunClassifiers classifiers reqs threshold)"

definition all_classifiers :: "classifier set" where
  "all_classifiers = {RESTClassifier, GraphQLClassifier, WSDLClassifier, GRPCClassifier}"

lemmas classifier_defs = RESTClassifier_def GraphQLClassifier_def WSDLClassifier_def GRPCClassifier_def

lemma all_classifiers_contract: "cl \<in> all_classifiers \<Longrightarrow> api_classifier (ClassifyDetail cl)"
  using rest.api_classifier_axioms graphql.api_classifier_axioms wsdl.api_classifier_axioms
    grpc.api_classifier_axioms
  by (auto simp: all_classifiers_def classifier_defs)

text \<open>C39. Every classifier of the program keeps the contract: its verdict is positive exactly when
  its confidence is, no confidence exceeds 1, and a positive verdict states a reason.\<close>

theorem classifier_contract:
  assumes "cl \<in> all_classifiers" "ClassifyDetail cl req = (isAPI, c, reason)"
  shows "(isAPI \<longleftrightarrow> 0 < c) \<and> c \<le> one \<and> (isAPI \<longrightarrow> reason \<noteq> [])"
proof -
  have "isAPI \<longleftrightarrow> 0 < c" "c \<le> one"
    using api_classifier.api_iff_confident [OF all_classifiers_contract [OF assms(1)] assms(2)]
      api_classifier.confidence_le_one [OF all_classifiers_contract [OF assms(1)] assms(2)] by blast+
  moreover have "isAPI \<Longrightarrow> reason \<noteq> []"
    using api_classifier.reason_given [OF all_classifiers_contract [OF assms(1)], of req c reason] assms(2) by simp
  ultimately show ?thesis by blast
qed

lemma classifier_contract_witness:
  "0 < GRPCContentTypeConfidence \<and> GRPCContentTypeConfidence \<le> one \<and> ''grpc-content-type'' \<noteq> []"
proof -
  have "ClassifyDetail GRPCClassifier (empty_request\<lparr>Headers := [(''Content-Type'', ''application/grpc+proto'')]\<rparr>)
      = (True, GRPCContentTypeConfidence, ''grpc-content-type'')" by code_simp
  from classifier_contract [OF _ this] show ?thesis by (simp add: all_classifiers_def)
qed

section \<open>The best match\<close>

definition score_of :: "ObservedRequest \<Rightarrow> classifier \<Rightarrow> confidence" where
  "score_of req cl = fst (snd (ClassifyDetail cl req))"

definition reason_of :: "ObservedRequest \<Rightarrow> classifier \<Rightarrow> string" where
  "reason_of req cl = snd (snd (ClassifyDetail cl req))"

text \<open>The specification of a match: the first classifier of highest score, or none.\<close>

definition best_match_spec :: "classifier list \<Rightarrow> ObservedRequest \<Rightarrow> 's ClassifiedRequest \<Rightarrow> bool" where
  "best_match_spec cls req best =
     (ObservedRequest.truncate best = req
      \<and> (if \<forall>cl\<in>set cls. score_of req cl = 0 then best = unclassified req
         else \<exists>ls cl rs. cls = ls @ cl # rs \<and> 0 < score_of req cl
            \<and> (\<forall>c\<in>set ls. score_of req c < score_of req cl) \<and> (\<forall>c\<in>set rs. score_of req c \<le> score_of req cl)
            \<and> best = (unclassified req)\<lparr>IsAPI := True, Confidence := score_of req cl,
                APIType := ClassifierName cl, Reason := reason_of req cl\<rparr>))"

lemma truncate_update [simp]:
  "ObservedRequest.truncate (r\<lparr>IsAPI := a\<rparr>) = ObservedRequest.truncate r"
  "ObservedRequest.truncate (r\<lparr>Confidence := c\<rparr>) = ObservedRequest.truncate r"
  "ObservedRequest.truncate (r\<lparr>APIType := t\<rparr>) = ObservedRequest.truncate r"
  "ObservedRequest.truncate (r\<lparr>Reason := x\<rparr>) = ObservedRequest.truncate r"
  by (simp_all add: ObservedRequest.truncate_def)

lemma truncate_unclassified [simp]: "ObservedRequest.truncate (unclassified req) = req"
  by (simp add: unclassified_def ObservedRequest.truncate_def ObservedRequest.extend_def)

lemma unclassified_zero [simp]: "Confidence (unclassified req) = 0"
  by (simp add: unclassified_def ObservedRequest.extend_def)

lemma best_match_intro:
  assumes "cls = ls @ cl # rs" "0 < score_of req cl"
    and "\<forall>c\<in>set ls. score_of req c < score_of req cl" "\<forall>c\<in>set rs. score_of req c \<le> score_of req cl"
    and "best = (unclassified req)\<lparr>IsAPI := True, Confidence := score_of req cl,
                APIType := ClassifierName cl, Reason := reason_of req cl\<rparr>"
  shows "best_match_spec cls req best"
proof -
  have "\<not> (\<forall>cl\<in>set cls. score_of req cl = 0)" using assms(1,2) by auto
  then show ?thesis using assms unfolding best_match_spec_def
    by (simp only: if_False truncate_update truncate_unclassified simp_thms) blast
qed

lemma best_match_elim:
  assumes "best_match_spec cls req best" "\<not> (\<forall>cl\<in>set cls. score_of req cl = 0)"
  obtains ls cl rs where "cls = ls @ cl # rs" "0 < score_of req cl"
    "\<forall>c\<in>set ls. score_of req c < score_of req cl" "\<forall>c\<in>set rs. score_of req c \<le> score_of req cl"
    "best = (unclassified req)\<lparr>IsAPI := True, Confidence := score_of req cl,
                APIType := ClassifierName cl, Reason := reason_of req cl\<rparr>"
  using assms unfolding best_match_spec_def by (simp only: if_False) blast

lemma classify_one_spec:
  assumes "set cls \<subseteq> all_classifiers"
  shows "best_match_spec cls req (classify_one cls req :: 's ClassifiedRequest)"
  using assms
proof (induction cls rule: rev_induct)
  case Nil
  then show ?case by (simp add: best_match_spec_def classify_one_def)
next
  case (snoc cl cls)
  let ?best = "classify_one cls req :: 's ClassifiedRequest"
  let ?new = "classify_one (cls @ [cl]) req :: 's ClassifiedRequest"
  have IH: "best_match_spec cls req ?best" using snoc by simp
  have new: "?new = better_match req cl ?best" by (simp add: classify_one_def)
  obtain a c r where v: "ClassifyDetail cl req = (a, c, r)" by (metis prod.exhaust)
  have a: "a \<longleftrightarrow> 0 < c"
    using api_classifier.api_iff_confident [OF all_classifiers_contract v] snoc.prems by simp
  have cr: "score_of req cl = c" "reason_of req cl = r" by (simp_all add: score_of_def reason_of_def v)
  show ?case
  proof (cases "\<forall>x\<in>set cls. score_of req x = 0")
    case True
    then have b: "?best = unclassified req" using IH by (simp add: best_match_spec_def)
    show ?thesis
    proof (cases "c = 0")
      case True
      then show ?thesis using b new v a \<open>\<forall>x\<in>set cls. score_of req x = 0\<close> cr
        by (simp add: best_match_spec_def better_match_def)
    next
      case False
      then have "?new = (unclassified req)\<lparr>IsAPI := True, Confidence := c, APIType := ClassifierName cl, Reason := r\<rparr>"
        using b new v a by (simp add: better_match_def)
      then show ?thesis using False True cr by (intro best_match_intro [of _ cls cl "[]"]) auto
    qed
  next
    case False
    then obtain ls m rs where m: "cls = ls @ m # rs" "0 < score_of req m"
      "\<forall>x\<in>set ls. score_of req x < score_of req m" "\<forall>x\<in>set rs. score_of req x \<le> score_of req m"
      "?best = (unclassified req)\<lparr>IsAPI := True, Confidence := score_of req m,
                APIType := ClassifierName m, Reason := reason_of req m\<rparr>"
      using best_match_elim [OF IH] by blast
    show ?thesis
    proof (cases "c > score_of req m")
      case True
      then have "?new = (unclassified req)\<lparr>IsAPI := True, Confidence := c, APIType := ClassifierName cl, Reason := r\<rparr>"
        using new v a m(5) by (simp add: better_match_def)
      moreover have "\<forall>x\<in>set cls. score_of req x < c" using m(1,3,4) True by auto
      ultimately show ?thesis using True cr by (intro best_match_intro [of _ cls cl "[]"]) auto
    next
      case no: False
      then have "?new = ?best" using new v m(5) by (simp add: better_match_def)
      moreover have "\<forall>x\<in>set (rs @ [cl]). score_of req x \<le> score_of req m" using m(4) no cr by auto
      moreover have "cls @ [cl] = ls @ m # (rs @ [cl])" using m(1) by simp
      ultimately show ?thesis using m(2,3,5) by (intro best_match_intro [of _ ls m "rs @ [cl]"]) auto
    qed
  qed
qed

text \<open>C38. Running the program's classifiers, in any order and selection, keeps the requests in order,
  drops exactly those whose best confidence is below the threshold, changes nothing of the captured
  request, and labels each with the type, score and reason of the first classifier of highest
  score; with a positive threshold every result is an API call.\<close>

theorem RunClassifiers_spec:
  assumes "set cls \<subseteq> all_classifiers"
  shows "RunClassifiers cls reqs threshold
      = filter (\<lambda>b. threshold \<le> Confidence b) (map (classify_one cls) reqs)
    \<and> (\<forall>req. best_match_spec cls req (classify_one cls req :: 's ClassifiedRequest))
    \<and> (0 < threshold \<longrightarrow> (\<forall>b\<in>set (RunClassifiers cls reqs threshold :: 's ClassifiedRequest list).
        IsAPI b \<and> Confidence b \<le> one))"
proof (intro conjI allI impI)
  show f: "RunClassifiers cls reqs threshold = filter (\<lambda>b. threshold \<le> Confidence b) (map (classify_one cls) reqs)"
    for threshold by (induction reqs) (simp_all add: Let_def)
  show spec: "best_match_spec cls req (classify_one cls req :: 's ClassifiedRequest)" for req
    using assms by (rule classify_one_spec)
  assume t: "0 < threshold"
  show "\<forall>b\<in>set (RunClassifiers cls reqs threshold :: 's ClassifiedRequest list). IsAPI b \<and> Confidence b \<le> one"
  proof
    fix b :: "'s ClassifiedRequest"
    assume "b \<in> set (RunClassifiers cls reqs threshold)"
    then obtain req where b: "b = classify_one cls req" "threshold \<le> Confidence b" by (auto simp: f)
    have sp: "best_match_spec cls req b" using spec [of req] b(1) by simp
    have "\<not> (\<forall>cl\<in>set cls. score_of req cl = 0)"
    proof
      assume "\<forall>cl\<in>set cls. score_of req cl = 0"
      then have "b = unclassified req" using sp by (simp add: best_match_spec_def)
      then show False using b(2) t by simp
    qed
    from best_match_elim [OF sp this] obtain ls cl rs where "cls = ls @ cl # rs"
      "b = (unclassified req)\<lparr>IsAPI := True, Confidence := score_of req cl,
                APIType := ClassifierName cl, Reason := reason_of req cl\<rparr>"
      by blast
    then have cl: "cl \<in> set cls" "IsAPI b" "Confidence b = score_of req cl" by simp_all
    moreover have "score_of req cl \<le> one"
      using api_classifier.confidence_le_one [OF all_classifiers_contract, of cl req] cl(1) assms
      by (auto simp: score_of_def) (metis prod.collapse subsetD)
    ultimately show "IsAPI b \<and> Confidence b \<le> one" by simp
  qed
qed

lemma RunClassifiers_spec_witness:
  "RunClassifiers [RESTClassifier, GRPCClassifier] [empty_request] 5
      = filter (\<lambda>b. 5 \<le> Confidence b) (map (classify_one [RESTClassifier, GRPCClassifier]) [empty_request])
    \<and> (\<forall>req. best_match_spec [RESTClassifier, GRPCClassifier] req
          (classify_one [RESTClassifier, GRPCClassifier] req :: unit ClassifiedRequest))"
proof -
  have s: "set [RESTClassifier, GRPCClassifier] \<subseteq> all_classifiers" by (simp add: all_classifiers_def)
  show ?thesis using RunClassifiers_spec [OF s, of "[empty_request]" 5] by blast
qed

end
