(* ===== verification/Deduplicate.thy ===== *)
theory Deduplicate
  imports Classify_Types Go_Url Selection
begin

text \<open>
  Merging duplicate observations, \<^verbatim>\<open>Deduplicate\<close> and its helpers in
  \<^verbatim>\<open>pkg/classify/classifier.go\<close>. The state of the loop is the slice
  \<open>order\<close> of keys and the map \<open>seen\<close>. \<^verbatim>\<open>mime.ParseMediaType\<close> and the hex of the first
  eight bytes of SHA-256 are the fields of \<open>dedup_env\<close>: any functions, since nothing below
  depends on what they compute.
\<close>

record dedup_env =
  parseMediaType :: "string \<Rightarrow> (string \<times> (string, string) gomap) option"
  fingerprint :: "bytes \<Rightarrow> string"

section \<open>Responses\<close>

definition responsePopulated :: "ObservedResponse \<Rightarrow> bool" where
  "responsePopulated r = (StatusCode r > 0 \<or> length (RespBody r) > 0 \<or> ContentType r \<noteq> [])"

definition compare_bytes :: "bytes \<Rightarrow> bytes \<Rightarrow> int" where
  "compare_bytes a b = (if a = b then 0 else if a < b then - 1 else 1)"

definition CompareResponses :: "ObservedResponse \<Rightarrow> ObservedResponse \<Rightarrow> int" where
  "CompareResponses a b =
     (if StatusCode a \<noteq> StatusCode b then (if StatusCode a < StatusCode b then - 1 else 1)
      else if ContentType a \<noteq> ContentType b then (if ContentType a < ContentType b then - 1 else 1)
      else compare_bytes (RespBody a) (RespBody b))"

definition preferredResponse :: "ObservedResponse \<Rightarrow> ObservedResponse \<Rightarrow> ObservedResponse" where
  "preferredResponse a b =
     (let ap = responsePopulated a; bp = responsePopulated b
      in if ap \<noteq> bp then (if bp then b else a)
         else if CompareResponses b a < 0 then b else a)"

section \<open>Values and keys\<close>

text \<open>One loop of \<^verbatim>\<open>MergeUniqueOrdered\<close>; the flag says that the cap stopped it.\<close>

fun add_unique :: "nat \<Rightarrow> string list \<Rightarrow> string list \<Rightarrow> string list \<times> bool" where
  "add_unique limit out [] = (out, False)"
| "add_unique limit out (v # vs) =
     (if v \<in> set out then add_unique limit out vs
      else let out' = out @ [v] in if length out' \<ge> limit then (out', True) else add_unique limit out' vs)"

definition MergeUniqueOrdered :: "string list \<Rightarrow> string list \<Rightarrow> string list" where
  "MergeUniqueOrdered a b =
     (if length a = 0 \<and> length b = 0 then []
      else (case add_unique MaxQueryParamValues [] a of (out, full) \<Rightarrow>
        if full then out else fst (add_unique MaxQueryParamValues out b)))"

definition mergeMultiValueKeys ::
    "(string, bool) gomap option \<Rightarrow> (string, bool) gomap option \<Rightarrow> (string, bool) gomap option" where
  "mergeMultiValueKeys dst src =
     (case src of None \<Rightarrow> dst
      | Some s \<Rightarrow> Some (fold (\<lambda>(k, v) d. if v then map_put k True d else d) s
          (case dst of None \<Rightarrow> [] | Some d \<Rightarrow> d)))"

fun getSoapAction :: "headers \<Rightarrow> string" where
  "getSoapAction [] = []"
| "getSoapAction ((k, v) # hs) = (if equal_fold k ''soapaction'' then trim_char (CHR 0x22) v else getSoapAction hs)"

text \<open>\<^verbatim>\<open>bytes.ReplaceAll\<close> for a non-empty pattern.\<close>

function replace_all :: "string \<Rightarrow> string \<Rightarrow> string \<Rightarrow> string" where
  "replace_all old new s =
     (case s of [] \<Rightarrow> []
      | c # r \<Rightarrow> if old \<noteq> [] \<and> has_prefix s old then new @ replace_all old new (drop (length old) s)
          else c # replace_all old new r)"
  by pat_completeness auto
termination
  by (relation "measure (\<lambda>(_, _, s). length s)") auto

declare replace_all.simps [simp del]

definition fingerprint_body :: "dedup_env \<Rightarrow> string \<Rightarrow> bytes \<Rightarrow> bytes" where
  "fingerprint_body env ct body =
     (if ct = [] then body
      else (case parseMediaType env ct of None \<Rightarrow> body
        | Some (mt, params) \<Rightarrow>
            if mt = ''multipart/form-data'' then
              (let boundary = (case map_get params ''boundary'' of Some b \<Rightarrow> b | None \<Rightarrow> [])
               in if length boundary \<ge> 4 then replace_all boundary ''BOUNDARY'' body else body)
            else body))"

definition dedup_key :: "dedup_env \<Rightarrow> ('s, 'm) ClassifiedRequest_scheme \<Rightarrow> string" where
  "dedup_key env req =
     (case parse_url (URL req) of None \<Rightarrow> Method req @ '':'' @ URL req
      | Some u \<Rightarrow>
          let key = Method req @ '':'' @ Path u;
              sa = getSoapAction (Headers req);
              key1 = (if sa \<noteq> [] then key @ '':'' @ sa else key)
          in if length (Body req) > 0 then
               (let ct = getContentType (Headers req);
                    key2 = (if ct \<noteq> [] then key1 @ '':'' @ Base ct else key1)
                in key2 @ '':'' @ fingerprint env (fingerprint_body env ct (Body req)))
             else key1)"

section \<open>Merging one observation\<close>

type_synonym ranking = "confidence \<times> string \<times> string"

definition better_ranking :: "ranking \<Rightarrow> ranking \<Rightarrow> bool" where
  "better_ranking new old =
     (case (new, old) of ((c, t, r), (c', t', r')) \<Rightarrow>
        if c > c' then True
        else if c = c' then (if t \<noteq> t' then t > t' else r > r') else False)"

definition keep_better :: "ranking \<Rightarrow> ranking \<Rightarrow> ranking" where
  "keep_better old new = (if better_ranking new old then new else old)"

definition ranking_of :: "('s, 'm) ClassifiedRequest_scheme \<Rightarrow> ranking" where
  "ranking_of r = (Confidence r, APIType r, Reason r)"

definition merge_params :: "url_values option \<Rightarrow> url_values option \<Rightarrow> url_values option" where
  "merge_params old new =
     (case new of None \<Rightarrow> old
      | Some n \<Rightarrow> Some (fold (\<lambda>(k, vs) m. map_put k
            (MergeUniqueOrdered (case map_get m k of Some ws \<Rightarrow> ws | None \<Rightarrow> []) vs) m) n
          (case old of None \<Rightarrow> [] | Some m \<Rightarrow> m)))"

definition first_entry :: "'s ClassifiedRequest \<Rightarrow> 's ClassifiedRequest" where
  "first_entry req = req\<lparr>MultiValueQueryKeys := mergeMultiValueKeys None (MultiValueQueryKeys req)\<rparr>"

definition merge_entry :: "'s ClassifiedRequest \<Rightarrow> 's ClassifiedRequest \<Rightarrow> 's ClassifiedRequest" where
  "merge_entry req existing =
     (case keep_better (ranking_of existing) (ranking_of req) of (c, t, r) \<Rightarrow>
        existing
          \<lparr>QueryParams := merge_params (QueryParams existing) (QueryParams req),
           MultiValueQueryKeys := mergeMultiValueKeys (MultiValueQueryKeys existing) (MultiValueQueryKeys req),
           Confidence := c, APIType := t, Reason := r,
           Response := preferredResponse (Response existing) (Response req)\<rparr>)"

type_synonym 's dedup_state = "string list \<times> (string, 's ClassifiedRequest) gomap"

definition dedup_step :: "dedup_env \<Rightarrow> 's ClassifiedRequest \<Rightarrow> 's dedup_state \<Rightarrow> 's dedup_state" where
  "dedup_step env req st =
     (case st of (order, seen) \<Rightarrow>
        let key = dedup_key env req in
        if parse_url (URL req) = None then
          (if map_get seen key = None then (order @ [key], map_put key req seen) else (order, seen))
        else
          (case map_get seen key of
             None \<Rightarrow> (order @ [key], map_put key (first_entry req) seen)
           | Some existing \<Rightarrow> (order, map_put key (merge_entry req existing) seen)))"

definition Deduplicate :: "dedup_env \<Rightarrow> 's ClassifiedRequest list \<Rightarrow> 's ClassifiedRequest list" where
  "Deduplicate env classified =
     (case fold (dedup_step env) classified ([], []) of (order, seen) \<Rightarrow>
        map (\<lambda>key. the (map_get seen key)) order)"

section \<open>The two selections\<close>

type_synonym response_rank = "bool \<times> int \<times> string \<times> bytes"

definition response_key :: "ObservedResponse \<Rightarrow> response_rank" where
  "response_key r = (\<not> responsePopulated r, StatusCode r, ContentType r, RespBody r)"

lemma CompareResponses_less:
  "CompareResponses b a < 0 \<longleftrightarrow> (StatusCode b, ContentType b, RespBody b) < (StatusCode a, ContentType a, RespBody a)"
  by (auto simp: CompareResponses_def compare_bytes_def less_prod_def' split: if_splits)

interpretation responses: selector preferredResponse response_key
  by unfold_locales (auto simp: preferredResponse_def response_key_def Let_def CompareResponses_less)

lemma better_ranking_less: "better_ranking new old \<longleftrightarrow> old < new"
  by (auto simp: better_ranking_def less_prod_def' split: prod.splits)

interpretation rankings: selector keep_better Down
  by unfold_locales (simp_all add: keep_better_def better_ranking_less less_down_def)

text \<open>Two responses with equal status, content type and body are a tie: the first argument is kept,
  with its headers.\<close>

lemma preferredResponse_tie:
  "preferredResponse (empty_response\<lparr>RespHeaders := [(''A'', ''1'')]\<rparr>) empty_response
    \<noteq> preferredResponse empty_response (empty_response\<lparr>RespHeaders := [(''A'', ''1'')]\<rparr>)"
  by code_simp

section \<open>Merged values\<close>

lemma nub_shift: "nub (xs @ v # vs) = nub ((xs @ [v]) @ vs)"
  by simp

lemma add_unique_nub:
  "length (nub xs) < limit \<Longrightarrow>
    add_unique limit (nub xs) vs = (take limit (nub (xs @ vs)), limit \<le> length (nub (xs @ vs)))"
proof (induction vs arbitrary: xs)
  case (Cons v vs)
  have IH: "length (nub (xs @ [v])) < limit \<Longrightarrow> add_unique limit (nub (xs @ [v])) vs
      = (take limit (nub (xs @ v # vs)), limit \<le> length (nub (xs @ v # vs)))"
    using Cons.IH [of "xs @ [v]"] unfolding nub_shift [of xs v vs] .
  show ?case
  proof (cases "v \<in> set xs")
    case True
    then show ?thesis using IH Cons.prems by (simp only: add_unique.simps set_nub nub_snoc if_True)
  next
    case False
    show ?thesis
    proof (cases "length (nub xs @ [v]) \<ge> limit")
      case True
      obtain ys where "nub ((xs @ [v]) @ vs) = nub (xs @ [v]) @ ys" using nub_append_prefix by blast
      then have ys: "nub (xs @ v # vs) = (nub xs @ [v]) @ ys" using False unfolding nub_shift [of xs v vs] by (simp only: nub_snoc if_False)
      have len: "length (nub xs @ [v]) = limit" using True Cons.prems by simp
      have res: "add_unique limit (nub xs) (v # vs) = (nub xs @ [v], True)"
        using False True by (simp only: add_unique.simps set_nub Let_def if_False if_True)
      have "take limit ((nub xs @ [v]) @ ys) = nub xs @ [v]" "limit \<le> length ((nub xs @ [v]) @ ys)"
        unfolding len [symmetric] by simp_all
      then show ?thesis unfolding ys res by simp
    next
      case small: False
      then show ?thesis using IH False
        by (simp only: add_unique.simps set_nub nub_snoc Let_def if_False not_le if_not_P)
    qed
  qed
qed simp

text \<open>Merging two value lists is: append, keep the first occurrence of each value, and cut at 256;
  so the result never has duplicates or more than 256 values, and merging is associative.\<close>

theorem MergeUniqueOrdered_spec:
  "MergeUniqueOrdered a b = take MaxQueryParamValues (nub (a @ b))"
proof (cases "length a = 0 \<and> length b = 0")
  case False
  have a: "add_unique MaxQueryParamValues [] a
      = (take MaxQueryParamValues (nub a), MaxQueryParamValues \<le> length (nub a))"
    using add_unique_nub [of "[]" MaxQueryParamValues a] by (simp add: MaxQueryParamValues_def)
  show ?thesis
  proof (cases "MaxQueryParamValues \<le> length (nub a)")
    case True
    obtain ys where "nub (a @ b) = nub a @ ys" using nub_append_prefix by blast
    then show ?thesis using False True a by (simp add: MergeUniqueOrdered_def)
  next
    case small: False
    then show ?thesis using False a add_unique_nub [of a MaxQueryParamValues b]
      by (simp add: MergeUniqueOrdered_def)
  qed
qed (simp add: MergeUniqueOrdered_def)

section \<open>The loop, group by group\<close>

definition enter :: "'s ClassifiedRequest \<Rightarrow> 's ClassifiedRequest" where
  "enter r = (if parse_url (URL r) = None then r else first_entry r)"

definition absorb :: "'s ClassifiedRequest \<Rightarrow> 's ClassifiedRequest \<Rightarrow> 's ClassifiedRequest" where
  "absorb r e = (if parse_url (URL r) = None then e else merge_entry r e)"

fun merged :: "'s ClassifiedRequest list \<Rightarrow> 's ClassifiedRequest option" where
  "merged [] = None"
| "merged (r # rs) = Some (fold absorb rs (enter r))"

lemma merged_snoc: "merged (rs @ [r]) = (case merged rs of None \<Rightarrow> Some (enter r) | Some e \<Rightarrow> Some (absorb r e))"
  by (cases rs) simp_all

lemma merged_None [simp]: "merged rs = None \<longleftrightarrow> rs = []"
  by (cases rs) simp_all

lemma empty_group: "filter (\<lambda>r. dedup_key env r = k) cs = [] \<longleftrightarrow> k \<notin> set (map (dedup_key env) cs)"
  by (induction cs) auto

lemma dedup_step_alt:
  "dedup_step env r (o1, s1) =
      (if map_get s1 (dedup_key env r) = None
       then (o1 @ [dedup_key env r], map_put (dedup_key env r) (enter r) s1)
       else (o1, if parse_url (URL r) = None then s1
                 else map_put (dedup_key env r) (merge_entry r (the (map_get s1 (dedup_key env r)))) s1))"
  by (auto simp: dedup_step_def enter_def Let_def split: option.splits)

lemma dedup_fold:
  "fold (dedup_step env) cs ([], []) = (order, seen) \<Longrightarrow>
    order = nub (map (dedup_key env) cs)
    \<and> map_get seen = (\<lambda>k. merged (filter (\<lambda>r. dedup_key env r = k) cs))"
proof (induction cs arbitrary: order seen rule: rev_induct)
  case (snoc r cs)
  obtain o1 s1 where f: "fold (dedup_step env) cs ([], []) = (o1, s1)" by fastforce
  let ?k = "dedup_key env r"
  have IH: "o1 = nub (map (dedup_key env) cs)"
      "map_get s1 = (\<lambda>k. merged (filter (\<lambda>r. dedup_key env r = k) cs))"
    using snoc.IH [OF f] by blast+
  have none: "map_get s1 ?k = None \<longleftrightarrow> ?k \<notin> set (map (dedup_key env) cs)"
    using empty_group [of env ?k cs] by (simp only: IH(2) merged_None)
  have "(order, seen) = dedup_step env r (o1, s1)" using snoc.prems f by simp
  then have order: "order = (if map_get s1 ?k = None then o1 @ [?k] else o1)"
    and seen: "map_get seen = (map_get s1)(?k \<mapsto> (case map_get s1 ?k of None \<Rightarrow> enter r | Some e \<Rightarrow> absorb r e))"
    unfolding dedup_step_alt by (auto simp: absorb_def fun_upd_idem split: if_splits)
  have "order = nub (map (dedup_key env) (cs @ [r]))" using order none IH(1) by auto
  moreover have "map_get seen k = merged (filter (\<lambda>r. dedup_key env r = k) (cs @ [r]))" for k
    using seen IH(2) by (auto simp: merged_snoc split: option.splits)
  ultimately show ?case by blast
qed simp


definition group :: "dedup_env \<Rightarrow> string \<Rightarrow> 's ClassifiedRequest list \<Rightarrow> 's ClassifiedRequest list" where
  "group env k cs = filter (\<lambda>r. dedup_key env r = k) cs"

lemma Deduplicate_groups:
  "Deduplicate env cs = map (\<lambda>k. the (merged (group env k cs))) (nub (map (dedup_key env) cs))"
proof -
  obtain order seen where f: "fold (dedup_step env) cs ([], []) = (order, seen)" by fastforce
  show ?thesis using dedup_fold [OF f] f by (simp add: Deduplicate_def group_def)
qed

lemma first_entry_fields:
  "ranking_of (first_entry r) = ranking_of r" "Response (first_entry r) = Response r"
  "URL (first_entry r) = URL r" "Method (first_entry r) = Method r"
  "Headers (first_entry r) = Headers r" "Body (first_entry r) = Body r"
  by (simp_all add: first_entry_def ranking_of_def)

lemma truncate_merge:
  "URL (merge_entry r e) = URL e \<and> Method (merge_entry r e) = Method e
    \<and> Headers (merge_entry r e) = Headers e \<and> Body (merge_entry r e) = Body e"
  by (simp add: merge_entry_def split: prod.split)

lemma dedup_key_cong:
  "URL a = URL b \<Longrightarrow> Method a = Method b \<Longrightarrow> Headers a = Headers b \<Longrightarrow> Body a = Body b
    \<Longrightarrow> dedup_key env a = dedup_key env b"
  by (simp only: dedup_key_def)

lemma dedup_key_first_entry [simp]: "dedup_key env (first_entry r) = dedup_key env r"
  by (rule dedup_key_cong) (simp_all add: first_entry_fields)

lemma dedup_key_enter [simp]: "dedup_key env (enter r) = dedup_key env r"
  by (simp add: enter_def)

lemma dedup_key_merge_entry [simp]: "dedup_key env (merge_entry r e) = dedup_key env e"
  by (rule dedup_key_cong) (simp_all add: truncate_merge)

lemma dedup_key_absorb [simp]: "dedup_key env (absorb r e) = dedup_key env e"
  by (simp add: absorb_def)

lemma dedup_key_fold [simp]: "dedup_key env (fold absorb rs e) = dedup_key env e"
  by (induction rs arbitrary: e) simp_all

lemma group_nonempty: "k \<in> set (map (dedup_key env) cs) \<Longrightarrow> group env k cs \<noteq> []"
  using empty_group [of env k cs] unfolding group_def by blast

lemma group_key: "r \<in> set (group env k cs) \<Longrightarrow> dedup_key env r = k"
  by (simp add: group_def)

lemma merged_key:
  assumes "k \<in> set (map (dedup_key env) cs)"
  shows "dedup_key env (the (merged (group env k cs))) = k"
proof (cases "group env k cs")
  case Nil
  then show ?thesis using group_nonempty [OF assms] by simp
next
  case (Cons r rs)
  then have "dedup_key env r = k" using group_key [of r env k cs] by simp
  then show ?thesis using Cons by simp
qed

text \<open>Deduplication is grouping: the result has one request per distinct endpoint key, in the order in
  which the keys first appear, so no two results share a key and no key is lost.\<close>

theorem Deduplicate_keys:
  "map (dedup_key env) (Deduplicate env cs) = nub (map (dedup_key env) cs)
    \<and> distinct (map (dedup_key env) (Deduplicate env cs))"
proof -
  have "map (dedup_key env) (Deduplicate env cs) = nub (map (dedup_key env) cs)"
    unfolding Deduplicate_groups map_map comp_def
    by (rule map_idI) (simp only: merged_key set_nub)
  then show ?thesis by simp
qed

lemma ranking_of_merge: "ranking_of (merge_entry r e) = keep_better (ranking_of e) (ranking_of r)"
  by (simp add: merge_entry_def ranking_of_def split: prod.split)

lemma Response_merge: "Response (merge_entry r e) = preferredResponse (Response e) (Response r)"
  by (simp add: merge_entry_def split: prod.split)

lemma ranking_of_fold:
  "ranking_of (fold merge_entry rs e) = fold (\<lambda>b a. keep_better a b) (map ranking_of rs) (ranking_of e)"
  by (induction rs arbitrary: e) (simp_all add: ranking_of_merge)

lemma Response_fold:
  "Response (fold merge_entry rs e) = fold (\<lambda>b a. preferredResponse a b) (map Response rs) (Response e)"
  by (induction rs arbitrary: e) (simp_all add: Response_merge)

lemma first_fold:
  "URL (fold merge_entry rs e) = URL e \<and> Method (fold merge_entry rs e) = Method e
    \<and> Headers (fold merge_entry rs e) = Headers e \<and> Body (fold merge_entry rs e) = Body e"
  by (induction rs arbitrary: e) (simp_all add: truncate_merge)

definition parses :: "('s, 'm) ClassifiedRequest_scheme \<Rightarrow> bool" where
  "parses r = (parse_url (URL r) \<noteq> None)"

lemma merged_parses:
  "\<forall>x\<in>set (r # rs). parses x \<Longrightarrow> merged (r # rs) = Some (fold merge_entry rs (first_entry r))"
proof -
  assume p: "\<forall>x\<in>set (r # rs). parses x"
  have "fold absorb rs e = fold merge_entry rs e" for e
    using p by (intro fold_cong) (auto simp: absorb_def parses_def fun_eq_iff)
  moreover have "enter r = first_entry r" using p by (auto simp: enter_def parses_def)
  ultimately show ?thesis by simp
qed

text \<open>The best ranking and the preferred response of a group.\<close>

definition best_of :: "'s ClassifiedRequest list \<Rightarrow> ranking down \<times> response_rank" where
  "best_of g = (Min ((Down \<circ> ranking_of) ` set g), Min ((response_key \<circ> Response) ` set g))"

lemma merged_best:
  assumes "\<forall>x\<in>set g. parses x" "g \<noteq> []"
  shows "(Down (ranking_of (the (merged g))), response_key (Response (the (merged g)))) = best_of g"
proof (cases g)
  case (Cons r rs)
  have m: "the (merged g) = fold merge_entry rs (first_entry r)" using merged_parses assms(1) Cons by simp
  show ?thesis unfolding m ranking_of_fold Response_fold best_of_def
    using rankings.key_fold [of "map ranking_of rs" "ranking_of r"]
      responses.key_fold [of "map Response rs" "Response r"]
    by (simp add: Cons first_entry_fields image_comp)
qed (use assms in simp)

lemma group_subset: "set (group env k cs) \<subseteq> set cs"
  by (auto simp: group_def)

text \<open>C25. A deduplicated request carries the highest ranking (confidence, then type, then reason) of its
  group and its least response (populated before empty, then status, content type, body); method,
  URL, headers and body are those of the first observation. All URLs parse.\<close>

theorem Deduplicate_best:
  assumes "\<forall>x\<in>set cs. parses x" "d \<in> set (Deduplicate env cs)"
  shows "\<exists>r rs. group env (dedup_key env d) cs = r # rs
    \<and> URL d = URL r \<and> Method d = Method r \<and> Headers d = Headers r \<and> Body d = Body r
    \<and> ranking_of d \<in> ranking_of ` set (r # rs) \<and> (\<forall>x\<in>set (r # rs). ranking_of x \<le> ranking_of d)
    \<and> Response d \<in> Response ` set (r # rs)
    \<and> (\<forall>x\<in>set (r # rs). response_key (Response d) \<le> response_key (Response x))"
proof -
  obtain k where k: "k \<in> set (map (dedup_key env) cs)" "d = the (merged (group env k cs))"
    using assms(2) unfolding Deduplicate_groups by auto
  then have kd: "dedup_key env d = k" using merged_key by blast
  obtain r rs where g: "group env k cs = r # rs" using group_nonempty [OF k(1)] by (cases "group env k cs") auto
  have "\<forall>x\<in>set (r # rs). parses x" using assms(1) group_subset [of env k cs] g by auto
  then have d: "d = fold merge_entry rs (first_entry r)" using merged_parses k(2) g by simp
  have rank: "ranking_of d = fold (\<lambda>b a. keep_better a b) (map ranking_of rs) (ranking_of r)"
    and resp: "Response d = fold (\<lambda>b a. preferredResponse a b) (map Response rs) (Response r)"
    by (simp_all add: d ranking_of_fold Response_fold first_entry_fields)
  have le: "ranking_of x \<le> ranking_of d" if "x \<in> set (r # rs)" for x
    using rankings.fold_least [of "ranking_of x" "ranking_of r" "map ranking_of rs"] that rank
    by (simp add: less_eq_down_def image_iff) blast
  have least: "response_key (Response d) \<le> response_key (Response x)" if "x \<in> set (r # rs)" for x
    using responses.fold_least [of "Response x" "Response r" "map Response rs"] that resp by auto
  have "ranking_of d \<in> ranking_of ` set (r # rs)"
    using rankings.fold_in [of "map ranking_of rs" "ranking_of r"] by (simp add: rank)
  moreover have "Response d \<in> Response ` set (r # rs)"
    using responses.fold_in [of "map Response rs" "Response r"] by (simp add: resp)
  moreover have "URL d = URL r \<and> Method d = Method r \<and> Headers d = Headers r \<and> Body d = Body r"
    using first_fold [of rs "first_entry r"] d first_entry_fields by metis
  ultimately show ?thesis using g kd le least by blast
qed

definition summary :: "dedup_env \<Rightarrow> 's ClassifiedRequest \<Rightarrow> string \<times> ranking \<times> response_rank" where
  "summary env d = (dedup_key env d, ranking_of d, response_key (Response d))"

lemma best_of_perm: "mset g = mset g' \<Longrightarrow> best_of g = best_of g'"
  unfolding best_of_def by (drule mset_eq_setD) simp

lemma summary_set:
  assumes "\<forall>x\<in>set cs. parses x"
  shows "set (map (summary env) (Deduplicate env cs))
    = (\<lambda>k. (k, undown (fst (best_of (group env k cs))), snd (best_of (group env k cs)))) ` dedup_key env ` set cs"
proof -
  have "summary env (the (merged (group env k cs)))
      = (k, undown (fst (best_of (group env k cs))), snd (best_of (group env k cs)))"
    if k: "k \<in> set (map (dedup_key env) cs)" for k
  proof -
    have "\<forall>x\<in>set (group env k cs). parses x" using assms group_subset by blast
    from merged_best [OF this group_nonempty [OF k], symmetric] show ?thesis
      using merged_key [OF k] by (simp add: summary_def)
  qed
  then show ?thesis unfolding Deduplicate_groups by (simp add: image_image)
qed

text \<open>C26. What deduplication keeps does not depend on the order of the observations: two orders of the same
  observations (all URLs parse) give the same endpoint keys with the same ranking and the same
  response status, content type and body.\<close>

theorem Deduplicate_order_free:
  assumes "mset cs = mset cs'" "\<forall>x\<in>set cs. parses x"
  shows "set (map (summary env) (Deduplicate env cs)) = set (map (summary env) (Deduplicate env cs'))"
proof -
  have s: "set cs = set cs'" using assms(1) by (rule mset_eq_setD)
  have b: "best_of (group env k cs) = best_of (group env k cs')" for k
    using assms(1) by (intro best_of_perm) (simp add: group_def)
  show ?thesis unfolding summary_set [OF assms(2)] summary_set [OF assms(2) [unfolded s]] b s ..
qed

definition sample_env :: dedup_env where
  "sample_env = \<lparr>parseMediaType = (\<lambda>_. None), fingerprint = (\<lambda>b. b)\<rparr>"

definition sample_request :: "nat \<Rightarrow> int \<Rightarrow> unit ClassifiedRequest" where
  "sample_request c st =
     ObservedRequest.extend
       (empty_request\<lparr>Method := ''GET'', URL := ''http://h/a'', Response := empty_response\<lparr>StatusCode := st\<rparr>\<rparr>)
       \<lparr>IsAPI = True, Confidence = c, Reason = ''r'', APIType = ''rest'', MultiValueQueryKeys = None,
        AllowedMethods = [], ResponseSchema = None, WSDLDocument = [], GraphQLSchema = None, GRPCSchema = None\<rparr>"

abbreviation "sample_requests \<equiv> [sample_request 5 404, sample_request 9 200]"

lemma sample_url: "parse_url ''http://h/a'' = Some (empty_url\<lparr>Scheme := ''http'', Host := ''h'', Path := ''/a''\<rparr>)"
  by code_simp

lemma sample_URL [simp]: "URL (sample_request c st) = ''http://h/a''"
  by (simp add: sample_request_def ObservedRequest.extend_def)

lemma sample_parses: "\<forall>x\<in>set sample_requests. parses x"
  by (simp add: parses_def sample_url)

lemma sample_key [simp]: "dedup_key sample_env (sample_request c st) = ''GET:/a''"
  unfolding dedup_key_def sample_URL sample_url
  by (simp add: sample_request_def ObservedRequest.extend_def empty_request_def)

lemma sample_result: "hd (Deduplicate sample_env sample_requests) \<in> set (Deduplicate sample_env sample_requests)"
  by (simp add: Deduplicate_groups nub_def)

lemma Deduplicate_best_witness:
  "\<exists>r rs. group sample_env (dedup_key sample_env (hd (Deduplicate sample_env sample_requests))) sample_requests = r # rs
    \<and> URL (hd (Deduplicate sample_env sample_requests)) = URL r
    \<and> Method (hd (Deduplicate sample_env sample_requests)) = Method r
    \<and> Headers (hd (Deduplicate sample_env sample_requests)) = Headers r
    \<and> Body (hd (Deduplicate sample_env sample_requests)) = Body r
    \<and> ranking_of (hd (Deduplicate sample_env sample_requests)) \<in> ranking_of ` set (r # rs)
    \<and> (\<forall>x\<in>set (r # rs). ranking_of x \<le> ranking_of (hd (Deduplicate sample_env sample_requests)))
    \<and> Response (hd (Deduplicate sample_env sample_requests)) \<in> Response ` set (r # rs)
    \<and> (\<forall>x\<in>set (r # rs).
        response_key (Response (hd (Deduplicate sample_env sample_requests))) \<le> response_key (Response x))"
  by (rule Deduplicate_best [OF sample_parses sample_result])

lemma Deduplicate_order_free_witness:
  "set (map (summary sample_env) (Deduplicate sample_env sample_requests))
    = set (map (summary sample_env) (Deduplicate sample_env (rev sample_requests)))"
  by (rule Deduplicate_order_free [OF _ sample_parses]) simp

end
