(* ===== verification/Crawl_Headers.thy ===== *)
theory Crawl_Headers
  imports Crawl_Types Go_Url
begin

text \<open>
  Operator-supplied headers and the session cookies taken from them:
  \<^verbatim>\<open>pkg/crawl/headers.go\<close> and \<^verbatim>\<open>cookies.go\<close>. The browser's cookie
  injection is the argument \<open>inject\<close>, which may fail.
\<close>

section \<open>Headers from the command line\<close>

datatype header_error = HeaderFormat | HeaderNoName | HeaderBadName string | HeaderBadValue string

definition isTokenChar :: "char \<Rightarrow> bool" where
  "isTokenChar c = (is_upper c \<or> is_lower c \<or> is_digit c \<or> c \<in> set (CHR 0x27 # ''!#$%&*+-.^_|~'' @ [CHR 0x60]))"

definition isValidHeaderName :: "string \<Rightarrow> bool" where
  "isValidHeaderName name = list_all isTokenChar name"

definition ParseHeader :: "string \<Rightarrow> header_error + (string \<times> string)" where
  "ParseHeader raw =
     (case cut (CHR '':'') raw of
        (_, None) \<Rightarrow> Inl HeaderFormat
      | (n, Some v) \<Rightarrow>
          let name = trim_space n; value = trim_space v in
          if name = [] then Inl HeaderNoName
          else if \<not> isValidHeaderName name then Inl (HeaderBadName name)
          else if list_ex (\<lambda>c. c \<in> {CHR 0x0D, CHR 0x0A, CHR 0x00}) value then Inl (HeaderBadValue name)
          else Inr (name, value))"

section \<open>Cookies\<close>

text \<open>The cookie values in sorted key order, and the other headers.\<close>

definition extract_step :: "headers \<Rightarrow> string \<Rightarrow> string list \<times> headers \<Rightarrow> string list \<times> headers" where
  "extract_step hs k acc =
     (case acc of (parts, remaining) \<Rightarrow>
        let v = the (map_get hs k) in
        if equal_fold k ''Cookie'' then (parts @ [v], remaining) else (parts, map_put k v remaining))"

definition ExtractCookieHeader :: "headers \<Rightarrow> string \<times> headers" where
  "ExtractCookieHeader hs =
     (case fold (extract_step hs) (sort (map fst hs)) ([], []) of
        (parts, remaining) \<Rightarrow> (join ''; '' parts, remaining))"

record cookie_param =
  CookieName :: string
  CookieValue :: string
  CookiePath :: string
  Secure :: bool
  CookieURL :: string

datatype cookie_error = CookieURLParse | CookieURLInvalid string | InjectFailed

fun cookie_pairs :: "bool \<Rightarrow> string \<Rightarrow> string list \<Rightarrow> cookie_param list" where
  "cookie_pairs secure base [] = []"
| "cookie_pairs secure base (p # ps) =
     (let pair = trim_space p in
      if pair = [] then cookie_pairs secure base ps
      else
        (case cut (CHR ''='') pair of (n, v) \<Rightarrow>
           let name = trim_space n;
               value = (case v of None \<Rightarrow> [] | Some x \<Rightarrow> trim_space x)
           in if name = [] then cookie_pairs secure base ps
              else \<lparr>CookieName = name, CookieValue = value, CookiePath = ''/'', Secure = secure,
                     CookieURL = base\<rparr> # cookie_pairs secure base ps))"

definition ParseCookiesToParams :: "string \<Rightarrow> string \<Rightarrow> cookie_error + cookie_param list" where
  "ParseCookiesToParams targetURL cookieValue =
     (if cookieValue = [] then Inr []
      else (case parse_url targetURL of None \<Rightarrow> Inl CookieURLParse
        | Some u \<Rightarrow>
            if (Scheme u \<noteq> ''http'' \<and> Scheme u \<noteq> ''https'') \<or> Host u = [] then Inl (CookieURLInvalid targetURL)
            else Inr (cookie_pairs (Scheme u = ''https'') (Scheme u @ ''://'' @ Host u)
                   (split_on (CHR '';'') cookieValue))))"

definition ApplyCookieHeader ::
    "headers \<Rightarrow> string \<Rightarrow> (cookie_param list \<Rightarrow> bool) \<Rightarrow> cookie_error + headers" where
  "ApplyCookieHeader hs targetURL inject =
     (case ExtractCookieHeader hs of (cookieValue, extra) \<Rightarrow>
        if cookieValue = [] then Inr extra
        else (case ParseCookiesToParams targetURL cookieValue of Inl e \<Rightarrow> Inl e
          | Inr params \<Rightarrow> if \<not> inject params then Inl InjectFailed else Inr extra))"

section \<open>Header injection\<close>

lemma trim_space_char: "c \<in> set (trim_space s) \<Longrightarrow> c \<in> set s"
  by (auto simp: trim_space_def trim_left_def trim_right_def dest!: set_dropWhileD)

lemma trim_space_id:
  "s \<noteq> [] \<Longrightarrow> \<not> is_space (hd s) \<Longrightarrow> \<not> is_space (last s) \<Longrightarrow> trim_space s = s"
  by (cases s) (auto simp: trim_space_def trim_left_def trim_right_def hd_rev [symmetric] dropWhile_eq_self_iff)

lemma token_not_space: "isTokenChar c \<Longrightarrow> \<not> is_space c"
  by (auto simp: isTokenChar_def is_space_def is_upper_def is_lower_def is_digit_def in_range_def byte_at_def)

lemma token_not_colon: "isTokenChar c \<Longrightarrow> c \<noteq> CHR '':''"
  by (auto simp: isTokenChar_def is_upper_def is_lower_def is_digit_def in_range_def byte_at_def)

text \<open>C40. A header accepted from the command line cannot inject another one: its name is a
  non-empty sequence of RFC 7230 token characters (so no colon or white space) and its value holds
  no CR, LF or NUL.\<close>

theorem ParseHeader_sound:
  assumes "ParseHeader raw = Inr (name, value)"
  shows "name \<noteq> [] \<and> (\<forall>c\<in>set name. isTokenChar c \<and> c \<noteq> CHR '':'' \<and> \<not> is_space c)
    \<and> (\<forall>c\<in>set value. c \<notin> {CHR 0x0D, CHR 0x0A, CHR 0x00})"
proof -
  have "name \<noteq> []" "isValidHeaderName name" "\<not> list_ex (\<lambda>c. c \<in> {CHR 0x0D, CHR 0x0A, CHR 0x00}) value"
    using assms by (auto simp: ParseHeader_def Let_def split: prod.splits option.splits if_splits)
  then show ?thesis
    using token_not_space token_not_colon by (auto simp: isValidHeaderName_def list_all_iff list_ex_iff)
qed

lemma ParseHeader_sound_witness:
  "''X-Id'' \<noteq> [] \<and> isTokenChar (CHR ''X'')"
proof -
  have "ParseHeader ''X-Id : a:b'' = Inr (''X-Id'', ''a:b'')" by code_simp
  from ParseHeader_sound [OF this] show ?thesis by simp
qed

text \<open>Every well-formed header is accepted as it is.\<close>

lemma ParseHeader_complete:
  assumes "name \<noteq> []" "\<forall>c\<in>set name. isTokenChar c"
    and "value \<noteq> []" "\<not> is_space (hd value)" "\<not> is_space (last value)"
    and "\<forall>c\<in>set value. c \<notin> {CHR 0x0D, CHR 0x0A, CHR 0x00}"
  shows "ParseHeader (name @ '':'' @ value) = Inr (name, value)"
proof -
  have c: "cut (CHR '':'') (name @ CHR '':'' # value) = (name, Some value)"
    using assms(2) token_not_colon by (intro cut_at) blast
  have n: "trim_space name = name" using assms(1,2) token_not_space by (intro trim_space_id) auto
  show ?thesis using c n trim_space_id [OF assms(3-5)] assms
    by (auto simp: ParseHeader_def isValidHeaderName_def list_all_iff list_ex_iff)
qed

section \<open>Cookies are taken out of the headers\<close>

lemma fold_extract:
  "fold (extract_step hs) ks (parts, r) = (ps, rem) \<Longrightarrow>
    ps = parts @ map (the \<circ> map_get hs) (filter (\<lambda>k. equal_fold k ''Cookie'') ks)
    \<and> map_get rem = (\<lambda>k. if k \<in> set ks \<and> \<not> equal_fold k ''Cookie'' then Some (the (map_get hs k)) else map_get r k)"
proof (induction ks arbitrary: parts r)
  case (Cons k ks)
  show ?case
  proof (cases "equal_fold k ''Cookie''")
    case True
    then show ?thesis using Cons.IH [of "parts @ [the (map_get hs k)]" r] Cons.prems
      by (auto simp: extract_step_def fun_eq_iff)
  next
    case False
    then show ?thesis using Cons.IH [of parts "map_put k (the (map_get hs k)) r"] Cons.prems
      by (auto simp: extract_step_def fun_eq_iff)
  qed
qed simp

lemma Extract_split:
  assumes "map_wf hs"
  shows "fst (ExtractCookieHeader hs)
      = join ''; '' (map (the \<circ> map_get hs) (filter (\<lambda>k. equal_fold k ''Cookie'') (sort (map fst hs))))"
    and "map_get (snd (ExtractCookieHeader hs)) k
      = (if equal_fold k ''Cookie'' then None else map_get hs k)"
proof -
  obtain ps rem where f: "fold (extract_step hs) (sort (map fst hs)) ([], []) = (ps, rem)" by fastforce
  from fold_extract [OF f] f show "fst (ExtractCookieHeader hs)
      = join ''; '' (map (the \<circ> map_get hs) (filter (\<lambda>k. equal_fold k ''Cookie'') (sort (map fst hs))))"
    by (simp add: ExtractCookieHeader_def)
  have "map_get rem k = (if k \<in> fst ` set hs \<and> \<not> equal_fold k ''Cookie'' then Some (the (map_get hs k)) else None)"
    using fold_extract [OF f] by simp
  also have "\<dots> = (if equal_fold k ''Cookie'' then None else map_get hs k)"
    using map_of_eq_None_iff [of hs k] by (cases "map_get hs k") auto
  finally show "map_get (snd (ExtractCookieHeader hs)) k
      = (if equal_fold k ''Cookie'' then None else map_get hs k)"
    using f by (simp add: ExtractCookieHeader_def)
qed

text \<open>The headers the browser engine goes on with hold no \<^verbatim>\<open>Cookie\<close> header, in
  any spelling, and otherwise exactly the operator's headers; the cookie string does not depend on
  the order in which Go visits the header map. This is so whether or not a cookie was injected.\<close>

theorem ApplyCookieHeader_strips:
  assumes "map_wf hs" "ApplyCookieHeader hs targetURL inject = Inr out"
  shows "(\<forall>k. map_get out k = (if equal_fold k ''Cookie'' then None else map_get hs k))
    \<and> (\<forall>hs'. mset hs' = mset hs \<longrightarrow> fst (ExtractCookieHeader hs') = fst (ExtractCookieHeader hs))"
proof -
  have "out = snd (ExtractCookieHeader hs)"
    using assms(2) by (auto simp: ApplyCookieHeader_def split: prod.splits if_splits sum.splits)
  moreover have "fst (ExtractCookieHeader hs') = fst (ExtractCookieHeader hs)" if "mset hs' = mset hs" for hs'
  proof -
    have "sort (map fst hs') = sort (map fst hs)"
      using that by (metis mset_map properties_for_sort mset_sort sorted_sort)
    moreover have "map_get hs' = map_get hs" using map_get_perm [of hs hs'] assms(1) that by simp
    ultimately show ?thesis
      using assms(1) map_wf_perm [of hs hs'] that by (simp add: Extract_split(1))
  qed
  ultimately show ?thesis using Extract_split(2) [OF assms(1)] by blast
qed

lemma ApplyCookieHeader_strips_witness:
  "\<forall>k. map_get [(''X'', ''1'')] k
      = (if equal_fold k ''Cookie'' then None else map_get [(''cookie'', ''a=1''), (''X'', ''1'')] k)"
  by (rule ApplyCookieHeader_strips [where targetURL = "''https://x/''" and inject = "\<lambda>ps. length ps = 1",
        THEN conjunct1])
    (simp add: map_wf_def, code_simp)

end
