(* ===== verification/Rest_Normalize.thy ===== *)
theory Rest_Normalize
  imports Go_Prelude
begin

text \<open>
  Path normalisation, \<^verbatim>\<open>pkg/generate/rest/normalize.go\<close>: text classification of
  segments, the two single-path functions, and \<^verbatim>\<open>NormalizePathsWithNames\<close> with its
  rounds of slug promotion. The regular expressions are boolean functions; the maps keyed by
  position are association lists; the in-place updates of \<^verbatim>\<open>infos\<close> are list updates in
  the order of the code's loops.
\<close>

section \<open>Segments\<close>

datatype paramKind = kindLiteral | kindUUID | kindObjectID | kindNumeric | kindShortHex | kindBase64 | kindSlug

definition uuidMatch :: "string \<Rightarrow> bool" where
  "uuidMatch s = (let parts = split_on (CHR ''-'') s in
     map length parts = [8, 4, 4, 4, 12] \<and> list_all (list_all is_hex) parts)"

definition objectIDMatch :: "string \<Rightarrow> bool" where
  "objectIDMatch s = (length s = 24 \<and> list_all is_hex s)"

definition numericMatch :: "string \<Rightarrow> bool" where
  "numericMatch s = (s \<noteq> [] \<and> list_all is_digit s)"

definition shortHexMatch :: "string \<Rightarrow> bool" where
  "shortHexMatch s = (6 \<le> length s \<and> length s \<le> 12 \<and> list_all is_hex s)"

definition base64_char :: "char \<Rightarrow> bool" where
  "base64_char c = (is_upper c \<or> is_lower c \<or> is_digit c \<or> c \<in> {CHR ''_'', CHR ''-'', CHR ''+'', CHR ''/''})"

definition base64Match :: "string \<Rightarrow> bool" where
  "base64Match s =
     (length (takeWhile base64_char s) \<ge> 16 \<and> dropWhile base64_char s \<in> {[], ''='', ''==''})"

definition versionPrefixMatch :: "string \<Rightarrow> bool" where
  "versionPrefixMatch s =
     (case s of v # d # r \<Rightarrow> v = CHR ''v'' \<and> in_range (CHR ''1'') (CHR ''9'') d \<and> list_all is_digit r | _ \<Rightarrow> False)"

definition knownLiterals :: "string list" where
  "knownLiterals = [''me'', ''current'', ''self'', ''new'', ''list'', ''search'']"

definition pathPrefixes :: "string list" where
  "pathPrefixes = [''api'', ''apis'', ''rest'']"

definition isPathPrefix :: "string \<Rightarrow> bool" where
  "isPathPrefix segment = (segment \<in> set pathPrefixes \<or> versionPrefixMatch segment)"

definition isShortHexHash :: "string \<Rightarrow> bool" where
  "isShortHexHash segment =
     (shortHexMatch segment \<and> list_ex (\<lambda>r. is_digit r \<or> in_range (CHR ''A'') (CHR ''F'') r) segment)"

definition isBase64Token :: "string \<Rightarrow> bool" where
  "isBase64Token segment =
     (base64Match segment \<and>
      (list_ex (\<lambda>c. c \<in> {CHR ''+'', CHR ''/'', CHR ''=''}) segment
       \<or> (list_ex is_upper segment \<and> list_ex is_lower segment \<and> list_ex is_digit segment)))"

definition classifyParamSegment :: "string \<Rightarrow> paramKind" where
  "classifyParamSegment segment =
     (if segment = [] then kindLiteral
      else if segment \<in> set knownLiterals then kindLiteral
      else if uuidMatch segment then kindUUID
      else if objectIDMatch segment then kindObjectID
      else if numericMatch segment then kindNumeric
      else if isShortHexHash segment then kindShortHex
      else if isBase64Token segment then kindBase64
      else kindLiteral)"

section \<open>Parameter names\<close>

definition singularize :: "string \<Rightarrow> string" where
  "singularize word =
     (if has_suffix word ''ies'' then trim_suffix word ''ies'' @ ''y''
      else if has_suffix word ''sses'' then trim_suffix word ''sses'' @ ''ss''
      else if has_suffix word ''s'' \<and> \<not> has_suffix word ''ss'' then trim_suffix word ''s''
      else word)"

definition suffixForKind :: "paramKind \<Rightarrow> string" where
  "suffixForKind k = (case k of kindBase64 \<Rightarrow> ''Token'' | kindSlug \<Rightarrow> ''Slug'' | _ \<Rightarrow> ''Id'')"

fun sanitize_from :: "bool \<Rightarrow> string \<Rightarrow> string" where
  "sanitize_from upperNext [] = []"
| "sanitize_from upperNext (r # rs) =
     (if r = CHR ''-'' \<or> r = CHR ''.'' then sanitize_from True rs
      else if is_lower r then (if upperNext then upper_char r else r) # sanitize_from False rs
      else if is_upper r \<or> is_digit r \<or> r = CHR ''_'' then r # sanitize_from False rs
      else sanitize_from upperNext rs)"

definition sanitizeParamName :: "string \<Rightarrow> string" where
  "sanitizeParamName name = (let b = sanitize_from False name in if length b = 0 then ''id'' else b)"

definition paramNameFromKind :: "string \<Rightarrow> paramKind \<Rightarrow> string" where
  "paramNameFromKind prevSegment k =
     (let suffix = suffixForKind k
      in if prevSegment = [] then to_lower suffix
         else sanitizeParamName (singularize prevSegment @ suffix))"

text \<open>The loop of \<^verbatim>\<open>contextualParamName\<close>, from \<open>j - 1\<close> down.\<close>

fun prev_literal :: "string list \<Rightarrow> paramKind list \<Rightarrow> nat \<Rightarrow> string" where
  "prev_literal segments kinds 0 = []"
| "prev_literal segments kinds (Suc j) =
     (if segments ! j = [] then prev_literal segments kinds j
      else if kinds ! j = kindLiteral then segments ! j
      else prev_literal segments kinds j)"

definition contextualParamName :: "string list \<Rightarrow> paramKind list \<Rightarrow> nat \<Rightarrow> string" where
  "contextualParamName segments kinds i = paramNameFromKind (prev_literal segments kinds i) (kinds ! i)"

definition braced :: "string \<Rightarrow> string" where
  "braced name = ''{'' @ name @ ''}''"

definition apply_kind :: "paramKind list \<Rightarrow> nat \<Rightarrow> string list \<Rightarrow> string list" where
  "apply_kind kinds i segments =
     (if kinds ! i = kindLiteral then segments
      else segments[i := braced (contextualParamName segments kinds i)])"

definition applyKindsToSegments :: "string list \<Rightarrow> paramKind list \<Rightarrow> string list" where
  "applyKindsToSegments segments kinds = fold (apply_kind kinds) [0..<length segments] segments"

definition is_braced :: "string \<Rightarrow> bool" where
  "is_braced s = (has_prefix s ''{'' \<and> has_suffix s ''}'')"

definition brace_name :: "string \<Rightarrow> string" where
  "brace_name s = butlast (tl s)"

fun dedup_names :: "(string, nat) gomap \<Rightarrow> string list \<Rightarrow> string list" where
  "dedup_names seen [] = []"
| "dedup_names seen (segment # segments) =
     (if \<not> is_braced segment then segment # dedup_names seen segments
      else
        let name = brace_name segment;
            n = (case map_get seen name of None \<Rightarrow> 0 | Some k \<Rightarrow> k) + 1
        in (if n > 1 then braced (name @ itoa n) else segment) # dedup_names (map_put name n seen) segments)"

definition deduplicateParamNames :: "string list \<Rightarrow> string list" where
  "deduplicateParamNames segments = dedup_names [] segments"

section \<open>One path\<close>

definition NormalizePath :: "string \<Rightarrow> string" where
  "NormalizePath path =
     join ''/'' (map (\<lambda>segment. if segment = [] then segment
         else if classifyParamSegment segment \<noteq> kindLiteral then ''{id}'' else segment)
       (split_on (CHR ''/'') path))"

definition render_segments :: "string list \<Rightarrow> paramKind list \<Rightarrow> string" where
  "render_segments segments kinds =
     join ''/'' (deduplicateParamNames (applyKindsToSegments segments kinds))"

definition NormalizePathWithNames :: "string \<Rightarrow> string" where
  "NormalizePathWithNames path =
     (let segments = split_on (CHR ''/'') path
      in render_segments segments (map classifyParamSegment segments))"

section \<open>Positions\<close>

record pathInfo =
  segments :: "string list"
  kinds :: "paramKind list"

record posKey =
  key_prefix :: string
  key_index :: nat
  key_suffix :: string
  key_length :: nat

type_synonym segLoc = "nat \<times> nat"

record NormalizeOptions =
  MergeSlugs :: bool
  SlugThreshold :: int

definition shapeKey :: "string list \<Rightarrow> paramKind list \<Rightarrow> string" where
  "shapeKey segs ks = join ''/'' (map2 (\<lambda>s k. if k = kindLiteral then s else ''{}'') segs ks)"

fun hasLiteralContext :: "string list \<Rightarrow> paramKind list \<Rightarrow> bool" where
  "hasLiteralContext (s # ss) (k # ks) =
     (if s = [] then hasLiteralContext ss ks
      else if k \<noteq> kindLiteral then hasLiteralContext ss ks
      else if isPathPrefix s then hasLiteralContext ss ks
      else True)"
| "hasLiteralContext _ _ = False"

definition positionKey :: "pathInfo \<Rightarrow> nat \<Rightarrow> posKey" where
  "positionKey info i =
     \<lparr>key_prefix = shapeKey (take i (segments info)) (take i (kinds info)), key_index = i,
      key_suffix = shapeKey (drop (i + 1) (segments info)) (drop (i + 1) (kinds info)),
      key_length = length (segments info)\<rparr>"

definition isObservationCandidate :: "pathInfo \<Rightarrow> nat \<Rightarrow> string \<Rightarrow> bool" where
  "isObservationCandidate info i seg =
     (if seg = [] \<or> kinds info ! i \<noteq> kindLiteral then False
      else if seg \<in> set knownLiterals then False
      else hasLiteralContext (take i (segments info)) (take i (kinds info)))"

definition classifyPaths :: "string list \<Rightarrow> pathInfo list" where
  "classifyPaths paths =
     map (\<lambda>p. let segs = split_on (CHR ''/'') p in \<lparr>segments = segs, kinds = map classifyParamSegment segs\<rparr>) paths"

section \<open>Promotion\<close>

text \<open>The candidates in the order of the nested loops, each with its key.\<close>

definition observations :: "pathInfo list \<Rightarrow> (posKey \<times> string) list" where
  "observations infos =
     concat (map (\<lambda>info. map (\<lambda>i. (positionKey info i, segments info ! i))
       (filter (\<lambda>i. isObservationCandidate info i (segments info ! i)) [0..<length (segments info)])) infos)"

definition add_value :: "posKey \<times> string \<Rightarrow> (posKey, string list) gomap \<Rightarrow> (posKey, string list) gomap" where
  "add_value ks vals =
     (case ks of (key, seg) \<Rightarrow>
        let s = (case map_get vals key of None \<Rightarrow> [] | Some s \<Rightarrow> s)
        in map_put key (if seg \<in> set s then s else s @ [seg]) vals)"

definition findVaryingPositions :: "pathInfo list \<Rightarrow> int \<Rightarrow> posKey list" where
  "findVaryingPositions infos threshold =
     map fst (filter (\<lambda>(key, s). int (length s) \<ge> threshold) (fold add_value (observations infos) []))"

definition set_slug :: "segLoc \<Rightarrow> pathInfo list \<Rightarrow> pathInfo list" where
  "set_slug l infos =
     (case l of (p, s) \<Rightarrow> infos[p := (infos ! p)\<lparr>kinds := (kinds (infos ! p))[s := kindSlug]\<rparr>])"

definition toPromote :: "pathInfo list \<Rightarrow> posKey list \<Rightarrow> segLoc list" where
  "toPromote infos varying =
     concat (map (\<lambda>idx. let info = infos ! idx in
       map (Pair idx)
         (filter (\<lambda>i. isObservationCandidate info i (segments info ! i)
             \<and> positionKey info i \<in> set varying \<and> kinds info ! i \<noteq> kindSlug)
           [0..<length (segments info)])) [0..<length infos])"

definition promoteVaryingPositions :: "pathInfo list \<Rightarrow> posKey list \<Rightarrow> pathInfo list \<times> bool" where
  "promoteVaryingPositions infos varying =
     (let ls = toPromote infos varying
      in if length ls = 0 then (infos, False) else (fold set_slug ls infos, True))"

fun promotion_rounds :: "nat \<Rightarrow> int \<Rightarrow> pathInfo list \<Rightarrow> pathInfo list" where
  "promotion_rounds 0 threshold infos = infos"
| "promotion_rounds (Suc n) threshold infos =
     (let varying = findVaryingPositions infos threshold
      in if length varying = 0 then infos
         else (case promoteVaryingPositions infos varying of (infos', promoted) \<Rightarrow>
           if \<not> promoted then infos' else promotion_rounds n threshold infos'))"

definition maxPromotionRounds :: nat where "maxPromotionRounds = 8"

section \<open>Mixed kinds\<close>

type_synonym unify_maps =
  "(posKey, segLoc list) gomap \<times> (posKey, bool) gomap \<times> (posKey, bool) gomap"

definition group_loc :: "pathInfo list \<Rightarrow> segLoc \<Rightarrow> unify_maps \<Rightarrow> unify_maps" where
  "group_loc infos l m =
     (case (l, m) of ((p, s), (groups, hasSlug, hasOther)) \<Rightarrow>
        let info = infos ! p; k = kinds info ! s in
        if k = kindLiteral then m
        else
          let key = positionKey info s;
              groups' = map_put key ((case map_get groups key of None \<Rightarrow> [] | Some ls \<Rightarrow> ls) @ [(p, s)]) groups
          in if k = kindSlug then (groups', map_put key True hasSlug, hasOther)
             else (groups', hasSlug, map_put key True hasOther))"

definition all_locs :: "pathInfo list \<Rightarrow> segLoc list" where
  "all_locs infos = concat (map (\<lambda>p. map (Pair p) [0..<length (kinds (infos ! p))]) [0..<length infos])"

definition unify_loc :: "segLoc \<Rightarrow> pathInfo list \<Rightarrow> pathInfo list" where
  "unify_loc l infos =
     (case l of (p, s) \<Rightarrow> if kinds (infos ! p) ! s \<noteq> kindSlug then set_slug l infos else infos)"

definition unifyMixedKindsAtSamePosition :: "pathInfo list \<Rightarrow> pathInfo list" where
  "unifyMixedKindsAtSamePosition infos =
     (case fold (group_loc infos) (all_locs infos) ([], [], []) of (groups, hasSlug, hasOther) \<Rightarrow>
        fold (\<lambda>(key, locs) is.
            if map_get hasSlug key \<noteq> Some True \<or> map_get hasOther key \<noteq> Some True then is
            else fold unify_loc locs is) groups infos)"

section \<open>All paths\<close>

definition render_entry :: "string \<times> pathInfo \<Rightarrow> (string, string) gomap \<Rightarrow> (string, string) gomap" where
  "render_entry pi out =
     (case pi of (p, info) \<Rightarrow> if map_has out p then out
        else map_put p (render_segments (segments info) (kinds info)) out)"

definition renderNormalizedPaths :: "string list \<Rightarrow> pathInfo list \<Rightarrow> (string, string) gomap" where
  "renderNormalizedPaths paths infos = fold render_entry (zip paths infos) []"

definition normalized_infos :: "string list \<Rightarrow> NormalizeOptions \<Rightarrow> pathInfo list" where
  "normalized_infos paths opts =
     (let threshold = (if SlugThreshold opts < 2 then 2 else SlugThreshold opts);
          infos = classifyPaths paths
      in unifyMixedKindsAtSamePosition
           (if MergeSlugs opts then promotion_rounds maxPromotionRounds threshold infos else infos))"

definition NormalizePathsWithNames :: "string list \<Rightarrow> NormalizeOptions \<Rightarrow> (string, string) gomap" where
  "NormalizePathsWithNames paths opts =
     (if length paths = 0 then [] else renderNormalizedPaths paths (normalized_infos paths opts))"

end
