(* ===== verification/Normalize_Spec.thy ===== *)
theory Normalize_Spec
  imports Rest_Normalize
begin

text \<open>
  What \<^verbatim>\<open>NormalizePathsWithNames\<close> computes. The loops over positions and the
  in-place updates are refined to one operation, \<open>mark\<close>: in every path, the segments that
  satisfy a condition on the state before the pass become slugs. The conditions depend on the set
  of observed paths only, from which follow the independence of order and repetition, the
  agreement with \<^verbatim>\<open>NormalizePathWithNames\<close> when no slugs are merged, and what
  promotion may and may not touch.
\<close>

section \<open>One pass\<close>

definition mark :: "(pathInfo \<Rightarrow> nat \<Rightarrow> bool) \<Rightarrow> pathInfo \<Rightarrow> pathInfo" where
  "mark C info = info\<lparr>kinds := map (\<lambda>i. if C info i then kindSlug else kinds info ! i) [0..<length (kinds info)]\<rparr>"

definition info_ok :: "pathInfo \<Rightarrow> bool" where
  "info_ok info = (length (kinds info) = length (segments info))"

lemma mark_simps [simp]:
  "segments (mark C info) = segments info"
  "length (kinds (mark C info)) = length (kinds info)"
  "i < length (kinds info) \<Longrightarrow> kinds (mark C info) ! i = (if C info i then kindSlug else kinds info ! i)"
  "info_ok (mark C info) = info_ok info"
  by (simp_all add: mark_def info_ok_def)

lemma info_eqI:
  "segments a = segments b \<Longrightarrow> length (kinds a) = length (kinds b)
    \<Longrightarrow> (\<And>i. i < length (kinds a) \<Longrightarrow> kinds a ! i = kinds b ! i) \<Longrightarrow> a = (b::pathInfo)"
  by (simp add: list_eq_iff_nth_eq)

lemma mark_id: "(\<And>i. i < length (kinds info) \<Longrightarrow> C info i \<Longrightarrow> kinds info ! i = kindSlug) \<Longrightarrow> mark C info = info"
  by (rule info_eqI) auto

text \<open>Setting the segments of a list of locations to slug, in any order.\<close>

lemma set_slug_length [simp]: "length (set_slug l infos) = length infos"
  by (simp add: set_slug_def split: prod.split)

lemma set_slug_at:
  "p < length infos \<Longrightarrow> segments (set_slug l infos ! p) = segments (infos ! p)
    \<and> length (kinds (set_slug l infos ! p)) = length (kinds (infos ! p))
    \<and> (s < length (kinds (infos ! p)) \<longrightarrow>
        kinds (set_slug l infos ! p) ! s = (if l = (p, s) then kindSlug else kinds (infos ! p) ! s))"
  by (cases l; cases "fst l = p") (auto simp: set_slug_def)

lemma fold_set_slug:
  "length (fold set_slug ls infos) = length infos
    \<and> (\<forall>p<length infos. segments (fold set_slug ls infos ! p) = segments (infos ! p)
        \<and> length (kinds (fold set_slug ls infos ! p)) = length (kinds (infos ! p))
        \<and> (\<forall>s<length (kinds (infos ! p)). kinds (fold set_slug ls infos ! p) ! s
            = (if (p, s) \<in> set ls then kindSlug else kinds (infos ! p) ! s)))"
proof (induction ls arbitrary: infos)
  case (Cons l ls)
  show ?case
    using Cons.IH [of "set_slug l infos"] set_slug_at [of _ infos l] by auto
qed simp

lemma fold_set_slug_mark:
  assumes "\<And>p s. p < length infos \<Longrightarrow> s < length (kinds (infos ! p)) \<Longrightarrow> (p, s) \<in> set ls \<longleftrightarrow> C (infos ! p) s"
  shows "fold set_slug ls infos = map (mark C) infos"
proof (rule nth_equalityI)
  fix p assume "p < length (fold set_slug ls infos)"
  then have p: "p < length infos" using fold_set_slug by simp
  then show "fold set_slug ls infos ! p = map (mark C) infos ! p"
    using fold_set_slug [of ls infos] assms by (intro info_eqI) auto
qed (simp add: fold_set_slug)

section \<open>Varying positions\<close>

definition candidate :: "pathInfo \<Rightarrow> nat \<Rightarrow> bool" where
  "candidate info i = (i < length (segments info) \<and> isObservationCandidate info i (segments info ! i))"

text \<open>The distinct values observed at a position, over a set of paths.\<close>

definition values_at :: "pathInfo set \<Rightarrow> posKey \<Rightarrow> string set" where
  "values_at S key = {segments info ! i | info i. info \<in> S \<and> candidate info i \<and> positionKey info i = key}"

definition varies :: "int \<Rightarrow> pathInfo set \<Rightarrow> posKey \<Rightarrow> bool" where
  "varies threshold S key = (threshold \<le> int (card (values_at S key)))"

lemma observations_values: "{seg. (key, seg) \<in> set (observations infos)} = values_at (set infos) key"
  by (auto simp: observations_def values_at_def candidate_def image_iff)

definition values_ok :: "(posKey \<times> string) list \<Rightarrow> (posKey, string list) gomap \<Rightarrow> bool" where
  "values_ok obs m = (map_wf m \<and>
     (\<forall>key. case map_get m key of None \<Rightarrow> {seg. (key, seg) \<in> set obs} = {}
        | Some s \<Rightarrow> {seg. (key, seg) \<in> set obs} \<noteq> {} \<and> distinct s \<and> set s = {seg. (key, seg) \<in> set obs}))"

lemma values_ok_snoc: "values_ok obs m \<Longrightarrow> values_ok (obs @ [ks]) (add_value ks m)"
proof (cases ks)
  case (Pair key seg)
  assume ok: "values_ok obs m"
  have new: "{s. (k, s) \<in> set (obs @ [ks])} = (if k = key then insert seg {s. (k, s) \<in> set obs} else {s. (k, s) \<in> set obs})"
    for k using Pair by auto
  have "case map_get (add_value ks m) k of None \<Rightarrow> {s. (k, s) \<in> set (obs @ [ks])} = {}
      | Some s \<Rightarrow> {s. (k, s) \<in> set (obs @ [ks])} \<noteq> {} \<and> distinct s \<and> set s = {s. (k, s) \<in> set (obs @ [ks])}" for k
  proof -
    have "case map_get m k of None \<Rightarrow> {s. (k, s) \<in> set obs} = {}
      | Some s \<Rightarrow> {s. (k, s) \<in> set obs} \<noteq> {} \<and> distinct s \<and> set s = {s. (k, s) \<in> set obs}"
      using ok unfolding values_ok_def by blast
    then show ?thesis unfolding new add_value_def Pair
      by (cases "k = key") (auto simp: Let_def split: option.splits)
  qed
  moreover have "map_wf (add_value ks m)" using ok by (simp add: values_ok_def add_value_def Pair Let_def)
  ultimately show ?thesis unfolding values_ok_def by blast
qed

lemma values_ok_fold: "values_ok obs (fold add_value obs [])"
proof (induction obs rule: rev_induct)
  case Nil
  then show ?case by (simp add: values_ok_def)
next
  case (snoc ks obs)
  then show ?case using values_ok_snoc by simp
qed

lemma findVarying_iff:
  assumes "0 < threshold"
  shows "key \<in> set (findVaryingPositions infos threshold) \<longleftrightarrow> varies threshold (set infos) key"
proof -
  let ?m = "fold add_value (observations infos) []"
  have wf: "map_wf ?m" and get: "case map_get ?m key of None \<Rightarrow> values_at (set infos) key = {}
      | Some s \<Rightarrow> values_at (set infos) key \<noteq> {} \<and> distinct s \<and> set s = values_at (set infos) key"
    using values_ok_fold [of "observations infos"] unfolding values_ok_def Let_def observations_values by blast+
  have "key \<in> set (findVaryingPositions infos threshold)
      \<longleftrightarrow> (\<exists>s. (key, s) \<in> set ?m \<and> int (length s) \<ge> threshold)"
    by (force simp: findVaryingPositions_def)
  also have "\<dots> \<longleftrightarrow> (\<exists>s. map_get ?m key = Some s \<and> int (length s) \<ge> threshold)"
    by (simp only: map_get_Some_iff [OF wf])
  also have "\<dots> \<longleftrightarrow> varies threshold (set infos) key"
    using get assms distinct_card by (fastforce simp: varies_def split: option.splits)
  finally show ?thesis .
qed

lemma candidate_literal: "candidate info i \<Longrightarrow> kinds info ! i = kindLiteral"
  by (auto simp: candidate_def isObservationCandidate_def split: if_splits)

definition promotes :: "(posKey \<Rightarrow> bool) \<Rightarrow> pathInfo \<Rightarrow> nat \<Rightarrow> bool" where
  "promotes V info i = (candidate info i \<and> V (positionKey info i))"

lemma toPromote_iff:
  "(p, s) \<in> set (toPromote infos varying) \<longleftrightarrow> p < length infos \<and> promotes (\<lambda>k. k \<in> set varying) (infos ! p) s"
  using candidate_literal [of "infos ! p" s]
  by (auto simp: toPromote_def promotes_def candidate_def Let_def image_iff)

lemma promoteVarying_mark:
  "fst (promoteVaryingPositions infos varying) = map (mark (promotes (\<lambda>k. k \<in> set varying))) infos"
  "snd (promoteVaryingPositions infos varying)
    \<longleftrightarrow> (\<exists>info\<in>set infos. \<exists>i. promotes (\<lambda>k. k \<in> set varying) info i)"
proof -
  have m: "fold set_slug (toPromote infos varying) infos = map (mark (promotes (\<lambda>k. k \<in> set varying))) infos"
    by (rule fold_set_slug_mark) (simp add: toPromote_iff)
  then show "fst (promoteVaryingPositions infos varying) = map (mark (promotes (\<lambda>k. k \<in> set varying))) infos"
    by (auto simp: promoteVaryingPositions_def Let_def)
  have "toPromote infos varying \<noteq> [] \<longleftrightarrow> (\<exists>p s. (p, s) \<in> set (toPromote infos varying))"
    by (cases "toPromote infos varying") auto
  also have "\<dots> \<longleftrightarrow> (\<exists>info\<in>set infos. \<exists>i. promotes (\<lambda>k. k \<in> set varying) info i)"
    unfolding toPromote_iff by (metis in_set_conv_nth)
  finally show "snd (promoteVaryingPositions infos varying)
    \<longleftrightarrow> (\<exists>info\<in>set infos. \<exists>i. promotes (\<lambda>k. k \<in> set varying) info i)"
    by (cases "toPromote infos varying = []") (simp_all add: promoteVaryingPositions_def Let_def)
qed

text \<open>The guard of the loop is never taken: a varying position has a candidate to promote.\<close>

lemma varying_promotes:
  assumes "0 < threshold" "key \<in> set (findVaryingPositions infos threshold)"
  shows "snd (promoteVaryingPositions infos (findVaryingPositions infos threshold))"
proof -
  have "varies threshold (set infos) key" using assms findVarying_iff by blast
  then have "values_at (set infos) key \<noteq> {}" using assms(1) by (auto simp: varies_def)
  then obtain info i where "info \<in> set infos" "candidate info i" "positionKey info i = key"
    by (auto simp: values_at_def)
  then show ?thesis using assms(2) by (auto simp: promoteVarying_mark promotes_def)
qed

definition round :: "int \<Rightarrow> pathInfo set \<Rightarrow> pathInfo \<Rightarrow> pathInfo" where
  "round threshold S = mark (promotes (varies threshold S))"

lemma promotion_rounds_Suc:
  assumes "0 < threshold"
  shows "promotion_rounds (Suc n) threshold infos =
    (if findVaryingPositions infos threshold = [] then infos
     else promotion_rounds n threshold (map (round threshold (set infos)) infos))"
proof -
  let ?v = "findVaryingPositions infos threshold"
  have V: "(\<lambda>k. k \<in> set ?v) = varies threshold (set infos)"
    using findVarying_iff [OF assms] by blast
  obtain infos' b where pr: "promoteVaryingPositions infos ?v = (infos', b)" by fastforce
  have i': "infos' = map (round threshold (set infos)) infos"
    using promoteVarying_mark(1) [of infos ?v] pr by (simp add: V round_def)
  show ?thesis
  proof (cases ?v)
    case Nil
    then show ?thesis by simp
  next
    case (Cons key r)
    then have "b" using varying_promotes [OF assms, of key infos] pr by simp
    then show ?thesis using Cons pr i' by simp
  qed
qed

section \<open>Mixed kinds\<close>

definition kind_at :: "(paramKind \<Rightarrow> bool) \<Rightarrow> pathInfo set \<Rightarrow> posKey \<Rightarrow> bool" where
  "kind_at Q S key = (\<exists>info\<in>S. \<exists>i<length (kinds info). Q (kinds info ! i) \<and> positionKey info i = key)"

definition unifies :: "pathInfo set \<Rightarrow> pathInfo \<Rightarrow> nat \<Rightarrow> bool" where
  "unifies S info i =
     (kinds info ! i \<noteq> kindLiteral
      \<and> kind_at (\<lambda>k. k = kindSlug) S (positionKey info i)
      \<and> kind_at (\<lambda>k. k \<noteq> kindLiteral \<and> k \<noteq> kindSlug) S (positionKey info i))"

definition groups_ok :: "pathInfo list \<Rightarrow> segLoc list \<Rightarrow> unify_maps \<Rightarrow> bool" where
  "groups_ok infos ls m =
     (case m of (groups, hasSlug, hasOther) \<Rightarrow> map_wf groups
      \<and> (\<forall>key p s. (\<exists>gs. map_get groups key = Some gs \<and> (p, s) \<in> set gs)
           \<longleftrightarrow> (p, s) \<in> set ls \<and> kinds (infos ! p) ! s \<noteq> kindLiteral \<and> positionKey (infos ! p) s = key)
      \<and> (\<forall>key. map_get hasSlug key = Some True
           \<longleftrightarrow> (\<exists>(p, s)\<in>set ls. kinds (infos ! p) ! s = kindSlug \<and> positionKey (infos ! p) s = key))
      \<and> (\<forall>key. map_get hasOther key = Some True
           \<longleftrightarrow> (\<exists>(p, s)\<in>set ls. kinds (infos ! p) ! s \<noteq> kindLiteral \<and> kinds (infos ! p) ! s \<noteq> kindSlug
                 \<and> positionKey (infos ! p) s = key)))"

lemma groups_ok_snoc:
  assumes "groups_ok infos ls m"
  shows "groups_ok infos (ls @ [l]) (group_loc infos l m)"
proof -
  obtain p s where l: "l = (p, s)" by fastforce
  obtain groups hasSlug hasOther where m: "m = (groups, hasSlug, hasOther)" by (cases m) auto
  show ?thesis
  proof (cases "kinds (infos ! p) ! s = kindLiteral")
    case True
    then show ?thesis using assms unfolding l m by (simp add: groups_ok_def group_loc_def Let_def) blast
  next
    case False
    let ?key = "positionKey (infos ! p) s"
    let ?gs = "(case map_get groups ?key of None \<Rightarrow> [] | Some ls \<Rightarrow> ls) @ [(p, s)]"
    have g: "(\<exists>gs. map_get (map_put ?key ?gs groups) key = Some gs \<and> (p', s') \<in> set gs)
        \<longleftrightarrow> (\<exists>gs. map_get groups key = Some gs \<and> (p', s') \<in> set gs) \<or> (key = ?key \<and> (p', s') = (p, s))"
      for key p' s' by (auto split: option.splits)
    show ?thesis
    proof (cases "kinds (infos ! p) ! s = kindSlug")
      case True
      then show ?thesis using assms False unfolding l m groups_ok_def group_loc_def
        by (simp add: Let_def g del: map_get_put) (auto)
    next
      case other: False
      then show ?thesis using assms False unfolding l m groups_ok_def group_loc_def
        by (simp add: Let_def g del: map_get_put) (auto)
    qed
  qed
qed

lemma groups_ok_fold: "groups_ok infos ls (fold (group_loc infos) ls ([], [], []))"
proof (induction ls rule: rev_induct)
  case Nil
  then show ?case by (simp add: groups_ok_def)
next
  case (snoc l ls)
  then show ?case using groups_ok_snoc by simp
qed

lemma all_locs_iff: "(p, s) \<in> set (all_locs infos) \<longleftrightarrow> p < length infos \<and> s < length (kinds (infos ! p))"
  by (auto simp: all_locs_def image_iff)

lemma unify_loc_set_slug: "unify_loc l infos = set_slug l infos"
proof (cases l)
  case (Pair p s)
  show ?thesis
  proof (cases "kinds (infos ! p) ! s = kindSlug")
    case True
    then have "(kinds (infos ! p))[s := kindSlug] = kinds (infos ! p)" by (metis list_update_id)
    then show ?thesis using True by (simp add: unify_loc_def set_slug_def Pair)
  qed (simp add: unify_loc_def Pair)
qed

definition unify_groups :: "(posKey \<Rightarrow> bool) \<Rightarrow> (posKey, segLoc list) gomap \<Rightarrow> segLoc list" where
  "unify_groups Q groups = concat (map snd (filter (\<lambda>(key, locs). Q key) groups))"

lemma fold_unify_groups:
  "fold (\<lambda>(key, locs) is. if \<not> Q key then is else fold unify_loc locs is) groups infos
    = fold set_slug (unify_groups Q groups) infos"
proof -
  have "fold unify_loc ls js = fold set_slug ls js" for ls js
    by (simp only: unify_loc_set_slug [abs_def])
  then show ?thesis by (induction groups arbitrary: infos) (auto simp: unify_groups_def)
qed

lemma kind_at_locs:
  "kind_at Q (set infos) key \<longleftrightarrow>
    (\<exists>(p, s)\<in>set (all_locs infos). Q (kinds (infos ! p) ! s) \<and> positionKey (infos ! p) s = key)"
proof -
  have "kind_at Q (set infos) key \<longleftrightarrow> (\<exists>p<length infos. \<exists>s<length (kinds (infos ! p)).
      Q (kinds (infos ! p) ! s) \<and> positionKey (infos ! p) s = key)"
    unfolding kind_at_def by (metis in_set_conv_nth)
  also have "\<dots> \<longleftrightarrow> (\<exists>p s. (p, s) \<in> set (all_locs infos)
      \<and> Q (kinds (infos ! p) ! s) \<and> positionKey (infos ! p) s = key)"
    unfolding all_locs_iff by blast
  finally show ?thesis by auto
qed

lemma unify_mark: "unifyMixedKindsAtSamePosition infos = map (mark (unifies (set infos))) infos"
proof -
  obtain groups hasSlug hasOther where f: "fold (group_loc infos) (all_locs infos) ([], [], []) = (groups, hasSlug, hasOther)"
    by (metis prod.exhaust)
  let ?Q = "\<lambda>key. map_get hasSlug key = Some True \<and> map_get hasOther key = Some True"
  have ok: "groups_ok infos (all_locs infos) (groups, hasSlug, hasOther)"
    using groups_ok_fold [of infos "all_locs infos"] by (simp only: f)
  have wf: "map_wf groups" and g: "(\<exists>gs. map_get groups key = Some gs \<and> (p, s) \<in> set gs)
      \<longleftrightarrow> (p, s) \<in> set (all_locs infos) \<and> kinds (infos ! p) ! s \<noteq> kindLiteral \<and> positionKey (infos ! p) s = key"
    and sl: "map_get hasSlug key = Some True \<longleftrightarrow> kind_at (\<lambda>k. k = kindSlug) (set infos) key"
    and ot: "map_get hasOther key = Some True \<longleftrightarrow> kind_at (\<lambda>k. k \<noteq> kindLiteral \<and> k \<noteq> kindSlug) (set infos) key"
    for key p s using ok unfolding groups_ok_def prod.case kind_at_locs by (blast, blast, blast, auto)
  have "unifyMixedKindsAtSamePosition infos = fold set_slug (unify_groups ?Q groups) infos"
    using fold_unify_groups [of ?Q groups infos] by (simp add: unifyMixedKindsAtSamePosition_def f)
  also have "\<dots> = map (mark (unifies (set infos))) infos"
  proof (rule fold_set_slug_mark)
    fix p s assume ps: "p < length infos" "s < length (kinds (infos ! p))"
    have "(p, s) \<in> set (unify_groups ?Q groups) \<longleftrightarrow> (\<exists>key gs. (key, gs) \<in> set groups \<and> ?Q key \<and> (p, s) \<in> set gs)"
      by (force simp: unify_groups_def)
    also have "\<dots> \<longleftrightarrow> (\<exists>key. ?Q key \<and> (\<exists>gs. map_get groups key = Some gs \<and> (p, s) \<in> set gs))"
      by (auto simp: map_get_Some_iff [OF wf])
    also have "\<dots> \<longleftrightarrow> unifies (set infos) (infos ! p) s"
      unfolding g sl ot unifies_def all_locs_iff using ps by blast
    finally show "(p, s) \<in> set (unify_groups ?Q groups) \<longleftrightarrow> unifies (set infos) (infos ! p) s" .
  qed
  finally show ?thesis .
qed

section \<open>All rounds\<close>

lemma no_varying: "0 < threshold \<Longrightarrow>
    findVaryingPositions infos threshold = [] \<longleftrightarrow> (\<forall>key. \<not> varies threshold (set infos) key)"
  using findVarying_iff [of threshold _ infos] by (metis empty_iff list.set(1) list.set_intros(1) neq_Nil_conv)

text \<open>The rounds act on each path alike in two lists of the same paths.\<close>

lemma promotion_rounds_alike:
  assumes "0 < threshold" "set ps = set ps'"
  shows "\<exists>g. promotion_rounds n threshold (map f ps) = map g ps \<and> promotion_rounds n threshold (map f ps') = map g ps'"
proof (induction n arbitrary: f)
  case 0
  then show ?case by (intro exI [of _ f]) simp
next
  case (Suc n)
  have s: "set (map f ps) = set (map f ps')" using assms(2) by simp
  have e: "findVaryingPositions (map f ps) threshold = [] \<longleftrightarrow> findVaryingPositions (map f ps') threshold = []"
    unfolding no_varying [OF assms(1)] s ..
  show ?case
  proof (cases "findVaryingPositions (map f ps) threshold = []")
    case True
    then show ?thesis using e by (intro exI [of _ f]) simp
  next
    case False
    then have "promotion_rounds (Suc n) threshold (map f ps)
        = promotion_rounds n threshold (map (round threshold (set (map f ps)) \<circ> f) ps)"
      "promotion_rounds (Suc n) threshold (map f ps')
        = promotion_rounds n threshold (map (round threshold (set (map f ps)) \<circ> f) ps')"
      using e unfolding promotion_rounds_Suc [OF assms(1)] s by simp_all
    then show ?thesis using Suc.IH [of "round threshold (set (map f ps)) \<circ> f"] by (simp only:)
  qed
qed

definition classified :: "string \<Rightarrow> pathInfo" where
  "classified p = \<lparr>segments = split_on (CHR ''/'') p, kinds = map classifyParamSegment (split_on (CHR ''/'') p)\<rparr>"

lemma classifyPaths_map: "classifyPaths paths = map classified paths"
  by (simp add: classifyPaths_def classified_def Let_def)

definition clamped :: "NormalizeOptions \<Rightarrow> int" where
  "clamped opts = (if SlugThreshold opts < 2 then 2 else SlugThreshold opts)"

lemma clamped_ge: "2 \<le> clamped opts"
  by (simp add: clamped_def)

lemma normalized_infos_alt:
  "normalized_infos paths opts = unifyMixedKindsAtSamePosition
     (if MergeSlugs opts then promotion_rounds maxPromotionRounds (clamped opts) (map classified paths)
      else map classified paths)"
  by (simp add: normalized_infos_def clamped_def classifyPaths_map Let_def)

lemma normalized_infos_alike:
  assumes "set ps = set ps'"
  shows "\<exists>g. normalized_infos ps opts = map g ps \<and> normalized_infos ps' opts = map g ps'"
proof -
  obtain f where f: "(if MergeSlugs opts then promotion_rounds maxPromotionRounds (clamped opts) (map classified ps)
      else map classified ps) = map f ps"
    "(if MergeSlugs opts then promotion_rounds maxPromotionRounds (clamped opts) (map classified ps')
      else map classified ps') = map f ps'"
    using promotion_rounds_alike [OF _ assms, of "clamped opts" maxPromotionRounds classified] clamped_ge [of opts]
    by (cases "MergeSlugs opts") auto
  have "set (map f ps) = set (map f ps')" using assms by simp
  then show ?thesis unfolding normalized_infos_alt f unify_mark
    by (intro exI [of _ "mark (unifies (set (map f ps))) \<circ> f"]) simp
qed

section \<open>Rendering\<close>

lemma map_get_render_entry:
  "map_get (render_entry (p, info) out) q
    = (if map_get out q = None \<and> q = p then Some (render_segments (segments info) (kinds info)) else map_get out q)"
  by (auto simp: render_entry_def)

lemma map_get_fold_render:
  "map_get (fold render_entry (zip ps (map g ps)) out) q
    = (case map_get out q of Some r \<Rightarrow> Some r
       | None \<Rightarrow> if q \<in> set ps then Some (render_segments (segments (g q)) (kinds (g q))) else None)"
proof (induction ps arbitrary: out)
  case (Cons p ps)
  show ?case by (auto simp: Cons.IH map_get_render_entry split: option.split)
qed (simp split: option.split)

lemma map_get_render:
  "map_get (renderNormalizedPaths ps (map g ps)) q
    = (if q \<in> set ps then Some (render_segments (segments (g q)) (kinds (g q))) else None)"
  by (simp only: renderNormalizedPaths_def map_get_fold_render map_of.simps option.case)

lemma map_get_Normalize:
  assumes "normalized_infos ps opts = map g ps"
  shows "map_get (NormalizePathsWithNames ps opts) q
    = (if q \<in> set ps then Some (render_segments (segments (g q)) (kinds (g q))) else None)"
  by (cases "length ps = 0") (simp_all only: NormalizePathsWithNames_def assms map_get_render if_True if_False, simp)

lemma Normalize_order:
  assumes "set paths = set paths'"
  shows "map_get (NormalizePathsWithNames paths opts) = map_get (NormalizePathsWithNames paths' opts)"
proof -
  obtain g where "normalized_infos paths opts = map g paths" "normalized_infos paths' opts = map g paths'"
    using normalized_infos_alike [OF assms] by blast
  from map_get_Normalize [OF this(1)] map_get_Normalize [OF this(2)] show ?thesis using assms by (simp add: fun_eq_iff)
qed

text \<open>C16. The template of a path depends on the set of observed paths only: reordering or repeating
  observations changes no entry of the result.\<close>

theorem NormalizePathsWithNames_order_free:
  assumes "set paths = set paths'"
  shows "map_get (NormalizePathsWithNames paths opts) = map_get (NormalizePathsWithNames paths' opts)"
  using assms by (rule Normalize_order)

definition sample_options :: NormalizeOptions where
  "sample_options = \<lparr>MergeSlugs = True, SlugThreshold = 0\<rparr>"

lemma NormalizePathsWithNames_order_free_witness:
  "map_get (NormalizePathsWithNames [''/a/b'', ''/a/c'', ''/a/b''] sample_options)
    = map_get (NormalizePathsWithNames [''/a/c'', ''/a/b''] sample_options)"
  by (rule NormalizePathsWithNames_order_free) auto

lemma classify_not_slug [simp]: "classifyParamSegment s \<noteq> kindSlug"
  by (simp add: classifyParamSegment_def)

lemma unify_classified: "unifyMixedKindsAtSamePosition (map classified ps) = map classified ps"
proof -
  have "\<not> kind_at (\<lambda>k. k = kindSlug) (set (map classified ps)) key" for key
    by (auto simp: kind_at_def classified_def)
  then have "mark (unifies (set (map classified ps))) info = info" for info
    by (intro mark_id) (simp add: unifies_def)
  then show ?thesis unfolding unify_mark by (simp add: map_idI)
qed

text \<open>Without slug merging, normalising many paths is normalising each by itself:
  \<^verbatim>\<open>NormalizePathsWithNames\<close> is the map of \<^verbatim>\<open>NormalizePathWithNames\<close>.\<close>

theorem NormalizePathsWithNames_pointwise:
  assumes "\<not> MergeSlugs opts"
  shows "map_get (NormalizePathsWithNames paths opts) p
    = (if p \<in> set paths then Some (NormalizePathWithNames p) else None)"
proof -
  have "normalized_infos paths opts = map classified paths"
    using assms by (simp add: normalized_infos_alt unify_classified)
  from map_get_Normalize [OF this] show ?thesis
    by (simp add: NormalizePathWithNames_def classified_def Let_def)
qed

lemma NormalizePathsWithNames_pointwise_witness:
  "map_get (NormalizePathsWithNames [''/users/42''] \<lparr>MergeSlugs = False, SlugThreshold = 3\<rparr>) ''/users/42''
    = (if ''/users/42'' \<in> set [''/users/42''] then Some (NormalizePathWithNames ''/users/42'') else None)"
  by (rule NormalizePathsWithNames_pointwise) simp

section \<open>What promotion may touch\<close>

lemma hasLiteralContext_iff:
  "length ks = length ss \<Longrightarrow> hasLiteralContext ss ks \<longleftrightarrow>
    (\<exists>i<length ss. ss ! i \<noteq> [] \<and> ks ! i = kindLiteral \<and> \<not> isPathPrefix (ss ! i))"
proof (induction ss ks rule: list_induct2')
  case (4 s ss k ks)
  then show ?case by (simp add: Ex_less_Suc2 conj_disj_distribR)
qed simp_all

text \<open>A state of the promotion gives every path the kinds of its segments.\<close>

type_synonym kind_state = "string \<Rightarrow> paramKind list"

abbreviation split_path :: "string \<Rightarrow> string list" where
  "split_path p \<equiv> split_on (CHR ''/'') p"

text \<open>The shape of a segment: itself, or a placeholder once it is a parameter. Two paths have the same position
  at an index when they have as many segments and agree in the shape of all others.\<close>

definition shape :: "kind_state \<Rightarrow> string \<Rightarrow> nat \<Rightarrow> string" where
  "shape kd p j = (if kd p ! j = kindLiteral then split_path p ! j else ''{}'')"

definition same_position :: "kind_state \<Rightarrow> string \<Rightarrow> string \<Rightarrow> nat \<Rightarrow> bool" where
  "same_position kd p q i =
     (length (split_path q) = length (split_path p) \<and> list_all (\<lambda>j. j = i \<or> shape kd q j = shape kd p j) [0..<length (split_path p)])"

text \<open>A segment that may become a slug: a literal, not empty and not one of the known ones, after a resource (a
  literal that is no scaffold such as \<^verbatim>\<open>api\<close> or \<^verbatim>\<open>v1\<close>).\<close>

definition promotable :: "kind_state \<Rightarrow> string \<Rightarrow> nat \<Rightarrow> bool" where
  "promotable kd p i =
     (i < length (split_path p) \<and> kd p ! i = kindLiteral \<and> split_path p ! i \<noteq> [] \<and> split_path p ! i \<notin> set knownLiterals
      \<and> (\<exists>j<i. split_path p ! j \<noteq> [] \<and> kd p ! j = kindLiteral \<and> \<not> isPathPrefix (split_path p ! j)))"

text \<open>It does when so many distinct values were observed at its position.\<close>

definition observed :: "string set \<Rightarrow> kind_state \<Rightarrow> string \<Rightarrow> nat \<Rightarrow> string set" where
  "observed P kd p i = {split_path q ! i | q. q \<in> P \<and> same_position kd p q i \<and> promotable kd q i}"

definition promoted :: "int \<Rightarrow> string set \<Rightarrow> kind_state \<Rightarrow> string \<Rightarrow> nat \<Rightarrow> bool" where
  "promoted threshold P kd p i = (promotable kd p i \<and> threshold \<le> int (card (observed P kd p i)))"

text \<open>One round promotes all such segments at once; the rounds start from the kinds that the texts have.\<close>

definition promote_all :: "int \<Rightarrow> string set \<Rightarrow> kind_state \<Rightarrow> kind_state" where
  "promote_all threshold P kd p =
     map (\<lambda>i. if promoted threshold P kd p i then kindSlug else kd p ! i) [0..<length (split_path p)]"

definition kinds_after :: "nat \<Rightarrow> int \<Rightarrow> string set \<Rightarrow> kind_state" where
  "kinds_after n threshold P = (promote_all threshold P ^^ n) (\<lambda>p. map classifyParamSegment (split_path p))"

definition info_of :: "kind_state \<Rightarrow> string \<Rightarrow> pathInfo" where
  "info_of kd p = \<lparr>segments = split_path p, kinds = kd p\<rparr>"

lemma info_of_simps [simp]: "segments (info_of kd p) = split_path p" "kinds (info_of kd p) = kd p"
  by (simp_all add: info_of_def)

definition kinds_ok :: "kind_state \<Rightarrow> bool" where
  "kinds_ok kd = (\<forall>p. length (kd p) = length (split_path p))"

lemma kinds_ok_steps [simp]: "kinds_ok (promote_all threshold P kd)" "kinds_ok (kinds_after n threshold P)"
  by (simp_all add: kinds_ok_def promote_all_def kinds_after_def) (cases n; simp add: promote_all_def)

text \<open>The key of a position says just that.\<close>

lemma shape_no_slash: "s \<in> set (map2 (\<lambda>s k. if k = kindLiteral then s else ''{}'') ss ks) \<Longrightarrow>
    \<forall>s\<in>set ss. CHR ''/'' \<notin> set s \<Longrightarrow> CHR ''/'' \<notin> set s"
  by (auto dest: set_zip_leftD split: if_splits)

lemma shapeKey_inject:
  assumes "length ss = length ss'" "length ks = length ss" "length ks' = length ss'"
    and "\<forall>s\<in>set ss. CHR ''/'' \<notin> set s" "\<forall>s\<in>set ss'. CHR ''/'' \<notin> set s"
  shows "shapeKey ss ks = shapeKey ss' ks' \<longleftrightarrow>
    (\<forall>j<length ss. (if ks ! j = kindLiteral then ss ! j else ''{}'') = (if ks' ! j = kindLiteral then ss' ! j else ''{}''))"
proof (cases "ss = []")
  case True
  then show ?thesis using assms(1) by (simp add: shapeKey_def)
next
  case False
  let ?m = "\<lambda>ss ks. map2 (\<lambda>s k. if k = kindLiteral then s else ''{}'') ss ks"
  have ne: "?m ss ks \<noteq> []" "?m ss' ks' \<noteq> []" using False assms(1-3) by auto
  have "shapeKey ss ks = shapeKey ss' ks' \<longleftrightarrow> ?m ss ks = ?m ss' ks'"
  proof
    assume e: "shapeKey ss ks = shapeKey ss' ks'"
    have "split_on (CHR ''/'') (join ''/'' (?m ss ks)) = ?m ss ks"
      "split_on (CHR ''/'') (join ''/'' (?m ss' ks')) = ?m ss' ks'"
      using ne shape_no_slash assms(4,5) by (intro split_on_join; blast)+
    then show "?m ss ks = ?m ss' ks'" using e unfolding shapeKey_def by metis
  qed (simp add: shapeKey_def)
  also have "\<dots> \<longleftrightarrow> (\<forall>j<length ss. ?m ss ks ! j = ?m ss' ks' ! j)"
    using assms(1-3) by (simp add: list_eq_iff_nth_eq)
  finally show ?thesis using assms(1-3) by simp
qed

lemma all_other:
  assumes "i < n"
  shows "list_all (\<lambda>j. j = i \<or> A j) [0..<n] \<longleftrightarrow> (\<forall>j<i. A j) \<and> (\<forall>j<n. i < j \<longrightarrow> A j)"
proof
  assume "list_all (\<lambda>j. j = i \<or> A j) [0..<n]"
  then have A: "A j" if "j < n" "j \<noteq> i" for j using that by (auto simp: list_all_iff)
  show "(\<forall>j<i. A j) \<and> (\<forall>j<n. i < j \<longrightarrow> A j)" using assms by (intro conjI allI impI A) simp_all
next
  assume a: "(\<forall>j<i. A j) \<and> (\<forall>j<n. i < j \<longrightarrow> A j)"
  have "j = i \<or> A j" if "j < n" for j using a that by (cases j i rule: linorder_cases) auto
  then show "list_all (\<lambda>j. j = i \<or> A j) [0..<n]" by (simp add: list_all_iff)
qed

lemma positionKey_same:
  assumes "kinds_ok kd" "i < length (split_path p)" "j < length (split_path q)"
  shows "positionKey (info_of kd q) j = positionKey (info_of kd p) i \<longleftrightarrow> j = i \<and> same_position kd p q i"
proof (cases "j = i \<and> length (split_path q) = length (split_path p)")
  case True
  have free: "\<forall>s\<in>set (take i (split_path r)). CHR ''/'' \<notin> set s" "\<forall>s\<in>set (drop (i + 1) (split_path r)). CHR ''/'' \<notin> set s" for r
    using split_on_sep_free by (meson in_set_takeD in_set_dropD)+
  have len: "length (kd r) = length (split_path r)" for r using assms(1) by (simp add: kinds_ok_def)
  have "shapeKey (take i (split_path q)) (take i (kd q)) = shapeKey (take i (split_path p)) (take i (kd p))
      \<longleftrightarrow> (\<forall>j<i. shape kd q j = shape kd p j)"
    using assms(2) True by (subst shapeKey_inject) (use free len in \<open>auto simp: shape_def\<close>)
  moreover have "shapeKey (drop (i + 1) (split_path q)) (drop (i + 1) (kd q)) = shapeKey (drop (i + 1) (split_path p)) (drop (i + 1) (kd p))
      \<longleftrightarrow> (\<forall>j<length (split_path p). i < j \<longrightarrow> shape kd q j = shape kd p j)"
  proof -
    have "shapeKey (drop (i + 1) (split_path q)) (drop (i + 1) (kd q)) = shapeKey (drop (i + 1) (split_path p)) (drop (i + 1) (kd p))
        \<longleftrightarrow> (\<forall>j<length (split_path p) - (i + 1). shape kd q (i + 1 + j) = shape kd p (i + 1 + j))"
      using assms(2) True by (subst shapeKey_inject) (use free len in \<open>auto simp: shape_def\<close>)
    also have "\<dots> \<longleftrightarrow> (\<forall>j<length (split_path p). i < j \<longrightarrow> shape kd q j = shape kd p j)"
    proof (intro iffI allI impI)
      fix j assume a: "\<forall>j<length (split_path p) - (i + 1). shape kd q (i + 1 + j) = shape kd p (i + 1 + j)"
        "j < length (split_path p)" "i < j"
      then show "shape kd q j = shape kd p j" using a(1) [rule_format, of "j - (i + 1)"] by simp
    qed simp
    finally show ?thesis .
  qed
  ultimately show ?thesis using True by (simp add: positionKey_def same_position_def all_other [OF assms(2)])
qed (auto simp: positionKey_def same_position_def)

lemma candidate_promotable:
  assumes "kinds_ok kd"
  shows "candidate (info_of kd p) i \<longleftrightarrow> promotable kd p i"
proof (cases "i < length (split_path p)")
  case True
  then have "hasLiteralContext (take i (split_path p)) (take i (kd p))
      \<longleftrightarrow> (\<exists>j<i. split_path p ! j \<noteq> [] \<and> kd p ! j = kindLiteral \<and> \<not> isPathPrefix (split_path p ! j))"
    using assms hasLiteralContext_iff [of "take i (kd p)" "take i (split_path p)"] by (simp add: kinds_ok_def) (metis nth_take)
  then show ?thesis using True by (auto simp: candidate_def isObservationCandidate_def promotable_def)
qed (simp add: candidate_def promotable_def)

lemma values_observed:
  assumes "kinds_ok kd" "i < length (split_path p)"
  shows "values_at (info_of kd ` P) (positionKey (info_of kd p) i) = observed P kd p i"
proof (intro set_eqI iffI)
  fix v assume "v \<in> values_at (info_of kd ` P) (positionKey (info_of kd p) i)"
  then obtain q j where q: "q \<in> P" "v = split_path q ! j" "promotable kd q j" "positionKey (info_of kd q) j = positionKey (info_of kd p) i"
    unfolding values_at_def using candidate_promotable [OF assms(1)] by fastforce
  then have "j = i \<and> same_position kd p q i" using positionKey_same [OF assms, of j q] by (simp add: promotable_def)
  then show "v \<in> observed P kd p i" using q by (auto simp: observed_def)
next
  fix v assume "v \<in> observed P kd p i"
  then obtain q where q: "q \<in> P" "v = split_path q ! i" "same_position kd p q i" "promotable kd q i"
    by (auto simp: observed_def)
  then have "positionKey (info_of kd q) i = positionKey (info_of kd p) i" "candidate (info_of kd q) i"
    using positionKey_same [OF assms, of i q] candidate_promotable [OF assms(1)] by (simp_all add: promotable_def)
  then show "v \<in> values_at (info_of kd ` P) (positionKey (info_of kd p) i)"
    unfolding values_at_def using q(1,2) by (intro CollectI exI [of _ "info_of kd q"] exI [of _ i]) simp
qed

lemma kind_at_same:
  assumes "kinds_ok kd" "i < length (split_path p)"
  shows "kind_at Q (info_of kd ` P) (positionKey (info_of kd p) i) \<longleftrightarrow> (\<exists>q\<in>P. same_position kd p q i \<and> Q (kd q ! i))"
proof -
  have "kind_at Q (info_of kd ` P) (positionKey (info_of kd p) i)
      \<longleftrightarrow> (\<exists>q\<in>P. \<exists>j<length (split_path q). Q (kd q ! j) \<and> positionKey (info_of kd q) j = positionKey (info_of kd p) i)"
    using assms(1) by (simp add: kind_at_def kinds_ok_def)
  also have "\<dots> \<longleftrightarrow> (\<exists>q\<in>P. \<exists>j<length (split_path q). Q (kd q ! j) \<and> j = i \<and> same_position kd p q i)"
    using positionKey_same [OF assms] by (metis (no_types, lifting))
  also have "\<dots> \<longleftrightarrow> (\<exists>q\<in>P. same_position kd p q i \<and> Q (kd q ! i))"
    using assms(2) by (intro bex_cong refl) (auto simp: same_position_def)
  finally show ?thesis .
qed

lemma same_position_refl [simp]: "same_position kd p p i"
  by (simp add: same_position_def list_all_iff)

lemma round_info:
  assumes "kinds_ok kd"
  shows "round threshold (info_of kd ` P) (info_of kd p) = info_of (promote_all threshold P kd) p"
proof (rule info_eqI)
  have len: "length (kd p) = length (split_path p)" using assms by (simp add: kinds_ok_def)
  then show "length (kinds (round threshold (info_of kd ` P) (info_of kd p))) = length (kinds (info_of (promote_all threshold P kd) p))"
    by (simp add: round_def promote_all_def)
  fix i assume "i < length (kinds (round threshold (info_of kd ` P) (info_of kd p)))"
  then have i: "i < length (split_path p)" using len by (simp add: round_def)
  then show "kinds (round threshold (info_of kd ` P) (info_of kd p)) ! i = kinds (info_of (promote_all threshold P kd) p) ! i"
    using len candidate_promotable [OF assms, of p i]
    by (simp add: round_def promote_all_def promotes_def promoted_def varies_def values_observed [OF assms i])
qed (simp add: round_def)

lemma rounds_info:
  assumes "0 < threshold"
  shows "kinds_ok kd \<Longrightarrow> promotion_rounds n threshold (map (info_of kd) ps)
    = map (info_of ((promote_all threshold (set ps) ^^ n) kd)) ps"
proof (induction n arbitrary: kd)
  case (Suc n)
  let ?kd = "promote_all threshold (set ps) kd"
  have r: "map (round threshold (set (map (info_of kd) ps))) (map (info_of kd) ps) = map (info_of ?kd) ps"
    using round_info [OF Suc.prems, of threshold "set ps"] by simp
  show ?case
  proof (cases "findVaryingPositions (map (info_of kd) ps) threshold = []")
    case True
    then have "\<not> varies threshold (info_of kd ` set ps) key" for key
      using no_varying [OF assms, of "map (info_of kd) ps"] by simp
    then have "round threshold (info_of kd ` set ps) info = info" for info
      unfolding round_def by (intro mark_id) (simp add: promotes_def)
    then have "info_of ?kd p = info_of kd p" for p using round_info [OF Suc.prems, of threshold "set ps" p] by simp
    then have "?kd p = kd p" for p by (simp add: info_of_def)
    then have kd: "?kd = kd" by blast
    have "promotion_rounds (Suc n) threshold (map (info_of kd) ps) = promotion_rounds n threshold (map (info_of kd) ps)"
      using True by (cases n) simp_all
    then show ?thesis using Suc.IH [OF Suc.prems] kd by (simp only: funpow_Suc_right comp_def)
  next
    case False
    then show ?thesis using Suc.IH [of ?kd] by (simp only: promotion_rounds_Suc [OF assms] r funpow_Suc_right comp_def) simp
  qed
qed simp

lemma promote_all_nth: "i < length (split_path p) \<Longrightarrow>
    promote_all threshold P kd p ! i = (if promoted threshold P kd p i then kindSlug else kd p ! i)"
  by (simp add: promote_all_def)

lemma kinds_after_nth:
  assumes "i < length (split_path p)"
  shows "kinds_after n threshold P p ! i =
    (if \<exists>r<n. promoted threshold P (kinds_after r threshold P) p i then kindSlug else classifyParamSegment (split_path p ! i))"
proof (induction n)
  case 0
  then show ?case using assms by (simp add: kinds_after_def)
next
  case (Suc n)
  have "kinds_after (Suc n) threshold P p ! i
      = (if promoted threshold P (kinds_after n threshold P) p i then kindSlug else kinds_after n threshold P p ! i)"
    using promote_all_nth [OF assms] by (simp add: kinds_after_def)
  then show ?case unfolding Suc.IH by (auto simp: less_Suc_eq)
qed

text \<open>The rounds that the options ask for, and the segments that they promote.\<close>

definition slug_rounds :: "NormalizeOptions \<Rightarrow> nat" where
  "slug_rounds opts = (if MergeSlugs opts then 8 else 0)"

definition slugged :: "NormalizeOptions \<Rightarrow> string set \<Rightarrow> string \<Rightarrow> nat \<Rightarrow> bool" where
  "slugged opts P p i = (\<exists>r<slug_rounds opts. promoted (clamped opts) P (kinds_after r (clamped opts) P) p i)"

lemma slugged_literal: "slugged opts P p i \<Longrightarrow> classifyParamSegment (split_path p ! i) = kindLiteral"
proof -
  assume "slugged opts P p i"
  then obtain r where "promotable (kinds_after r (clamped opts) P) p i" by (auto simp: slugged_def promoted_def)
  then show ?thesis using kinds_after_nth [of i p r "clamped opts" P] by (auto simp: promotable_def split: if_splits)
qed

lemma normalized_infos_kinds:
  defines "kd paths opts \<equiv> kinds_after (slug_rounds opts) (clamped opts) (set paths)"
  shows "normalized_infos paths opts = map (\<lambda>p. info_of (\<lambda>p. map (\<lambda>i.
      if kd paths opts p ! i \<noteq> kindLiteral
        \<and> (\<exists>q\<in>set paths. same_position (kd paths opts) p q i \<and> kd paths opts q ! i = kindSlug)
      then kindSlug else kd paths opts p ! i) [0..<length (split_path p)]) p) paths"
proof -
  let ?kd = "kd paths opts"
  have ok: "kinds_ok ?kd" by (simp add: kd_def)
  have len: "length (?kd p) = length (split_path p)" for p using ok by (simp add: kinds_ok_def)
  have c: "map classified paths = map (info_of (\<lambda>p. map classifyParamSegment (split_path p))) paths"
    by (simp add: classified_def info_of_def)
  have "kinds_ok (\<lambda>p. map classifyParamSegment (split_path p))" by (simp add: kinds_ok_def)
  from rounds_info [OF _ this, of "clamped opts" maxPromotionRounds paths] clamped_ge [of opts]
  have "(if MergeSlugs opts then promotion_rounds maxPromotionRounds (clamped opts) (map classified paths)
      else map classified paths) = map (info_of ?kd) paths"
    by (simp add: c kd_def kinds_after_def slug_rounds_def maxPromotionRounds_def)
  then have "normalized_infos paths opts = map (mark (unifies (info_of ?kd ` set paths)) \<circ> info_of ?kd) paths"
    unfolding normalized_infos_alt by (simp add: unify_mark)
  moreover have "mark (unifies (info_of ?kd ` set paths)) (info_of ?kd p) = info_of (\<lambda>p. map (\<lambda>i.
      if ?kd p ! i \<noteq> kindLiteral \<and> (\<exists>q\<in>set paths. same_position ?kd p q i \<and> ?kd q ! i = kindSlug)
      then kindSlug else ?kd p ! i) [0..<length (split_path p)]) p" if p: "p \<in> set paths" for p
  proof (rule info_eqI)
    fix i assume "i < length (kinds (mark (unifies (info_of ?kd ` set paths)) (info_of ?kd p)))"
    then have i: "i < length (split_path p)" using len by simp
    show "kinds (mark (unifies (info_of ?kd ` set paths)) (info_of ?kd p)) ! i = kinds (info_of (\<lambda>p. map (\<lambda>i.
        if ?kd p ! i \<noteq> kindLiteral \<and> (\<exists>q\<in>set paths. same_position ?kd p q i \<and> ?kd q ! i = kindSlug)
        then kindSlug else ?kd p ! i) [0..<length (split_path p)]) p) ! i"
      using i len p by (auto simp: unifies_def kind_at_same [OF ok i])
  qed (use len in simp_all)
  ultimately show ?thesis by simp
qed

definition final_kind :: "NormalizeOptions \<Rightarrow> string set \<Rightarrow> string \<Rightarrow> nat \<Rightarrow> paramKind" where
  "final_kind opts P p i =
     (if slugged opts P p i then kindSlug
      else if classifyParamSegment (split_path p ! i) = kindLiteral then kindLiteral
      else if \<exists>q\<in>P. same_position (kinds_after (slug_rounds opts) (clamped opts) P) p q i \<and> slugged opts P q i
      then kindSlug else classifyParamSegment (split_path p ! i))"

lemma final_kind_literal: "final_kind opts P p i = kindLiteral
    \<longleftrightarrow> classifyParamSegment (split_path p ! i) = kindLiteral \<and> \<not> slugged opts P p i"
  by (simp add: final_kind_def)

lemma normalized_infos_final:
  "normalized_infos paths opts = map (\<lambda>p. \<lparr>segments = split_path p,
     kinds = map (final_kind opts (set paths) p) [0..<length (split_path p)]\<rparr>) paths"
proof -
  let ?kd = "kinds_after (slug_rounds opts) (clamped opts) (set paths)"
  have kd: "?kd q ! i = (if slugged opts (set paths) q i then kindSlug else classifyParamSegment (split_path q ! i))"
    if "i < length (split_path q)" for q i
    using kinds_after_nth [OF that] unfolding slugged_def .
  have "(if ?kd p ! i \<noteq> kindLiteral \<and> (\<exists>q\<in>set paths. same_position ?kd p q i \<and> ?kd q ! i = kindSlug)
      then kindSlug else ?kd p ! i) = final_kind opts (set paths) p i" if i: "i < length (split_path p)" for p i
  proof -
    have "(\<exists>q\<in>set paths. same_position ?kd p q i \<and> ?kd q ! i = kindSlug)
        \<longleftrightarrow> (\<exists>q\<in>set paths. same_position ?kd p q i \<and> slugged opts (set paths) q i)"
      using kd i by (intro bex_cong refl) (auto simp: same_position_def split: if_splits)
    then show ?thesis by (auto simp: kd [OF i] final_kind_def)
  qed
  then show ?thesis unfolding normalized_infos_kinds by (auto simp: info_of_def)
qed

text \<open>C18. What slug promotion does, exactly. The segments of a path stay as they are. In each of eight rounds (none
  without slug merging) a literal becomes a slug if and only if it is not empty and not a known literal, stands after
  a resource (a literal that is no scaffold such as \<^verbatim>\<open>api\<close> or \<^verbatim>\<open>v1\<close>), and at least max(2, threshold) distinct values of such
  literals were observed at its position; two paths have the same position there when they have as many segments and
  agree in all others, parameters counting as equal. All other literals stay literals. A segment that is an
  identifier by its text keeps the kind of its text, unless a slug ended up at the same position: then it is a slug too.\<close>

theorem normalized_infos_promotion:
  "normalized_infos paths opts = map (\<lambda>p. \<lparr>segments = split_path p,
     kinds = map (final_kind opts (set paths) p) [0..<length (split_path p)]\<rparr>) paths"
  by (rule normalized_infos_final)

section \<open>The rounds reach a fixed point\<close>

definition literals :: "pathInfo \<Rightarrow> nat" where
  "literals info = length (filter (\<lambda>k. k = kindLiteral) (kinds info))"

lemma literals_mark:
  "literals (mark C info) = card {i. i < length (kinds info) \<and> kinds info ! i = kindLiteral \<and> \<not> C info i}"
  unfolding literals_def length_filter_conv_card by (rule arg_cong [where f = card]) (auto split: if_splits)

lemma literals_round_le: "literals (mark C info) \<le> literals info"
proof -
  have "literals (mark C info) \<le> card {i. i < length (kinds info) \<and> kinds info ! i = kindLiteral}"
    unfolding literals_mark by (rule card_mono) auto
  then show ?thesis by (simp add: literals_def length_filter_conv_card)
qed

lemma literals_round_less:
  assumes "i < length (kinds info)" "kinds info ! i = kindLiteral" "C info i"
  shows "literals (mark C info) < literals info"
proof -
  have "literals (mark C info) < card {i. i < length (kinds info) \<and> kinds info ! i = kindLiteral}"
    unfolding literals_mark using assms by (intro psubset_card_mono) auto
  then show ?thesis by (simp add: literals_def length_filter_conv_card)
qed

lemma sum_list_drop_one:
  fixes f g :: "'a \<Rightarrow> nat"
  assumes "\<forall>x\<in>set xs. g x \<le> f x" "a \<in> set xs" "g a < f a"
  shows "sum_list (map g xs) + 1 \<le> sum_list (map f xs)"
  using assms
proof (induction xs)
  case (Cons x xs)
  have "sum_list (map g xs) \<le> sum_list (map f xs)" using Cons.prems(1) by (intro sum_list_mono) simp
  then show ?case using Cons by (cases "a = x") fastforce+
qed simp

lemma sum_list_drop_two:
  fixes f g :: "'a \<Rightarrow> nat"
  assumes "\<forall>x\<in>set xs. g x \<le> f x" "a \<in> set xs" "g a < f a" "b \<in> set xs" "g b < f b" "a \<noteq> b"
  shows "sum_list (map g xs) + 2 \<le> sum_list (map f xs)"
  using assms
proof (induction xs)
  case (Cons x xs)
  have le: "\<forall>x\<in>set xs. g x \<le> f x" using Cons.prems(1) by simp
  consider "a = x" | "b = x" | "a \<noteq> x" "b \<noteq> x" by blast
  then show ?case
  proof cases
    case 1
    then show ?thesis using sum_list_drop_one [OF le, of b] Cons.prems by fastforce
  next
    case 2
    then show ?thesis using sum_list_drop_one [OF le, of a] Cons.prems by fastforce
  next
    case 3
    then show ?thesis using Cons.IH [OF le] Cons.prems by fastforce
  qed
qed simp

definition total_literals :: "pathInfo list \<Rightarrow> nat" where
  "total_literals infos = sum_list (map literals infos)"

lemma candidate_in_kinds: "info_ok info \<Longrightarrow> candidate info i \<Longrightarrow> i < length (kinds info)"
  by (simp add: info_ok_def candidate_def)

lemma round_progress:
  assumes "2 \<le> threshold" "\<forall>info\<in>set infos. info_ok info" "findVaryingPositions infos threshold \<noteq> []"
  shows "total_literals (map (round threshold (set infos)) infos) + 2 \<le> total_literals infos"
proof -
  obtain key where v: "varies threshold (set infos) key" using assms no_varying [of threshold infos] by auto
  then have "2 \<le> card (values_at (set infos) key)" using assms(1) by (simp add: varies_def)
  then have "\<not> values_at (set infos) key \<subseteq> {x}" for x
    using card_mono [of "{x}" "values_at (set infos) key"] by fastforce
  then obtain x y where "x \<in> values_at (set infos) key" "y \<in> values_at (set infos) key" "x \<noteq> y" by blast
  then obtain a i b j where ab: "a \<in> set infos" "candidate a i" "positionKey a i = key" "segments a ! i = x"
    "b \<in> set infos" "candidate b j" "positionKey b j = key" "segments b ! j = y"
    by (auto simp: values_at_def)
  have "i = j" using ab(3,7) by (auto simp: positionKey_def)
  then have "a \<noteq> b" using ab(4,8) \<open>x \<noteq> y\<close> by blast
  have less: "literals (round threshold (set infos) info) < literals info"
    if "info \<in> set infos" "candidate info i" "positionKey info i = key" for info i
    unfolding round_def using that v assms(2) candidate_in_kinds candidate_literal
    by (intro literals_round_less [of i]) (auto simp: promotes_def)
  show ?thesis unfolding total_literals_def map_map
    using sum_list_drop_two [of infos "literals \<circ> round threshold (set infos)" literals a b]
      less [OF ab(1-3)] less [OF ab(5-7)] ab(1,5) \<open>a \<noteq> b\<close> literals_round_le
    by (simp add: round_def)
qed

lemma rounds_stable:
  "findVaryingPositions infos threshold = [] \<Longrightarrow> promotion_rounds m threshold infos = infos"
  by (cases m) (simp_all add: Let_def)

text \<open>C22. Slug promotion ends: every round that finds a varying position turns at least two literals into
  slugs, so \<open>n\<close> rounds leave no varying position when there are fewer than \<open>2 (n + 1)\<close> literals,
  and further rounds change nothing. With the cap of 8 rounds that is any input of at most 17
  literal segments.\<close>

theorem promotion_rounds_fixpoint:
  assumes "2 \<le> threshold" "\<forall>info\<in>set infos. info_ok info" "total_literals infos < 2 * (n + 1)"
  shows "findVaryingPositions (promotion_rounds n threshold infos) threshold = []
    \<and> (\<forall>m\<ge>n. promotion_rounds m threshold infos = promotion_rounds n threshold infos)"
  using assms(2,3)
proof (induction n arbitrary: infos)
  case 0
  then have "findVaryingPositions infos threshold = []" using round_progress [OF assms(1)] by fastforce
  then show ?case using rounds_stable by simp
next
  case (Suc n)
  let ?infos = "map (round threshold (set infos)) infos"
  have p: "0 < threshold" using assms(1) by simp
  show ?case
  proof (cases "findVaryingPositions infos threshold = []")
    case True
    then show ?thesis by (simp only: rounds_stable) simp
  next
    case False
    have "\<forall>info\<in>set ?infos. info_ok info" using Suc.prems(1) by (simp add: round_def)
    moreover have "total_literals ?infos < 2 * (n + 1)"
      using round_progress [OF assms(1) Suc.prems(1) False] Suc.prems(2) by simp
    ultimately have IH: "findVaryingPositions (promotion_rounds n threshold ?infos) threshold = []"
      "\<And>m. n \<le> m \<Longrightarrow> promotion_rounds m threshold ?infos = promotion_rounds n threshold ?infos"
      using Suc.IH by blast+
    have "promotion_rounds m threshold infos = promotion_rounds (Suc n) threshold infos" if "Suc n \<le> m" for m
      using that IH(2) [of "m - 1"] False by (cases m) (simp_all only: promotion_rounds_Suc [OF p], auto)
    then show ?thesis using IH(1) False by (simp only: promotion_rounds_Suc [OF p] if_False) simp
  qed
qed

lemma promotion_rounds_fixpoint_witness:
  "findVaryingPositions (promotion_rounds 8 2 (map classified [''/a/b'', ''/a/c''])) 2 = []"
  by (rule promotion_rounds_fixpoint [THEN conjunct1])
    (simp_all add: classified_def info_ok_def, code_simp)

end
