(* ===== verification/Normalize_Names.thy ===== *)
theory Normalize_Names
  imports Normalize_Spec
begin

text \<open>
  The templates that \<^verbatim>\<open>normalize.go\<close> prints: parameter names are identifiers, the
  names within one template are distinct, literal segments stay, and \<^verbatim>\<open>NormalizePath\<close>
  is idempotent.
\<close>

section \<open>The anonymous form\<close>

lemma split_segment_no_slash: "s \<in> set (split_on (CHR ''/'') p) \<Longrightarrow> CHR ''/'' \<notin> set s"
  by (rule split_on_sep_free)

lemma split_join_map:
  assumes "\<And>s. s \<in> set (split_on (CHR ''/'') p) \<Longrightarrow> CHR ''/'' \<notin> set (f s)"
  shows "split_on (CHR ''/'') (join ''/'' (map f (split_on (CHR ''/'') p))) = map f (split_on (CHR ''/'') p)"
  using assms by (intro split_on_join) auto

definition anonymous :: "string \<Rightarrow> string" where
  "anonymous s = (if classifyParamSegment s \<noteq> kindLiteral then ''{id}'' else s)"

lemma NormalizePath_alt: "NormalizePath p = join ''/'' (map anonymous (split_on (CHR ''/'') p))"
  unfolding NormalizePath_def
  by (rule arg_cong [where f = "join ''/''"], rule map_cong [OF refl]) (simp add: anonymous_def classifyParamSegment_def)

lemma classify_id: "classifyParamSegment ''{id}'' = kindLiteral"
  by code_simp

lemma anonymous_idem: "anonymous (anonymous s) = anonymous s"
  by (simp add: anonymous_def classify_id)

lemma split_NormalizePath: "split_on (CHR ''/'') (NormalizePath p) = map anonymous (split_on (CHR ''/'') p)"
  unfolding NormalizePath_alt
  by (rule split_join_map) (auto simp: anonymous_def dest: split_segment_no_slash)

text \<open>Normalising a path to its anonymous form is idempotent, keeps the number of segments, and leaves
  no segment that would still be recognised as an identifier.\<close>

theorem NormalizePath_idempotent:
  "NormalizePath (NormalizePath p) = NormalizePath p
    \<and> length (split_on (CHR ''/'') (NormalizePath p)) = length (split_on (CHR ''/'') p)
    \<and> list_all (\<lambda>s. classifyParamSegment s = kindLiteral) (split_on (CHR ''/'') (NormalizePath p))"
proof -
  have "NormalizePath (NormalizePath p) = join ''/'' (map anonymous (map anonymous (split_on (CHR ''/'') p)))"
    by (simp only: NormalizePath_alt [of "NormalizePath p"] split_NormalizePath)
  also have "\<dots> = NormalizePath p"
    by (simp add: NormalizePath_alt anonymous_idem comp_def)
  finally show ?thesis by (auto simp: split_NormalizePath list_all_iff anonymous_def classify_id)
qed

section \<open>Names\<close>

definition name_char :: "char \<Rightarrow> bool" where
  "name_char c = (is_lower c \<or> is_upper c \<or> is_digit c \<or> c = CHR ''_'')"

definition valid_name :: "string \<Rightarrow> bool" where
  "valid_name s = (s \<noteq> [] \<and> list_all name_char s)"

lemma upper_char_name: "is_lower r \<Longrightarrow> is_upper (upper_char r)"
  by (auto simp: is_lower_def is_upper_def in_range_def upper_char_def byte_at_char_of byte_at_def)

lemma sanitize_from_chars: "list_all name_char (sanitize_from u s)"
  by (induction u s rule: sanitize_from.induct) (auto simp: name_char_def upper_char_name)

text \<open>A sanitised parameter name is a non-empty identifier of letters, digits and underscores.\<close>

lemma sanitizeParamName_valid: "valid_name (sanitizeParamName s)"
  using sanitize_from_chars [of False s]
  by (auto simp: sanitizeParamName_def valid_name_def Let_def name_char_def is_lower_def in_range_def byte_at_def)

lemma sanitize_from_append: "\<exists>u'. sanitize_from u (a @ b) = sanitize_from u a @ sanitize_from u' b"
proof (induction u a rule: sanitize_from.induct)
  case (2 u r rs)
  then show ?case by auto
qed auto

definition suffixes :: "string set" where
  "suffixes = {''Id'', ''Token'', ''Slug''}"

lemma suffix_in: "suffixForKind k \<in> suffixes"
  by (cases k) (simp_all add: suffixForKind_def suffixes_def)

lemma sanitize_suffix: "s \<in> suffixes \<Longrightarrow> sanitize_from u s = s"
proof -
  have "list_all (\<lambda>s. sanitize_from True s = s \<and> sanitize_from False s = s) [''Id'', ''Token'', ''Slug'']"
    by code_simp
  then show "s \<in> suffixes \<Longrightarrow> sanitize_from u s = s"
    by (cases u) (auto simp: list_all_iff suffixes_def)
qed

text \<open>A generated name ends in a letter, so that a number appended to it can be told apart.\<close>

definition letter_ended :: "string \<Rightarrow> bool" where
  "letter_ended s = (s \<noteq> [] \<and> \<not> is_digit (last s))"

lemma letter_ended_suffix: "s \<in> suffixes \<Longrightarrow> letter_ended (a @ s) \<and> letter_ended (to_lower s) \<and> valid_name (to_lower s)"
proof -
  have "list_all (\<lambda>s. s \<noteq> [] \<and> \<not> is_digit (last s) \<and> letter_ended (to_lower s) \<and> valid_name (to_lower s))
      [''Id'', ''Token'', ''Slug'']" by code_simp
  then show "s \<in> suffixes \<Longrightarrow> letter_ended (a @ s) \<and> letter_ended (to_lower s) \<and> valid_name (to_lower s)"
    by (auto simp: list_all_iff suffixes_def letter_ended_def)
qed

lemma paramName_ok: "valid_name (paramNameFromKind prev k) \<and> letter_ended (paramNameFromKind prev k)"
proof (cases "prev = []")
  case True
  then show ?thesis using letter_ended_suffix [OF suffix_in, of "[]" k] by (simp add: paramNameFromKind_def)
next
  case False
  let ?s = "suffixForKind k"
  obtain u where "sanitize_from False (singularize prev @ ?s) = sanitize_from False (singularize prev) @ sanitize_from u ?s"
    using sanitize_from_append by blast
  then have n: "sanitize_from False (singularize prev @ ?s) = sanitize_from False (singularize prev) @ ?s"
    using sanitize_suffix [OF suffix_in] by simp
  have "?s \<noteq> []" using suffix_in [of k] by (auto simp: suffixes_def)
  then have "paramNameFromKind prev k = sanitize_from False (singularize prev) @ ?s"
    using False n by (simp add: paramNameFromKind_def sanitizeParamName_def Let_def)
  then show ?thesis using letter_ended_suffix [OF suffix_in, of _ k] sanitizeParamName_valid [of "singularize prev @ ?s"]
    using False by (simp add: paramNameFromKind_def Let_def)
qed

section \<open>Placeholders in place\<close>

lemma prev_literal_cong:
  "(\<And>j. j < i \<Longrightarrow> ks ! j = kindLiteral \<Longrightarrow> segs' ! j = segs ! j) \<Longrightarrow> prev_literal segs' ks i = prev_literal segs ks i"
  by (induction i) (auto simp: less_Suc_eq)

definition placeholder :: "string list \<Rightarrow> paramKind list \<Rightarrow> nat \<Rightarrow> string" where
  "placeholder segs ks i = (if ks ! i = kindLiteral then segs ! i else braced (contextualParamName segs ks i))"

lemma fold_apply_kind:
  "n \<le> length segs \<Longrightarrow> fold (apply_kind ks) [0..<n] segs
    = map (placeholder segs ks) [0..<n] @ drop n segs"
proof (induction n)
  case (Suc n)
  let ?s = "map (placeholder segs ks) [0..<n] @ drop n segs"
  have len: "length ?s = length segs" and at: "?s ! n = segs ! n" using Suc.prems by (simp_all add: nth_append)
  have "prev_literal ?s ks n = prev_literal segs ks n"
    by (rule prev_literal_cong) (simp add: nth_append placeholder_def)
  then have "contextualParamName ?s ks n = contextualParamName segs ks n" by (simp add: contextualParamName_def)
  then have "apply_kind ks n ?s = ?s[n := placeholder segs ks n]"
    using at by (simp only: apply_kind_def placeholder_def split: if_split) (metis list_update_id)
  also have "\<dots> = map (placeholder segs ks) [0..<Suc n] @ drop (Suc n) segs"
    using Suc.prems by (simp add: list_update_append Cons_nth_drop_Suc [symmetric])
  finally show ?case using Suc by simp
qed simp

lemma applyKinds_alt: "applyKindsToSegments segs ks = map (placeholder segs ks) [0..<length segs]"
  by (simp add: applyKindsToSegments_def fold_apply_kind)

section \<open>Distinct names\<close>

lemma is_braced_braced [simp]: "is_braced (braced n)"
proof -
  have "braced n = ''{'' @ (n @ ''}'')" "braced n = (''{'' @ n) @ ''}''" by (simp_all add: braced_def)
  then show ?thesis unfolding is_braced_def by (metis has_prefix_append has_suffix_append)
qed

lemma brace_name_braced [simp]: "brace_name (braced n) = n"
  by (simp add: brace_name_def braced_def)

lemma braced_inject [simp]: "braced m = braced n \<longleftrightarrow> m = n"
  by (simp add: braced_def)

definition numbered :: "string \<Rightarrow> nat \<Rightarrow> string" where
  "numbered n k = n @ (if k > 1 then itoa k else [])"

lemma strip_digits: "letter_ended n \<Longrightarrow> \<forall>c\<in>set d. is_digit c \<Longrightarrow> dropWhile is_digit (rev (n @ d)) = rev n"
  by (cases n rule: rev_cases) (auto simp: letter_ended_def dropWhile_append)

lemma numbered_inject:
  assumes "letter_ended m" "letter_ended n" "0 < j" "0 < k" "numbered m j = numbered n k"
  shows "m = n \<and> j = k"
proof -
  have "dropWhile is_digit (rev (numbered n k)) = rev n" if "letter_ended n" for n k
    unfolding numbered_def using that itoa_digits [of k] by (intro strip_digits) auto
  from this [OF assms(1), of j] this [OF assms(2), of k] have "rev m = rev n" by (simp only: assms(5))
  then have "m = n" by simp
  moreover from this have "j = k" using assms(3,4,5) by (auto simp: numbered_def itoa_nonempty [symmetric] split: if_splits)
  ultimately show ?thesis by blast
qed

definition count_of :: "(string, nat) gomap \<Rightarrow> string \<Rightarrow> nat" where
  "count_of seen n = (case map_get seen n of None \<Rightarrow> 0 | Some k \<Rightarrow> k)"

lemma count_of_put [simp]: "count_of (map_put m k seen) n = (if n = m then k else count_of seen n)"
  by (simp add: count_of_def)

definition generated :: "string \<Rightarrow> bool" where
  "generated s = (\<exists>n. s = braced n \<and> letter_ended n)"

lemma dedup_names_spec:
  assumes "\<forall>s\<in>set segs. is_braced s \<longrightarrow> generated s"
  shows "distinct (filter is_braced (dedup_names seen segs))
    \<and> (\<forall>s\<in>set (dedup_names seen segs). is_braced s \<longrightarrow>
        (\<exists>n k. s = braced (numbered n k) \<and> letter_ended n \<and> count_of seen n < k \<and> braced n \<in> set segs))"
  using assms
proof (induction segs arbitrary: seen)
  case (Cons seg segs)
  show ?case
  proof (cases "is_braced seg")
    case False
    then show ?thesis using Cons.IH [of seen] Cons.prems by fastforce
  next
    case True
    then obtain n where n: "seg = braced n" "letter_ended n" using Cons.prems by (auto simp: generated_def)
    let ?k = "count_of seen n + 1"
    let ?rest = "dedup_names (map_put n ?k seen) segs"
    have out: "dedup_names seen (seg # segs) = braced (numbered n ?k) # ?rest"
      using n by (simp add: numbered_def count_of_def Let_def)
    have IH: "distinct (filter is_braced ?rest)"
      "\<forall>s\<in>set ?rest. is_braced s \<longrightarrow>
        (\<exists>n' k. s = braced (numbered n' k) \<and> letter_ended n' \<and> count_of (map_put n ?k seen) n' < k \<and> braced n' \<in> set segs)"
      using Cons.IH [of "map_put n ?k seen"] Cons.prems by auto
    have "braced (numbered n ?k) \<notin> set ?rest"
    proof
      assume "braced (numbered n ?k) \<in> set ?rest"
      then obtain n' k where e: "numbered n ?k = numbered n' k" "letter_ended n'" "count_of (map_put n ?k seen) n' < k"
        using IH(2) by fastforce
      have k: "0 < k" using e(3) by (cases k) simp_all
      have "0 < ?k" by simp
      from numbered_inject [OF n(2) e(2) this k e(1)] have "n = n'" "?k = k" by (rule conjunct1, rule conjunct2)
      then show False using e(3) unfolding count_of_put by simp
    qed
    moreover have "\<exists>n' k'. s = braced (numbered n' k') \<and> letter_ended n' \<and> count_of seen n' < k' \<and> braced n' \<in> set (seg # segs)"
      if s: "s \<in> set (braced (numbered n ?k) # ?rest)" "is_braced s" for s
    proof (cases "s = braced (numbered n ?k)")
      case True
      then show ?thesis using n by (intro exI [of _ n] exI [of _ ?k]) simp
    next
      case False
      then obtain n' k' where "s = braced (numbered n' k')" "letter_ended n'" "count_of (map_put n ?k seen) n' < k'" "braced n' \<in> set segs"
        using IH(2) s by auto
      moreover from this have "count_of seen n' < k'" by (auto split: if_splits)
      ultimately show ?thesis by (intro exI [of _ n'] exI [of _ k']) simp
    qed
    ultimately show ?thesis using IH(1) unfolding out by simp
  qed
qed simp

lemma dedup_names_pointwise:
  "list_all2 (\<lambda>s t. if is_braced s then is_braced t \<and> (\<exists>k. t = s \<or> t = braced (numbered (brace_name s) k)) else t = s)
     segs (dedup_names seen segs)"
proof (induction segs arbitrary: seen)
  case (Cons s segs)
  let ?n = "count_of seen (brace_name s) + 1"
  show ?case
  proof (cases "is_braced s")
    case True
    then have "dedup_names seen (s # segs)
        = (if ?n > 1 then braced (numbered (brace_name s) ?n) else s) # dedup_names (map_put (brace_name s) ?n seen) segs"
      by (simp add: numbered_def count_of_def Let_def)
    then show ?thesis using Cons.IH True by auto
  qed (simp add: Cons.IH)
qed simp

lemma valid_numbered: "valid_name n \<Longrightarrow> valid_name (numbered n k)"
  using itoa_digits [of k] by (auto simp: valid_name_def numbered_def list_all_iff name_char_def)

lemma valid_no_slash: "valid_name n \<Longrightarrow> CHR ''/'' \<notin> set (braced n)"
proof -
  have "\<not> name_char (CHR ''/'')" by code_simp
  then show "valid_name n \<Longrightarrow> CHR ''/'' \<notin> set (braced n)"
    by (auto simp: valid_name_def braced_def list_all_iff)
qed

lemma render_segments_spec:
  assumes slash: "\<forall>s\<in>set segs. CHR ''/'' \<notin> set s" and plain: "\<forall>s\<in>set segs. \<not> is_braced s"
    and ne: "segs \<noteq> []" and o: "out = split_on (CHR ''/'') (render_segments segs ks)"
  shows "distinct (filter is_braced out)
    \<and> length out = length segs
    \<and> (\<forall>i<length segs. if ks ! i = kindLiteral then out ! i = segs ! i
         else is_braced (out ! i) \<and> valid_name (brace_name (out ! i)))"
proof -
  let ?ph = "applyKindsToSegments segs ks"
  let ?out = "dedup_names [] ?ph"
  have ph: "?ph ! i = placeholder segs ks i" if "i < length segs" for i
    using that by (simp add: applyKinds_alt)
  have lph: "length ?ph = length segs" by (simp add: applyKinds_alt)
  have pw: "list_all2 (\<lambda>s t. if is_braced s then is_braced t \<and> (\<exists>k. t = s \<or> t = braced (numbered (brace_name s) k)) else t = s)
     ?ph ?out" by (rule dedup_names_pointwise)
  then have lout: "length ?out = length segs" using lph by (simp add: list_all2_lengthD)
  have at: "if ks ! i = kindLiteral then ?out ! i = segs ! i
         else \<exists>n. ?out ! i = braced n \<and> valid_name n" if i: "i < length segs" for i
  proof -
    have r: "if is_braced (?ph ! i) then is_braced (?out ! i) \<and> (\<exists>k. ?out ! i = ?ph ! i
        \<or> ?out ! i = braced (numbered (brace_name (?ph ! i)) k)) else ?out ! i = ?ph ! i"
      using list_all2_nthD [OF pw, of i, unfolded lph, OF i] .
    show ?thesis
    proof (cases "ks ! i = kindLiteral")
      case True
      then have "?ph ! i = segs ! i" using ph [OF i] by (simp add: placeholder_def)
      then show ?thesis using r plain i True by simp
    next
      case False
      let ?n = "contextualParamName segs ks i"
      have "?ph ! i = braced ?n" using ph [OF i] False by (simp add: placeholder_def)
      moreover have "valid_name ?n" using paramName_ok by (simp add: contextualParamName_def)
      ultimately show ?thesis using r False valid_numbered by auto
    qed
  qed
  have "CHR ''/'' \<notin> set s" if mem: "s \<in> set ?out" for s
  proof -
    obtain i where i: "i < length segs" "s = ?out ! i" using mem lout by (metis in_set_conv_nth)
    show ?thesis
    proof (cases "ks ! i = kindLiteral")
      case True
      then have "s = segs ! i" using at [OF i(1)] i(2) by simp
      then have "s \<in> set segs" using i(1) by simp
      then show ?thesis using slash by blast
    next
      case False
      then obtain n where "s = braced n" "valid_name n" using at [OF i(1)] i(2) by auto
      then show ?thesis using valid_no_slash by simp
    qed
  qed
  then have out: "out = ?out"
    unfolding o render_segments_def deduplicateParamNames_def using ne lout
    by (intro split_on_join) auto
  have "generated s" if "s \<in> set ?ph" "is_braced s" for s
  proof -
    obtain i where i: "i < length segs" "s = placeholder segs ks i"
      using \<open>s \<in> set ?ph\<close> by (auto simp: applyKinds_alt)
    then show ?thesis using plain that(2) paramName_ok
      by (auto simp: placeholder_def generated_def contextualParamName_def split: if_splits)
  qed
  then have "distinct (filter is_braced ?out)" using dedup_names_spec [of ?ph "[]"] by blast
  then show ?thesis unfolding out using at lout by fastforce
qed

lemma template_of_path:
  assumes "p \<in> set paths" "\<forall>s\<in>set (split_path p). \<not> is_braced s"
  shows "\<exists>r. map_get (NormalizePathsWithNames paths opts) p = Some r
    \<and> distinct (filter is_braced (split_path r)) \<and> length (split_path r) = length (split_path p)
    \<and> list_all (\<lambda>i. if classifyParamSegment (split_path p ! i) = kindLiteral \<and> \<not> slugged opts (set paths) p i
        then split_path r ! i = split_path p ! i else is_braced (split_path r ! i) \<and> valid_name (brace_name (split_path r ! i))) [0..<length (split_path p)]"
proof -
  define g where "g = (\<lambda>p. \<lparr>segments = split_path p,
    kinds = map (final_kind opts (set paths) p) [0..<length (split_path p)]\<rparr>)"
  have g: "normalized_infos paths opts = map g paths" "segments (g p) = split_path p"
    "\<And>i. i < length (split_path p) \<Longrightarrow> kinds (g p) ! i = kindLiteral
      \<longleftrightarrow> classifyParamSegment (split_path p ! i) = kindLiteral \<and> \<not> slugged opts (set paths) p i"
    by (simp_all add: g_def normalized_infos_final final_kind_literal)
  let ?r = "render_segments (split_path p) (kinds (g p))"
  have get: "map_get (NormalizePathsWithNames paths opts) p = Some ?r"
    using map_get_Normalize [OF g(1), of p] assms(1) g(2) by simp
  have "\<forall>s\<in>set (split_path p). CHR ''/'' \<notin> set s" using split_on_sep_free by blast
  note spec = render_segments_spec [OF this assms(2) split_on_nonempty refl, of "kinds (g p)"]
  have "list_all (\<lambda>i. if classifyParamSegment (split_path p ! i) = kindLiteral \<and> \<not> slugged opts (set paths) p i
      then split_path ?r ! i = split_path p ! i else is_braced (split_path ?r ! i) \<and> valid_name (brace_name (split_path ?r ! i))) [0..<length (split_path p)]"
    using spec g(3) by (simp add: list_all_iff)
  then show ?thesis using get spec by blast
qed

text \<open>C17. The template of an observed path (with no segment in braces): it has the path's segments,
  in place. A segment is unchanged if and only if it is a literal by its text and slug promotion does not take it;
  every other segment is replaced by a parameter. Every parameter name is an identifier, and no name
  occurs twice in the template. (What promotion takes is C18.)\<close>

theorem NormalizePathsWithNames_template:
  assumes "p \<in> set paths" "\<forall>s\<in>set (split_path p). \<not> is_braced s"
  shows "\<exists>r. map_get (NormalizePathsWithNames paths opts) p = Some r
    \<and> distinct (filter is_braced (split_path r)) \<and> length (split_path r) = length (split_path p)
    \<and> list_all (\<lambda>i. if classifyParamSegment (split_path p ! i) = kindLiteral \<and> \<not> slugged opts (set paths) p i
        then split_path r ! i = split_path p ! i else is_braced (split_path r ! i) \<and> valid_name (brace_name (split_path r ! i))) [0..<length (split_path p)]"
  using assms by (rule template_of_path)

lemma NormalizePathsWithNames_template_witness:
  "\<exists>r. map_get (NormalizePathsWithNames [''/users/42''] sample_options) ''/users/42'' = Some r
    \<and> distinct (filter is_braced (split_path r)) \<and> length (split_path r) = length (split_path ''/users/42'')
    \<and> list_all (\<lambda>i. if classifyParamSegment (split_path ''/users/42'' ! i) = kindLiteral
          \<and> \<not> slugged sample_options (set [''/users/42'']) ''/users/42'' i
        then split_path r ! i = split_path ''/users/42'' ! i else is_braced (split_path r ! i) \<and> valid_name (brace_name (split_path r ! i)))
      [0..<length (split_path ''/users/42'')]"
  by (rule NormalizePathsWithNames_template) (simp, code_simp)

text \<open>A literal segment that is written in braces can take a generated name: the two parameters of this
  template are both \<open>userId2\<close>.\<close>

lemma NormalizePathWithNames_braces:
  "NormalizePathWithNames ''/users/1/users/2/{userId2}'' = ''/users/{userId}/users/{userId2}/{userId2}''"
  by code_simp

end
