(* ===== verification/Go_Json_Struct.thy ===== *)
theory Go_Json_Struct
  imports Go_Json
begin

text \<open>
  Decoding JSON into Go structs. \<open>unmarshal_raw\<close> keeps the members of an object in the order of the
  text. A member goes to the field of its name, whatever its letter case; a repeated member is decoded into the
  value already there; \<^verbatim>\<open>null\<close> changes nothing except that it empties a slice or a pointer; a
  value of the wrong type makes the whole decoding fail (\<open>None\<close>). A
  \<^verbatim>\<open>json.RawMessage\<close> is the value itself, absent when there was no such member.
\<close>

definition unmarshal_raw :: "string \<Rightarrow> json option" where
  "unmarshal_raw s =
     (case json_value (2 * length s + 2) 10000 s of None \<Rightarrow> None
      | Some (v, r) \<Rightarrow> if skip_ws r = [] then Some v else None)"

definition dec_string :: "json \<Rightarrow> string \<Rightarrow> string option" where
  "dec_string v old = (case v of JStr s \<Rightarrow> Some s | JNull \<Rightarrow> Some old | _ \<Rightarrow> None)"

definition dec_bool :: "json \<Rightarrow> bool \<Rightarrow> bool option" where
  "dec_bool v old = (case v of JBool b \<Rightarrow> Some b | JNull \<Rightarrow> Some old | _ \<Rightarrow> None)"

definition dec_string_ptr :: "json \<Rightarrow> string option option" where
  "dec_string_ptr v = (case v of JStr s \<Rightarrow> Some (Some s) | JNull \<Rightarrow> Some None | _ \<Rightarrow> None)"

definition dec_raw_list :: "json \<Rightarrow> json list option" where
  "dec_raw_list v = (case v of JArr vs \<Rightarrow> Some vs | JNull \<Rightarrow> Some [] | _ \<Rightarrow> None)"

fun all_some :: "'a option list \<Rightarrow> 'a list option" where
  "all_some [] = Some []"
| "all_some (None # xs) = None"
| "all_some (Some x # xs) = map_option ((#) x) (all_some xs)"

definition dec_list :: "(json \<Rightarrow> 'a option) \<Rightarrow> json \<Rightarrow> 'a list option" where
  "dec_list dec v = (case v of JArr vs \<Rightarrow> all_some (map dec vs) | JNull \<Rightarrow> Some [] | _ \<Rightarrow> None)"

text \<open>The fields of a struct: a name, and how a value of that member updates the struct.\<close>

type_synonym 'st fields = "(string \<times> (json \<Rightarrow> 'st \<Rightarrow> 'st option)) list"

definition find_field :: "'st fields \<Rightarrow> string \<Rightarrow> (json \<Rightarrow> 'st \<Rightarrow> 'st option) option" where
  "find_field fs k =
     (case map_get fs k of Some f \<Rightarrow> Some f
      | None \<Rightarrow> map_option snd (find (\<lambda>(n, _). equal_fold n k) fs))"

fun dec_members :: "'st fields \<Rightarrow> (string \<times> json) list \<Rightarrow> 'st \<Rightarrow> 'st option" where
  "dec_members fs [] st = Some st"
| "dec_members fs ((k, v) # ms) st =
     (case find_field fs k of None \<Rightarrow> dec_members fs ms st
      | Some f \<Rightarrow> (case f v st of None \<Rightarrow> None | Some st' \<Rightarrow> dec_members fs ms st'))"

definition dec_struct :: "'st fields \<Rightarrow> json \<Rightarrow> 'st \<Rightarrow> 'st option" where
  "dec_struct fs v st =
     (case v of JObj ms \<Rightarrow> dec_members fs ms st | JNull \<Rightarrow> Some st | _ \<Rightarrow> None)"

text \<open>A pointer to a struct, from the value already there.\<close>

definition dec_ptr :: "'st fields \<Rightarrow> 'st \<Rightarrow> json \<Rightarrow> 'st option \<Rightarrow> 'st option option" where
  "dec_ptr fs zero v old =
     (case v of JNull \<Rightarrow> Some None
      | _ \<Rightarrow> map_option Some (dec_struct fs v (case old of None \<Rightarrow> zero | Some st \<Rightarrow> st)))"

definition into :: "('a \<Rightarrow> 'st \<Rightarrow> 'st) \<Rightarrow> (json \<Rightarrow> 'a option) \<Rightarrow> json \<Rightarrow> 'st \<Rightarrow> 'st option" where
  "into put dec v st = map_option (\<lambda>x. put x st) (dec v)"

end
