(* ===== verification/Go_Float.thy ===== *)
theory Go_Float
  imports Go_Json_Struct Tnet_Decode
begin

text \<open>
  Floating-point literals of Go's \<^verbatim>\<open>strconv\<close>, as far as the code looks at them: whether
  \<^verbatim>\<open>ParseFloat(s, 64)\<close> succeeds, and whether the float64 a JSON number stands for is an integer of
  the range of \<^verbatim>\<open>int64\<close>. A literal is read as an exact fraction, and the rounding to 53 bits
  (half to even, gradual underflow, overflow to infinity) is done on the fraction.
\<close>

type_synonym fraction = "nat \<times> nat"

section \<open>Syntax\<close>

text \<open>\<^verbatim>\<open>underscoreOK\<close>: the state is the kind of the last character.\<close>

datatype seen = SeenStart | SeenDigit | SeenUnderscore | SeenOther

fun underscores :: "bool \<Rightarrow> seen \<Rightarrow> string \<Rightarrow> bool" where
  "underscores hex saw [] = (saw \<noteq> SeenUnderscore)"
| "underscores hex saw (c # s) =
     (if is_digit c \<or> (hex \<and> is_hex c) then underscores hex SeenDigit s
      else if c = CHR ''_'' then (if saw \<noteq> SeenDigit then False else underscores hex SeenUnderscore s)
      else if saw = SeenUnderscore then False
      else underscores hex SeenOther s)"

definition strip_sign :: "string \<Rightarrow> string" where
  "strip_sign s = (if has_prefix s ''+'' \<or> has_prefix s ''-'' then tl s else s)"

definition underscoreOK :: "string \<Rightarrow> bool" where
  "underscoreOK s =
     (case strip_sign s of
        z # b # r \<Rightarrow>
          if z = CHR ''0'' \<and> lower_char b \<in> {CHR ''b'', CHR ''o'', CHR ''x''}
          then underscores (lower_char b = CHR ''x'') SeenDigit r
          else underscores False SeenStart (z # b # r)
      | s1 \<Rightarrow> underscores False SeenStart s1)"

text \<open>The digits before the exponent, with at most one point.\<close>

fun scan_mantissa :: "bool \<Rightarrow> bool \<Rightarrow> string \<Rightarrow> string \<times> string" where
  "scan_mantissa hex dot [] = ([], [])"
| "scan_mantissa hex dot (c # s) =
     (if c = CHR ''_'' \<or> is_digit c \<or> (hex \<and> is_hex c)
      then (case scan_mantissa hex dot s of (m, r) \<Rightarrow> (c # m, r))
      else if c = CHR ''.'' \<and> \<not> dot then (case scan_mantissa hex True s of (m, r) \<Rightarrow> (c # m, r))
      else ([], c # s))"

text \<open>The exponent stops growing at 10000, as in \<^verbatim>\<open>readFloat\<close>.\<close>

definition exponent_val :: "string \<Rightarrow> nat" where
  "exponent_val s = foldl (\<lambda>e c. if c = CHR ''_'' then e else if e < 10000 then 10 * e + digit_val c else e) 0 s"

definition read_exponent :: "bool \<Rightarrow> string \<Rightarrow> int option" where
  "read_exponent hex r =
     (case r of [] \<Rightarrow> if hex then None else Some 0
      | c # q \<Rightarrow>
          if lower_char c \<noteq> (if hex then CHR ''p'' else CHR ''e'') then None
          else (case strip_sign q of [] \<Rightarrow> None
            | d # ds \<Rightarrow>
                if is_digit d \<and> list_all (\<lambda>x. is_digit x \<or> x = CHR ''_'') ds
                then Some (if has_prefix q ''-'' then - int (exponent_val (d # ds)) else int (exponent_val (d # ds)))
                else None))"

definition digits_val :: "nat \<Rightarrow> string \<Rightarrow> nat" where
  "digits_val base s = foldl (\<lambda>a c. base * a + hex_digit_val c) 0 s"

definition scaled :: "nat \<Rightarrow> nat \<Rightarrow> int \<Rightarrow> fraction" where
  "scaled m base e = (if e \<ge> 0 then (m * base ^ nat e, 1) else (m, base ^ nat (- e)))"

text \<open>The magnitude of a finite literal.\<close>

definition read_float :: "string \<Rightarrow> fraction option" where
  "read_float s =
     (let s1 = strip_sign s;
          hex = (length s1 > 2 \<and> s1 ! 0 = CHR ''0'' \<and> lower_char (s1 ! 1) = CHR ''x'')
      in case scan_mantissa hex False (if hex then drop 2 s1 else s1) of (mant, r) \<Rightarrow>
         (case cut (CHR ''.'') (filter (\<lambda>c. c \<noteq> CHR ''_'') mant) of (ip, fp) \<Rightarrow>
           let frac = (case fp of None \<Rightarrow> [] | Some f \<Rightarrow> f) in
           if ip @ frac = [] then None
           else (case read_exponent hex r of None \<Rightarrow> None
             | Some e \<Rightarrow>
                 if CHR ''_'' \<in> set s \<and> \<not> underscoreOK s then None
                 else if hex then Some (scaled (digits_val 16 (ip @ frac)) 2 (e - 4 * int (length frac)))
                 else Some (scaled (digits_val 10 (ip @ frac)) 10 (e - int (length frac))))))"

section \<open>Rounding\<close>

text \<open>The magnitudes that round to infinity.\<close>

definition f64_overflows :: "fraction \<Rightarrow> bool" where
  "f64_overflows q = (case q of (num, den) \<Rightarrow> num \<ge> (2 ^ 1024 - 2 ^ 970) * den)"

definition ParseFloat_ok :: "string \<Rightarrow> bool" where
  "ParseFloat_ok s =
     (if to_lower (strip_sign s) = ''inf'' \<or> to_lower (strip_sign s) = ''infinity'' \<or> to_lower s = ''nan'' then True
      else (case read_float s of None \<Rightarrow> False | Some q \<Rightarrow> \<not> f64_overflows q))"

text \<open>The power of two that brings a magnitude to 53 bits; it stops at the least subnormal.\<close>

fun f64_shift :: "nat \<Rightarrow> nat \<Rightarrow> nat \<Rightarrow> nat" where
  "f64_shift 0 num den = 0"
| "f64_shift (Suc k) num den = (if num \<ge> 2 ^ 52 * den then 0 else Suc (f64_shift k (2 * num) den))"

definition round_half_even :: "nat \<Rightarrow> nat \<Rightarrow> nat" where
  "round_half_even num den =
     (let q = num div den; r = num mod den in if 2 * r > den \<or> (2 * r = den \<and> odd q) then q + 1 else q)"

text \<open>Whether the float64 next to the fraction is an integer that \<^verbatim>\<open>int64\<close> holds; the
  constant \<^verbatim>\<open>math.MaxInt64\<close> is rounded to \<open>2^63\<close> when it is compared with a float.\<close>

definition f64_int64 :: "fraction \<Rightarrow> bool" where
  "f64_int64 q = (case q of (num, den) \<Rightarrow>
     num \<le> (2 ^ 63 + 1024) * den
     \<and> (let t = f64_shift 1074 num den in 2 ^ t dvd round_half_even (num * 2 ^ t) den))"

section \<open>Integers are floats\<close>

lemma scan_digits: "list_all is_digit s \<Longrightarrow> scan_mantissa hex dot s = (s, [])"
  by (induction s) auto

lemma digit_marks: "is_digit c \<Longrightarrow> c \<noteq> CHR ''_'' \<and> c \<noteq> CHR ''.'' \<and> c \<noteq> CHR ''x'' \<and> lower_char c = c"
  by (auto simp: is_digit_def in_range_def lower_char_def is_upper_def byte_at_def)

lemma digit_signs: "is_digit c \<Longrightarrow> c \<noteq> CHR ''+'' \<and> c \<noteq> CHR ''-''"
  by (auto simp: is_digit_def in_range_def byte_at_def)

lemma digits_val_atoi: "list_all is_digit s \<Longrightarrow> digits_val 10 s = atoi s"
proof -
  have "list_all is_digit s \<Longrightarrow> foldl (\<lambda>a c. 10 * a + hex_digit_val c) n s = foldl (\<lambda>a c. 10 * a + digit_val c) n s" for n
    by (induction s arbitrary: n) (auto simp: hex_digit_val_def digit_val_def)
  then show "list_all is_digit s \<Longrightarrow> digits_val 10 s = atoi s" by (simp add: digits_val_def atoi_def)
qed

lemma read_float_digits:
  assumes "list_all is_digit s" "s \<noteq> []" "t = s \<or> t = CHR ''-'' # s \<or> t = CHR ''+'' # s"
  shows "read_float t = Some (atoi s, 1)"
proof -
  have marks: "\<forall>c\<in>set s. c \<noteq> CHR ''_'' \<and> c \<noteq> CHR ''.'' \<and> lower_char c \<noteq> CHR ''x''"
  proof
    fix c
    assume "c \<in> set s"
    then have "is_digit c" using assms(1) by (simp add: list_all_iff)
    then show "c \<noteq> CHR ''_'' \<and> c \<noteq> CHR ''.'' \<and> lower_char c \<noteq> CHR ''x''" using digit_marks [of c] by simp
  qed
  obtain c r where s: "s = c # r" using assms(2) by (cases s) simp_all
  have "c \<noteq> CHR ''+'' \<and> c \<noteq> CHR ''-''" using assms(1) s digit_signs [of c] by simp
  then have sign: "strip_sign t = s" using assms(3) s by (elim disjE) (simp_all add: strip_sign_def has_prefix_def)
  have hex: "\<not> (length s > 2 \<and> s ! 0 = CHR ''0'' \<and> lower_char (s ! 1) = CHR ''x'')"
  proof
    assume a: "length s > 2 \<and> s ! 0 = CHR ''0'' \<and> lower_char (s ! 1) = CHR ''x''"
    then have "s ! 1 \<in> set s" by (intro nth_mem) simp
    then show False using a marks by blast
  qed
  have us: "CHR ''_'' \<notin> set t" using marks assms(3) by (elim disjE) fastforce+
  have f: "filter (\<lambda>c. c \<noteq> CHR ''_'') s = s" using marks by (simp add: filter_id_conv)
  have c: "cut (CHR ''.'') s = (s, None)" using marks by (intro cut_absent) blast
  have scan: "scan_mantissa False False s = (s, [])" using assms(1) by (rule scan_digits)
  have exponent: "read_exponent False [] = Some 0" by (simp add: read_exponent_def)
  have val: "scaled (digits_val 10 s) 10 0 = (atoi s, 1)" using assms(1) by (simp add: scaled_def digits_val_atoi)
  show ?thesis
    unfolding read_float_def Let_def sign using hex us assms(2)
    by (simp only: if_False scan prod.case f c option.case append_Nil2 exponent val list.size simp_thms diff_0_right mult_zero_right of_nat_0)
qed

lemma parseInt_ParseFloat: "parseInt s \<noteq> None \<Longrightarrow> ParseFloat_ok s"
proof -
  assume p: "parseInt s \<noteq> None"
  let ?ds = "if has_prefix s ''-'' \<or> has_prefix s ''+'' then tl s else s"
  have ds: "?ds \<noteq> []" "list_all is_digit ?ds"
    using p unfolding parseInt_def Let_def list_all_iff by (metis (lifting))+
  have n: "atoi ?ds \<le> 2 ^ 63"
    using p ds unfolding parseInt_def Let_def by (auto split: if_splits)
  have "s = ?ds \<or> s = CHR ''-'' # ?ds \<or> s = CHR ''+'' # ?ds"
    by (cases s) (auto simp: has_prefix_def)
  then have r: "read_float s = Some (atoi ?ds, 1)" using read_float_digits ds by blast
  have "(2::nat) ^ 63 < 2 ^ 1024 - 2 ^ 970" by (simp add: less_diff_conv)
  then have "\<not> f64_overflows (atoi ?ds, 1)" using n by (simp only: f64_overflows_def prod.case mult_1_right)
  then show "ParseFloat_ok s" by (simp add: ParseFloat_ok_def r)
qed

end
