(* ===== verification/Go_Query.thy ===== *)
theory Go_Query
  imports Go_Url
begin

text \<open>
  Query strings, \<^verbatim>\<open>url.Values\<close> of \<^verbatim>\<open>net/url\<close>: \<open>parse_query\<close> is
  \<^verbatim>\<open>URL.Query\<close> (malformed pairs are dropped), \<open>query_encode\<close> is \<^verbatim>\<open>Values.Encode\<close>.
\<close>

fun query_unescape :: "string \<Rightarrow> string option" where
  "query_unescape [] = Some []"
| "query_unescape (c # s) =
     (if c = CHR ''%'' then
        (case s of h1 # h2 # r \<Rightarrow>
           if is_hex h1 \<and> is_hex h2 then map_option ((#) (unhex2 h1 h2)) (query_unescape r) else None
         | _ \<Rightarrow> None)
      else if c = CHR ''+'' then map_option ((#) (CHR '' '')) (query_unescape s)
      else map_option ((#) c) (query_unescape s))"

definition query_escape :: "string \<Rightarrow> string" where
  "query_escape s = concat (map (\<lambda>c.
     if is_alnum c \<or> c \<in> set ''-_.~'' then [c]
     else if c = CHR '' '' then ''+''
     else [CHR ''%'', hex_digit (byte_at c div 16), hex_digit (byte_at c mod 16)]) s)"

definition query_pair :: "string \<Rightarrow> (string, string list) gomap \<Rightarrow> (string, string list) gomap" where
  "query_pair kv m =
     (if CHR '';'' \<in> set kv \<or> kv = [] then m
      else (case cut (CHR ''='') kv of (k, v) \<Rightarrow>
        (case (query_unescape k, query_unescape (case v of None \<Rightarrow> [] | Some x \<Rightarrow> x)) of
           (Some k', Some v') \<Rightarrow>
             map_put k' ((case map_get m k' of None \<Rightarrow> [] | Some vs \<Rightarrow> vs) @ [v']) m
         | _ \<Rightarrow> m)))"

definition parse_query :: "string \<Rightarrow> (string, string list) gomap" where
  "parse_query q = fold query_pair (split_on (CHR ''&'') q) []"

definition query_encode :: "(string, string list) gomap \<Rightarrow> string" where
  "query_encode m =
     join ''&'' (concat (map (\<lambda>k. map (\<lambda>v. query_escape k @ ''='' @ query_escape v)
       (case map_get m k of None \<Rightarrow> [] | Some vs \<Rightarrow> vs)) (sort (map fst m))))"

lemma query_pair_wf: "map_wf m \<Longrightarrow> map_wf (query_pair kv m)"
  by (simp add: query_pair_def split: prod.split option.split)

lemma parse_query_wf: "map_wf (parse_query q)"
proof -
  have "map_wf m \<Longrightarrow> map_wf (fold query_pair kvs m)" for kvs m
    by (induction kvs arbitrary: m) (simp_all add: query_pair_wf)
  then show ?thesis by (simp add: parse_query_def)
qed

end
