(* ===== verification/Rest_Schema.thy ===== *)
theory Rest_Schema
  imports Go_Float Go_Query
begin

text \<open>
  Schemas inferred from observed bodies: \<^verbatim>\<open>schema.go\<close> and \<^verbatim>\<open>form.go\<close> of
  \<^verbatim>\<open>pkg/generate/rest\<close>, and the type inference of query parameters in \<^verbatim>\<open>openapi.go\<close>.
  Of the schema objects of the OpenAPI library only the fields the code sets are kept: a schema has at
  most one type name, and \<open>SProperties\<close> tells a nil map from an empty one. The code mutates a schema
  only while it holds the one reference to it, so the mutations are functions.
\<close>

section \<open>Schemas\<close>

text \<open>A \<^verbatim>\<open>*SchemaRef\<close> that is not nil: a reference by name, or a value.\<close>

datatype 's schema_ref = SchemaRef (Ref: string) (RefValue: "'s option")

datatype schema = Schema
  (SType: "string option")
  (SFormat: string)
  (SNullable: bool)
  (SProperties: "(string \<times> schema schema_ref) list option")
  (SItems: "schema schema_ref option")

type_synonym sref = "schema schema_ref"
type_synonym schemas = "(string, sref) gomap"

definition inline :: "schema \<Rightarrow> sref" where
  "inline s = SchemaRef [] (Some s)"

definition typed :: "string \<Rightarrow> sref" where
  "typed t = inline (Schema (Some t) [] False None None)"

definition object_of :: "schemas \<Rightarrow> sref" where
  "object_of props = inline (Schema (Some ''object'') [] False (Some props) None)"

text \<open>The properties of a schema that has a value; \<open>None\<close> is nil.\<close>

definition props_of :: "sref \<Rightarrow> schemas option" where
  "props_of r = (case RefValue r of None \<Rightarrow> None | Some s \<Rightarrow> SProperties s)"

definition type_of :: "sref \<Rightarrow> string option" where
  "type_of r = (case RefValue r of None \<Rightarrow> None | Some s \<Rightarrow> SType s)"

definition with_props :: "sref \<Rightarrow> schemas \<Rightarrow> sref" where
  "with_props r props =
     (case RefValue r of None \<Rightarrow> r
      | Some s \<Rightarrow> SchemaRef (Ref r) (Some (Schema (SType s) (SFormat s) (SNullable s) (Some props) (SItems s))))"

section \<open>Types of query parameters\<close>

definition inferQueryParamItemsType :: "string list \<Rightarrow> string" where
  "inferQueryParamItemsType values =
     (if length values = 0 then ''string''
      else
        let allInt = list_all (\<lambda>v. parseInt v \<noteq> None) values;
            allFloat = list_all ParseFloat_ok values;
            allBool = list_all (\<lambda>v. \<not> (v \<noteq> ''true'' \<and> v \<noteq> ''false'')) values
        in if allInt then ''integer'' else if allFloat then ''number''
           else if allBool then ''boolean'' else ''string'')"

definition inferQueryParamType :: "string \<Rightarrow> string" where
  "inferQueryParamType value = inferQueryParamItemsType [value]"

section \<open>JSON bodies\<close>

definition maxBodySize :: nat where "maxBodySize = 10 * 1024 * 1024"
definition maxSchemaDepth :: nat where "maxSchemaDepth = 20"

text \<open>A number whose float64 is infinite makes \<^verbatim>\<open>json.Unmarshal\<close> fail.\<close>

fun numbers_ok :: "json \<Rightarrow> bool" where
  "numbers_ok (JNum s) = (case read_float s of None \<Rightarrow> False | Some q \<Rightarrow> \<not> f64_overflows q)"
| "numbers_ok (JArr vs) = list_all numbers_ok vs"
| "numbers_ok (JObj ms) = list_all (\<lambda>(k, v). numbers_ok v) ms"
| "numbers_ok v = True"

definition unmarshal_interface :: "bytes \<Rightarrow> json option" where
  "unmarshal_interface body =
     (case unmarshal_raw body of None \<Rightarrow> None
      | Some v \<Rightarrow> if numbers_ok v then Some (json_maps v) else None)"

definition number_type :: "string \<Rightarrow> string" where
  "number_type s = (case read_float s of None \<Rightarrow> ''number''
     | Some q \<Rightarrow> if f64_int64 q then ''integer'' else ''number'')"

definition capped :: "nat \<Rightarrow> sref \<Rightarrow> sref" where
  "capped depth s = (if depth \<ge> maxSchemaDepth then typed ''object'' else s)"

fun inferSchemaFromValue :: "json \<Rightarrow> nat \<Rightarrow> sref" where
  "inferSchemaFromValue JNull depth = capped depth (inline (Schema None [] True None None))"
| "inferSchemaFromValue (JStr _) depth = capped depth (typed ''string'')"
| "inferSchemaFromValue (JNum v) depth = capped depth (typed (number_type v))"
| "inferSchemaFromValue (JBool _) depth = capped depth (typed ''boolean'')"
| "inferSchemaFromValue (JArr []) depth = capped depth (typed ''array'')"
| "inferSchemaFromValue (JArr (v # _)) depth =
     capped depth (inline (Schema (Some ''array'') [] False None (Some (inferSchemaFromValue v (depth + 1)))))"
| "inferSchemaFromValue (JObj m) depth =
     capped depth (object_of (map (\<lambda>(key, val). (key, inferSchemaFromValue val (depth + 1))) m))"

definition InferSchema :: "bytes \<Rightarrow> sref option" where
  "InferSchema body =
     (if length body = 0 then None
      else if length body > maxBodySize then None
      else (case unmarshal_interface body of None \<Rightarrow> None | Some data \<Rightarrow> Some (inferSchemaFromValue data 0)))"

section \<open>Merging\<close>

definition schemaTypesConflict :: "sref \<Rightarrow> sref \<Rightarrow> bool" where
  "schemaTypesConflict a b =
     (case (type_of a, type_of b) of (Some s, Some t) \<Rightarrow> s \<noteq> t | _ \<Rightarrow> False)"

definition merge_property :: "string \<times> sref \<Rightarrow> schemas \<Rightarrow> schemas" where
  "merge_property kv props =
     (case kv of (k, v) \<Rightarrow>
        (case map_get props k of
           Some existing \<Rightarrow> if schemaTypesConflict existing v then map_put k (typed ''string'') props else props
         | None \<Rightarrow> map_put k v props))"

definition mergeObjectSchemas :: "sref option \<Rightarrow> sref option \<Rightarrow> sref option" where
  "mergeObjectSchemas base overlay =
     (case (base, overlay) of
        (None, _) \<Rightarrow> overlay
      | (_, None) \<Rightarrow> base
      | (Some b, Some v) \<Rightarrow>
          (case (props_of b, props_of v) of
             (Some bp, Some vp) \<Rightarrow> Some (with_props b (fold merge_property vp bp))
           | _ \<Rightarrow> base))"

definition mergeJSONBodies :: "bytes list \<Rightarrow> sref option" where
  "mergeJSONBodies bodies =
     fold (\<lambda>body merged.
         if length body = 0 then merged
         else (case InferSchema body of None \<Rightarrow> merged | Some s \<Rightarrow> mergeObjectSchemas merged (Some s)))
       bodies None"

section \<open>Form bodies\<close>

text \<open>\<^verbatim>\<open>url.ParseQuery\<close>: one malformed pair is an error.\<close>

definition query_pair_ok :: "string \<Rightarrow> bool" where
  "query_pair_ok kv =
     (if CHR '';'' \<in> set kv then False
      else if kv = [] then True
      else (case cut (CHR ''='') kv of (k, v) \<Rightarrow>
        query_unescape k \<noteq> None \<and> query_unescape (case v of None \<Rightarrow> [] | Some x \<Rightarrow> x) \<noteq> None))"

definition ParseQuery :: "string \<Rightarrow> (string, string list) gomap option" where
  "ParseQuery q = (if list_all query_pair_ok (split_on (CHR ''&'') q) then Some (parse_query q) else None)"

text \<open>A part of a multipart body; \<open>PartContent\<close> is what can be read of it. The standard library's
  readers are fields of \<open>form_env\<close>: \<^verbatim>\<open>mime.ParseMediaType\<close>, and the parts that
  \<^verbatim>\<open>multipart.Reader.NextPart\<close> returns before its first error.\<close>

record part =
  PartFormName :: string
  PartFileName :: string
  PartContent :: bytes

record form_env =
  ParseMediaType :: "string \<Rightarrow> (string \<times> (string, string) gomap) option"
  NextParts :: "bytes \<Rightarrow> string \<Rightarrow> part list"

definition maxURLEncodedBodySize :: nat where "maxURLEncodedBodySize = 10 * 1024 * 1024"
definition maxFormFields :: nat where "maxFormFields = 1000"
definition maxMultipartBodySize :: nat where "maxMultipartBodySize = 10 * 1024 * 1024"
definition maxMultipartParts :: nat where "maxMultipartParts = 1000"

definition ParseURLEncodedForm :: "bytes \<Rightarrow> sref option" where
  "ParseURLEncodedForm body =
     (if length body = 0 then None
      else if length body > maxURLEncodedBodySize then None
      else (case ParseQuery body of None \<Rightarrow> None
        | Some values \<Rightarrow>
            if length values = 0 then None
            else if length values > maxFormFields then None
            else Some (object_of (map (\<lambda>(key, vals). (key, typed (inferQueryParamType (vals ! 0)))) values))))"

definition part_schema :: "part \<Rightarrow> sref" where
  "part_schema p =
     (if PartFileName p \<noteq> [] then inline (Schema (Some ''string'') ''binary'' False None None)
      else typed (inferQueryParamType (take 4096 (PartContent p))))"

fun multipart_loop :: "nat \<Rightarrow> part list \<Rightarrow> schemas \<Rightarrow> schemas" where
  "multipart_loop partCount [] props = props"
| "multipart_loop partCount (p # parts) props =
     (if partCount + 1 > maxMultipartParts then props
      else if PartFormName p = [] then multipart_loop (partCount + 1) parts props
      else multipart_loop (partCount + 1) parts (map_put (PartFormName p) (part_schema p) props))"

definition ParseMultipartForm :: "('a) form_env_scheme \<Rightarrow> bytes \<Rightarrow> string \<Rightarrow> sref option" where
  "ParseMultipartForm env body boundary =
     (if boundary = [] then None
      else if length body > maxMultipartBodySize then None
      else
        let props = multipart_loop 0 (NextParts env body boundary) []
        in if length props = 0 then None else Some (object_of props))"

definition extractBoundary :: "('a) form_env_scheme \<Rightarrow> string \<Rightarrow> string" where
  "extractBoundary env contentType =
     (case ParseMediaType env contentType of None \<Rightarrow> []
      | Some (_, params) \<Rightarrow> (case map_get params ''boundary'' of None \<Rightarrow> [] | Some b \<Rightarrow> b))"

definition mergeURLEncodedBodies :: "bytes list \<Rightarrow> sref option" where
  "mergeURLEncodedBodies bodies =
     fold (\<lambda>body merged. mergeObjectSchemas merged (ParseURLEncodedForm body)) bodies None"

definition mergeMultipartBodies :: "('a) form_env_scheme \<Rightarrow> bytes list \<Rightarrow> string list \<Rightarrow> sref option" where
  "mergeMultipartBodies env bodies contentTypes =
     fold (\<lambda>(i, body) merged.
         let ct = (if i < length contentTypes then contentTypes ! i else [])
         in mergeObjectSchemas merged (ParseMultipartForm env body (extractBoundary env ct)))
       (zip [0..<length bodies] bodies) None"

end
