(* ===== verification/Rest_Schema_Spec.thy ===== *)
theory Rest_Schema_Spec
  imports Rest_Schema
begin

text \<open>
  What schema inference promises: the type of a parameter is the least one that fits all its values, an
  inferred schema accepts the value it was inferred from and is of bounded height, and merging bodies is a
  union whose result does not depend on the order of the bodies.
\<close>

section \<open>Types of query parameters\<close>

text \<open>The least type above two types, in the order integer, number, string and boolean, string.\<close>

definition join_types :: "string \<Rightarrow> string \<Rightarrow> string" where
  "join_types s t =
     (if s = t then s
      else if s \<in> {''integer'', ''number''} \<and> t \<in> {''integer'', ''number''} then ''number''
      else ''string'')"

lemma bool_not_float: "ParseFloat_ok ''true'' = False" "ParseFloat_ok ''false'' = False"
  by code_simp+

lemma bool_not_int: "parseInt ''true'' = None" "parseInt ''false'' = None"
  by code_simp+

definition is_bool_text :: "string \<Rightarrow> bool" where
  "is_bool_text v = (v = ''true'' \<or> v = ''false'')"

definition pick_type :: "bool \<Rightarrow> bool \<Rightarrow> bool \<Rightarrow> string" where
  "pick_type allInt allFloat allBool =
     (if allInt then ''integer'' else if allFloat then ''number'' else if allBool then ''boolean'' else ''string'')"

definition is_int_text :: "string \<Rightarrow> bool" where
  "is_int_text v = (parseInt v \<noteq> None)"

lemma items_type_Cons:
  "inferQueryParamItemsType (v # vs) =
     pick_type (list_all is_int_text (v # vs)) (list_all ParseFloat_ok (v # vs)) (list_all is_bool_text (v # vs))"
proof -
  have "(\<lambda>v. \<not> (v \<noteq> ''true'' \<and> v \<noteq> ''false'')) = is_bool_text" by (auto simp: is_bool_text_def)
  moreover have "(\<lambda>v. parseInt v \<noteq> None) = is_int_text" by (auto simp: is_int_text_def)
  ultimately show ?thesis unfolding inferQueryParamItemsType_def Let_def pick_type_def by simp
qed

lemma is_bool_text_not_float: "is_bool_text v \<Longrightarrow> \<not> ParseFloat_ok v"
  using bool_not_float unfolding is_bool_text_def by blast

lemma pick_type_join:
  "(i1 \<longrightarrow> f1) \<Longrightarrow> (i2 \<longrightarrow> f2) \<Longrightarrow> (b1 \<longrightarrow> \<not> f1) \<Longrightarrow> (b2 \<longrightarrow> \<not> f2) \<Longrightarrow>
    pick_type (i1 \<and> i2) (f1 \<and> f2) (b1 \<and> b2) = join_types (pick_type i1 f1 b1) (pick_type i2 f2 b2)"
  by (cases i1; cases i2; cases f1; cases f2; cases b1; cases b2; simp add: pick_type_def join_types_def)

text \<open>The type of a parameter observed in two batches is the join of the types of the batches, so that
  the inferred type is the least one that fits every value, whatever their order.\<close>

theorem inferQueryParamItemsType_join:
  "inferQueryParamItemsType ((v # vs) @ (w # ws))
     = join_types (inferQueryParamItemsType (v # vs)) (inferQueryParamItemsType (w # ws))"
proof -
  have int: "list_all is_int_text xs \<longrightarrow> list_all ParseFloat_ok xs" for xs
    using parseInt_ParseFloat unfolding list_all_iff is_int_text_def by blast
  have bool: "list_all is_bool_text (x # xs) \<longrightarrow> \<not> list_all ParseFloat_ok (x # xs)" for x xs
    using is_bool_text_not_float unfolding list_all_iff by (meson list.set_intros(1))
  have app: "list_all p (v # (vs @ w # ws)) = (list_all p (v # vs) \<and> list_all p (w # ws))" for p :: "string \<Rightarrow> bool"
    by (simp add: conj_assoc)
  show ?thesis
    unfolding append_Cons items_type_Cons app by (intro pick_type_join int bool)
qed

section \<open>Inferred schemas\<close>

text \<open>Acceptance of a value by a schema in the sense of OpenAPI 3.0.\<close>

fun accepts :: "sref \<Rightarrow> json \<Rightarrow> bool" where
  "accepts (SchemaRef r None) v = False"
| "accepts (SchemaRef r (Some s)) JNull = SNullable s"
| "accepts (SchemaRef r (Some s)) (JStr _) = (SType s \<in> {None, Some ''string''})"
| "accepts (SchemaRef r (Some s)) (JBool _) = (SType s \<in> {None, Some ''boolean''})"
| "accepts (SchemaRef r (Some s)) (JNum n) =
     (SType s \<in> {None, Some ''number''} \<or> (SType s = Some ''integer'' \<and> number_type n = ''integer''))"
| "accepts (SchemaRef r (Some s)) (JArr vs) =
     (SType s \<in> {None, Some ''array''}
      \<and> (case SItems s of None \<Rightarrow> True | Some i \<Rightarrow> list_all (\<lambda>v. accepts i v) vs))"
| "accepts (SchemaRef r (Some s)) (JObj ms) =
     (SType s \<in> {None, Some ''object''}
      \<and> list_all (\<lambda>(k, v). case map_get (case SProperties s of None \<Rightarrow> [] | Some ps \<Rightarrow> ps) k of
            None \<Rightarrow> True | Some p \<Rightarrow> accepts p v) ms)"

text \<open>A value nested at most \<open>n\<close> deep whose arrays have elements of one schema, the schema of the
  first being the only one the code looks at.\<close>

fun uniform :: "nat \<Rightarrow> nat \<Rightarrow> json \<Rightarrow> bool" where
  "uniform n d v =
     (if n = 0 then False
      else (case v of
          JArr vs \<Rightarrow> list_all (\<lambda>v. uniform (n - 1) (d + 1) v
            \<and> inferSchemaFromValue v (d + 1) = inferSchemaFromValue (hd vs) (d + 1)) vs
        | JObj ms \<Rightarrow> list_all (\<lambda>(k, v). uniform (n - 1) (d + 1) v) ms
        | _ \<Rightarrow> True))"

declare uniform.simps [simp del]

text \<open>Decoded objects are maps.\<close>

fun json_wf :: "json \<Rightarrow> bool" where
  "json_wf (JArr vs) = list_all json_wf vs"
| "json_wf (JObj ms) = (map_wf ms \<and> list_all (\<lambda>(k, v). json_wf v) ms)"
| "json_wf v = True"

lemma map_put_subset: "set (map_put k v m) \<subseteq> insert (k, v) (set m)"
  unfolding map_put_def by (induction m) auto

lemma fold_put_values:
  "\<forall>(k, v)\<in>set m \<union> set ms. P v \<Longrightarrow> \<forall>(k, v)\<in>set (fold (\<lambda>(k, v) m. map_put k v m) ms m). P v"
proof (induction ms arbitrary: m)
  case (Cons kv ms)
  obtain k v where kv: "kv = (k, v)" by (cases kv)
  have "\<forall>(k, v)\<in>set (map_put k v m). P v"
    using Cons.prems kv map_put_subset [of k v m] by fastforce
  then show ?case using Cons.IH [of "map_put k v m"] Cons.prems kv by auto
qed auto

lemma fold_put_wf: "map_wf m \<Longrightarrow> map_wf (fold (\<lambda>(k, v) m. map_put k v m) ms m)"
  by (induction ms arbitrary: m) auto

lemma json_maps_wf: "json_wf (json_maps v)"
proof (induction v rule: json_maps.induct)
  case (2 ms)
  have "\<forall>(k, v)\<in>set (map (\<lambda>(k, v). (k, json_maps v)) ms). json_wf v" using 2 by auto
  then have "\<forall>(k, v)\<in>set (fold (\<lambda>(k, v) m. map_put k v m) (map (\<lambda>(k, v). (k, json_maps v)) ms) []). json_wf v"
    by (intro fold_put_values) simp
  then show ?case by (simp only: json_maps.simps json_wf.simps fold_put_wf map_wf_Nil list_all_iff simp_thms)
qed (simp_all add: list_all_iff)

lemma uniform_accepts:
  "uniform n d v \<Longrightarrow> json_wf v \<Longrightarrow> d + n \<le> maxSchemaDepth \<Longrightarrow> accepts (inferSchemaFromValue v d) v"
proof (induction n arbitrary: d v)
  case (Suc n)
  then have d: "\<not> maxSchemaDepth \<le> d" by simp
  have IH: "accepts (inferSchemaFromValue w (d + 1)) w" if "uniform n (d + 1) w" "json_wf w" for w
    using Suc.IH [of "d + 1" w] Suc.prems(3) that by simp
  show ?case
  proof (cases v)
    case (JArr vs)
    show ?thesis
    proof (cases vs)
      case (Cons x ws)
      have "accepts (inferSchemaFromValue x (d + 1)) w" if "w \<in> set vs" for w
        using Suc.prems(1,2) that IH [of w] unfolding JArr Cons
        by (fastforce simp: list_all_iff uniform.simps [of "Suc n" d "JArr (x # ws)"])
      then show ?thesis using JArr Cons d by (simp add: capped_def inline_def list_all_iff)
    qed (use JArr d in \<open>simp add: capped_def typed_def inline_def\<close>)
  next
    case (JObj ms)
    have wf: "map_wf ms" and u: "\<forall>(k, w)\<in>set ms. uniform n (d + 1) w \<and> json_wf w"
      using Suc.prems(1,2) JObj by (auto simp: list_all_iff uniform.simps [of "Suc n" d "JObj ms"])
    have m: "map_get (map (\<lambda>(k, v). (k, inferSchemaFromValue v (d + 1))) ms) k
        = map_option (\<lambda>v. inferSchemaFromValue v (d + 1)) (map_get ms k)" for k
      by (induction ms) auto
    have "case map_get (map (\<lambda>(k, v). (k, inferSchemaFromValue v (d + 1))) ms) k of
        None \<Rightarrow> True | Some p \<Rightarrow> accepts p w" if "(k, w) \<in> set ms" for k w
      using map_get_SomeI [OF wf that] u that IH [of w] unfolding m by auto
    then show ?thesis using d unfolding JObj
      by (auto simp: capped_def object_of_def inline_def list_all_iff)
  qed (use d in \<open>simp_all add: capped_def typed_def inline_def number_type_def split: option.splits\<close>)
qed (simp add: uniform.simps)

fun height_at_most :: "nat \<Rightarrow> sref \<Rightarrow> bool" where
  "height_at_most 0 r = False"
| "height_at_most (Suc n) r =
     (case RefValue r of None \<Rightarrow> True
      | Some s \<Rightarrow>
          (case SItems s of None \<Rightarrow> True | Some i \<Rightarrow> height_at_most n i)
          \<and> (case SProperties s of None \<Rightarrow> True | Some ps \<Rightarrow> list_all (\<lambda>(k, p). height_at_most n p) ps))"

lemma height_typed [simp]: "height_at_most (Suc n) (typed t)"
  by (simp add: typed_def inline_def)

declare height_at_most.simps(2) [simp del]

lemma inferred_cap: "maxSchemaDepth \<le> d \<Longrightarrow> inferSchemaFromValue v d = typed ''object''"
  by (induction v d rule: inferSchemaFromValue.induct) (simp_all add: capped_def)

lemma inferred_height: "d + n = maxSchemaDepth \<Longrightarrow> height_at_most (Suc n) (inferSchemaFromValue v d)"
proof (induction n arbitrary: d v)
  case 0
  then have "maxSchemaDepth \<le> d" by simp
  then show ?case by (simp add: inferred_cap)
next
  case (Suc n)
  then have d: "\<not> maxSchemaDepth \<le> d" and IH: "\<And>w. height_at_most (Suc n) (inferSchemaFromValue w (d + 1))" by simp_all
  show ?case
    by (cases "(v, d)" rule: inferSchemaFromValue.cases)
      (use d IH in \<open>auto simp: capped_def object_of_def inline_def list_all_iff height_at_most.simps(2) [of "Suc n"]\<close>)
qed

text \<open>The schema inferred from a JSON body accepts that body, when its arrays have elements of one
  schema and it is nested less than 20 deep.\<close>

theorem InferSchema_accepts:
  assumes "unmarshal_interface body = Some v" "length body \<le> maxBodySize" "uniform maxSchemaDepth 0 v"
  shows "\<exists>r. InferSchema body = Some r \<and> accepts r v"
proof -
  have "unmarshal_interface [] = None" by code_simp
  then have "length body \<noteq> 0" using assms(1) by auto
  moreover have "json_wf v"
    using assms(1) json_maps_wf by (auto simp: unmarshal_interface_def split: option.splits if_splits)
  then have "accepts (inferSchemaFromValue v 0) v" using uniform_accepts assms(3) by simp
  ultimately show ?thesis using assms(1,2) by (simp add: InferSchema_def)
qed

definition sample_body :: bytes where
  "sample_body = ''{'' @ [CHR 0x22] @ ''a'' @ [CHR 0x22] @ '':[true,false],'' @ [CHR 0x22] @ ''b'' @ [CHR 0x22] @ '':null}''"

lemma InferSchema_accepts_witness:
  "\<exists>r. InferSchema sample_body = Some r \<and> accepts r (JObj [(''a'', JArr [JBool True, JBool False]), (''b'', JNull)])"
proof (rule InferSchema_accepts)
  show "unmarshal_interface sample_body = Some (JObj [(''a'', JArr [JBool True, JBool False]), (''b'', JNull)])"
    by code_simp
next
  show "length sample_body \<le> maxBodySize" by (simp add: sample_body_def maxBodySize_def)
next
  show "uniform maxSchemaDepth 0 (JObj [(''a'', JArr [JBool True, JBool False]), (''b'', JNull)])"
    by (simp add: uniform.simps maxSchemaDepth_def capped_def)
qed

text \<open>However deep a hostile body is nested, the schema inferred from it is at most 21 high.\<close>

theorem InferSchema_height:
  "case InferSchema body of None \<Rightarrow> True | Some r \<Rightarrow> height_at_most (maxSchemaDepth + 1) r"
proof -
  have "height_at_most (maxSchemaDepth + 1) (inferSchemaFromValue v 0)" for v
    using inferred_height [of 0 maxSchemaDepth v] by simp
  then show ?thesis by (simp add: InferSchema_def split: option.split)
qed

text \<open>At the last level everything is an object, so a scalar there is not accepted; and an array of two
  kinds of elements is accepted only if the first one is representative.\<close>

lemma accepts_corners:
  "\<not> accepts (inferSchemaFromValue (JArr [JBool True, JStr ''a'']) 0) (JArr [JBool True, JStr ''a''])"
  "\<not> accepts (inferSchemaFromValue (JStr ''a'') maxSchemaDepth) (JStr ''a'')"
  by code_simp+

text \<open>\<open>2^63\<close> does not fit \<^verbatim>\<open>int64\<close>, but is taken for an integer.\<close>

lemma f64_shift_large: "num \<ge> 2 ^ 52 * den \<Longrightarrow> f64_shift k num den = 0"
  by (cases k) simp_all

lemma number_type_max: "number_type ''9223372036854775808'' = ''integer''"
proof -
  have "list_all is_digit ''9223372036854775808''" by code_simp
  then have "read_float ''9223372036854775808'' = Some (atoi ''9223372036854775808'', 1)"
    by (rule read_float_digits [OF _ list.distinct(2) disjI1 [OF refl]])
  moreover have "atoi ''9223372036854775808'' = 9223372036854775808"
    by (simp add: atoi_def digit_val_def byte_at_def)
  ultimately show ?thesis by (simp add: number_type_def f64_int64_def f64_shift_large)
qed

section \<open>Merging\<close>

definition merged_property :: "sref option \<Rightarrow> sref option \<Rightarrow> sref option" where
  "merged_property old new =
     (case (old, new) of
        (None, _) \<Rightarrow> new
      | (Some e, None) \<Rightarrow> Some e
      | (Some e, Some v) \<Rightarrow> Some (if schemaTypesConflict e v then typed ''string'' else e))"

lemma merge_property_get:
  "map_get (merge_property (k, v) props) k' =
     (if k' = k then merged_property (map_get props k) (Some v) else map_get props k')"
  by (auto simp: merge_property_def merged_property_def split: option.splits)

lemma merge_property_wf: "map_wf props \<Longrightarrow> map_wf (merge_property kv props)"
  by (auto simp: merge_property_def split: option.splits prod.splits)

lemma fold_merge_wf: "map_wf props \<Longrightarrow> map_wf (fold merge_property kvs props)"
  by (induction kvs arbitrary: props) (simp_all add: merge_property_wf)

lemma fold_merge_get:
  "map_wf kvs \<Longrightarrow> map_get (fold merge_property kvs props) k = merged_property (map_get props k) (map_get kvs k)"
proof (induction kvs arbitrary: props)
  case Nil
  then show ?case by (simp add: merged_property_def split: option.split)
next
  case (Cons kv kvs)
  obtain k0 v0 where kv: "kv = (k0, v0)" by (cases kv)
  have absent: "map_get kvs k0 = None" using Cons.prems kv by (simp add: map_wf_Cons map_of_eq_None_iff)
  have "map_get (fold merge_property kvs (merge_property kv props)) k
      = merged_property (map_get (merge_property kv props) k) (map_get kvs k)"
    using Cons by (simp add: kv map_wf_Cons)
  then show ?case using absent
    by (auto simp: kv merge_property_get merged_property_def split: option.splits)
qed

lemma with_props_object [simp]: "with_props (object_of ps) qs = object_of qs"
  by (simp add: with_props_def object_of_def inline_def)

lemma props_of_object [simp]: "props_of (object_of ps) = Some ps"
  by (simp add: props_of_def object_of_def inline_def)

lemma type_of_typed [simp]: "type_of (typed t) = Some t"
  by (simp add: type_of_def typed_def inline_def)

lemma typed_inject [simp]: "typed s = typed t \<longleftrightarrow> s = t"
  by (metis option.inject type_of_typed)

lemma merge_objects: "mergeObjectSchemas (Some (object_of ps)) (Some (object_of qs))
    = Some (object_of (fold merge_property qs ps))"
  by (simp add: mergeObjectSchemas_def)

lemma merge_none [simp]: "mergeObjectSchemas m None = m" "mergeObjectSchemas None m = m"
  by (cases m; simp add: mergeObjectSchemas_def)+

subsection \<open>Forms\<close>

text \<open>The type of one field of a form.\<close>

definition field_type :: "string \<Rightarrow> bytes \<Rightarrow> string option" where
  "field_type k body =
     (case ParseURLEncodedForm body of None \<Rightarrow> None
      | Some r \<Rightarrow> (case props_of r of None \<Rightarrow> None
        | Some ps \<Rightarrow> (case map_get ps k of None \<Rightarrow> None | Some p \<Rightarrow> type_of p)))"

text \<open>The one type all observations agree on, or string.\<close>

definition agreed :: "string list \<Rightarrow> string option" where
  "agreed ts = (case remdups ts of [] \<Rightarrow> None | [t] \<Rightarrow> Some t | _ \<Rightarrow> Some ''string'')"

lemma remdups_single: "remdups ts = [t] \<longleftrightarrow> set ts = {t}"
proof
  assume s: "set ts = {t}"
  have "length (remdups ts) = 1" using s by (simp add: length_remdups_card_conv)
  moreover have "set (remdups ts) = {t}" using s by simp
  ultimately show "remdups ts = [t]" by (cases "remdups ts") auto
qed (metis list.set(1) list.simps(15) set_remdups)

lemma agreed_set:
  "agreed ts = (if ts = [] then None else if set ts = {hd ts} then Some (hd ts) else Some ''string'')"
proof (cases "ts = [] \<or> set ts = {hd ts}")
  case True
  then have "ts = [] \<or> (ts \<noteq> [] \<and> set ts = {hd ts} \<and> remdups ts = [hd ts])"
    using remdups_single [of ts "hd ts"] by blast
  then show ?thesis unfolding agreed_def by (elim disjE conjE) simp_all
next
  case False
  have one: "remdups ts \<noteq> [t]" for t
  proof
    assume "remdups ts = [t]"
    then have "set ts = {t}" by (simp add: remdups_single)
    moreover have "hd ts \<in> set ts" using False by simp
    ultimately show False using False by simp
  qed
  obtain a b cs where "remdups ts = a # b # cs"
    using one False by (metis neq_Nil_conv remdups_eq_nil_iff)
  then show ?thesis using False by (simp add: agreed_def)
qed

lemma agreed_snoc:
  "agreed (ts @ [u]) = (case agreed ts of None \<Rightarrow> Some u | Some c \<Rightarrow> Some (if c = u then c else ''string''))"
  by (cases ts) (auto simp: agreed_set)

lemma agreed_perm: "mset ts = mset us \<Longrightarrow> agreed ts = agreed us"
proof -
  assume m: "mset ts = mset us"
  have st: "set ts = set us" using m by (rule mset_eq_setD)
  show "agreed ts = agreed us"
  proof (cases "\<exists>x. set ts = {x}")
    case True
    then obtain x where x: "set ts = {x}" "set us = {x}" using st by auto
    then show ?thesis using remdups_single [of ts x] remdups_single [of us x] by (simp add: agreed_def)
  next
    case False
    then have "\<And>x. set ts \<noteq> {x}" "\<And>x. set us \<noteq> {x}" using st by auto
    then show ?thesis using st by (auto simp: agreed_set)
  qed
qed

text \<open>A form that is accepted is an object of at most \<open>maxFormFields\<close> typed fields.\<close>

lemma ParseURLEncodedForm_shape:
  assumes "ParseURLEncodedForm body = Some r"
  obtains ps where "r = object_of ps" "map_wf ps" "ps \<noteq> []" "length ps \<le> maxFormFields"
    "\<And>k. map_get ps k = map_option typed (field_type k body)"
proof -
  obtain vm where v: "ParseQuery body = Some vm" "vm \<noteq> []" "length vm \<le> maxFormFields"
    and r: "r = object_of (map (\<lambda>(key, vals). (key, typed (inferQueryParamType (vals ! 0)))) vm)"
    using assms by (auto simp: ParseURLEncodedForm_def split: option.splits if_splits)
  let ?ps = "map (\<lambda>(key, vals). (key, typed (inferQueryParamType (vals ! 0)))) vm"
  have fst_ps: "map fst ?ps = map fst vm" by (induction vm) auto
  have "map_wf vm" using v(1) parse_query_wf by (auto simp: ParseQuery_def split: if_splits)
  then have wf: "map_wf ?ps" unfolding map_wf_def fst_ps by simp
  have typed: "map_get ?ps k = Some p \<Longrightarrow> \<exists>t. p = typed t" for k p
    by (induction vm) (auto split: if_splits)
  have "map_get ?ps k = map_option typed (field_type k body)" for k
    using typed [of k] assms r by (auto simp: field_type_def split: option.split)
  then show thesis using that r wf v(2,3) by simp
qed

lemma merge_urlencoded_step:
  "(case m of None \<Rightarrow> (\<forall>k. t k = None) | Some r \<Rightarrow> \<exists>ps. r = object_of ps \<and> map_wf ps \<and> (\<forall>k. map_get ps k = map_option typed (t k))) \<Longrightarrow>
   ParseURLEncodedForm body = Some r' \<Longrightarrow>
   \<exists>ps. mergeObjectSchemas m (ParseURLEncodedForm body) = Some (object_of ps) \<and> map_wf ps
     \<and> (\<forall>k. map_get ps k = map_option typed (case (t k, field_type k body) of
          (None, u) \<Rightarrow> u | (Some c, None) \<Rightarrow> Some c | (Some c, Some u) \<Rightarrow> Some (if c = u then c else ''string'')))"
proof (cases m)
  case None
  assume a: "case m of None \<Rightarrow> (\<forall>k. t k = None) | Some r \<Rightarrow> \<exists>ps. r = object_of ps \<and> map_wf ps \<and> (\<forall>k. map_get ps k = map_option typed (t k))"
    and p: "ParseURLEncodedForm body = Some r'"
  obtain ps where "r' = object_of ps" "map_wf ps" "ps \<noteq> []" "length ps \<le> maxFormFields" "\<And>k. map_get ps k = map_option typed (field_type k body)"
    using ParseURLEncodedForm_shape [OF p] by metis
  then show ?thesis using None a p by auto
next
  case (Some r)
  assume "case m of None \<Rightarrow> (\<forall>k. t k = None) | Some r \<Rightarrow> \<exists>ps. r = object_of ps \<and> map_wf ps \<and> (\<forall>k. map_get ps k = map_option typed (t k))"
    and p: "ParseURLEncodedForm body = Some r'"
  then obtain ps where ps: "r = object_of ps" "map_wf ps" "\<And>k. map_get ps k = map_option typed (t k)" using Some by auto
  obtain qs where qs: "r' = object_of qs" "map_wf qs" "qs \<noteq> []" "length qs \<le> maxFormFields" "\<And>k. map_get qs k = map_option typed (field_type k body)"
    using ParseURLEncodedForm_shape [OF p] by metis
  have "map_get (fold merge_property qs ps) k = map_option typed (case (t k, field_type k body) of
          (None, u) \<Rightarrow> u | (Some c, None) \<Rightarrow> Some c | (Some c, Some u) \<Rightarrow> Some (if c = u then c else ''string''))" for k
    using qs(2) by (simp add: fold_merge_get ps(3) qs(5) merged_property_def schemaTypesConflict_def split: option.split)
  then show ?thesis using p Some ps(1,2) qs(1) by (auto simp: merge_objects fold_merge_wf)
qed

text \<open>Merging url-encoded bodies is a union of their fields: a field has the type all the bodies that
  have it agree on, and else is a string. The order of the bodies does not matter, and a malformed body is left
  out.\<close>

theorem mergeURLEncodedBodies_union:
  "case mergeURLEncodedBodies bodies of
     None \<Rightarrow> list_all (\<lambda>body. ParseURLEncodedForm body = None) bodies
   | Some r \<Rightarrow> \<exists>ps. r = object_of ps \<and> map_wf ps
       \<and> (\<forall>k. map_get ps k = map_option typed (agreed (List.map_filter (field_type k) bodies)))"
proof (induction bodies rule: rev_induct)
  case Nil
  then show ?case by (simp add: mergeURLEncodedBodies_def)
next
  case (snoc body bodies)
  let ?m = "mergeURLEncodedBodies bodies"
  let ?t = "\<lambda>k. agreed (List.map_filter (field_type k) bodies)"
  have step: "mergeURLEncodedBodies (bodies @ [body]) = mergeObjectSchemas ?m (ParseURLEncodedForm body)"
    by (simp add: mergeURLEncodedBodies_def)
  show ?case
  proof (cases "ParseURLEncodedForm body")
    case None
    then have "field_type k body = None" for k by (simp add: field_type_def)
    then show ?thesis using snoc None by (auto simp: step map_filter_def split: option.splits)
  next
    case (Some r')
    have none: "?t k = None" if "list_all (\<lambda>body. ParseURLEncodedForm body = None) bodies" for k
    proof -
      have "List.map_filter (field_type k) bodies = []"
        using that by (induction bodies) (simp_all add: field_type_def map_filter_def)
      then show ?thesis by (simp add: agreed_set)
    qed
    have "case ?m of None \<Rightarrow> (\<forall>k. ?t k = None) | Some r \<Rightarrow> \<exists>ps. r = object_of ps \<and> map_wf ps \<and> (\<forall>k. map_get ps k = map_option typed (?t k))"
      using snoc none by (auto split: option.splits)
    then obtain ps where ps: "mergeURLEncodedBodies (bodies @ [body]) = Some (object_of ps)" "map_wf ps"
      "\<And>k. map_get ps k = map_option typed (case (?t k, field_type k body) of
          (None, u) \<Rightarrow> u | (Some c, None) \<Rightarrow> Some c | (Some c, Some u) \<Rightarrow> Some (if c = u then c else ''string''))"
      using merge_urlencoded_step [where m = ?m and t = ?t and body = body and r' = r'] Some step by auto
    have "agreed (List.map_filter (field_type k) (bodies @ [body])) = (case (?t k, field_type k body) of
          (None, u) \<Rightarrow> u | (Some c, None) \<Rightarrow> Some c | (Some c, Some u) \<Rightarrow> Some (if c = u then c else ''string''))" for k
      by (cases "field_type k body") (auto simp: map_filter_def agreed_snoc split: option.split)
    then show ?thesis using ps by auto
  qed
qed

lemma fields_order: "mset bodies = mset bodies' \<Longrightarrow>
    agreed (List.map_filter f bodies) = agreed (List.map_filter f bodies')"
  by (intro agreed_perm) (simp add: map_filter_def)

text \<open>A JSON body that is not an object, when it comes first, hides the objects after it: \<^verbatim>\<open>null\<close>
  and arrays sort before objects.\<close>

lemma mergeJSONBodies_null_first:
  "mergeJSONBodies [''null'', ''{'' @ [CHR 0x22] @ ''a'' @ [CHR 0x22] @ '':true}'']
     = Some (inline (Schema None [] True None None))"
  by code_simp

subsection \<open>Multipart bodies\<close>

lemma multipart_loop_fold:
  "multipart_loop n parts props =
     fold (\<lambda>p props. if PartFormName p = [] then props else map_put (PartFormName p) (part_schema p) props)
       (take (maxMultipartParts - n) parts) props"
  by (induction n parts props rule: multipart_loop.induct) (auto simp: take_Cons')

text \<open>The properties of a form are the named ones of its first 1000 parts, so that there are never more
  than 1000, however many the body has, and none is unnamed.\<close>

theorem ParseMultipartForm_bounded:
  "case ParseMultipartForm env body boundary of
     None \<Rightarrow> True
   | Some r \<Rightarrow> \<exists>ps. r = object_of ps \<and> map_wf ps \<and> 0 < length ps \<and> length ps \<le> maxMultipartParts
       \<and> fst ` set ps = PartFormName ` set (take maxMultipartParts (NextParts env body boundary)) - {[]}"
proof -
  let ?step = "\<lambda>p props. if PartFormName p = [] then props else map_put (PartFormName p) (part_schema p) props"
  have inv: "map_wf (fold ?step parts []) \<and> length (fold ?step parts []) \<le> length parts
      \<and> fst ` set (fold ?step parts []) = PartFormName ` set parts - {[]}" for parts
  proof (induction parts rule: rev_induct)
    case (snoc p parts)
    have "length (map_put k v m) \<le> Suc (length m)" for k :: string and v :: sref and m
      unfolding map_put_def by (induction m) auto
    then have "length (map_put k v (fold ?step parts [])) \<le> Suc (length parts)" for k v
      using snoc by (meson Suc_le_mono le_trans)
    then show ?case using snoc by (auto simp: dom_map_put)
  qed simp
  show ?thesis
    using inv [of "take maxMultipartParts (NextParts env body boundary)"]
    by (auto simp: ParseMultipartForm_def Let_def multipart_loop_fold min_def split: if_splits)
qed

end
