(* ===== verification/Go_Regexp.thy ===== *)
theory Go_Regexp
  imports Go_Prelude
begin

text \<open>
  What the code uses of \<^verbatim>\<open>regexp\<close>. The syntax of a pattern is a datatype; a match is the
  one a backtracking matcher finds first, as the package documents: \<open>re_lens\<close> lists the lengths of all
  matches at the head of the text in that order of preference. The patterns of the code name
  single bytes below 128, or repeat the complement of such bytes between them, so bytes and characters match alike.
\<close>

datatype re =
    Lit string
  | Class "(char \<times> char) list"
  | Cat re re
  | Alt re re
  | Opt re
  | Star re

definition in_class :: "(char \<times> char) list \<Rightarrow> char \<Rightarrow> bool" where
  "in_class rs c = list_ex (\<lambda>(lo, hi). in_range lo hi c) rs"

function re_lens :: "re \<Rightarrow> string \<Rightarrow> nat list" where
  "re_lens (Lit t) s = (if has_prefix s t then [length t] else [])"
| "re_lens (Class rs) s = (case s of [] \<Rightarrow> [] | c # _ \<Rightarrow> if in_class rs c then [1] else [])"
| "re_lens (Cat a b) s = concat (map (\<lambda>n. map ((+) n) (re_lens b (drop n s))) (re_lens a s))"
| "re_lens (Alt a b) s = re_lens a s @ re_lens b s"
| "re_lens (Opt a) s = re_lens a s @ [0]"
| "re_lens (Star a) s =
     concat (map (\<lambda>n. if 0 < n \<and> n \<le> length s then map ((+) n) (re_lens (Star a) (drop n s)) else [])
       (re_lens a s)) @ [0]"
  by pat_completeness auto
termination
  by (relation "measures [\<lambda>(r, s). size r, \<lambda>(r, s). length s]") auto

declare re_lens.simps(6) [simp del]

text \<open>\<open>r{1,n}\<close> of the syntax: at least \<open>m\<close> and at most \<open>m + k\<close> copies.\<close>

fun rep :: "nat \<Rightarrow> nat \<Rightarrow> re \<Rightarrow> re" where
  "rep 0 0 r = Lit []"
| "rep 0 (Suc k) r = Opt (Cat r (rep 0 k r))"
| "rep (Suc m) k r = Cat r (rep m k r)"

abbreviation plus_re :: "re \<Rightarrow> re" where "plus_re r \<equiv> Cat r (Star r)"

definition chars :: "string \<Rightarrow> (char \<times> char) list" where
  "chars s = map (\<lambda>c. (c, c)) s"

fun seq :: "re list \<Rightarrow> re" where
  "seq [] = Lit []"
| "seq [r] = r"
| "seq (r # rs) = Cat r (seq rs)"

text \<open>A pattern with one group: what stands before it, the group, and what follows. A match at
  the head of the text gives the group's text and the text after the match.\<close>

record pattern =
  Before :: re
  Group :: re
  After :: re

definition matches_at :: "pattern \<Rightarrow> string \<Rightarrow> (string \<times> string) list" where
  "matches_at p s =
     concat (map (\<lambda>i. concat (map (\<lambda>j. map (\<lambda>k. (take j (drop i s), drop (i + j + k) s))
         (re_lens (After p) (drop (i + j) s)))
       (re_lens (Group p) (drop i s)))) (re_lens (Before p) s))"

text \<open>\<^verbatim>\<open>FindAllSubmatchIndex\<close> for a pattern that matches no empty text: the matches from left to
  right, each search starting after the previous match.\<close>

function find_all :: "pattern \<Rightarrow> string \<Rightarrow> (string \<times> string) list" where
  "find_all p s =
     (case matches_at p s of
        (g, rest) # _ \<Rightarrow> if length rest < length s then (g, rest) # find_all p rest else []
      | [] \<Rightarrow> (case s of [] \<Rightarrow> [] | _ # s' \<Rightarrow> find_all p s'))"
  by pat_completeness auto
termination
  by (relation "measure (\<lambda>(p, s). length s)") auto

declare find_all.simps [simp del]

text \<open>\<^verbatim>\<open>FindIndex\<close>, its start.\<close>

fun find_start :: "re \<Rightarrow> string \<Rightarrow> nat option" where
  "find_start r [] = (if re_lens r [] = [] then None else Some 0)"
| "find_start r (c # s) = (if re_lens r (c # s) = [] then map_option Suc (find_start r s) else Some 0)"

section \<open>Which texts match\<close>

text \<open>The language of an expression, and the matcher against it.\<close>

inductive matches :: "re \<Rightarrow> string \<Rightarrow> bool" where
  lit: "matches (Lit t) t"
| class_: "in_class rs c \<Longrightarrow> matches (Class rs) [c]"
| cat: "matches a s \<Longrightarrow> matches b t \<Longrightarrow> matches (Cat a b) (s @ t)"
| alt1: "matches a s \<Longrightarrow> matches (Alt a b) s"
| alt2: "matches b s \<Longrightarrow> matches (Alt a b) s"
| opt1: "matches a s \<Longrightarrow> matches (Opt a) s"
| opt2: "matches (Opt a) []"
| star1: "matches (Star a) []"
| star2: "matches a s \<Longrightarrow> s \<noteq> [] \<Longrightarrow> matches (Star a) t \<Longrightarrow> matches (Star a) (s @ t)"

inductive_cases matches_litE [elim!]: "matches (Lit t) s"
inductive_cases matches_classE [elim!]: "matches (Class rs) s"
inductive_cases matches_catE [elim!]: "matches (Cat a b) s"
inductive_cases matches_altE [elim!]: "matches (Alt a b) s"
inductive_cases matches_optE [elim!]: "matches (Opt a) s"
inductive_cases matches_starE: "matches (Star a) s"

lemma re_lens_cat: "n \<in> set (re_lens (Cat a b) s) \<longleftrightarrow>
    (\<exists>i j. i \<in> set (re_lens a s) \<and> j \<in> set (re_lens b (drop i s)) \<and> n = i + j)"
  by auto

lemma re_lens_star: "n \<in> set (re_lens (Star a) s) \<longleftrightarrow> n = 0 \<or>
    (\<exists>i j. i \<in> set (re_lens a s) \<and> 0 < i \<and> i \<le> length s \<and> j \<in> set (re_lens (Star a) (drop i s)) \<and> n = i + j)"
  by (subst re_lens.simps(6)) (auto split: if_splits)

lemma re_lens_sound: "n \<in> set (re_lens r s) \<Longrightarrow> n \<le> length s \<and> matches r (take n s)"
proof (induction r s arbitrary: n rule: re_lens.induct)
  case (1 t s)
  then show ?case by (auto simp: has_prefix_iff intro: matches.lit split: if_splits)
next
  case (2 rs s)
  then show ?case by (auto intro: matches.class_ split: list.splits if_splits)
next
  case (3 a b s)
  then obtain i j where ij: "i \<in> set (re_lens a s)" "j \<in> set (re_lens b (drop i s))" "n = i + j"
    unfolding re_lens_cat by blast
  have "i \<le> length s" "matches a (take i s)" using "3.IH"(1) [OF ij(1)] by auto
  moreover have "j \<le> length s - i" "matches b (take j (drop i s))" using "3.IH"(2) [OF ij(1,2)] by auto
  ultimately show ?case using ij(3) matches.cat by (simp add: take_add)
next
  case (4 a b s)
  then show ?case by (auto intro: matches.alt1 matches.alt2)
next
  case (5 a s)
  then show ?case by (auto intro: matches.opt1 matches.opt2)
next
  case (6 a s)
  show ?case
  proof (cases "n = 0")
    case True
    then show ?thesis by (simp add: matches.star1)
  next
    case False
    then obtain i j where ij: "i \<in> set (re_lens a s)" "0 < i \<and> i \<le> length s"
      "j \<in> set (re_lens (Star a) (drop i s))" "n = i + j"
      using "6.prems" [THEN re_lens_star [THEN iffD1]] by blast
    have "matches a (take i s)" using "6.IH"(1) [OF ij(1)] by auto
    moreover have "j \<le> length s - i" "matches (Star a) (take j (drop i s))"
      using "6.IH"(2) [OF ij(1,2,3)] by auto
    moreover have "take i s \<noteq> []" using ij(2) by auto
    ultimately have "matches (Star a) (take i s @ take j (drop i s))" using matches.star2 by blast
    moreover have "i + j \<le> length s" using ij(2) \<open>j \<le> length s - i\<close> by linarith
    ultimately show ?thesis using ij(4) by (simp add: take_add)
  qed
qed

lemma re_lens_complete: "matches r t \<Longrightarrow> length t \<in> set (re_lens r (t @ s))"
proof (induction r t arbitrary: s rule: matches.induct)
  case (cat a x b y)
  have "length x \<in> set (re_lens a (x @ (y @ s)))" by (rule cat.IH)
  moreover have "length y \<in> set (re_lens b (drop (length x) (x @ (y @ s))))" using cat.IH(2) [of s] by simp
  ultimately show ?case unfolding re_lens_cat append_assoc length_append by blast
next
  case (star2 a x y)
  have "length x \<in> set (re_lens a (x @ (y @ s)))" by (rule star2.IH)
  moreover have "length y \<in> set (re_lens (Star a) (drop (length x) (x @ (y @ s))))"
    using star2.IH(2) [of s] by simp
  moreover have "0 < length x" "length x \<le> length (x @ (y @ s))" using star2.hyps by simp_all
  ultimately show ?case unfolding append_assoc length_append [of x y] by (intro re_lens_star [THEN iffD2]) blast
next
  case (alt1 a t b)
  then show ?case by simp
next
  case (alt2 b t a)
  then show ?case by simp
next
  case (star1 a)
  show ?case by (rule re_lens_star [THEN iffD2]) simp
qed simp_all

text \<open>The matcher finds a match exactly when some prefix of the text is in the language.\<close>

lemma re_lens_iff: "n \<in> set (re_lens r s) \<longleftrightarrow> n \<le> length s \<and> matches r (take n s)"
proof
  assume "n \<le> length s \<and> matches r (take n s)"
  then show "n \<in> set (re_lens r s)"
    using re_lens_complete [of r "take n s" "drop n s"] by simp
qed (rule re_lens_sound)

lemma all_nat_split_le: "(\<forall>i\<le>Suc n. P i) \<longleftrightarrow> P 0 \<and> (\<forall>i\<le>n. P (Suc i))"
  by (metis Suc_le_mono le0 not0_implies_Suc)

lemma find_start_None: "find_start r s = None \<longleftrightarrow> (\<forall>i\<le>length s. re_lens r (drop i s) = [])"
proof (induction s)
  case (Cons c s)
  have "(\<forall>i\<le>length (c # s). re_lens r (drop i (c # s)) = [])
      \<longleftrightarrow> re_lens r (c # s) = [] \<and> (\<forall>i\<le>length s. re_lens r (drop i s) = [])"
    unfolding length_Cons all_nat_split_le by simp
  then show ?case using Cons.IH by simp
qed simp

lemma matches_at_sound:
  assumes "(g, rest) \<in> set (matches_at p s)"
  shows "\<exists>a b. s = a @ g @ b @ rest \<and> matches (Before p) a \<and> matches (Group p) g \<and> matches (After p) b"
proof -
  from assms obtain i j k where ijk: "i \<in> set (re_lens (Before p) s)"
    "j \<in> set (re_lens (Group p) (drop i s))" "k \<in> set (re_lens (After p) (drop (i + j) s))"
    "g = take j (drop i s)" "rest = drop (i + j + k) s"
    by (auto simp: matches_at_def)
  let ?a = "take i s" and ?b = "take k (drop (i + j) s)"
  have "s = ?a @ drop i s" by simp
  also have "drop i s = g @ drop (i + j) s" using ijk(4) by (metis append_take_drop_id drop_drop add.commute)
  also have "drop (i + j) s = ?b @ rest" using ijk(5) by (metis append_take_drop_id drop_drop add.commute)
  finally have "s = ?a @ g @ ?b @ rest" .
  moreover have "matches (Before p) ?a" "matches (Group p) g" "matches (After p) ?b"
    using ijk re_lens_sound by blast+
  ultimately show ?thesis by blast
qed

lemma find_all_sound:
  "(g, rest) \<in> set (find_all p s) \<Longrightarrow> \<exists>a b. s = a @ g @ b @ rest \<and> matches (Group p) g"
proof (induction "length s" arbitrary: s rule: less_induct)
  case less
  show ?case
  proof (cases "matches_at p s")
    case Nil
    then obtain c s' where s: "s = c # s'" "(g, rest) \<in> set (find_all p s')"
      using less.prems by (subst (asm) find_all.simps) (auto split: list.splits)
    with less.hyps [of s'] obtain a b where "s' = a @ g @ b @ rest" "matches (Group p) g" by auto
    then show ?thesis using s(1) by (metis append_Cons)
  next
    case (Cons m ms)
    obtain h r where m: "m = (h, r)" by (cases m)
    have prems: "(g, rest) \<in> set (if length r < length s then (h, r) # find_all p r else [])"
      using less.prems Cons m by (subst (asm) find_all.simps) simp
    have lt: "length r < length s" using prems by (auto split: if_splits)
    from matches_at_sound [of h r p s] Cons m obtain a b where
      ab: "s = a @ h @ b @ r" "matches (Group p) h" by auto
    show ?thesis
    proof (cases "(g, rest) = (h, r)")
      case True
      then show ?thesis using ab by blast
    next
      case False
      then have "(g, rest) \<in> set (find_all p r)" using prems lt by auto
      from less.hyps [OF lt this] obtain a' b' where "r = a' @ g @ b' @ rest" "matches (Group p) g" by blast
      then show ?thesis using ab(1) by (metis append.assoc)
    qed
  qed
qed

end
