(* ===== verification/Origin.thy ===== *)
theory Origin
  imports Crawl_Types Ssrf Url_Laws Go_Regexp
begin

text \<open>
  What \<^verbatim>\<open>pkg/crawl/jsreplay.go\<close> decides about a URL: its origin and when two origins are
  one, the target origin of a scan, which URLs may be acted on, and which bytes may reach a
  specification.
\<close>

section \<open>Kinds of content\<close>

definition jsContentTypes :: "string list" where
  "jsContentTypes = [''application/javascript'', ''text/javascript'', ''application/x-javascript'']"

definition htmlContentTypes :: "string list" where
  "htmlContentTypes = [''text/html'', ''application/xhtml+xml'']"

definition staticFileExts :: "string list" where
  "staticFileExts = [''.js'', ''.css'', ''.map'', ''.html'', ''.htm'', ''.png'', ''.jpg'', ''.svg'']"

definition matchesContentType :: "string \<Rightarrow> string list \<Rightarrow> bool" where
  "matchesContentType contentType types = (let ct = Base contentType in list_ex (\<lambda>t. ct = t) types)"

definition isHTMLResponse :: "string \<Rightarrow> bool" where
  "isHTMLResponse contentType = matchesContentType contentType htmlContentTypes"

definition isJSResponse :: "string \<Rightarrow> bool" where
  "isJSResponse contentType = matchesContentType contentType jsContentTypes"

definition isJSURL :: "string \<Rightarrow> bool" where
  "isJSURL raw =
     (case parse_url raw of None \<Rightarrow> False
      | Some u \<Rightarrow> let lower = to_lower (Path u) in has_suffix lower ''.js'' \<or> has_suffix lower ''.mjs'')"

definition isStaticFile :: "string \<Rightarrow> bool" where
  "isStaticFile path = (let lower = to_lower path in list_ex (\<lambda>e. has_suffix lower e) staticFileExts)"

definition bom :: bytes where "bom = [CHR 0xEF, CHR 0xBB, CHR 0xBF]"

text \<open>\<^verbatim>\<open>bytes.TrimLeft\<close> with the cutset of white space and the byte order mark.\<close>

fun trim_html :: "bytes \<Rightarrow> bytes" where
  "trim_html [] = []"
| "trim_html (c # s) =
     (if c \<in> {CHR '' '', CHR 0x09, CHR 0x0D, CHR 0x0A} then trim_html s
      else if has_prefix (c # s) bom then trim_html (drop 2 s) else c # s)"

definition looksLikeHTML :: "bytes \<Rightarrow> bool" where
  "looksLikeHTML body =
     (let trimmed = trim_html body; lower = to_lower (take 50 trimmed)
      in trimmed \<noteq> [] \<and> (has_prefix lower ''<!doctype'' \<or> has_prefix lower ''<html''))"

section \<open>API indicators\<close>

definition APIIndicatorAlternation :: re where
  "APIIndicatorAlternation =
     Alt (Lit ''api/'')
       (Alt (seq [Lit ''v'', Class [(CHR ''1'', CHR ''9'')], Star (Class [(CHR ''0'', CHR ''9'')]), Lit ''/''])
         (Alt (Lit ''rest/'') (Alt (Lit ''rpc/'') (Lit ''graphql''))))"

text \<open>The flag \<^verbatim>\<open>(?i)\<close>. A letter in either case; the long s (U+017F) folds to \<^verbatim>\<open>s\<close>. (The
  patterns with the flag are in lower case, without \<^verbatim>\<open>k\<close>, and their classes have no letters.)\<close>

definition either_case :: "char \<Rightarrow> re" where
  "either_case c =
     (if c = CHR ''s'' then Alt (Class (chars ''sS'')) (Lit [CHR 0xC5, CHR 0xBF])
      else if is_lower c then Class [(c, c), (upper_char c, upper_char c)] else Lit [c])"

fun fold_case :: "re \<Rightarrow> re" where
  "fold_case (Lit s) = seq (map either_case s)"
| "fold_case (Class rs) = Class rs"
| "fold_case (Cat a b) = Cat (fold_case a) (fold_case b)"
| "fold_case (Alt a b) = Alt (fold_case a) (fold_case b)"
| "fold_case (Opt a) = Opt (fold_case a)"
| "fold_case (Star a) = Star (fold_case a)"

definition apiIndicatorPattern :: "string \<Rightarrow> nat option" where
  "apiIndicatorPattern s = find_start (fold_case APIIndicatorAlternation) s"

definition hasAPIIndicator :: "string \<Rightarrow> bool" where
  "hasAPIIndicator path = (apiIndicatorPattern path \<noteq> None)"

definition hasInlinePrefix :: "string \<Rightarrow> bool" where
  "hasInlinePrefix trimmedPath = (case apiIndicatorPattern trimmedPath of None \<Rightarrow> False | Some loc \<Rightarrow> loc > 0)"

section \<open>Origins\<close>

definition defaultPortForScheme :: "string \<Rightarrow> string" where
  "defaultPortForScheme scheme =
     (let s = to_lower scheme in if s = ''http'' then ''80'' else if s = ''https'' then ''443'' else [])"

definition originOf :: "string \<Rightarrow> string" where
  "originOf raw =
     (case parse_url raw of None \<Rightarrow> []
      | Some u \<Rightarrow>
          if Host u = [] then []
          else
            let scheme = to_lower (Scheme u); bracketed = has_prefix (Host u) ''['';
                host = to_lower (Hostname u)
            in if (bracketed \<and> CHR ''%'' \<in> set host) \<or> (\<not> bracketed \<and> CHR '':'' \<in> set host) then []
               else
                 let host = (if bracketed then ''['' @ host @ '']'' else host);
                     port = (if Port u = [] then defaultPortForScheme scheme else Port u)
                 in if port = [] then scheme @ ''://'' @ host else scheme @ ''://'' @ host @ '':'' @ port)"

definition SameOrigin :: "string \<Rightarrow> string \<Rightarrow> bool" where
  "SameOrigin a b = (let oa = originOf a in if oa = [] then False else oa = originOf b)"

definition isSameOrigin :: "string \<Rightarrow> string \<Rightarrow> bool" where
  "isSameOrigin raw targetOrigin = SameOrigin raw targetOrigin"

definition CanonicalOrigin :: "string \<Rightarrow> string" where
  "CanonicalOrigin raw =
     (case parse_url raw of None \<Rightarrow> []
      | Some u \<Rightarrow>
          if (Scheme u \<noteq> ''http'' \<and> Scheme u \<noteq> ''https'') \<or> Host u = [] then []
          else
            let origin = originOf raw; dp = defaultPortForScheme (to_lower (Scheme u))
            in if dp \<noteq> [] then trim_suffix origin ('':'' @ dp) else origin)"

fun firstHTMLOrigin :: "ObservedRequest list \<Rightarrow> string" where
  "firstHTMLOrigin [] = []"
| "firstHTMLOrigin (req # reqs) =
     (if URL req = [] then firstHTMLOrigin reqs
      else if \<not> isHTMLResponse (ContentType (Response req)) \<and> \<not> looksLikeHTML (RespBody (Response req))
      then firstHTMLOrigin reqs
      else let origin = originOf (URL req) in if origin \<noteq> [] then origin else firstHTMLOrigin reqs)"

fun first_origin :: "ObservedRequest list \<Rightarrow> string" where
  "first_origin [] = []"
| "first_origin (req # reqs) =
     (if URL req = [] then first_origin reqs
      else let origin = originOf (URL req) in if origin \<noteq> [] then origin else first_origin reqs)"

definition ResolveTargetOrigin :: "string \<Rightarrow> ObservedRequest list \<Rightarrow> string" where
  "ResolveTargetOrigin targetURL requests =
     (if targetURL \<noteq> [] then originOf targetURL
      else let origin = firstHTMLOrigin requests
           in if origin \<noteq> [] then origin else first_origin requests)"

section \<open>URLs to act on\<close>

definition IsAbsoluteHTTPURL :: "string \<Rightarrow> bool" where
  "IsAbsoluteHTTPURL raw = (let lower = to_lower raw in has_prefix lower ''http://'' \<or> has_prefix lower ''https://'')"

definition ValidateFullURL :: "string \<Rightarrow> string option" where
  "ValidateFullURL raw =
     (case parse_url raw of None \<Rightarrow> None
      | Some u \<Rightarrow>
          if Scheme u \<noteq> ''http'' \<and> Scheme u \<noteq> ''https'' then None
          else if Host u = [] then None
          else if User u \<noteq> None then None
          else Some (url_string u))"

section \<open>Bytes of a candidate path\<close>

text \<open>The escape whose percent sign stands before the text.\<close>

definition validPercentEscape :: "string \<Rightarrow> bool" where
  "validPercentEscape s =
     (case s of h1 # h2 # _ \<Rightarrow>
        is_hex h1 \<and> is_hex h2 \<and> 32 \<le> byte_at (unhex2 h1 h2) \<and> byte_at (unhex2 h1 h2) \<le> 126
      | _ \<Rightarrow> False)"

fun scanEscapedBytes :: "(char \<Rightarrow> bool) \<Rightarrow> string \<Rightarrow> bool" where
  "scanEscapedBytes isLiteralByte [] = True"
| "scanEscapedBytes isLiteralByte (c # s) =
     (if c \<noteq> CHR ''%'' then (if \<not> isLiteralByte c then False else scanEscapedBytes isLiteralByte s)
      else if \<not> validPercentEscape s then False
      else scanEscapedBytes isLiteralByte (drop 2 s))"

definition isAllowedConcatByte :: "char \<Rightarrow> bool \<Rightarrow> bool" where
  "isAllowedConcatByte c inSuffix =
     (if is_lower c \<or> is_upper c \<or> is_digit c then True
      else if c \<in> set (CHR 0x27 # ''/_-.:{}~@!$()*+,;'') then True
      else if c \<in> set ''[]|'' then True
      else if c \<in> set ''?=&#'' then inSuffix
      else False)"

definition allowedConcatBytes :: "string \<Rightarrow> bool \<Rightarrow> bool" where
  "allowedConcatBytes s inSuffix = scanEscapedBytes (\<lambda>c. isAllowedConcatByte c inSuffix) s"

definition IsPrintableASCIIURL :: "string \<Rightarrow> bool" where
  "IsPrintableASCIIURL raw = scanEscapedBytes (\<lambda>c. 33 \<le> byte_at c \<and> byte_at c \<le> 126) raw"

text \<open>\<^verbatim>\<open>strings.ReplaceAll(s, "//", "/")\<close>, and the loop that repeats it.\<close>

fun halve_slashes :: "string \<Rightarrow> string" where
  "halve_slashes (a # b # s) =
     (if a = CHR ''/'' \<and> b = CHR ''/'' then a # halve_slashes s else a # halve_slashes (b # s))"
| "halve_slashes s = s"

lemma halve_slashes_length: "length (halve_slashes s) \<le> length s"
  by (induction s rule: halve_slashes.induct) auto

lemma halve_slashes_shrinks: "contains s ''//'' \<Longrightarrow> length (halve_slashes s) < length s"
proof (induction s rule: halve_slashes.induct)
  case (1 a b s)
  then show ?case using halve_slashes_length [of s] by (auto simp: has_prefix_def)
qed (auto simp: has_prefix_def)

function collapse_slashes :: "string \<Rightarrow> string" where
  "collapse_slashes s = (if contains s ''//'' then collapse_slashes (halve_slashes s) else s)"
  by pat_completeness auto
termination by (relation "measure length") (auto intro: halve_slashes_shrinks)

declare collapse_slashes.simps [simp del]

text \<open>\<^verbatim>\<open>strings.IndexAny(p, "?#")\<close>: the path and the rest.\<close>

definition split_suffix :: "string \<Rightarrow> string \<times> string" where
  "split_suffix p = (takeWhile (\<lambda>c. c \<notin> set ''?#'') p, dropWhile (\<lambda>c. c \<notin> set ''?#'') p)"

text \<open>An empty result is a rejection.\<close>

definition cleanConcatPath :: "string \<Rightarrow> string" where
  "cleanConcatPath p =
     (let (path, suffix) = split_suffix p;
          path = (case find_sub ''://'' path of
              Some (scheme, rest) \<Rightarrow> scheme @ ''://'' @ collapse_slashes (drop 3 rest)
            | None \<Rightarrow> collapse_slashes path);
          path = trim_right (\<lambda>c. c = CHR ''/'') path;
          p = path @ suffix
      in if p = [] \<or> \<not> hasAPIIndicator p then []
         else if \<not> allowedConcatBytes path False \<or> \<not> allowedConcatBytes suffix True then []
         else p)"

end
