(* ===== verification/Rest_Openapi.thy ===== *)
theory Rest_Openapi
  imports Rest_Schema Rest_Normalize Origin Deduplicate
begin

text \<open>
  The OpenAPI generator, \<^verbatim>\<open>pkg/generate/rest/openapi.go\<close>, up to the document of paths and
  operations; its components are in \<open>Rest_Components\<close>. The document is kept as the fields the code sets.
  The library of OpenAPI documents is third-party: \<^verbatim>\<open>Paths.Find\<close>, which gives the stored path
  an item is found under, is the argument \<open>find_path\<close>.
\<close>

definition capitalizeFirst :: "string \<Rightarrow> string" where
  "capitalizeFirst s = (case s of [] \<Rightarrow> [] | r # rs \<Rightarrow> upper_char r # rs)"

section \<open>Origins\<close>

definition sortedCopy :: "string list \<Rightarrow> string list" where
  "sortedCopy ss = sort ss"

definition add_origin :: "string \<Rightarrow> string list \<Rightarrow> string list" where
  "add_origin origin seen = (if origin \<in> set seen then seen else seen @ [origin])"

definition collect_step :: "('s, 'm) ClassifiedRequest_scheme \<Rightarrow> string list \<times> string list \<Rightarrow> string list \<times> string list" where
  "collect_step ep st =
     (case st of (observed, jsStatic) \<Rightarrow>
        let origin = CanonicalOrigin (URL ep) in
        if origin = [] then (observed, jsStatic)
        else if IsJSStaticSource (Source ep) then (observed, add_origin origin jsStatic)
        else (add_origin origin observed, jsStatic))"

definition collectEndpointOrigins :: "('s, 'm) ClassifiedRequest_scheme list \<Rightarrow> string list \<times> string list" where
  "collectEndpointOrigins endpoints = fold collect_step endpoints ([], [])"

definition choosePrimaryOrigin :: "string \<Rightarrow> string list \<Rightarrow> string" where
  "choosePrimaryOrigin targetOrigin observedOrigins =
     (let primary = CanonicalOrigin targetOrigin
      in if primary \<noteq> [] then primary
         else if length observedOrigins = 0 then []
         else sortedCopy observedOrigins ! 0)"

text \<open>The closure \<^verbatim>\<open>addServer\<close>: the list \<^verbatim>\<open>servers\<close> has the origins of
  \<^verbatim>\<open>serverSet\<close>.\<close>

definition addServer :: "string \<Rightarrow> string list \<Rightarrow> string list" where
  "addServer origin servers = (if origin = [] \<or> origin \<in> set servers then servers else servers @ [origin])"

definition extractServers ::
    "('s, 'm) ClassifiedRequest_scheme list \<Rightarrow> string \<Rightarrow> string list \<times> string \<times> string list" where
  "extractServers endpoints targetOrigin =
     (case collectEndpointOrigins endpoints of (observedOrigins, jsStaticOrigins) \<Rightarrow>
        let primary = choosePrimaryOrigin targetOrigin observedOrigins;
            servers = fold addServer (sortedCopy observedOrigins) (addServer primary []);
            excluded = filter (\<lambda>origin. origin \<notin> set servers) (sortedCopy jsStaticOrigins);
            titleHost =
              (if primary \<noteq> [] then
                 (case parse_url primary of
                    Some u \<Rightarrow> if Host u \<noteq> [] then Host u @ '' API'' else ''API''
                  | None \<Rightarrow> ''API'')
               else ''API'')
        in (servers, titleHost, excluded))"

section \<open>Groups\<close>

record endpointKey =
  key_path :: string
  key_method :: string
  key_origin :: string

type_synonym ('s, 'm) groups = "(endpointKey, ('s, 'm) ClassifiedRequest_scheme list) gomap"

definition parse_endpoint :: "('s, 'm) ClassifiedRequest_scheme \<Rightarrow> (string \<times> ('s, 'm) ClassifiedRequest_scheme) option" where
  "parse_endpoint endpoint =
     (case parse_url (URL endpoint) of None \<Rightarrow> None
      | Some u \<Rightarrow> if Scheme u \<noteq> ''http'' \<and> Scheme u \<noteq> ''https'' then None else Some (Path u, endpoint))"

definition endpoint_key :: "(string, string) gomap \<Rightarrow> string \<times> ('s, 'm) ClassifiedRequest_scheme \<Rightarrow> endpointKey" where
  "endpoint_key normalized p =
     (case p of (path, endpoint) \<Rightarrow>
        \<lparr>key_path = (case map_get normalized path of None \<Rightarrow> [] | Some n \<Rightarrow> n),
         key_method = to_lower (Method endpoint), key_origin = CanonicalOrigin (URL endpoint)\<rparr>)"

definition add_to_group :: "endpointKey \<Rightarrow> ('s, 'm) ClassifiedRequest_scheme \<Rightarrow> ('s, 'm) groups \<Rightarrow> ('s, 'm) groups" where
  "add_to_group key endpoint groups =
     map_put key ((case map_get groups key of None \<Rightarrow> [] | Some g \<Rightarrow> g) @ [endpoint]) groups"

definition groupEndpoints :: "('s, 'm) ClassifiedRequest_scheme list \<Rightarrow> NormalizeOptions \<Rightarrow> ('s, 'm) groups" where
  "groupEndpoints endpoints opts =
     (let parsed = List.map_filter parse_endpoint endpoints;
          normalized = NormalizePathsWithNames (map fst parsed) opts
      in fold (\<lambda>p. add_to_group (endpoint_key normalized p) (snd p)) parsed [])"

section \<open>Provenance\<close>

definition anyStaticSource :: "('s, 'm) ClassifiedRequest_scheme list \<Rightarrow> bool" where
  "anyStaticSource endpoints = list_ex (\<lambda>ep. IsJSStaticSource (Source ep)) endpoints"

definition jsStaticSourceRank :: "(string, int) gomap" where
  "jsStaticSourceRank = [(''js-bundle'', 0), (''js-sourcemap'', 1), (''js-bundle-concat'', 2)]"

definition friendly_tag :: "string \<Rightarrow> string" where
  "friendly_tag source =
     (if source = SourceStaticJS then ''js-bundle''
      else if source = SourceStaticJSSourcemap then ''js-sourcemap''
      else if source = SourceStaticJSConcat then ''js-bundle-concat''
      else ''js-bundle-concat'')"

fun source_tag_loop :: "string \<Rightarrow> int \<Rightarrow> ('s, 'm) ClassifiedRequest_scheme list \<Rightarrow> string" where
  "source_tag_loop leastConfident leastConfidentRank [] = leastConfident"
| "source_tag_loop leastConfident leastConfidentRank (ep # eps) =
     (if \<not> IsJSStaticSource (Source ep) then ''dynamic''
      else
        let friendly = friendly_tag (Source ep);
            r = (case map_get jsStaticSourceRank friendly of None \<Rightarrow> 0 | Some r \<Rightarrow> r)
        in if r > leastConfidentRank then source_tag_loop friendly r eps
           else source_tag_loop leastConfident leastConfidentRank eps)"

definition computeSourceTag :: "('s, 'm) ClassifiedRequest_scheme list \<Rightarrow> string" where
  "computeSourceTag members = (if length members = 0 then [] else source_tag_loop [] (- 1) members)"

section \<open>Operations\<close>

record parameter =
  ParamName :: string
  ParamIn :: string
  ParamRequired :: bool
  ParamSchema :: sref
  ParamStyle :: string
  ParamExplode :: "bool option"

text \<open>A content map has one schema for a media type; a nil content is the empty map.\<close>

type_synonym content = "(string, sref) gomap"

record response =
  RespDescription :: string
  RespContent :: content

record operation =
  OpSummary :: string
  OpServers :: "string list option"
  OpParameters :: "parameter list"
  OpRequestBody :: "content option"
  OpResponses :: "(string, response) gomap"
  OpSourceTag :: "string option"
  OpCollisionOrigins :: "string list option"

definition empty_operation :: "string \<Rightarrow> operation" where
  "empty_operation title =
     \<lparr>OpSummary = title, OpServers = None, OpParameters = [], OpRequestBody = None, OpResponses = [],
      OpSourceTag = None, OpCollisionOrigins = None\<rparr>"

subsection \<open>The order of a group\<close>

definition group_less :: "('s, 'm) ClassifiedRequest_scheme \<Rightarrow> ('s, 'm) ClassifiedRequest_scheme \<Rightarrow> bool" where
  "group_less a b =
     (if URL a \<noteq> URL b then URL a < URL b
      else if Method a \<noteq> Method b then Method a < Method b
      else
        let c = compare_bytes (Body a) (Body b)
        in if c \<noteq> 0 then c < 0 else CompareResponses (Response a) (Response b) < 0)"

text \<open>What \<open>group_less\<close> compares, so that \<^verbatim>\<open>sort.SliceStable\<close> is
  \<open>sort_key group_key\<close>.\<close>

definition group_key :: "('s, 'm) ClassifiedRequest_scheme \<Rightarrow> string \<times> string \<times> bytes \<times> int \<times> string \<times> bytes" where
  "group_key r = (URL r, Method r, Body r, StatusCode (Response r), ContentType (Response r), RespBody (Response r))"

lemma group_less_key: "group_less a b \<longleftrightarrow> group_key a < group_key b"
  by (auto simp: group_less_def group_key_def CompareResponses_def compare_bytes_def less_prod_def' Let_def)

subsection \<open>Query parameters\<close>

record queryParamInfo =
  param_count :: nat
  param_values :: "string list"
  multiValueSeen :: bool

definition observe_param ::
    "('s, 'm) ClassifiedRequest_scheme \<Rightarrow> string \<times> string list \<Rightarrow> (string, queryParamInfo) gomap \<Rightarrow> (string, queryParamInfo) gomap" where
  "observe_param ep nv queryParams =
     (case nv of (name, vals) \<Rightarrow>
        let info = (case map_get queryParams name of Some i \<Rightarrow> i
              | None \<Rightarrow> \<lparr>param_count = 0, param_values = [], multiValueSeen = False\<rparr>);
            multi = (case MultiValueQueryKeys ep of
                Some ks \<Rightarrow> if map_get ks name = Some True then True else multiValueSeen info
              | None \<Rightarrow> if length vals > 1 then True else multiValueSeen info)
        in map_put name \<lparr>param_count = param_count info + 1,
              param_values = MergeUniqueOrdered (param_values info) vals, multiValueSeen = multi\<rparr> queryParams)"

definition query_of :: "('s, 'm) ClassifiedRequest_scheme \<Rightarrow> url_values" where
  "query_of ep = (case QueryParams ep of None \<Rightarrow> [] | Some q \<Rightarrow> q)"

definition collect_params :: "('s, 'm) ClassifiedRequest_scheme list \<Rightarrow> (string, queryParamInfo) gomap" where
  "collect_params members = fold (\<lambda>ep. fold (observe_param ep) (query_of ep)) members []"

definition endpoints_with_params :: "('s, 'm) ClassifiedRequest_scheme list \<Rightarrow> nat" where
  "endpoints_with_params members = length (filter (\<lambda>ep. length (query_of ep) > 0) members)"

definition query_parameter :: "nat \<Rightarrow> string \<Rightarrow> queryParamInfo \<Rightarrow> parameter option" where
  "query_parameter endpointsWithParams name info =
     (let required = (endpointsWithParams > 0 \<and> param_count info = endpointsWithParams)
      in if length (param_values info) = 0 then None
         else if multiValueSeen info then
           (let itemsType = inferQueryParamItemsType (param_values info)
            in Some \<lparr>ParamName = name, ParamIn = ''query'', ParamRequired = required,
                 ParamSchema = inline (Schema (Some ''array'') [] False None (Some (typed itemsType))),
                 ParamStyle = ''form'', ParamExplode = Some True\<rparr>)
         else
           (let paramType = inferQueryParamItemsType (param_values info)
            in Some \<lparr>ParamName = name, ParamIn = ''query'', ParamRequired = required,
                 ParamSchema = typed paramType, ParamStyle = [], ParamExplode = None\<rparr>))"

definition query_parameters :: "('s, 'm) ClassifiedRequest_scheme list \<Rightarrow> parameter list" where
  "query_parameters members =
     (let queryParams = collect_params members
      in List.map_filter (\<lambda>name. query_parameter (endpoints_with_params members) name (the (map_get queryParams name)))
           (sort (map fst queryParams)))"

definition extractPathParams :: "string \<Rightarrow> string list" where
  "extractPathParams path =
     map (\<lambda>segment. trim_prefix (trim_suffix segment ''}'') ''{'')
       (filter (\<lambda>segment. has_prefix segment ''{'' \<and> has_suffix segment ''}'') (split_on (CHR ''/'') path))"

definition path_parameter :: "string \<Rightarrow> parameter" where
  "path_parameter name =
     \<lparr>ParamName = name, ParamIn = ''path'', ParamRequired = True, ParamSchema = typed ''string'',
      ParamStyle = [], ParamExplode = None\<rparr>"

subsection \<open>Request bodies\<close>

definition body_type :: "('s, 'm) ClassifiedRequest_scheme \<Rightarrow> string" where
  "body_type ep =
     (let ct = Header (Headers ep) ''content-type''; baseType = ''application/json''
      in if ct \<noteq> [] then (let t = Base ct in if t \<noteq> [] then t else baseType) else baseType)"

definition add_body ::
    "('s, 'm) ClassifiedRequest_scheme \<Rightarrow> (string, (bytes \<times> string) list) gomap \<Rightarrow> (string, (bytes \<times> string) list) gomap" where
  "add_body ep ctGroups =
     (if length (Body ep) = 0 then ctGroups
      else
        let ct = Header (Headers ep) ''content-type''; baseType = body_type ep
        in map_put baseType ((case map_get ctGroups baseType of None \<Rightarrow> [] | Some obs \<Rightarrow> obs) @ [(Body ep, ct)]) ctGroups)"

definition body_schema :: "'e form_env_scheme \<Rightarrow> string \<Rightarrow> (bytes \<times> string) list \<Rightarrow> sref option" where
  "body_schema env mediaType obs =
     (if mediaType = ''application/x-www-form-urlencoded'' then mergeURLEncodedBodies (map fst obs)
      else if mediaType = ''multipart/form-data'' then mergeMultipartBodies env (map fst obs) (map snd obs)
      else mergeJSONBodies (map fst obs))"

definition request_body :: "'e form_env_scheme \<Rightarrow> ('s, 'm) ClassifiedRequest_scheme list \<Rightarrow> content option" where
  "request_body env members =
     (let ctGroups = fold add_body members [];
          content = List.map_filter (\<lambda>mediaType. map_option (Pair mediaType)
              (body_schema env mediaType (the (map_get ctGroups mediaType)))) (sort (map fst ctGroups))
      in if length content > 0 then Some content else None)"

subsection \<open>Responses\<close>

text \<open>\<^verbatim>\<open>http.StatusText\<close>.\<close>

definition status_texts :: "(nat, string) gomap" where
  "status_texts =
    [(100, ''Continue''), (101, ''Switching Protocols''), (102, ''Processing''), (103, ''Early Hints''),
     (200, ''OK''), (201, ''Created''), (202, ''Accepted''), (203, ''Non-Authoritative Information''),
     (204, ''No Content''), (205, ''Reset Content''), (206, ''Partial Content''), (207, ''Multi-Status''),
     (208, ''Already Reported''), (226, ''IM Used''), (300, ''Multiple Choices''), (301, ''Moved Permanently''),
     (302, ''Found''), (303, ''See Other''), (304, ''Not Modified''), (305, ''Use Proxy''),
     (307, ''Temporary Redirect''), (308, ''Permanent Redirect''), (400, ''Bad Request''),
     (401, ''Unauthorized''), (402, ''Payment Required''), (403, ''Forbidden''), (404, ''Not Found''),
     (405, ''Method Not Allowed''), (406, ''Not Acceptable''), (407, ''Proxy Authentication Required''),
     (408, ''Request Timeout''), (409, ''Conflict''), (410, ''Gone''), (411, ''Length Required''),
     (412, ''Precondition Failed''), (413, ''Request Entity Too Large''), (414, ''Request URI Too Long''),
     (415, ''Unsupported Media Type''), (416, ''Requested Range Not Satisfiable''), (417, ''Expectation Failed''),
     (418, ''I'' @ [CHR 0x27] @ ''m a teapot''), (421, ''Misdirected Request''), (422, ''Unprocessable Entity''),
     (423, ''Locked''), (424, ''Failed Dependency''), (425, ''Too Early''), (426, ''Upgrade Required''),
     (428, ''Precondition Required''), (429, ''Too Many Requests''), (431, ''Request Header Fields Too Large''),
     (451, ''Unavailable For Legal Reasons''), (500, ''Internal Server Error''), (501, ''Not Implemented''),
     (502, ''Bad Gateway''), (503, ''Service Unavailable''), (504, ''Gateway Timeout''),
     (505, ''HTTP Version Not Supported''), (506, ''Variant Also Negotiates''), (507, ''Insufficient Storage''),
     (508, ''Loop Detected''), (510, ''Not Extended''), (511, ''Network Authentication Required'')]"

definition StatusText :: "nat \<Rightarrow> string" where
  "StatusText code = (case map_get status_texts code of None \<Rightarrow> [] | Some t \<Rightarrow> t)"

text \<open>The schema of a response body, which is inferred only when the content type may be JSON.\<close>

definition response_schema :: "ObservedResponse \<Rightarrow> sref option" where
  "response_schema r =
     (if length (RespBody r) > 0 then
        (let ct = to_lower (ContentType r)
         in if ct = [] \<or> contains ct ''json'' then InferSchema (RespBody r) else None)
      else None)"

text \<open>The union into an existing object schema keeps the properties that are there.\<close>

definition union_property :: "string \<times> sref \<Rightarrow> schemas \<Rightarrow> schemas" where
  "union_property kv props =
     (case kv of (propName, propSchema) \<Rightarrow>
        if map_has props propName then props else map_put propName propSchema props)"

definition merge_response :: "ObservedResponse \<Rightarrow> response \<Rightarrow> response" where
  "merge_response r existing =
     (case response_schema r of None \<Rightarrow> existing
      | Some newSchema \<Rightarrow>
          if RefValue newSchema = None then existing
          else if RespContent existing = [] then existing\<lparr>RespContent := [(''application/json'', newSchema)]\<rparr>
          else (case (props_of newSchema, map_get (RespContent existing) ''application/json'') of
              (Some newProps, Some mt) \<Rightarrow>
                (case props_of mt of None \<Rightarrow> existing
                 | Some props \<Rightarrow> existing\<lparr>RespContent :=
                     map_put ''application/json'' (with_props mt (fold union_property newProps props)) (RespContent existing)\<rparr>)
            | _ \<Rightarrow> existing))"

definition status_of :: "ObservedResponse \<Rightarrow> nat" where
  "status_of r = (if StatusCode r > 0 then nat (StatusCode r) else 200)"

definition new_response :: "ObservedResponse \<Rightarrow> response" where
  "new_response r =
     (let description = StatusText (status_of r)
      in \<lparr>RespDescription = (if description = [] then itoa (status_of r) else description),
          RespContent = (case response_schema r of None \<Rightarrow> [] | Some s \<Rightarrow> [(''application/json'', s)])\<rparr>)"

definition response_step :: "('s, 'm) ClassifiedRequest_scheme \<Rightarrow> (string, response) gomap \<Rightarrow> (string, response) gomap" where
  "response_step ep seenStatus =
     (let statusCode = itoa (status_of (Response ep))
      in case map_get seenStatus statusCode of
           Some existing \<Rightarrow> map_put statusCode (merge_response (Response ep) existing) seenStatus
         | None \<Rightarrow> map_put statusCode (new_response (Response ep)) seenStatus)"

definition drop_default :: "(string, response) gomap \<Rightarrow> (string, response) gomap" where
  "drop_default responses =
     (case map_get responses ''default'' of None \<Rightarrow> responses
      | Some r \<Rightarrow> if RespDescription r = [] then AList.delete ''default'' responses else responses)"

subsection \<open>The whole operation\<close>

definition buildOperation ::
    "'e form_env_scheme \<Rightarrow> endpointKey \<Rightarrow> ('s, 'm) ClassifiedRequest_scheme list \<Rightarrow> bool \<Rightarrow> string list \<Rightarrow> operation" where
  "buildOperation env key group0 emitSource excludedOrigins =
     (let op = empty_operation (capitalizeFirst (key_method key) @ '' '' @ key_path key)
      in if length group0 = 0 then op
         else
           let members = sort_key group_key group0;
               src = computeSourceTag members
           in op\<lparr>OpServers := (if key_origin key \<noteq> [] \<and> key_origin key \<in> set excludedOrigins
                   then Some [key_origin key] else None),
                 OpParameters := query_parameters members @ map path_parameter (extractPathParams (key_path key)),
                 OpRequestBody := (if key_method key = ''post'' \<or> key_method key = ''put'' \<or> key_method key = ''patch''
                   then request_body env members else None),
                 OpResponses := drop_default (fold response_step members []),
                 OpSourceTag := (if emitSource \<and> src \<noteq> [] then Some src else None)\<rparr>)"

section \<open>Collisions\<close>

definition recordCollisionOrigin :: "string \<Rightarrow> operation \<Rightarrow> operation" where
  "recordCollisionOrigin origin winner =
     (let existing = (case OpCollisionOrigins winner of None \<Rightarrow> [] | Some os \<Rightarrow> os)
      in if origin \<in> set existing then winner
         else winner\<lparr>OpCollisionOrigins := Some (sort (existing @ [origin]))\<rparr>)"

definition trustRank :: "string \<Rightarrow> string \<Rightarrow> string list \<Rightarrow> nat" where
  "trustRank origin primaryOrigin excludedOrigins =
     (if origin = [] then 2
      else if origin = primaryOrigin then 0
      else if origin \<in> set excludedOrigins then 2
      else 1)"

text \<open>The seven operation fields of a \<^verbatim>\<open>PathItem\<close> are a map from their methods.\<close>

definition path_methods :: "string list" where
  "path_methods = [''post'', ''put'', ''patch'', ''get'', ''delete'', ''head'', ''options'']"

type_synonym 'o path_item = "(string, 'o) gomap"

text \<open>An operation is shared by the table of occupied slots and the path item: both hold its index
  in \<open>store\<close>.\<close>

record slots =
  store :: "operation list"
  occupiedSlots :: "(string \<times> string, nat) gomap"
  slot_paths :: "(string, nat path_item) gomap"

definition set_operation :: "string \<Rightarrow> nat \<Rightarrow> nat path_item \<Rightarrow> nat path_item" where
  "set_operation method i item = (if method \<in> set path_methods then map_put method i item else item)"

text \<open>\<^verbatim>\<open>doc.Paths.Find(key.path)\<close> and, when it is nil, a new item.\<close>

definition place :: "(string list \<Rightarrow> string \<Rightarrow> string option) \<Rightarrow> endpointKey \<Rightarrow> nat \<Rightarrow>
    (string, nat path_item) gomap \<Rightarrow> (string, nat path_item) gomap" where
  "place find_path key i paths =
     (let paths' = (case find_path (map fst paths) (key_path key) of None \<Rightarrow> map_put (key_path key) [] paths | Some _ \<Rightarrow> paths);
          at = (case find_path (map fst paths) (key_path key) of None \<Rightarrow> key_path key | Some p \<Rightarrow> p)
      in case map_get paths' at of None \<Rightarrow> paths' | Some item \<Rightarrow> map_put at (set_operation (key_method key) i item) paths')"

definition collision_step ::
    "(string list \<Rightarrow> string \<Rightarrow> string option) \<Rightarrow> (endpointKey \<Rightarrow> operation) \<Rightarrow> endpointKey \<Rightarrow> slots \<Rightarrow> slots" where
  "collision_step find_path build key st =
     (let operation = build key; s = (key_path key, key_method key)
      in case map_get (occupiedSlots st) s of
           Some winner \<Rightarrow> st\<lparr>store := (store st)[winner := recordCollisionOrigin (key_origin key) (store st ! winner)]\<rparr>
         | None \<Rightarrow>
             let i = length (store st)
             in \<lparr>store = store st @ [operation], occupiedSlots = map_put s i (occupiedSlots st),
                 slot_paths = place find_path key i (slot_paths st)\<rparr>)"

type_synonym paths = "(string, operation path_item) gomap"

definition deref :: "slots \<Rightarrow> paths" where
  "deref st = map (\<lambda>(p, item). (p, map (\<lambda>(m, i). (m, store st ! i)) item)) (slot_paths st)"

definition resolveCollisions ::
    "(string list \<Rightarrow> string \<Rightarrow> string option) \<Rightarrow> (endpointKey \<Rightarrow> operation) \<Rightarrow> endpointKey list \<Rightarrow> paths" where
  "resolveCollisions find_path build keys =
     deref (fold (collision_step find_path build) keys \<lparr>store = [], occupiedSlots = [], slot_paths = []\<rparr>)"

end
