(* ===== verification/Rest_Components.thy ===== *)
theory Rest_Components
  imports Rest_Openapi
begin

text \<open>
  The rest of \<^verbatim>\<open>pkg/generate/rest/openapi.go\<close>: names of components, the extraction of inline
  schemas to \<^verbatim>\<open>components/schemas\<close>, and \<^verbatim>\<open>Generate\<close>. Printing, loading and finding in a document are the third-party
  library's: fields of \<open>openapi_env\<close>.
\<close>

section \<open>Names of resources\<close>

definition commonPathExtensions :: "string list" where
  "commonPathExtensions = [''.php'', ''.asp'', ''.aspx'', ''.jsp'', ''.mvc'', ''.html'', ''.htm'', ''.json'',
     ''.xml'', ''.action'', ''.do'']"

fun camel_from :: "bool \<Rightarrow> string \<Rightarrow> string" where
  "camel_from capitalizeNext [] = []"
| "camel_from capitalizeNext (r # s) =
     (if is_lower r then (if capitalizeNext then upper_char r else r) # camel_from False s
      else if is_upper r \<or> is_digit r then r # camel_from False s
      else camel_from True s)"

definition toCamelCase :: "string \<Rightarrow> string" where
  "toCamelCase s = camel_from True s"

text \<open>The first suffix met in one iteration order \<open>exts\<close> of the extensions.\<close>

definition strip_extension :: "string list \<Rightarrow> string \<Rightarrow> string" where
  "strip_extension exts seg =
     (case find (\<lambda>ext. has_suffix (to_lower seg) ext) exts of
        None \<Rightarrow> seg | Some ext \<Rightarrow> take (length seg - length ext) seg)"

definition sanitizeResourceName :: "string \<Rightarrow> string" where
  "sanitizeResourceName seg =
     (let result = toCamelCase (strip_extension commonPathExtensions seg)
      in if result = [] then ''Resource''
         else if is_digit (hd result) then ''Resource'' @ result
         else singularize result)"

definition resourceNameFromPath :: "string \<Rightarrow> string" where
  "resourceNameFromPath path =
     (case find (\<lambda>seg. \<not> (seg = [] \<or> has_prefix seg ''{'')) (rev (split_on (CHR ''/'') path)) of
        None \<Rightarrow> ''Resource'' | Some seg \<Rightarrow> sanitizeResourceName seg)"

section \<open>Components\<close>

definition schemaFingerprint :: "schemas option \<Rightarrow> string" where
  "schemaFingerprint properties =
     (case properties of None \<Rightarrow> []
      | Some props \<Rightarrow> join '','' (sort (map (\<lambda>(k, v). k @ '':'' @
          (case type_of v of None \<Rightarrow> ''unknown'' | Some t \<Rightarrow> t)) props)))"

record extraction =
  schemas_out :: schemas
  reqNames :: "(string, string) gomap"
  respNames :: "(string, string) gomap"
  nameCounter :: "(string, nat) gomap"

definition ensureUniqueName :: "string \<Rightarrow> extraction \<Rightarrow> string \<times> extraction" where
  "ensureUniqueName baseName st =
     (let n = (case map_get (nameCounter st) baseName of None \<Rightarrow> 0 | Some n \<Rightarrow> n) + 1
      in (if n = 1 then baseName else baseName @ itoa n, st\<lparr>nameCounter := map_put baseName n (nameCounter st)\<rparr>))"

definition statusContext :: "string \<Rightarrow> string" where
  "statusContext statusCode =
     (if statusCode = ''200'' then ''Response''
      else if statusCode = ''201'' then ''CreatedResponse''
      else if statusCode = ''204'' then []
      else if statusCode = ''400'' then ''BadRequestResponse''
      else if statusCode = ''401'' then ''UnauthorizedResponse''
      else if statusCode = ''403'' then ''ForbiddenResponse''
      else if statusCode = ''404'' then ''NotFoundResponse''
      else if statusCode = ''500'' then ''InternalErrorResponse''
      else statusCode @ ''Response'')"

definition methodPrefix :: "string \<Rightarrow> string" where
  "methodPrefix method =
     (if method = ''post'' then ''Create'' else if method = ''put'' \<or> method = ''patch'' then ''Update'' else [])"

definition component_ref :: "string \<Rightarrow> sref" where
  "component_ref componentName = SchemaRef (''#/components/schemas/'' @ componentName) None"

text \<open>One media type of a request or of a response. The schema that is stored is the value without the
  reference it was held by.\<close>

definition extract_request :: "string \<Rightarrow> string \<Rightarrow> sref \<Rightarrow> extraction \<Rightarrow> sref \<times> extraction" where
  "extract_request resourceName method s st =
     (let fingerprint = schemaFingerprint (props_of s)
      in if fingerprint = [] then (s, st)
         else (case map_get (reqNames st) fingerprint of
             Some existingName \<Rightarrow> (component_ref existingName, st)
           | None \<Rightarrow>
               (case ensureUniqueName (methodPrefix method @ resourceName @ ''Request'') st of (name, st') \<Rightarrow>
                 (component_ref name,
                  st'\<lparr>schemas_out := map_put name (SchemaRef [] (RefValue s)) (schemas_out st'),
                     reqNames := map_put fingerprint name (reqNames st')\<rparr>))))"

definition extract_response :: "string \<Rightarrow> string \<Rightarrow> sref \<Rightarrow> extraction \<Rightarrow> sref \<times> extraction" where
  "extract_response resourceName statusCode s st =
     (let fingerprint = schemaFingerprint (props_of s)
      in if fingerprint = [] then (s, st)
         else (case map_get (respNames st) fingerprint of
             Some existingName \<Rightarrow> (component_ref existingName, st)
           | None \<Rightarrow>
               let suffix = statusContext statusCode
               in if suffix = [] then (s, st)
                  else (case ensureUniqueName (resourceName @ suffix) st of (name, st') \<Rightarrow>
                    (component_ref name,
                     st'\<lparr>schemas_out := map_put name (SchemaRef [] (RefValue s)) (schemas_out st'),
                        respNames := map_put fingerprint name (respNames st')\<rparr>))))"

text \<open>The loops of \<^verbatim>\<open>extractComponents\<close> visit the keys of a map in a given order and update the
  values in place.\<close>

definition visit :: "('k \<Rightarrow> 'v \<Rightarrow> 'st \<Rightarrow> 'v \<times> 'st) \<Rightarrow> 'k list \<Rightarrow> ('k, 'v) gomap \<Rightarrow> 'st \<Rightarrow> ('k, 'v) gomap \<times> 'st" where
  "visit f ks m0 st0 =
     fold (\<lambda>k (m, st). case map_get m k of None \<Rightarrow> (m, st)
        | Some v \<Rightarrow> (case f k v st of (v', st') \<Rightarrow> (map_put k v' m, st'))) ks (m0, st0)"

definition visit_sorted :: "(string \<Rightarrow> 'v \<Rightarrow> 'st \<Rightarrow> 'v \<times> 'st) \<Rightarrow> (string, 'v) gomap \<Rightarrow> 'st \<Rightarrow> (string, 'v) gomap \<times> 'st" where
  "visit_sorted f m st = visit f (sort (map fst m)) m st"

definition extract_body :: "string \<Rightarrow> string \<Rightarrow> content option \<Rightarrow> extraction \<Rightarrow> content option \<times> extraction" where
  "extract_body resourceName method body st =
     (case body of None \<Rightarrow> (None, st)
      | Some content \<Rightarrow>
          (case visit_sorted (\<lambda>_. extract_request resourceName method) content st of (content', st') \<Rightarrow> (Some content', st')))"

definition extract_status :: "string \<Rightarrow> string \<Rightarrow> response \<Rightarrow> extraction \<Rightarrow> response \<times> extraction" where
  "extract_status resourceName statusCode resp st =
     (case visit_sorted (\<lambda>_. extract_response resourceName statusCode) (RespContent resp) st of
        (content', st') \<Rightarrow> (resp\<lparr>RespContent := content'\<rparr>, st'))"

definition extract_operation :: "string \<Rightarrow> string \<Rightarrow> operation \<Rightarrow> extraction \<Rightarrow> operation \<times> extraction" where
  "extract_operation resourceName method op st =
     (case extract_body resourceName method (OpRequestBody op) st of (body, st1) \<Rightarrow>
        (case visit_sorted (extract_status resourceName) (OpResponses op) st1 of (responses, st2) \<Rightarrow>
          (op\<lparr>OpRequestBody := body, OpResponses := responses\<rparr>, st2)))"

definition extract_path :: "string \<Rightarrow> operation path_item \<Rightarrow> extraction \<Rightarrow> operation path_item \<times> extraction" where
  "extract_path path item st = visit (extract_operation (resourceNameFromPath path)) path_methods item st"

definition extractComponents :: "paths \<Rightarrow> paths \<times> extraction" where
  "extractComponents paths =
     visit_sorted extract_path paths \<lparr>schemas_out = [], reqNames = [], respNames = [], nameCounter = []\<rparr>"

section \<open>The document\<close>

record document =
  DocTitle :: string
  DocServers :: "string list"
  DocPaths :: paths
  DocComponents :: schemas

record OpenAPIGenerator =
  Format :: string
  GenMergeSlugs :: bool
  GenSlugThreshold :: int
  TargetOrigin :: string

record openapi_env = form_env +
  FindPath :: "string list \<Rightarrow> string \<Rightarrow> string option"
  MarshalYAML :: "document \<Rightarrow> bytes option"
  LoadFromData :: "bytes \<Rightarrow> bool"
  MarshalIndent :: "document \<Rightarrow> bytes option"

text \<open>The comparison of \<^verbatim>\<open>sort.Slice(keys, ...)\<close>, and what it compares.\<close>

definition key_less :: "string \<Rightarrow> string list \<Rightarrow> endpointKey \<Rightarrow> endpointKey \<Rightarrow> bool" where
  "key_less primaryOrigin excludedOrigins a b =
     (if key_path a \<noteq> key_path b then key_path a < key_path b
      else if key_method a \<noteq> key_method b then key_method a < key_method b
      else
        let ri = trustRank (key_origin a) primaryOrigin excludedOrigins;
            rj = trustRank (key_origin b) primaryOrigin excludedOrigins
        in if ri \<noteq> rj then ri < rj else key_origin a < key_origin b)"

definition key_rank :: "string \<Rightarrow> string list \<Rightarrow> endpointKey \<Rightarrow> string \<times> string \<times> nat \<times> string" where
  "key_rank primaryOrigin excludedOrigins k =
     (key_path k, key_method k, trustRank (key_origin k) primaryOrigin excludedOrigins, key_origin k)"

lemma key_less_rank: "key_less p ex a b \<longleftrightarrow> key_rank p ex a < key_rank p ex b"
  by (auto simp: key_less_def key_rank_def less_prod_def' Let_def)

definition build_paths :: "openapi_env \<Rightarrow> OpenAPIGenerator \<Rightarrow> ('s, 'm) ClassifiedRequest_scheme list \<Rightarrow> paths" where
  "build_paths env g endpoints =
     (case extractServers endpoints (TargetOrigin g) of (servers, titleHost, excludedOrigins) \<Rightarrow>
        let endpointGroups = groupEndpoints endpoints
              \<lparr>MergeSlugs = GenMergeSlugs g, SlugThreshold = GenSlugThreshold g\<rparr>;
            staticPresent = anyStaticSource endpoints;
            primaryOrigin = (if length servers > 0 then servers ! 0 else []);
            keys = sort_key (key_rank primaryOrigin excludedOrigins) (map fst endpointGroups)
        in resolveCollisions (FindPath env)
             (\<lambda>key. buildOperation env key (the (map_get endpointGroups key)) staticPresent excludedOrigins) keys)"

definition build_document :: "openapi_env \<Rightarrow> OpenAPIGenerator \<Rightarrow> ('s, 'm) ClassifiedRequest_scheme list \<Rightarrow> document" where
  "build_document env g endpoints =
     (case extractServers endpoints (TargetOrigin g) of (servers, titleHost, excludedOrigins) \<Rightarrow>
        (case extractComponents (build_paths env g endpoints) of (paths, st) \<Rightarrow>
          \<lparr>DocTitle = titleHost, DocServers = servers, DocPaths = paths, DocComponents = schemas_out st\<rparr>))"

text \<open>An empty result without an error is the nil slice.\<close>

datatype gen_error = YAMLError | InvalidSpec | JSONError

definition Generate_openapi :: "openapi_env \<Rightarrow> OpenAPIGenerator \<Rightarrow> ('s, 'm) ClassifiedRequest_scheme list \<Rightarrow> gen_error + bytes" where
  "Generate_openapi env g endpoints =
     (if length endpoints = 0 then Inr []
      else
        let doc = build_document env g endpoints
        in case MarshalYAML env doc of None \<Rightarrow> Inl YAMLError
           | Some specBytes \<Rightarrow>
               if \<not> LoadFromData env specBytes then Inl InvalidSpec
               else
                 let format = (if Format g = [] then ''yaml'' else Format g)
                 in if format = ''json'' then
                      (case MarshalIndent env doc of None \<Rightarrow> Inl JSONError | Some b \<Rightarrow> Inr b)
                    else Inr specBytes)"

definition APIType_rest :: string where "APIType_rest = ''rest''"
definition DefaultExtension_rest :: string where "DefaultExtension_rest = ''.yaml''"

end
