(* ===== verification/Rest_Openapi_Spec.thy ===== *)
theory Rest_Openapi_Spec
  imports Rest_Components Normalize_Spec
begin

text \<open>
  What the document of \<open>Rest_Openapi\<close> promises: which origins it vouches for, how endpoints are grouped,
  who wins a slot two origins claim, and that nothing depends on the order of the capture.
\<close>

section \<open>Origins\<close>

text \<open>The origins named by the endpoints of one provenance.\<close>

definition origins_from :: "bool \<Rightarrow> ('s, 'm) ClassifiedRequest_scheme list \<Rightarrow> string set" where
  "origins_from static endpoints =
     (\<lambda>ep. CanonicalOrigin (URL ep)) ` {ep \<in> set endpoints. IsJSStaticSource (Source ep) = static} - {[]}"

lemma sort_nub: "sort (nub xs) = sorted_list_of_set (set xs)"
  by (metis distinct_nub set_nub sorted_list_of_set_sort_remdups distinct_remdups_id)

lemma add_origin_nub: "add_origin x (nub xs) = nub (xs @ [x])"
  by (simp add: add_origin_def)

lemma collect_origins:
  "collectEndpointOrigins endpoints =
     (nub (filter (\<lambda>x. x \<noteq> []) (map (\<lambda>ep. CanonicalOrigin (URL ep)) (filter (\<lambda>ep. \<not> IsJSStaticSource (Source ep)) endpoints))),
      nub (filter (\<lambda>x. x \<noteq> []) (map (\<lambda>ep. CanonicalOrigin (URL ep)) (filter (\<lambda>ep. IsJSStaticSource (Source ep)) endpoints))))"
  unfolding collectEndpointOrigins_def
  by (induction endpoints rule: rev_induct) (simp_all add: collect_step_def Let_def add_origin_nub)

lemma origins_from_filter:
  "origins_from b endpoints = set (filter (\<lambda>x. x \<noteq> []) (map (\<lambda>ep. CanonicalOrigin (URL ep))
      (filter (\<lambda>ep. IsJSStaticSource (Source ep) = b) endpoints)))"
  unfolding origins_from_def set_filter set_map by blast

lemma collected_sorted:
  assumes "collectEndpointOrigins endpoints = (obs, static)"
  shows "sort obs = sorted_list_of_set (origins_from False endpoints)"
    and "sort static = sorted_list_of_set (origins_from True endpoints)"
    and "set obs = origins_from False endpoints"
    and "set static = origins_from True endpoints"
proof -
  have o: "obs = nub (filter (\<lambda>x. x \<noteq> []) (map (\<lambda>ep. CanonicalOrigin (URL ep)) (filter (\<lambda>ep. IsJSStaticSource (Source ep) = False) endpoints)))"
    and s: "static = nub (filter (\<lambda>x. x \<noteq> []) (map (\<lambda>ep. CanonicalOrigin (URL ep)) (filter (\<lambda>ep. IsJSStaticSource (Source ep) = True) endpoints)))"
    using assms unfolding collect_origins by simp_all
  show "sort obs = sorted_list_of_set (origins_from False endpoints)" "set obs = origins_from False endpoints"
    unfolding o origins_from_filter by (rule sort_nub set_nub)+
  show "sort static = sorted_list_of_set (origins_from True endpoints)" "set static = origins_from True endpoints"
    unfolding s origins_from_filter by (rule sort_nub set_nub)+
qed

lemma finite_origins [simp]: "finite (origins_from static endpoints)"
  by (simp add: origins_from_def)

lemma origins_nonempty [simp]: "[] \<notin> origins_from static endpoints"
  by (simp add: origins_from_def)

lemma fold_addServer:
  "distinct xs \<Longrightarrow> fold addServer xs servers = servers @ filter (\<lambda>x. x \<noteq> [] \<and> x \<notin> set servers) xs"
proof (induction xs arbitrary: servers)
  case (Cons x xs)
  have "filter (\<lambda>y. y \<noteq> [] \<and> y \<notin> set (addServer x servers)) xs = filter (\<lambda>y. y \<noteq> [] \<and> y \<notin> set servers) xs"
    using Cons.prems by (auto simp: addServer_def intro!: filter_cong)
  then show ?case using Cons by (simp add: addServer_def)
qed simp

lemma filter_sorted_set:
  fixes A :: "'a::linorder set"
  assumes "finite A"
  shows "filter P (sorted_list_of_set A) = sorted_list_of_set {x \<in> A. P x}"
  using assms by (intro sorted_distinct_set_unique) (auto simp: sorted_wrt_filter)

definition primary_origin :: "('s, 'm) ClassifiedRequest_scheme list \<Rightarrow> string \<Rightarrow> string" where
  "primary_origin endpoints target =
     (if CanonicalOrigin target \<noteq> [] then CanonicalOrigin target
      else if origins_from False endpoints = {} then [] else Min (origins_from False endpoints))"

definition title_of :: "string \<Rightarrow> string" where
  "title_of origin =
     (case parse_url origin of Some u \<Rightarrow> if Host u \<noteq> [] then Host u @ '' API'' else ''API'' | None \<Rightarrow> ''API'')"

lemma choose_primary:
  assumes "set obs = origins_from False endpoints"
  shows "choosePrimaryOrigin target obs = primary_origin endpoints target"
proof -
  have "sort obs ! 0 = Min (set obs)" if "obs \<noteq> []"
  proof (rule Min_eqI [symmetric])
    show "sort obs ! 0 \<in> set obs" using that by (metis length_greater_0_conv length_sort nth_mem set_sort)
    fix y assume "y \<in> set obs"
    then show "sort obs ! 0 \<le> y"
      by (metis hd_conv_nth in_set_conv_nth length_greater_0_conv less_nat_zero_code list.size(3) set_sort
          sorted_nth_mono sorted_sort zero_le)
  qed simp
  then show ?thesis using assms by (auto simp: choosePrimaryOrigin_def primary_origin_def sortedCopy_def Let_def)
qed

lemma extractServers_eq:
  "extractServers endpoints target =
     (let primary = primary_origin endpoints target;
          servers = (if primary = [] then [] else primary # sorted_list_of_set (origins_from False endpoints - {primary}))
      in (servers, (if primary = [] then ''API'' else title_of primary),
          sorted_list_of_set (origins_from True endpoints - set servers)))"
proof -
  obtain obs static where c: "collectEndpointOrigins endpoints = (obs, static)" by (cases "collectEndpointOrigins endpoints")
  note s = collected_sorted [OF c]
  let ?p = "primary_origin endpoints target"
  have primary: "choosePrimaryOrigin target obs = ?p" using s(3) by (rule choose_primary)
  have empty: "?p = [] \<Longrightarrow> origins_from False endpoints = {}"
    by (metis Min_in finite_origins origins_nonempty primary_origin_def)
  have servers: "fold addServer (sort obs) (addServer ?p [])
      = (if ?p = [] then [] else ?p # sorted_list_of_set (origins_from False endpoints - {?p}))"
  proof (cases "?p = []")
    case True
    then show ?thesis using empty by (simp add: s(1) addServer_def)
  next
    case False
    have "{x \<in> origins_from False endpoints. x \<noteq> [] \<and> x \<noteq> ?p} = origins_from False endpoints - {?p}" by auto
    then show ?thesis using False
      by (simp add: s(1) fold_addServer addServer_def filter_sorted_set del: sorted_list_of_set_remove)
  qed
  have "{x \<in> origins_from True endpoints. x \<notin> A} = origins_from True endpoints - A" for A by auto
  then show ?thesis
    unfolding extractServers_def c prod.case primary sortedCopy_def Let_def servers s(2) filter_sorted_set [OF finite_origins]
    by (simp add: title_of_def del: sorted_list_of_set_remove)
qed

text \<open>C15. The servers of the document are the primary origin, which is the target's origin or else the
  least observed one, followed by the other observed origins in order; an origin that only bundle text names is
  no server unless it is the target's, does not name the document, and is excluded. Only the sets of origins count,
  not the order of the capture.\<close>

theorem extractServers_spec:
  "extractServers endpoints target =
     (let primary = primary_origin endpoints target;
          servers = (if primary = [] then [] else primary # sorted_list_of_set (origins_from False endpoints - {primary}))
      in (servers, (if primary = [] then ''API'' else title_of primary),
          sorted_list_of_set (origins_from True endpoints - set servers)))"
  by (rule extractServers_eq)

section \<open>Provenance\<close>

lemma tags:
  "IsJSStaticSource SourceStaticJS" "IsJSStaticSource SourceStaticJSSourcemap" "IsJSStaticSource SourceStaticJSConcat"
  "map_get jsStaticSourceRank ''js-bundle'' = Some 0"
  "map_get jsStaticSourceRank ''js-sourcemap'' = Some 1"
  "map_get jsStaticSourceRank ''js-bundle-concat'' = Some 2"
  "friendly_tag SourceStaticJS = ''js-bundle''" "friendly_tag SourceStaticJSSourcemap = ''js-sourcemap''"
  "friendly_tag SourceStaticJSConcat = ''js-bundle-concat''"
  "SourceStaticJS \<noteq> SourceStaticJSSourcemap" "SourceStaticJS \<noteq> SourceStaticJSConcat"
  "SourceStaticJSSourcemap \<noteq> SourceStaticJSConcat" "SourceStaticJSSourcemap \<noteq> SourceStaticJS"
  "SourceStaticJSConcat \<noteq> SourceStaticJS" "SourceStaticJSConcat \<noteq> SourceStaticJSSourcemap"
  by code_simp+

text \<open>The tag of an operation is the least confident provenance of its observations: dynamic only
  if one of them really is, whatever their order.\<close>

theorem computeSourceTag_spec:
  "computeSourceTag members =
     (let srcs = Source ` set members in
      if members = [] then []
      else if \<exists>s\<in>srcs. \<not> IsJSStaticSource s then ''dynamic''
      else if SourceStaticJSConcat \<in> srcs then ''js-bundle-concat''
      else if SourceStaticJSSourcemap \<in> srcs then ''js-sourcemap''
      else ''js-bundle'')"
proof -
  have loop: "source_tag_loop tag r ms =
     (if \<exists>ep\<in>set ms. \<not> IsJSStaticSource (Source ep) then ''dynamic''
      else if r < 2 \<and> (\<exists>ep\<in>set ms. Source ep = SourceStaticJSConcat) then ''js-bundle-concat''
      else if r < 1 \<and> (\<exists>ep\<in>set ms. Source ep = SourceStaticJSSourcemap) then ''js-sourcemap''
      else if r < 0 \<and> ms \<noteq> [] then ''js-bundle'' else tag)"
    for tag r and ms :: "('s, 'm) ClassifiedRequest_scheme list"
  proof (induction ms arbitrary: tag r)
    case (Cons ep ms)
    show ?case
    proof (cases "IsJSStaticSource (Source ep)")
      case True
      then have "Source ep = SourceStaticJS \<or> Source ep = SourceStaticJSSourcemap \<or> Source ep = SourceStaticJSConcat"
        by (simp add: IsJSStaticSource_def)
      then show ?thesis
      proof (elim disjE)
        assume e: "Source ep = SourceStaticJS"
        show ?thesis unfolding source_tag_loop.simps Let_def e
          by (auto simp: Cons.IH e tags)
      next
        assume e: "Source ep = SourceStaticJSSourcemap"
        show ?thesis unfolding source_tag_loop.simps Let_def e
          by (auto simp: Cons.IH e tags)
      next
        assume e: "Source ep = SourceStaticJSConcat"
        show ?thesis unfolding source_tag_loop.simps Let_def e
          by (auto simp: Cons.IH e tags)
      qed
    qed simp
  qed simp
  show ?thesis
    unfolding computeSourceTag_def loop Let_def Bex_def Ball_def image_iff eq_commute [of _ "Source _"]
    by auto
qed

section \<open>Groups\<close>

text \<open>The key an endpoint is filed under; \<open>None\<close> for a URL that is skipped.\<close>

definition templates :: "('s, 'm) ClassifiedRequest_scheme list \<Rightarrow> NormalizeOptions \<Rightarrow> (string, string) gomap" where
  "templates endpoints opts = NormalizePathsWithNames (map fst (List.map_filter parse_endpoint endpoints)) opts"

definition filed_under :: "(string, string) gomap \<Rightarrow> ('s, 'm) ClassifiedRequest_scheme \<Rightarrow> endpointKey option" where
  "filed_under normalized ep = map_option (endpoint_key normalized) (parse_endpoint ep)"

definition members_of :: "('s, 'm) ClassifiedRequest_scheme list \<Rightarrow> NormalizeOptions \<Rightarrow> endpointKey \<Rightarrow> ('s, 'm) ClassifiedRequest_scheme list" where
  "members_of endpoints opts key = filter (\<lambda>ep. filed_under (templates endpoints opts) ep = Some key) endpoints"

lemma parse_endpoint_snd: "parse_endpoint ep = Some p \<Longrightarrow> snd p = ep"
  by (auto simp: parse_endpoint_def split: option.splits if_splits)

lemma add_groups:
  "map_wf groups \<Longrightarrow>
    map_wf (fold (\<lambda>p. add_to_group (f p) (snd p)) ps groups)
    \<and> (\<forall>key. map_get (fold (\<lambda>p. add_to_group (f p) (snd p)) ps groups) key =
        (let g = (case map_get groups key of None \<Rightarrow> [] | Some g \<Rightarrow> g) @ map snd (filter (\<lambda>p. f p = key) ps)
         in if map_get groups key = None \<and> filter (\<lambda>p. f p = key) ps = [] then None else Some g))"
proof (induction ps arbitrary: groups)
  case Nil
  then show ?case by (auto split: option.split)
next
  case (Cons p ps)
  have "map_wf (add_to_group (f p) (snd p) groups)" using Cons.prems by (simp add: add_to_group_def)
  from Cons.IH [OF this] show ?case by (auto simp: add_to_group_def Let_def split: option.splits)
qed

lemma group_members:
  "map_wf (groupEndpoints endpoints opts)
    \<and> map_get (groupEndpoints endpoints opts) key =
        (if members_of endpoints opts key = [] then None else Some (members_of endpoints opts key))"
proof -
  have m: "map snd (filter (\<lambda>p. endpoint_key n p = key) (List.map_filter parse_endpoint eps))
      = filter (\<lambda>ep. filed_under n ep = Some key) eps" for n and eps :: "('a, 'b) ClassifiedRequest_scheme list"
  proof (induction eps)
    case (Cons ep eps)
    then show ?case using parse_endpoint_snd [of ep]
      by (cases "parse_endpoint ep") (auto simp: map_filter_def filed_under_def)
  qed (simp add: map_filter_def)
  let ?n = "templates endpoints opts"
  let ?f = "filter (\<lambda>p. endpoint_key ?n p = key) (List.map_filter parse_endpoint endpoints)"
  have "?f = [] \<longleftrightarrow> members_of endpoints opts key = []" "map snd ?f = members_of endpoints opts key"
    using m [of ?n endpoints] unfolding members_of_def by (metis map_is_Nil_conv)+
  moreover have "map_wf (groupEndpoints endpoints opts)
      \<and> map_get (groupEndpoints endpoints opts) key = (if ?f = [] then None else Some (map snd ?f))"
    using add_groups [of "[]" "endpoint_key ?n" "List.map_filter parse_endpoint endpoints"]
    unfolding groupEndpoints_def Let_def templates_def by simp
  ultimately show ?thesis by simp
qed

lemma group_keys:
  "key \<in> fst ` set (groupEndpoints endpoints opts) \<longleftrightarrow> members_of endpoints opts key \<noteq> []"
  using group_members [of endpoints opts key] by (metis map_of_eq_None_iff option.distinct(1))

lemma members_origin:
  "ep \<in> set (members_of endpoints opts key) \<Longrightarrow> CanonicalOrigin (URL ep) = key_origin key \<and> to_lower (Method ep) = key_method key"
  by (auto simp: members_of_def filed_under_def endpoint_key_def parse_endpoint_def split: option.splits if_splits)

section \<open>Collisions\<close>

text \<open>The claimants of a slot, and what becomes of it: the first one's operation, with the origins of the
  others recorded.\<close>

definition claims :: "endpointKey list \<Rightarrow> string \<Rightarrow> string \<Rightarrow> endpointKey list" where
  "claims keys p m = filter (\<lambda>k. key_path k = p \<and> key_method k = m) keys"

definition settled :: "(endpointKey \<Rightarrow> operation) \<Rightarrow> endpointKey list \<Rightarrow> operation option" where
  "settled build ks =
     (case ks of [] \<Rightarrow> None
      | k # losers \<Rightarrow> Some (fold (\<lambda>l. recordCollisionOrigin (key_origin l)) losers (build k)))"

definition lookup_operation :: "paths \<Rightarrow> string \<Rightarrow> string \<Rightarrow> operation option" where
  "lookup_operation paths p m = (case map_get paths p of None \<Rightarrow> None | Some item \<Rightarrow> map_get item m)"

lemma claims_mem: "k \<in> set (claims keys p m) \<longleftrightarrow> k \<in> set keys \<and> key_path k = p \<and> key_method k = m"
  by (auto simp: claims_def)

lemma settled_snoc:
  "settled build (ks @ [k]) =
     (case settled build ks of None \<Rightarrow> Some (build k) | Some op \<Rightarrow> Some (recordCollisionOrigin (key_origin k) op))"
  by (cases ks) (simp_all add: settled_def)

lemma settled_None: "settled build ks = None \<longleftrightarrow> ks = []"
  by (cases ks) (simp_all add: settled_def)

lemma claims_snoc: "claims (ks @ [k]) p m = (if key_path k = p \<and> key_method k = m then claims ks p m @ [k] else claims ks p m)"
  by (simp add: claims_def)

text \<open>A \<^verbatim>\<open>Find\<close> that finds exactly the stored path, for the paths of a set.\<close>

definition exact_find :: "(string list \<Rightarrow> string \<Rightarrow> string option) \<Rightarrow> string set \<Rightarrow> bool" where
  "exact_find find_path P =
     (\<forall>ps p. set ps \<subseteq> P \<longrightarrow> p \<in> P \<longrightarrow> find_path ps p = (if p \<in> set ps then Some p else None))"

definition slots_ok :: "(endpointKey \<Rightarrow> operation) \<Rightarrow> endpointKey list \<Rightarrow> slots \<Rightarrow> bool" where
  "slots_ok build ks st \<longleftrightarrow>
     (\<forall>p m. map_option ((!) (store st)) (map_get (occupiedSlots st) (p, m)) = settled build (claims ks p m))
     \<and> (\<forall>s i. map_get (occupiedSlots st) s = Some i \<longrightarrow> i < length (store st))
     \<and> (\<forall>s s' i. map_get (occupiedSlots st) s = Some i \<longrightarrow> map_get (occupiedSlots st) s' = Some i \<longrightarrow> s = s')
     \<and> fst ` set (slot_paths st) = key_path ` set ks
     \<and> (\<forall>p item m. map_get (slot_paths st) p = Some item \<longrightarrow>
          map_get item m = (if m \<in> set path_methods then map_get (occupiedSlots st) (p, m) else None))"

lemma slots_okD:
  assumes "slots_ok build ks st"
  shows "settled build (claims ks p m) = map_option ((!) (store st)) (map_get (occupiedSlots st) (p, m))"
    and "map_get (occupiedSlots st) s = Some i \<Longrightarrow> i < length (store st)"
    and "map_get (occupiedSlots st) s = Some i \<Longrightarrow> map_get (occupiedSlots st) s' = Some i \<Longrightarrow> s = s'"
    and "fst ` set (slot_paths st) = key_path ` set ks"
    and "map_get (slot_paths st) q = Some item \<Longrightarrow>
      map_get item n = (if n \<in> set path_methods then map_get (occupiedSlots st) (q, n) else None)"
proof -
  note c = assms [unfolded slots_ok_def]
  note c2 = c [THEN conjunct2] and c3 = c [THEN conjunct2, THEN conjunct2]
    and c4 = c [THEN conjunct2, THEN conjunct2, THEN conjunct2]
  show "settled build (claims ks p m) = map_option ((!) (store st)) (map_get (occupiedSlots st) (p, m))"
    by (rule sym) (rule c [THEN conjunct1, rule_format])
  show "map_get (occupiedSlots st) s = Some i \<Longrightarrow> i < length (store st)"
    by (rule c2 [THEN conjunct1, rule_format])
  show "map_get (occupiedSlots st) s = Some i \<Longrightarrow> map_get (occupiedSlots st) s' = Some i \<Longrightarrow> s = s'"
    by (rule c3 [THEN conjunct1, rule_format])
  show "fst ` set (slot_paths st) = key_path ` set ks" by (rule c4 [THEN conjunct1])
  show "map_get (slot_paths st) q = Some item \<Longrightarrow>
      map_get item n = (if n \<in> set path_methods then map_get (occupiedSlots st) (q, n) else None)"
    by (rule c4 [THEN conjunct2, rule_format])
qed

lemma place_spec:
  assumes "exact_find find_path P" "fst ` set paths \<subseteq> P" "key_path key \<in> P"
  shows "fst ` set (place find_path key i paths) = insert (key_path key) (fst ` set paths)"
    and "map_get (place find_path key i paths) p =
      (if p = key_path key
       then Some (set_operation (key_method key) i (case map_get paths p of None \<Rightarrow> [] | Some item \<Rightarrow> item))
       else map_get paths p)"
proof -
  have find: "find_path (map fst paths) (key_path key)
      = (if key_path key \<in> fst ` set paths then Some (key_path key) else None)"
    using assms unfolding exact_find_def by (simp add: image_subset_iff)
  have place: "place find_path key i paths =
      map_put (key_path key) (set_operation (key_method key) i (case map_get paths (key_path key) of None \<Rightarrow> [] | Some item \<Rightarrow> item))
        (case map_get paths (key_path key) of None \<Rightarrow> map_put (key_path key) [] paths | Some item \<Rightarrow> paths)"
  proof (cases "map_get paths (key_path key)")
    case None
    then have "key_path key \<notin> fst ` set paths" by (simp add: map_of_eq_None_iff)
    then show ?thesis using None by (simp add: place_def find Let_def)
  next
    case (Some item)
    then have "key_path key \<in> fst ` set paths" by (metis map_of_eq_None_iff option.distinct(1))
    then show ?thesis using Some by (simp add: place_def find Let_def)
  qed
  show "fst ` set (place find_path key i paths) = insert (key_path key) (fst ` set paths)"
    unfolding place by (cases "map_get paths (key_path key)") (simp_all add: dom_map_put)
  show "map_get (place find_path key i paths) p =
      (if p = key_path key
       then Some (set_operation (key_method key) i (case map_get paths p of None \<Rightarrow> [] | Some item \<Rightarrow> item))
       else map_get paths p)"
    unfolding place by (cases "map_get paths (key_path key)") simp_all
qed

lemma collision_step_ok:
  assumes ok: "slots_ok build ks st" and "exact_find find_path P" "key_path ` set (ks @ [k]) \<subseteq> P"
  shows "slots_ok build (ks @ [k]) (collision_step find_path build k st)"
proof (cases "map_get (occupiedSlots st) (key_path k, key_method k)")
  case (Some i)
  note settled = slots_okD(1) [OF ok]
  have i: "i < length (store st)" using slots_okD(2) [OF ok Some] .
  have inj: "map_get (occupiedSlots st) s = Some i \<longleftrightarrow> s = (key_path k, key_method k)" for s
    using slots_okD(3) [OF ok Some] Some by blast
  have "claims ks (key_path k) (key_method k) \<noteq> []"
    using Some settled [of "key_path k" "key_method k"] by (metis option.simps(3,9) settled_None)
  then obtain x where "x \<in> set ks" "key_path x = key_path k" by (auto simp: claims_def filter_empty_conv)
  then have path: "key_path k \<in> key_path ` set ks" by (metis imageI)
  have "map_option ((!) ((store st)[i := recordCollisionOrigin (key_origin k) (store st ! i)])) (map_get (occupiedSlots st) (p, m))
      = settled build (claims (ks @ [k]) p m)" for p m
    using inj [of "(p, m)"] i Some settled [of p m]
    by (cases "map_get (occupiedSlots st) (p, m)") (auto simp: claims_snoc settled_snoc nth_list_update)
  then show ?thesis
    using ok Some path unfolding slots_ok_def collision_step_def Let_def
    by (simp add: insert_absorb)
next
  case None
  let ?n = "length (store st)"
  note settled = slots_okD(1) [OF ok]
  note bound = slots_okD(2) [OF ok] and inj = slots_okD(3) [OF ok] and dom = slots_okD(4) [OF ok]
    and items = slots_okD(5) [OF ok]
  have "fst ` set (slot_paths st) \<subseteq> P" "key_path k \<in> P" using assms(3) dom by auto
  note place = place_spec [OF assms(2) this]
  have absent: "map_get (slot_paths st) p = None \<Longrightarrow> map_get (occupiedSlots st) (p, m) = None" for p m
  proof -
    assume "map_get (slot_paths st) p = None"
    then have "p \<notin> key_path ` set ks" using dom by (simp add: map_of_eq_None_iff)
    then have "claims ks p m = []" by (auto simp: claims_def filter_empty_conv)
    then show ?thesis using settled [of p m] by (simp add: settled_def)
  qed
  have st: "collision_step find_path build k st =
      \<lparr>store = store st @ [build k], occupiedSlots = map_put (key_path k, key_method k) ?n (occupiedSlots st),
       slot_paths = place find_path k ?n (slot_paths st)\<rparr>"
    using None by (simp add: collision_step_def Let_def)
  show ?thesis unfolding slots_ok_def st slots.simps
  proof (intro conjI allI impI)
    fix p m
    show "map_option ((!) (store st @ [build k])) (map_get (map_put (key_path k, key_method k) ?n (occupiedSlots st)) (p, m))
        = settled build (claims (ks @ [k]) p m)"
      using None settled [of p m] bound [of "(p, m)"]
      by (cases "map_get (occupiedSlots st) (p, m)") (auto simp: claims_snoc settled_snoc nth_append)
  next
    fix s i
    assume "map_get (map_put (key_path k, key_method k) ?n (occupiedSlots st)) s = Some i"
    then show "i < length (store st @ [build k])" using bound [of s i] by (auto split: if_splits)
  next
    fix s s' i
    assume "map_get (map_put (key_path k, key_method k) ?n (occupiedSlots st)) s = Some i"
      and "map_get (map_put (key_path k, key_method k) ?n (occupiedSlots st)) s' = Some i"
    then show "s = s'" using inj [of s i s'] bound [of s i] bound [of s' i] by (auto split: if_splits)
  next
    show "fst ` set (place find_path k ?n (slot_paths st)) = key_path ` set (ks @ [k])"
      using place(1) dom by simp
  next
    fix p item m
    assume "map_get (place find_path k ?n (slot_paths st)) p = Some item"
    then show "map_get item m = (if m \<in> set path_methods
        then map_get (map_put (key_path k, key_method k) ?n (occupiedSlots st)) (p, m) else None)"
      using items [of p _ m] absent [of p m] None unfolding place(2)
      by (auto simp: set_operation_def split: if_splits option.splits)
  qed
qed

lemma resolveCollisions_lookup:
  assumes "exact_find find_path (key_path ` set keys)"
  shows "lookup_operation (resolveCollisions find_path build keys) p m =
      (if m \<in> set path_methods then settled build (claims keys p m) else None)"
    and "fst ` set (resolveCollisions find_path build keys) = key_path ` set keys"
proof -
  have "slots_ok build ks (fold (collision_step find_path build) ks \<lparr>store = [], occupiedSlots = [], slot_paths = []\<rparr>)"
    if "set ks \<subseteq> set keys" for ks
    using that
  proof (induction ks rule: rev_induct)
    case Nil
    then show ?case by (simp add: slots_ok_def settled_def claims_def)
  next
    case (snoc k ks)
    then show ?case using collision_step_ok [OF _ assms] by (auto simp: image_mono)
  qed
  from this [of keys] obtain st where st: "resolveCollisions find_path build keys = deref st" "slots_ok build keys st"
    by (auto simp: resolveCollisions_def)
  have d: "lookup_operation (deref st) p m = (case map_get (slot_paths st) p of None \<Rightarrow> None
      | Some item \<Rightarrow> map_option ((!) (store st)) (map_get item m))"
    by (simp add: lookup_operation_def deref_def map_of_map split: option.split)
  note settled = slots_okD(1) [OF st(2)] and dom = slots_okD(4) [OF st(2)] and items = slots_okD(5) [OF st(2)]
  show "lookup_operation (resolveCollisions find_path build keys) p m =
      (if m \<in> set path_methods then settled build (claims keys p m) else None)"
  proof (cases "map_get (slot_paths st) p")
    case None
    then have "p \<notin> key_path ` set keys" using dom by (simp add: map_of_eq_None_iff)
    then have "claims keys p m = []" by (auto simp: claims_def filter_empty_conv)
    then show ?thesis unfolding st(1) d None by (simp add: settled_def)
  next
    case (Some item)
    then show ?thesis unfolding st(1) d by (simp add: items settled)
  qed
  show "fst ` set (resolveCollisions find_path build keys) = key_path ` set keys"
    using dom by (simp add: st(1) deref_def image_image case_prod_beta)
qed

text \<open>The recorded origins are the losers', each once and in order.\<close>

lemma record_more:
  "finite S \<Longrightarrow> recordCollisionOrigin x (op\<lparr>OpCollisionOrigins := Some (sorted_list_of_set S)\<rparr>)
     = op\<lparr>OpCollisionOrigins := Some (sorted_list_of_set (insert x S))\<rparr>"
proof (cases "x \<in> S")
  case False
  assume f: "finite S"
  have "sort (sorted_list_of_set S @ [x]) = sorted_list_of_set (insert x S)"
  proof (rule sorted_distinct_set_unique)
    show "distinct (sort (sorted_list_of_set S @ [x]))" using f False by simp
    show "set (sort (sorted_list_of_set S @ [x])) = set (sorted_list_of_set (insert x S))"
      using f by (simp del: sorted_list_of_set_insert_remove)
  qed (simp_all del: sorted_list_of_set_insert_remove)
  then show ?thesis using f False by (simp add: recordCollisionOrigin_def del: sorted_list_of_set_insert_remove)
qed (simp add: recordCollisionOrigin_def insert_absorb)

lemma record_fold:
  "OpCollisionOrigins op = None \<Longrightarrow> ls \<noteq> [] \<Longrightarrow>
    fold (\<lambda>l. recordCollisionOrigin (f l)) ls op = op\<lparr>OpCollisionOrigins := Some (sorted_list_of_set (f ` set ls))\<rparr>"
proof (induction ls rule: rev_induct)
  case (snoc l ls)
  show ?case
  proof (cases "ls = []")
    case True
    then show ?thesis using snoc.prems(1) by (simp add: recordCollisionOrigin_def)
  next
    case False
    then show ?thesis using snoc by (simp add: record_more del: sorted_list_of_set_insert_remove)
  qed
qed simp

lemma built_no_collision [simp]: "OpCollisionOrigins (buildOperation env key members static excluded) = None"
  by (simp add: buildOperation_def empty_operation_def Let_def)

subsection \<open>Trust\<close>

lemma trusted_iff:
  assumes "extractServers endpoints target = (servers, title, excluded)" "ep \<in> set endpoints"
  shows "trustRank (CanonicalOrigin (URL ep)) (if length servers > 0 then servers ! 0 else []) excluded < 2
    \<longleftrightarrow> CanonicalOrigin (URL ep) \<in> set servers"
proof -
  let ?o = "CanonicalOrigin (URL ep)" and ?p = "primary_origin endpoints target"
  have s: "servers = (if ?p = [] then [] else ?p # sorted_list_of_set (origins_from False endpoints - {?p}))"
    and e: "excluded = sorted_list_of_set (origins_from True endpoints - set servers)"
    using assms(1) unfolding extractServers_eq Let_def by auto
  have set: "set servers = (if ?p = [] then {} else insert ?p (origins_from False endpoints))"
    unfolding s by (auto simp del: sorted_list_of_set_remove)
  have empty: "?p = [] \<Longrightarrow> origins_from False endpoints = {}"
    by (metis Min_in finite_origins origins_nonempty primary_origin_def)
  have ex: "set excluded = origins_from True endpoints - set servers" unfolding e by simp
  have first: "(if length servers > 0 then servers ! 0 else []) = ?p" by (simp add: s)
  have mem: "?o \<noteq> [] \<Longrightarrow> ?o \<in> origins_from False endpoints \<or> ?o \<in> origins_from True endpoints"
    using assms(2) by (cases "IsJSStaticSource (Source ep)") (auto simp: origins_from_def)
  show ?thesis
  proof (cases "?o = []")
    case True
    then show ?thesis using set by (simp add: trustRank_def)
  next
    case False
    then show ?thesis unfolding first trustRank_def using mem ex set empty by (auto split: if_splits)
  qed
qed

definition options_of :: "OpenAPIGenerator \<Rightarrow> NormalizeOptions" where
  "options_of g = \<lparr>MergeSlugs = GenMergeSlugs g, SlugThreshold = GenSlugThreshold g\<rparr>"

lemma sorted_first:
  "claims (sort_key (key_rank p ex) keys) pt m = k # ls \<Longrightarrow> l \<in> set ls \<Longrightarrow>
    trustRank (key_origin k) p ex \<le> trustRank (key_origin l) p ex"
proof -
  assume c: "claims (sort_key (key_rank p ex) keys) pt m = k # ls" and l: "l \<in> set ls"
  have "sorted (map (key_rank p ex) (claims (sort_key (key_rank p ex) keys) pt m))"
    unfolding claims_def by (rule sorted_filter) simp
  then have "key_rank p ex k \<le> key_rank p ex l" using c l by auto
  moreover have "k \<in> set (claims (sort_key (key_rank p ex) keys) pt m)" "l \<in> set (claims (sort_key (key_rank p ex) keys) pt m)"
    using c l by simp_all
  then have "key_path k = key_path l" "key_method k = key_method l" by (simp_all add: claims_mem)
  ultimately show ?thesis by (auto simp: key_rank_def less_eq_prod_def)
qed

definition document_keys :: "OpenAPIGenerator \<Rightarrow> ('s, 'm) ClassifiedRequest_scheme list \<Rightarrow> endpointKey list" where
  "document_keys g endpoints =
     (case extractServers endpoints (TargetOrigin g) of (servers, _, excluded) \<Rightarrow>
        sort_key (key_rank (if length servers > 0 then servers ! 0 else []) excluded)
          (map fst (groupEndpoints endpoints (options_of g))))"

lemma document_keys_set:
  "key \<in> set (document_keys g endpoints) \<longleftrightarrow> members_of endpoints (options_of g) key \<noteq> []"
  using group_keys [of key endpoints "options_of g"]
  by (cases "extractServers endpoints (TargetOrigin g)") (simp add: document_keys_def)

lemma build_paths_eq:
  "build_paths env g endpoints =
     resolveCollisions (FindPath env)
       (\<lambda>key. buildOperation env key (members_of endpoints (options_of g) key) (anyStaticSource endpoints)
          (snd (snd (extractServers endpoints (TargetOrigin g)))))
       (document_keys g endpoints)"
proof -
  have cong: "fold (collision_step f b) ks st = fold (collision_step f b') ks st"
    if "\<And>k. k \<in> set ks \<Longrightarrow> b k = b' k" for f b b' ks st
    using that by (induction ks arbitrary: st) (simp_all add: collision_step_def)
  obtain servers title excluded where e: "extractServers endpoints (TargetOrigin g) = (servers, title, excluded)"
    by (cases "extractServers endpoints (TargetOrigin g)")
  have "the (map_get (groupEndpoints endpoints (options_of g)) k) = members_of endpoints (options_of g) k"
    if "k \<in> set (document_keys g endpoints)" for k
    using that group_members [of endpoints "options_of g" k] by (simp add: document_keys_set)
  then show ?thesis
    unfolding build_paths_def options_of_def [symmetric] resolveCollisions_def Let_def e document_keys_def prod.case snd_conv
    by (intro arg_cong [where f = deref] cong) simp
qed

text \<open>A slot of the document that several origins claim belongs to the most trusted claimant: an
  operation of an origin the run cannot vouch for never hides one of an origin it can, and an origin that lost is
  recorded in the operation that won, so that no endpoint disappears silently.\<close>

theorem build_paths_winner:
  assumes finds: "exact_find (FindPath env) (key_path ` set (document_keys g endpoints))"
    and ep: "ep \<in> set endpoints" "filed_under (templates endpoints (options_of g)) ep = Some key"
    and known: "key_method key \<in> set path_methods"
    and extracted: "extractServers endpoints (TargetOrigin g) = (servers, title, excluded)"
  shows "\<exists>w op. lookup_operation (build_paths env g endpoints) (key_path key) (key_method key) = Some op
    \<and> members_of endpoints (options_of g) w \<noteq> [] \<and> key_path w = key_path key \<and> key_method w = key_method key
    \<and> op\<lparr>OpCollisionOrigins := None\<rparr>
        = buildOperation env w (members_of endpoints (options_of g) w) (anyStaticSource endpoints) excluded
    \<and> (key_origin key \<in> set servers \<longrightarrow> key_origin w \<in> set servers)
    \<and> (key_origin key = key_origin w \<or> (\<exists>os. OpCollisionOrigins op = Some os \<and> key_origin key \<in> set os))"
proof -
  let ?build = "\<lambda>key. buildOperation env key (members_of endpoints (options_of g) key) (anyStaticSource endpoints) excluded"
  let ?keys = "document_keys g endpoints"
  let ?primary = "if length servers > 0 then servers ! 0 else []"
  have "ep \<in> set (members_of endpoints (options_of g) key)" using ep by (simp add: members_of_def)
  then have key: "key \<in> set (claims ?keys (key_path key) (key_method key))"
    by (auto simp: claims_mem document_keys_set)
  then obtain w ls where ws: "claims ?keys (key_path key) (key_method key) = w # ls"
    by (cases "claims ?keys (key_path key) (key_method key)") auto
  then have "w \<in> set (claims ?keys (key_path key) (key_method key))" by simp
  then have w: "members_of endpoints (options_of g) w \<noteq> []" "key_path w = key_path key" "key_method w = key_method key"
    by (simp_all add: claims_mem document_keys_set)
  let ?op = "fold (\<lambda>l. recordCollisionOrigin (key_origin l)) ls (?build w)"
  have op: "lookup_operation (build_paths env g endpoints) (key_path key) (key_method key) = Some ?op"
    using resolveCollisions_lookup(1) [OF finds, of ?build "key_path key" "key_method key"] known
    by (simp add: build_paths_eq extracted ws settled_def)
  have fold: "?op = (if ls = [] then ?build w else (?build w)\<lparr>OpCollisionOrigins := Some (sorted_list_of_set (key_origin ` set ls))\<rparr>)"
    by (simp add: record_fold)
  have none: "(?build w)\<lparr>OpCollisionOrigins := None\<rparr> = ?build w"
    using built_no_collision by (metis operation.surjective operation.update_convs(7) operation.ext_inject)
  have rank: "trustRank (key_origin w) ?primary excluded \<le> trustRank (key_origin key) ?primary excluded"
  proof (cases "key = w")
    case False
    then have "key \<in> set ls" using key ws by simp
    with sorted_first [of ?primary excluded] ws show ?thesis by (auto simp: document_keys_def extracted)
  qed simp
  have trusted: "trustRank (key_origin k) ?primary excluded < 2 \<longleftrightarrow> key_origin k \<in> set servers"
    if member: "members_of endpoints (options_of g) k \<noteq> []" for k
  proof -
    obtain e where e: "e \<in> set (members_of endpoints (options_of g) k)" using member by (cases "members_of endpoints (options_of g) k") auto
    then have "e \<in> set endpoints" by (simp add: members_of_def)
    from trusted_iff [OF extracted this] show ?thesis using members_origin [OF e] by simp
  qed
  have "members_of endpoints (options_of g) key \<noteq> []" using key by (simp add: claims_mem document_keys_set)
  then have "key_origin key \<in> set servers \<longrightarrow> key_origin w \<in> set servers"
    using trusted [of key] trusted [OF w(1)] rank by linarith
  moreover have "key_origin key = key_origin w \<or> (\<exists>os. OpCollisionOrigins ?op = Some os \<and> key_origin key \<in> set os)"
    using key ws fold by (cases "key = w") auto
  moreover have "?op\<lparr>OpCollisionOrigins := None\<rparr> = ?build w" using fold none by simp
  ultimately show ?thesis using op w by blast
qed

section \<open>The order of the capture\<close>

lemma filed_order:
  assumes "mset eps = mset eps'"
  shows "filed_under (templates eps opts) ep = filed_under (templates eps' opts) ep"
proof -
  have "set (List.map_filter parse_endpoint eps) = set (List.map_filter parse_endpoint eps')"
    using mset_eq_setD [OF assms] by (simp add: map_filter_def)
  then have "map_get (templates eps opts) = map_get (templates eps' opts)"
    unfolding templates_def by (intro Normalize_order) simp
  then show ?thesis by (cases "parse_endpoint ep") (simp_all add: filed_under_def endpoint_key_def)
qed

lemma members_order:
  "mset eps = mset eps' \<Longrightarrow> mset (members_of eps opts key) = mset (members_of eps' opts key)"
  by (simp add: members_of_def filed_order [of eps eps' opts])

lemma servers_order: "mset eps = mset eps' \<Longrightarrow> extractServers eps target = extractServers eps' target"
proof -
  assume "mset eps = mset eps'"
  then have "set eps = set eps'" by (rule mset_eq_setD)
  then have "origins_from b eps = origins_from b eps'" for b by (simp add: origins_from_def)
  then show ?thesis by (simp add: extractServers_eq primary_origin_def Let_def)
qed

lemma key_rank_inject: "inj (key_rank p ex)"
  by (auto simp: inj_def key_rank_def)

lemma document_keys_order: "mset eps = mset eps' \<Longrightarrow> document_keys g eps = document_keys g eps'"
proof -
  assume m: "mset eps = mset eps'"
  let ?ks = "map fst (groupEndpoints eps (options_of g))" and ?ks' = "map fst (groupEndpoints eps' (options_of g))"
  have d: "distinct ?ks" "distinct ?ks'" using group_members by (auto simp: map_wf_def)
  have "members_of eps (options_of g) key = [] \<longleftrightarrow> members_of eps' (options_of g) key = []" for key
    using members_order [OF m, of "options_of g" key] by (metis mset_zero_iff)
  then have "fst ` set (groupEndpoints eps (options_of g)) = fst ` set (groupEndpoints eps' (options_of g))"
    unfolding set_eq_iff group_keys by simp
  then have "set ?ks = set ?ks'" by simp
  then have "mset ?ks = mset ?ks'" using set_eq_iff_mset_eq_distinct [OF d] by blast
  then have "sort_key (key_rank p ex) ?ks = sort_key (key_rank p ex) ?ks'" for p ex
    using key_rank_inject by (intro sort_key_eq_sort_key) (auto intro: inj_on_subset)
  then show ?thesis unfolding document_keys_def servers_order [OF m] by simp
qed

lemma buildOperation_order:
  assumes "mset ms = mset ms'" "inj_on group_key (set ms)"
  shows "buildOperation env key ms static excluded = buildOperation env key ms' static excluded"
proof -
  have "sort_key group_key ms = sort_key group_key ms'" using assms by (intro sort_key_eq_sort_key) auto
  moreover have "length ms = length ms'" using assms(1) by (metis size_mset)
  ultimately show ?thesis by (simp only: buildOperation_def)
qed

text \<open>C36. The generated document does not depend on the order of the capture, as long as no two
  observations agree in URL, method, body and response.\<close>

theorem Generate_order:
  assumes "mset endpoints = mset endpoints'" "distinct (map group_key endpoints)"
  shows "Generate_openapi env g endpoints = Generate_openapi env g endpoints'"
proof -
  have inj: "inj_on group_key (set endpoints)" using assms(2) by (simp add: distinct_map)
  have any: "anyStaticSource endpoints = anyStaticSource endpoints'"
    using mset_eq_setD [OF assms(1)] by (simp add: anyStaticSource_def list_ex_iff)
  have "buildOperation env key (members_of endpoints (options_of g) key) s ex
      = buildOperation env key (members_of endpoints' (options_of g) key) s ex" for key s ex
    using inj by (intro buildOperation_order members_order assms(1)) (auto simp: members_of_def intro: inj_on_subset)
  then have "build_paths env g endpoints = build_paths env g endpoints'"
    unfolding build_paths_eq any servers_order [OF assms(1)] document_keys_order [OF assms(1)] by simp
  moreover have "length endpoints = length endpoints'" using assms(1) by (metis size_mset)
  ultimately show ?thesis unfolding Generate_openapi_def build_document_def servers_order [OF assms(1)] by simp
qed

section \<open>Examples\<close>

definition sample_endpoint :: "string \<Rightarrow> string \<Rightarrow> string \<Rightarrow> unit ClassifiedRequest" where
  "sample_endpoint m u src =
     ObservedRequest.extend (empty_request\<lparr>Method := m, URL := u, Source := src\<rparr>)
       \<lparr>IsAPI = True, Confidence = 1, Reason = [], APIType = ''rest'', MultiValueQueryKeys = None,
        AllowedMethods = [], ResponseSchema = None, WSDLDocument = [], GraphQLSchema = None, GRPCSchema = None\<rparr>"

definition for_target :: OpenAPIGenerator where
  "for_target = \<lparr>Format = [], GenMergeSlugs = False, GenSlugThreshold = 2, TargetOrigin = ''http://t.co''\<rparr>"

definition exact :: "string list \<Rightarrow> string \<Rightarrow> string option" where
  "exact ps p = (if p \<in> set ps then Some p else None)"

text \<open>The documented behaviour of the library: names of template variables are ignored.\<close>

definition anonymous_template :: "string \<Rightarrow> string" where
  "anonymous_template p = join ''/'' (map (\<lambda>s. if is_braced s then ''{}'' else s) (split_on (CHR ''/'') p))"

definition templated :: "string list \<Rightarrow> string \<Rightarrow> string option" where
  "templated ps p = (if p \<in> set ps then Some p else find (\<lambda>q. anonymous_template q = anonymous_template p) ps)"

definition library :: "(string list \<Rightarrow> string \<Rightarrow> string option) \<Rightarrow> openapi_env" where
  "library find_path =
     \<lparr>ParseMediaType = (\<lambda>_. None), NextParts = (\<lambda>_ _. []), FindPath = find_path,
      MarshalYAML = (\<lambda>doc. Some (DocTitle doc)), LoadFromData = (\<lambda>_. True), MarshalIndent = (\<lambda>_. None)\<rparr>"

definition sample_endpoints :: "unit ClassifiedRequest list" where
  "sample_endpoints = [sample_endpoint ''GET'' ''http://a.co/x'' ''static:js'', sample_endpoint ''GET'' ''http://t.co/x'' []]"

definition sample_key :: endpointKey where
  "sample_key = \<lparr>key_path = ''/x'', key_method = ''get'', key_origin = ''http://a.co''\<rparr>"

lemma build_paths_winner_witness:
  "\<exists>w op. lookup_operation (build_paths (library exact) for_target sample_endpoints) (key_path sample_key) (key_method sample_key) = Some op
    \<and> members_of sample_endpoints (options_of for_target) w \<noteq> [] \<and> key_path w = key_path sample_key \<and> key_method w = key_method sample_key
    \<and> op\<lparr>OpCollisionOrigins := None\<rparr>
        = buildOperation (library exact) w (members_of sample_endpoints (options_of for_target) w)
            (anyStaticSource sample_endpoints) [''http://a.co'']
    \<and> (key_origin sample_key \<in> set [''http://t.co''] \<longrightarrow> key_origin w \<in> set [''http://t.co''])
    \<and> (key_origin sample_key = key_origin w \<or> (\<exists>os. OpCollisionOrigins op = Some os \<and> key_origin sample_key \<in> set os))"
proof (rule build_paths_winner)
  show "exact_find (FindPath (library exact)) (key_path ` set (document_keys for_target sample_endpoints))"
    by (simp add: exact_find_def library_def exact_def)
  show "sample_endpoint ''GET'' ''http://a.co/x'' ''static:js'' \<in> set sample_endpoints"
    by (simp add: sample_endpoints_def)
  show "filed_under (templates sample_endpoints (options_of for_target)) (sample_endpoint ''GET'' ''http://a.co/x'' ''static:js'') = Some sample_key"
    by code_simp
  show "key_method sample_key \<in> set path_methods" by (simp add: sample_key_def path_methods_def)
  show "extractServers sample_endpoints (TargetOrigin for_target) = ([''http://t.co''], ''t.co API'', [''http://a.co''])"
    by code_simp
qed

lemma Generate_order_witness:
  "Generate_openapi (library exact) for_target sample_endpoints = Generate_openapi (library exact) for_target (rev sample_endpoints)"
  by (rule Generate_order) (simp, code_simp)

text \<open>With the library's \<^verbatim>\<open>Find\<close>, two templates that differ only in the names of their
  parameters share a path item: the second operation replaces the first one under the first one's path, and its
  parameter is not one of that path.\<close>

lemma template_names_collide:
  "map (\<lambda>(p, item). (p, map (\<lambda>(m, op). (m, OpSummary op, map ParamName (OpParameters op), OpCollisionOrigins op)) item))
     (build_paths (library templated) for_target
       [sample_endpoint ''GET'' ''http://t.co/x/users/123'' [], sample_endpoint ''GET'' ''http://t.co/x/users/AbCdEf1234567890GH'' []])
   = [(''/x/users/{userId}'', [(''get'', ''Get /x/users/{userToken}'', [''userToken''], None)])]"
  by code_simp

text \<open>A method outside the seven of a path item leaves an empty item.\<close>

lemma other_methods_vanish:
  "build_paths (library exact) for_target [sample_endpoint ''TRACE'' ''http://t.co/x'' []] = [(''/x'', [])]"
  by code_simp

end
