(* ===== verification/Rest_Components_Spec.thy ===== *)
theory Rest_Components_Spec
  imports Rest_Openapi_Spec Normalize_Names
begin

text \<open>
  What \<open>Rest_Components\<close> promises: extracting schemas never overwrites a component nor leaves a
  reference that does not resolve, and the parameters of an operation are those of its observations and its path.
\<close>

section \<open>Updating the values of a map in place\<close>

text \<open>Two maps with the same keys whose values are related.\<close>

definition rel_map :: "('v \<Rightarrow> 'v \<Rightarrow> bool) \<Rightarrow> ('k, 'v) gomap \<Rightarrow> ('k, 'v) gomap \<Rightarrow> bool" where
  "rel_map R m m' \<longleftrightarrow> map fst m' = map fst m
     \<and> (\<forall>k v. map_get m k = Some v \<longrightarrow> (\<exists>v'. map_get m' k = Some v' \<and> R v v'))"

lemma rel_map_mono: "rel_map R m m' \<Longrightarrow> (\<And>v v'. R v v' \<Longrightarrow> R' v v') \<Longrightarrow> rel_map R' m m'"
  unfolding rel_map_def by blast

lemma map_fst_put: "map_get m k = Some v \<Longrightarrow> map fst (map_put k v' m) = map fst m"
  unfolding map_put_def by (induction m) (auto split: if_splits)

text \<open>A visit keeps an invariant of the state and relates every value it visits, when each step does; the
  state may only grow, and growing keeps values related.\<close>

lemma visit_rule:
  assumes "distinct ks" "keeps st"
    and step: "\<And>k v st v' st'. k \<in> set ks \<Longrightarrow> map_get m k = Some v \<Longrightarrow> keeps st \<Longrightarrow> f k v st = (v', st') \<Longrightarrow>
          keeps st' \<and> grows st st' \<and> R st' v v'"
    and mono: "\<And>st st' v v'. grows st st' \<Longrightarrow> R st v v' \<Longrightarrow> R st' v v'"
    and refl: "\<And>st. grows st st" and trans: "\<And>a b c. grows a b \<Longrightarrow> grows b c \<Longrightarrow> grows a c"
    and result: "visit f ks m st = (m', st')"
  shows "keeps st' \<and> grows st st' \<and> map fst m' = map fst m
    \<and> (\<forall>k. k \<notin> set ks \<longrightarrow> map_get m' k = map_get m k)
    \<and> (\<forall>k v. k \<in> set ks \<longrightarrow> map_get m k = Some v \<longrightarrow> (\<exists>v'. map_get m' k = Some v' \<and> R st' v v'))"
  using assms(1) step result
proof (induction ks arbitrary: m' st' rule: rev_induct)
  case Nil
  then show ?case using assms(2) refl by (simp add: visit_def)
next
  case (snoc k ks)
  obtain m1 st1 where v1: "visit f ks m st = (m1, st1)" by (cases "visit f ks m st")
  have "keeps st1 \<and> grows st st1 \<and> map fst m1 = map fst m
    \<and> (\<forall>k. k \<notin> set ks \<longrightarrow> map_get m1 k = map_get m k)
    \<and> (\<forall>k v. k \<in> set ks \<longrightarrow> map_get m k = Some v \<longrightarrow> (\<exists>v'. map_get m1 k = Some v' \<and> R st1 v v'))"
  proof (rule snoc.IH [OF _ _ v1])
    show "distinct ks" using snoc.prems(1) by simp
  next
    fix k v st v' st'
    assume "k \<in> set ks" "map_get m k = Some v" "keeps st" "f k v st = (v', st')"
    then show "keeps st' \<and> grows st st' \<and> R st' v v'" using snoc.prems(2) [of k v st v' st'] by simp
  qed
  then have IH: "keeps st1" "grows st st1" "map fst m1 = map fst m" "\<And>k. k \<notin> set ks \<Longrightarrow> map_get m1 k = map_get m k"
    "\<And>k v. k \<in> set ks \<Longrightarrow> map_get m k = Some v \<Longrightarrow> \<exists>v'. map_get m1 k = Some v' \<and> R st1 v v'"
    by blast+
  have k: "k \<notin> set ks" using snoc.prems(1) by simp
  have last: "(m', st') = (case map_get m1 k of None \<Rightarrow> (m1, st1)
      | Some v \<Rightarrow> (case f k v st1 of (v', st2) \<Rightarrow> (map_put k v' m1, st2)))"
    using snoc.prems(3) v1 by (simp add: visit_def)
  show ?case
  proof (cases "map_get m k")
    case None
    then have "m' = m1 \<and> st' = st1" using last IH(4) [OF k] by simp
    then show ?thesis using IH None k by auto
  next
    case (Some v)
    obtain v' st2 where f: "f k v st1 = (v', st2)" by (cases "f k v st1")
    have eq: "m' = map_put k v' m1" "st' = st2" using last IH(4) [OF k] Some f by auto
    have new: "keeps st2" "grows st1 st2" "R st2 v v'" using snoc.prems(2) [OF _ Some IH(1) f] by auto
    have "map_get m1 k = Some v" using IH(4) [OF k] Some by simp
    then have "map fst m' = map fst m" using eq IH(3) by (simp add: map_fst_put)
    moreover have "map_get m' k' = map_get m k'" if "k' \<notin> set (ks @ [k])" for k' using that eq IH(4) by simp
    moreover have "\<exists>w'. map_get m' k' = Some w' \<and> R st' w w'"
      if "k' \<in> set (ks @ [k])" "map_get m k' = Some w" for k' w
      using that IH(5) [of k' w] mono [OF new(2)] new(3) eq Some k by (cases "k' = k") auto
    ultimately show ?thesis using new(1) trans [OF IH(2) new(2)] eq by blast
  qed
qed

section \<open>Names of components\<close>

definition component_name :: "string \<Rightarrow> bool" where
  "component_name s = (s \<noteq> [] \<and> list_all is_alnum s)"

lemma camel_alnum: "list_all is_alnum (camel_from u s)"
  by (induction u s rule: camel_from.induct) (auto simp: is_alnum_def upper_char_name)

lemma singularize_alnum: "list_all is_alnum s \<Longrightarrow> list_all is_alnum (singularize s)"
proof -
  have "list_all is_alnum (''y'' @ ''ss'')" by code_simp
  then show "list_all is_alnum s \<Longrightarrow> list_all is_alnum (singularize s)"
    by (auto simp: singularize_def trim_suffix_def list_all_iff dest: in_set_takeD)
qed

lemma resource_alnum: "list_all is_alnum (resourceNameFromPath path)"
proof -
  have r: "list_all is_alnum ''Resource''" by code_simp
  have "list_all is_alnum (sanitizeResourceName seg)" for seg
    using camel_alnum [of True "strip_extension commonPathExtensions seg"] r singularize_alnum
    by (simp add: sanitizeResourceName_def toCamelCase_def Let_def)
  then show ?thesis using r by (simp add: resourceNameFromPath_def split: option.split)
qed

text \<open>The iteration order of the extensions does not matter: two of them are never suffixes of one
  name.\<close>

lemma extension_part: "c \<notin> set r \<Longrightarrow> rev (takeWhile (\<lambda>x. x \<noteq> c) (rev (a @ c # r))) = r"
  by (simp add: takeWhile_append)

lemma extension_unique:
  "e \<in> set commonPathExtensions \<Longrightarrow> e' \<in> set commonPathExtensions \<Longrightarrow> has_suffix s e \<Longrightarrow> has_suffix s e' \<Longrightarrow> e = e'"
proof -
  assume e: "e \<in> set commonPathExtensions" "e' \<in> set commonPathExtensions" and s: "has_suffix s e" "has_suffix s e'"
  have dots: "list_all (\<lambda>e. case e of [] \<Rightarrow> False | c # r \<Rightarrow> c = CHR ''.'' \<and> list_all (\<lambda>x. x \<noteq> CHR ''.'') r) commonPathExtensions"
    by code_simp
  have shape: "\<exists>r. e = CHR ''.'' # r \<and> CHR ''.'' \<notin> set r" if "e \<in> set commonPathExtensions" for e
  proof -
    have "case e of [] \<Rightarrow> False | c # r \<Rightarrow> c = CHR ''.'' \<and> list_all (\<lambda>x. x \<noteq> CHR ''.'') r"
      using dots that unfolding list_all_iff [of _ commonPathExtensions] by blast
    then show ?thesis by (cases e) (auto simp: list_all_iff)
  qed
  obtain r r' where r: "e = CHR ''.'' # r" "CHR ''.'' \<notin> set r" "e' = CHR ''.'' # r'" "CHR ''.'' \<notin> set r'"
    using shape [OF e(1)] shape [OF e(2)] by blast
  obtain a where "s = a @ CHR ''.'' # r" using s(1) r unfolding has_suffix_iff by blast
  moreover obtain b where "s = b @ CHR ''.'' # r'" using s(2) r unfolding has_suffix_iff by blast
  ultimately have "rev (takeWhile (\<lambda>x. x \<noteq> CHR ''.'') (rev s)) = r" "rev (takeWhile (\<lambda>x. x \<noteq> CHR ''.'') (rev s)) = r'"
    using r extension_part by metis+
  then show "e = e'" using r by simp
qed

lemma strip_extension_order: "set exts = set commonPathExtensions \<Longrightarrow> strip_extension exts seg = strip_extension commonPathExtensions seg"
proof -
  assume e: "set exts = set commonPathExtensions"
  have "find (\<lambda>ext. has_suffix (to_lower seg) ext) exts = find (\<lambda>ext. has_suffix (to_lower seg) ext) commonPathExtensions"
  proof (cases "find (\<lambda>ext. has_suffix (to_lower seg) ext) exts")
    case None
    then show ?thesis using e by (metis find_None_iff)
  next
    case (Some x)
    then have x: "x \<in> set exts" "has_suffix (to_lower seg) x" by (auto simp: find_Some_iff)
    then obtain y where y: "find (\<lambda>ext. has_suffix (to_lower seg) ext) commonPathExtensions = Some y"
      using e by (metis find_None_iff not_None_eq)
    then have "y \<in> set commonPathExtensions" "has_suffix (to_lower seg) y" by (auto simp: find_Some_iff)
    then have "x = y" using extension_unique x e by blast
    then show ?thesis using Some y by simp
  qed
  then show ?thesis by (simp add: strip_extension_def)
qed

lemma request_suffix: "letter_ended (s @ ''Request'')" "list_all is_alnum ''Request''"
  by (simp add: letter_ended_def is_digit_def in_range_def byte_at_def) code_simp

lemma status_suffix:
  "statusContext code \<noteq> [] \<Longrightarrow> letter_ended (s @ statusContext code)"
  "list_all is_alnum code \<Longrightarrow> list_all is_alnum (statusContext code)"
proof -
  have e: "list_all (\<lambda>s. s \<noteq> [] \<and> last s = CHR ''e'') [''Response'', ''CreatedResponse'', ''BadRequestResponse'',
     ''UnauthorizedResponse'', ''ForbiddenResponse'', ''NotFoundResponse'', ''InternalErrorResponse'']" by code_simp
  have "statusContext code \<noteq> [] \<Longrightarrow> last (statusContext code) = CHR ''e''"
  proof (cases "code = ''204''")
    case False
    then show ?thesis using e unfolding statusContext_def list.pred_inject by (simp add: last_append split: if_split)
  qed (simp add: statusContext_def)
  moreover have "\<not> is_digit (CHR ''e'')" by code_simp
  ultimately show "statusContext code \<noteq> [] \<Longrightarrow> letter_ended (s @ statusContext code)" by (simp add: letter_ended_def)
  have "list_all (list_all is_alnum) [''Response'', ''CreatedResponse'', ''BadRequestResponse'', ''UnauthorizedResponse'',
     ''ForbiddenResponse'', ''NotFoundResponse'', ''InternalErrorResponse'']" by code_simp
  then show "list_all is_alnum code \<Longrightarrow> list_all is_alnum (statusContext code)"
    unfolding statusContext_def list.pred_inject by (simp split: if_split)
qed

section \<open>The state of the extraction\<close>

definition grows :: "extraction \<Rightarrow> extraction \<Rightarrow> bool" where
  "grows st st' \<longleftrightarrow> (\<forall>name s. map_get (schemas_out st) name = Some s \<longrightarrow> map_get (schemas_out st') name = Some s)"

text \<open>Every component has a valid name that its counter has given out; the tables name components with
  the fingerprint they are filed under, and no component serves requests and responses.\<close>

definition issued :: "extraction \<Rightarrow> string \<Rightarrow> bool" where
  "issued st name \<longleftrightarrow> (\<exists>base n. name = numbered base n \<and> letter_ended base \<and> 0 < n \<and> n \<le> count_of (nameCounter st) base)"

definition filed :: "extraction \<Rightarrow> (string, string) gomap \<Rightarrow> bool" where
  "filed st names \<longleftrightarrow> (\<forall>fp name. map_get names fp = Some name \<longrightarrow>
     (\<exists>s. map_get (schemas_out st) name = Some s \<and> schemaFingerprint (props_of s) = fp))"

definition extraction_ok :: "extraction \<Rightarrow> bool" where
  "extraction_ok st \<longleftrightarrow> map_wf (schemas_out st)
     \<and> (\<forall>name. map_has (schemas_out st) name \<longrightarrow> issued st name \<and> component_name name)
     \<and> filed st (reqNames st) \<and> filed st (respNames st)
     \<and> (\<forall>fp fp' name. map_get (reqNames st) fp = Some name \<longrightarrow> map_get (respNames st) fp' \<noteq> Some name)"

lemma grows_refl: "grows st st" by (simp add: grows_def)
lemma grows_trans: "grows a b \<Longrightarrow> grows b c \<Longrightarrow> grows a c" by (simp add: grows_def)

text \<open>What becomes of a schema: it stays, or is replaced by a reference to a component with its
  fingerprint.\<close>

definition ref_ok :: "extraction \<Rightarrow> sref \<Rightarrow> sref \<Rightarrow> bool" where
  "ref_ok st s s' \<longleftrightarrow> s' = s \<or> (\<exists>name t. s' = component_ref name \<and> map_get (schemas_out st) name = Some t
     \<and> schemaFingerprint (props_of t) = schemaFingerprint (props_of s))"

lemma ref_ok_mono: "grows st st' \<Longrightarrow> ref_ok st s s' \<Longrightarrow> ref_ok st' s s'"
  unfolding grows_def ref_ok_def by blast

lemma ensureUniqueName_eq:
  "ensureUniqueName base st =
     (numbered base (count_of (nameCounter st) base + 1),
      st\<lparr>nameCounter := map_put base (count_of (nameCounter st) base + 1) (nameCounter st)\<rparr>)"
  by (simp add: ensureUniqueName_def numbered_def count_of_def Let_def)

text \<open>A name that is given out is new.\<close>

lemma fresh_name:
  assumes "extraction_ok st" "letter_ended base" "ensureUniqueName base st = (name, st')"
  shows "map_get (schemas_out st) name = None" "issued st' name"
    "\<And>n. issued st n \<Longrightarrow> issued st' n" "schemas_out st' = schemas_out st"
    "reqNames st' = reqNames st" "respNames st' = respNames st"
proof -
  let ?n = "count_of (nameCounter st) base + 1"
  have name: "name = numbered base ?n" and st': "st' = st\<lparr>nameCounter := map_put base ?n (nameCounter st)\<rparr>"
    using assms(3) by (simp_all add: ensureUniqueName_eq)
  have "\<not> issued st name"
  proof
    assume "issued st name"
    then obtain b n where bn: "name = numbered b n" "letter_ended b" "0 < n" "n \<le> count_of (nameCounter st) b"
      unfolding issued_def by blast
    then have "numbered base ?n = numbered b n" using name by simp
    then have "base = b \<and> ?n = n" by (intro numbered_inject assms(2) bn) simp_all
    then have "count_of (nameCounter st) base + 1 \<le> count_of (nameCounter st) base" using bn(4) by (metis)
    then show False by simp
  qed
  then show "map_get (schemas_out st) name = None" using assms(1) unfolding extraction_ok_def by blast
  show "issued st' name" unfolding issued_def st' name using assms(2)
    by (intro exI [of _ base] exI [of _ ?n]) simp
  fix n
  assume "issued st n"
  then obtain b k where bk: "n = numbered b k" "letter_ended b" "0 < k" "k \<le> count_of (nameCounter st) b"
    unfolding issued_def by blast
  have "k \<le> count_of (nameCounter st') b" using bk(4) by (auto simp: st')
  then show "issued st' n" unfolding issued_def using bk by blast
next
  show "schemas_out st' = schemas_out st" "reqNames st' = reqNames st" "respNames st' = respNames st"
    using assms(3) by (auto simp: ensureUniqueName_eq)
qed

lemma stored_fingerprint: "props_of (SchemaRef r (RefValue s)) = props_of s"
  by (simp add: props_of_def)

text \<open>Storing a schema under a new name keeps the state well formed.\<close>

lemma store_component:
  assumes ok: "extraction_ok st" and "letter_ended base" "list_all is_alnum base"
    and fresh: "ensureUniqueName base st = (name, st1)"
    and st2: "schemas_out st2 = map_put name (SchemaRef [] (RefValue s)) (schemas_out st1)" "nameCounter st2 = nameCounter st1"
    and tables: "(reqNames st2 = map_put (schemaFingerprint (props_of s)) name (reqNames st1) \<and> respNames st2 = respNames st1)
      \<or> (reqNames st2 = reqNames st1 \<and> respNames st2 = map_put (schemaFingerprint (props_of s)) name (respNames st1))"
  shows "extraction_ok st2 \<and> grows st st2 \<and> ref_ok st2 s (component_ref name)"
proof -
  note new = fresh_name [OF ok assms(2) fresh]
  have issued: "issued st2 n" if "issued st1 n" for n using that st2(2) by (simp add: issued_def)
  have get: "map_get (schemas_out st2) = (map_get (schemas_out st))(name \<mapsto> SchemaRef [] (RefValue s))"
    using st2(1) new(4) by simp
  have grow: "grows st st2" unfolding grows_def get using new(1) by auto
  have filed: "filed st2 names" if "filed st names" for names
    using that grow unfolding filed_def grows_def by blast
  have filed_new: "filed st2 (map_put (schemaFingerprint (props_of s)) name names)" if "filed st names" for names
    using filed [OF that] unfolding filed_def map_get_put get by (auto simp: stored_fingerprint)
  have unused: "map_get names fp \<noteq> Some name" if "filed st names" for names fp
    using that new(1) unfolding filed_def by (metis option.distinct(1))
  have "component_name name"
  proof -
    have "list_all is_alnum (itoa n)" for n using itoa_digits [of n] by (simp add: list_all_iff is_alnum_def)
    moreover have "base \<noteq> []" using assms(2) by (simp add: letter_ended_def)
    ultimately show ?thesis using fresh assms(3) by (auto simp: ensureUniqueName_eq component_name_def numbered_def)
  qed
  then have names: "issued st2 n \<and> component_name n" if "map_has (schemas_out st2) n" for n
    using that ok new(2,3) issued unfolding extraction_ok_def get by (cases "n = name") auto
  have old: "filed st (reqNames st)" "filed st (respNames st)" "map_wf (schemas_out st)"
    and disjoint: "\<And>fp fp' n. map_get (reqNames st) fp = Some n \<Longrightarrow> map_get (respNames st) fp' \<noteq> Some n"
    using ok unfolding extraction_ok_def by blast+
  have "filed st2 (reqNames st2) \<and> filed st2 (respNames st2)
      \<and> (\<forall>fp fp' n. map_get (reqNames st2) fp = Some n \<longrightarrow> map_get (respNames st2) fp' \<noteq> Some n)"
    using tables
  proof
    assume t: "reqNames st2 = map_put (schemaFingerprint (props_of s)) name (reqNames st1) \<and> respNames st2 = respNames st1"
    show ?thesis using filed_new [OF old(1)] filed [OF old(2)] disjoint unused [OF old(2)] t new(5,6) by auto
  next
    assume t: "reqNames st2 = reqNames st1 \<and> respNames st2 = map_put (schemaFingerprint (props_of s)) name (respNames st1)"
    show ?thesis using filed_new [OF old(2)] filed [OF old(1)] disjoint unused [OF old(1)] t new(5,6) by auto
  qed
  moreover have "map_wf (schemas_out st2)" using st2(1) new(4) old(3) by simp
  moreover have "ref_ok st2 s (component_ref name)" unfolding ref_ok_def get by (auto simp: stored_fingerprint)
  ultimately show ?thesis using names grow unfolding extraction_ok_def by blast
qed

lemma extract_request_ok:
  assumes ok: "extraction_ok st" and e: "extract_request (resourceNameFromPath path) method s st = (s', st')"
  shows "extraction_ok st' \<and> grows st st' \<and> ref_ok st' s s'"
proof (cases "schemaFingerprint (props_of s) = []")
  case True
  then show ?thesis using e ok by (simp add: extract_request_def ref_ok_def grows_refl)
next
  case False
  show ?thesis
  proof (cases "map_get (reqNames st) (schemaFingerprint (props_of s))")
    case (Some n)
    then have "\<exists>t. map_get (schemas_out st) n = Some t \<and> schemaFingerprint (props_of t) = schemaFingerprint (props_of s)"
      using ok unfolding extraction_ok_def filed_def by blast
    then show ?thesis using e ok False Some by (auto simp: extract_request_def ref_ok_def grows_refl)
  next
    case None
    let ?base = "methodPrefix method @ resourceNameFromPath path @ ''Request''"
    obtain name st1 where u: "ensureUniqueName ?base st = (name, st1)" by (cases "ensureUniqueName ?base st")
    have "list_all is_alnum (methodPrefix method)"
    proof -
      have "list_all (list_all is_alnum) [''Create'', ''Update'']" by code_simp
      then show ?thesis by (simp add: methodPrefix_def)
    qed
    then have "list_all is_alnum ?base" using resource_alnum request_suffix(2) by simp
    moreover have "letter_ended ?base" using request_suffix(1) [of "methodPrefix method @ resourceNameFromPath path"] by simp
    moreover have "s' = component_ref name" and st': "st' = st1\<lparr>schemas_out := map_put name (SchemaRef [] (RefValue s)) (schemas_out st1),
        reqNames := map_put (schemaFingerprint (props_of s)) name (reqNames st1)\<rparr>"
      using e False None u by (simp_all add: extract_request_def)
    ultimately show ?thesis using store_component [OF ok _ _ u, of st' s] by simp
  qed
qed

lemma extract_response_ok:
  assumes ok: "extraction_ok st" and e: "extract_response (resourceNameFromPath path) code s st = (s', st')"
    and code: "list_all is_alnum code"
  shows "extraction_ok st' \<and> grows st st' \<and> ref_ok st' s s'"
proof (cases "schemaFingerprint (props_of s) = []")
  case True
  then show ?thesis using e ok by (simp add: extract_response_def ref_ok_def grows_refl)
next
  case False
  show ?thesis
  proof (cases "map_get (respNames st) (schemaFingerprint (props_of s))")
    case (Some n)
    then have "\<exists>t. map_get (schemas_out st) n = Some t \<and> schemaFingerprint (props_of t) = schemaFingerprint (props_of s)"
      using ok unfolding extraction_ok_def filed_def by blast
    then show ?thesis using e ok False Some by (auto simp: extract_response_def ref_ok_def grows_refl)
  next
    case None
    show ?thesis
    proof (cases "statusContext code = []")
      case True
      then show ?thesis using e ok False None by (simp add: extract_response_def ref_ok_def grows_refl)
    next
      case suffix: False
      let ?base = "resourceNameFromPath path @ statusContext code"
      obtain name st1 where u: "ensureUniqueName ?base st = (name, st1)" by (cases "ensureUniqueName ?base st")
      have "list_all is_alnum ?base" using resource_alnum status_suffix(2) [OF code] by simp
      moreover have "letter_ended ?base" using status_suffix(1) [OF suffix] .
      moreover have "s' = component_ref name" and st': "st' = st1\<lparr>schemas_out := map_put name (SchemaRef [] (RefValue s)) (schemas_out st1),
          respNames := map_put (schemaFingerprint (props_of s)) name (respNames st1)\<rparr>"
        using e False None suffix u by (simp_all add: extract_response_def Let_def)
      ultimately show ?thesis using store_component [OF ok _ _ u, of st' s] by simp
    qed
  qed
qed

section \<open>Every level of the document\<close>

text \<open>The maps of an operation are maps, and its status codes are numbers.\<close>

definition response_wf :: "response \<Rightarrow> bool" where
  "response_wf r \<longleftrightarrow> map_wf (RespContent r)"

definition operation_wf :: "operation \<Rightarrow> bool" where
  "operation_wf op \<longleftrightarrow> (case OpRequestBody op of None \<Rightarrow> True | Some c \<Rightarrow> map_wf c)
     \<and> map_wf (OpResponses op)
     \<and> (\<forall>code r. map_get (OpResponses op) code = Some r \<longrightarrow> list_all is_alnum code \<and> response_wf r)"

definition paths_wf :: "paths \<Rightarrow> bool" where
  "paths_wf paths \<longleftrightarrow> map_wf paths
     \<and> (\<forall>p item m op. map_get paths p = Some item \<longrightarrow> map_get item m = Some op \<longrightarrow> operation_wf op)"

text \<open>Only schemas of contents change.\<close>

definition response_ok :: "extraction \<Rightarrow> response \<Rightarrow> response \<Rightarrow> bool" where
  "response_ok st r r' \<longleftrightarrow> RespDescription r' = RespDescription r \<and> rel_map (ref_ok st) (RespContent r) (RespContent r')"

definition body_ok :: "extraction \<Rightarrow> content option \<Rightarrow> content option \<Rightarrow> bool" where
  "body_ok st b b' \<longleftrightarrow> (case (b, b') of (None, None) \<Rightarrow> True | (Some c, Some c') \<Rightarrow> rel_map (ref_ok st) c c' | _ \<Rightarrow> False)"

definition operation_ok :: "extraction \<Rightarrow> operation \<Rightarrow> operation \<Rightarrow> bool" where
  "operation_ok st op op' \<longleftrightarrow>
     op'\<lparr>OpRequestBody := OpRequestBody op, OpResponses := OpResponses op\<rparr> = op
     \<and> body_ok st (OpRequestBody op) (OpRequestBody op')
     \<and> rel_map (response_ok st) (OpResponses op) (OpResponses op')"

definition item_ok :: "extraction \<Rightarrow> operation path_item \<Rightarrow> operation path_item \<Rightarrow> bool" where
  "item_ok st item item' \<longleftrightarrow> map fst item' = map fst item
     \<and> (\<forall>m op. m \<in> set path_methods \<longrightarrow> map_get item m = Some op \<longrightarrow>
          (\<exists>op'. map_get item' m = Some op' \<and> operation_ok st op op'))"

lemma response_ok_mono: "grows st st' \<Longrightarrow> response_ok st r r' \<Longrightarrow> response_ok st' r r'"
  unfolding response_ok_def using rel_map_mono ref_ok_mono by blast

lemma body_ok_mono: "grows st st' \<Longrightarrow> body_ok st b b' \<Longrightarrow> body_ok st' b b'"
  unfolding body_ok_def using rel_map_mono ref_ok_mono by (fastforce split: option.splits)

lemma operation_ok_mono: "grows st st' \<Longrightarrow> operation_ok st op op' \<Longrightarrow> operation_ok st' op op'"
  unfolding operation_ok_def using body_ok_mono rel_map_mono response_ok_mono by blast

lemma item_ok_mono: "grows st st' \<Longrightarrow> item_ok st i i' \<Longrightarrow> item_ok st' i i'"
  unfolding item_ok_def using operation_ok_mono by blast

text \<open>The rule for the extraction, with its premises as formulas.\<close>

definition steps_ok :: "('k, 'v) gomap \<Rightarrow> (extraction \<Rightarrow> 'v \<Rightarrow> 'v \<Rightarrow> bool) \<Rightarrow> ('k \<Rightarrow> 'v \<Rightarrow> extraction \<Rightarrow> 'v \<times> extraction) \<Rightarrow> bool" where
  "steps_ok m R f \<longleftrightarrow>
     (\<forall>k v st v' st'. map_get m k = Some v \<longrightarrow> extraction_ok st \<longrightarrow> f k v st = (v', st') \<longrightarrow>
        extraction_ok st' \<and> grows st st' \<and> R st' v v')
     \<and> (\<forall>st st' v v'. grows st st' \<longrightarrow> R st v v' \<longrightarrow> R st' v v')"

lemma visit_extraction:
  assumes "distinct ks" "extraction_ok st" "steps_ok m R f" "visit f ks m st = (m', st')"
  shows "extraction_ok st' \<and> grows st st' \<and> map fst m' = map fst m
    \<and> (\<forall>k. k \<notin> set ks \<longrightarrow> map_get m' k = map_get m k)
    \<and> (\<forall>k v. k \<in> set ks \<longrightarrow> map_get m k = Some v \<longrightarrow> (\<exists>v'. map_get m' k = Some v' \<and> R st' v v'))"
proof (rule visit_rule [where keeps = extraction_ok and grows = grows and R = R and f = f])
  fix k v st v' st'
  assume "map_get m k = Some v" "extraction_ok st" "f k v st = (v', st')"
  then show "extraction_ok st' \<and> grows st st' \<and> R st' v v'" using assms(3) unfolding steps_ok_def by blast
next
  fix st st' v v'
  assume "grows st st'" "R st v v'"
  then show "R st' v v'" using assms(3) unfolding steps_ok_def by blast
next
  fix a b c
  assume "grows a b" "grows b c"
  then show "grows a c" by (rule grows_trans)
qed (rule assms grows_refl)+

lemma visit_sorted_rule:
  assumes "map_wf m" "extraction_ok st" "steps_ok m R f" "visit_sorted f m st = (m', st')"
  shows "extraction_ok st' \<and> grows st st' \<and> rel_map (R st') m m'"
proof -
  have "distinct (sort (map fst m))" using assms(1) by (simp add: map_wf_def)
  note v = visit_extraction [OF this assms(2,3) assms(4) [unfolded visit_sorted_def]]
  have "map_get m k = Some v \<Longrightarrow> k \<in> set (sort (map fst m))" for k v
    using map_of_SomeD [of m k v] by force
  then show ?thesis using v unfolding rel_map_def by blast
qed

lemma extract_status_ok:
  assumes "response_wf r" "list_all is_alnum code" "extraction_ok st"
    and e: "extract_status (resourceNameFromPath path) code r st = (r', st')"
  shows "extraction_ok st' \<and> grows st st' \<and> response_ok st' r r'"
proof -
  obtain c st1 where v: "visit_sorted (\<lambda>_. extract_response (resourceNameFromPath path) code) (RespContent r) st = (c, st1)"
    by (cases "visit_sorted (\<lambda>_. extract_response (resourceNameFromPath path) code) (RespContent r) st")
  have "extraction_ok st1 \<and> grows st st1 \<and> rel_map (ref_ok st1) (RespContent r) c"
  proof (rule visit_sorted_rule [OF _ assms(3) _ v])
    show "map_wf (RespContent r)" using assms(1) by (simp add: response_wf_def)
    show "steps_ok (RespContent r) ref_ok (\<lambda>_. extract_response (resourceNameFromPath path) code)"
      unfolding steps_ok_def using extract_response_ok assms(2) ref_ok_mono by metis
  qed
  then show ?thesis using e v by (auto simp: extract_status_def response_ok_def)
qed

lemma extract_body_ok:
  assumes "case b of None \<Rightarrow> True | Some c \<Rightarrow> map_wf c" "extraction_ok st"
    and e: "extract_body (resourceNameFromPath path) method b st = (b', st')"
  shows "extraction_ok st' \<and> grows st st' \<and> body_ok st' b b'"
proof (cases b)
  case None
  then show ?thesis using e assms(2) by (simp add: extract_body_def body_ok_def grows_refl)
next
  case (Some c)
  obtain c' st1 where v: "visit_sorted (\<lambda>_. extract_request (resourceNameFromPath path) method) c st = (c', st1)"
    by (cases "visit_sorted (\<lambda>_. extract_request (resourceNameFromPath path) method) c st")
  have "extraction_ok st1 \<and> grows st st1 \<and> rel_map (ref_ok st1) c c'"
  proof (rule visit_sorted_rule [OF _ assms(2) _ v])
    show "map_wf c" using assms(1) Some by simp
    show "steps_ok c ref_ok (\<lambda>_. extract_request (resourceNameFromPath path) method)"
      unfolding steps_ok_def using extract_request_ok ref_ok_mono by metis
  qed
  then show ?thesis using e v Some by (auto simp: extract_body_def body_ok_def)
qed

lemma extract_operation_ok:
  assumes "operation_wf op" "extraction_ok st"
    and e: "extract_operation (resourceNameFromPath path) method op st = (op', st')"
  shows "extraction_ok st' \<and> grows st st' \<and> operation_ok st' op op'"
proof -
  obtain b st1 where b: "extract_body (resourceNameFromPath path) method (OpRequestBody op) st = (b, st1)"
    by (cases "extract_body (resourceNameFromPath path) method (OpRequestBody op) st")
  have 1: "extraction_ok st1 \<and> grows st st1 \<and> body_ok st1 (OpRequestBody op) b"
    using extract_body_ok [OF _ assms(2) b] assms(1) by (simp add: operation_wf_def)
  obtain rs st2 where r: "visit_sorted (extract_status (resourceNameFromPath path)) (OpResponses op) st1 = (rs, st2)"
    by (cases "visit_sorted (extract_status (resourceNameFromPath path)) (OpResponses op) st1")
  have 2: "extraction_ok st2 \<and> grows st1 st2 \<and> rel_map (response_ok st2) (OpResponses op) rs"
  proof (rule visit_sorted_rule [OF _ _ _ r])
    show "map_wf (OpResponses op)" using assms(1) by (simp add: operation_wf_def)
    show "extraction_ok st1" using 1 by blast
    have "response_wf v \<and> list_all is_alnum k" if "map_get (OpResponses op) k = Some v" for k v
      using assms(1) that unfolding operation_wf_def by blast
    then show "steps_ok (OpResponses op) response_ok (extract_status (resourceNameFromPath path))"
      unfolding steps_ok_def using extract_status_ok response_ok_mono by metis
  qed
  have "op' = op\<lparr>OpRequestBody := b, OpResponses := rs\<rparr>" "st' = st2"
    using e b r by (simp_all add: extract_operation_def)
  moreover have "body_ok st2 (OpRequestBody op) b" "grows st st2" using 1 2 body_ok_mono grows_trans by blast+
  ultimately show ?thesis using 2 by (simp add: operation_ok_def)
qed

lemma path_methods_distinct: "distinct path_methods"
  by code_simp

lemma extract_path_ok:
  assumes wf: "\<And>m op. map_get item m = Some op \<Longrightarrow> operation_wf op" and ok: "extraction_ok st"
    and e: "extract_path path item st = (item', st')"
  shows "extraction_ok st' \<and> grows st st' \<and> item_ok st' item item'"
proof -
  have "steps_ok item operation_ok (extract_operation (resourceNameFromPath path))"
    unfolding steps_ok_def using extract_operation_ok wf operation_ok_mono by metis
  from visit_extraction [OF path_methods_distinct ok this e [unfolded extract_path_def]] show ?thesis
    unfolding item_ok_def by blast
qed

lemma extractComponents_ok:
  assumes "paths_wf paths" "extractComponents paths = (paths', st)"
  shows "extraction_ok st \<and> rel_map (item_ok st) paths paths'"
proof -
  let ?st0 = "\<lparr>schemas_out = [], reqNames = [], respNames = [], nameCounter = []\<rparr>"
  have ok: "extraction_ok ?st0" by (simp add: extraction_ok_def filed_def)
  have "extraction_ok st \<and> grows ?st0 st \<and> rel_map (item_ok st) paths paths'"
  proof (rule visit_sorted_rule [OF _ ok _ assms(2) [unfolded extractComponents_def]])
    show "map_wf paths" using assms(1) by (simp add: paths_wf_def)
    have "operation_wf op" if "map_get paths p = Some item" "map_get item m = Some op" for p item m op
      using assms(1) that unfolding paths_wf_def by blast
    then show "steps_ok paths item_ok extract_path"
      unfolding steps_ok_def using extract_path_ok item_ok_mono by metis
  qed
  then show ?thesis by blast
qed

section \<open>Built documents\<close>

lemma map_filter_wf: "distinct ks \<Longrightarrow> map_wf (List.map_filter (\<lambda>k. map_option (Pair k) (g k)) ks)"
proof -
  have "map fst (List.map_filter (\<lambda>k. map_option (Pair k) (g k)) ks) = filter (\<lambda>k. g k \<noteq> None) ks"
    by (induction ks) (auto simp: map_filter_def split: option.split)
  then show "distinct ks \<Longrightarrow> map_wf (List.map_filter (\<lambda>k. map_option (Pair k) (g k)) ks)"
    by (simp add: map_wf_def)
qed

lemma request_body_wf: "request_body env ms = Some c \<Longrightarrow> map_wf c"
proof -
  have "map_wf m \<Longrightarrow> map_wf (fold add_body ms m)" for m
    by (induction ms arbitrary: m) (simp_all add: add_body_def Let_def)
  then have "distinct (sort (map fst (fold add_body ms [])))" by (simp add: map_wf_def)
  then show "request_body env ms = Some c \<Longrightarrow> map_wf c"
    by (auto simp: request_body_def Let_def map_filter_wf split: if_splits)
qed

definition responses_wf :: "(string, response) gomap \<Rightarrow> bool" where
  "responses_wf rs \<longleftrightarrow> map_wf rs \<and> (\<forall>code r. map_get rs code = Some r \<longrightarrow> list_all is_alnum code \<and> response_wf r)"

lemma merge_response_wf: "response_wf r \<Longrightarrow> response_wf (merge_response o1 r)"
  by (auto simp: merge_response_def response_wf_def map_wf_Cons split: option.split)

lemma new_response_wf: "response_wf (new_response o1)"
  by (simp add: new_response_def response_wf_def Let_def map_wf_Cons split: option.split)

lemma response_step_wf: "responses_wf rs \<Longrightarrow> responses_wf (response_step ep rs)"
proof -
  assume wf: "responses_wf rs"
  let ?code = "itoa (status_of (Response ep))"
  have code: "list_all is_alnum ?code" using itoa_digits by (simp add: list_all_iff is_alnum_def)
  obtain r where r: "response_step ep rs = map_put ?code r rs" "response_wf r"
  proof (cases "map_get rs ?code")
    case None
    then show thesis using that [of "new_response (Response ep)"] new_response_wf by (simp add: response_step_def)
  next
    case (Some e)
    then have "response_wf e" using wf unfolding responses_wf_def by blast
    then show thesis using that [of "merge_response (Response ep) e"] merge_response_wf Some by (simp add: response_step_def)
  qed
  show ?thesis using wf code r(2) unfolding r(1) responses_wf_def by (auto split: if_splits)
qed

lemma drop_default_wf: "responses_wf rs \<Longrightarrow> responses_wf (drop_default rs)"
proof -
  assume wf: "responses_wf rs"
  have "responses_wf (AList.delete ''default'' rs)"
    using wf unfolding responses_wf_def map_wf_def by (auto simp: delete_conv' distinct_delete split: if_splits)
  then show ?thesis using wf by (simp add: drop_default_def split: option.split)
qed

lemma responses_wf_fold: "responses_wf rs \<Longrightarrow> responses_wf (fold response_step ms rs)"
  by (induction ms arbitrary: rs) (simp_all add: response_step_wf)

lemma buildOperation_wf: "operation_wf (buildOperation env key ms static excluded)"
proof -
  have "responses_wf []" by (simp add: responses_wf_def)
  then have "responses_wf (drop_default (fold response_step (sort_key group_key ms) []))"
    by (intro drop_default_wf responses_wf_fold)
  then show ?thesis
    using request_body_wf [of env "sort_key group_key ms"]
    unfolding responses_wf_def
    by (auto simp: buildOperation_def operation_wf_def empty_operation_def Let_def split: option.split)
qed

lemma record_wf: "operation_wf op \<Longrightarrow> operation_wf (recordCollisionOrigin x op)"
  by (simp add: recordCollisionOrigin_def operation_wf_def Let_def)

definition slots_wf :: "slots \<Rightarrow> bool" where
  "slots_wf st \<longleftrightarrow> map_wf (slot_paths st) \<and> list_all operation_wf (store st)
     \<and> (\<forall>s i. map_get (occupiedSlots st) s = Some i \<longrightarrow> i < length (store st))
     \<and> (\<forall>p item m i. map_get (slot_paths st) p = Some item \<longrightarrow> map_get item m = Some i \<longrightarrow> i < length (store st))"

lemma place_cases:
  "map_get (place f key i paths) p = Some item \<Longrightarrow>
    map_get paths p = Some item \<or> item = [] \<or> (\<exists>old. (map_get paths p = Some old \<or> old = []) \<and> item = set_operation (key_method key) i old)"
  by (auto simp: place_def Let_def split: option.splits if_splits)

lemma collision_step_wf:
  assumes wf: "slots_wf st" and build: "\<And>k. operation_wf (build k)"
  shows "slots_wf (collision_step f build key st)"
proof (cases "map_get (occupiedSlots st) (key_path key, key_method key)")
  case (Some w)
  then have w: "w < length (store st)" using wf unfolding slots_wf_def by blast
  then have "operation_wf (store st ! w)" using wf by (simp add: slots_wf_def list_all_length)
  then have "list_all operation_wf ((store st)[w := recordCollisionOrigin (key_origin key) (store st ! w)])"
    using wf record_wf by (auto simp: slots_wf_def list_all_iff dest!: set_update_subset_insert [THEN subsetD])
  then show ?thesis using wf Some by (simp add: collision_step_def slots_wf_def)
next
  case None
  let ?n = "length (store st)"
  have "map_wf (place f key ?n (slot_paths st))"
    using wf by (simp add: slots_wf_def place_def Let_def split: option.split)
  moreover have "i < Suc ?n"
    if g: "map_get (place f key ?n (slot_paths st)) p = Some item" "map_get item m = Some i" for p item m i
  proof -
    have old: "map_get (slot_paths st) p = Some o1 \<Longrightarrow> map_get o1 m = Some i \<Longrightarrow> i < ?n" for o1
      using wf unfolding slots_wf_def by blast
    show ?thesis using place_cases [OF g(1)] g(2) old
      by (auto simp: set_operation_def less_SucI split: if_splits)
  qed
  moreover have "i < Suc ?n" if "map_get (map_put (key_path key, key_method key) ?n (occupiedSlots st)) s = Some i" for s i
  proof (cases "s = (key_path key, key_method key)")
    case False
    then have "map_get (occupiedSlots st) s = Some i" using that by simp
    then have "i < ?n" using wf unfolding slots_wf_def by blast
    then show ?thesis by simp
  qed (use that in simp)
  ultimately show ?thesis using wf build None by (simp add: collision_step_def slots_wf_def Let_def)
qed

lemma fold_collision_wf:
  "slots_wf st \<Longrightarrow> (\<And>k. operation_wf (build k)) \<Longrightarrow> slots_wf (fold (collision_step f build) keys st)"
  by (induction keys arbitrary: st) (simp_all add: collision_step_wf)

lemma build_paths_wf: "paths_wf (build_paths env g endpoints)"
proof -
  have init: "slots_wf \<lparr>store = [], occupiedSlots = [], slot_paths = []\<rparr>" by (simp add: slots_wf_def)
  obtain build where "build_paths env g endpoints = resolveCollisions (FindPath env) build (document_keys g endpoints)"
    and "\<And>k. operation_wf (build k)"
    unfolding build_paths_eq using buildOperation_wf by blast
  then obtain st where st: "build_paths env g endpoints = deref st" "slots_wf st"
    unfolding resolveCollisions_def using fold_collision_wf [OF init] by blast
  have "map fst (deref st) = map fst (slot_paths st)" by (simp add: deref_def case_prod_beta)
  then have "map_wf (deref st)" using st(2) by (simp add: map_wf_def slots_wf_def)
  moreover have "operation_wf op" if at: "map_get (deref st) p = Some item" "map_get item m = Some op" for p item m op
  proof -
    obtain old i where "map_get (slot_paths st) p = Some old" "map_get old m = Some i" "op = store st ! i"
      using at by (auto simp: deref_def map_of_map)
    then show ?thesis using st(2) by (auto simp: slots_wf_def list_all_length)
  qed
  ultimately show ?thesis unfolding st(1) paths_wf_def by blast
qed

text \<open>The components of a document have distinct valid names, none serves a request and a response,
  and the document is the built paths with schemas replaced by references: every reference resolves to a component
  with the fingerprint of the schema it stands for.\<close>

theorem document_components:
  "case extractComponents (build_paths env g endpoints) of (paths, st) \<Rightarrow>
     DocPaths (build_document env g endpoints) = paths \<and> DocComponents (build_document env g endpoints) = schemas_out st
     \<and> map_wf (schemas_out st) \<and> list_all (\<lambda>(name, s). component_name name) (schemas_out st)
     \<and> filed st (reqNames st) \<and> filed st (respNames st)
     \<and> (\<forall>fp fp' name. \<not> (map_get (reqNames st) fp = Some name \<and> map_get (respNames st) fp' = Some name))
     \<and> rel_map (item_ok st) (build_paths env g endpoints) paths"
proof -
  obtain paths st where e: "extractComponents (build_paths env g endpoints) = (paths, st)"
    by (cases "extractComponents (build_paths env g endpoints)")
  note ok = extractComponents_ok [OF build_paths_wf e]
  have doc: "DocPaths (build_document env g endpoints) = paths" "DocComponents (build_document env g endpoints) = schemas_out st"
    by (simp_all add: build_document_def e split: prod.split)
  have wf: "map_wf (schemas_out st)" using ok by (simp add: extraction_ok_def)
  have "component_name name" if "(name, s) \<in> set (schemas_out st)" for name s
    using ok map_get_SomeI [OF wf that] unfolding extraction_ok_def by blast
  then have "list_all (\<lambda>(name, s). component_name name) (schemas_out st)" by (auto simp: list_all_iff)
  then show ?thesis using ok doc wf unfolding e extraction_ok_def prod.case by blast
qed

text \<open>A fingerprint looks at the first level of a schema only: two objects that differ below share the
  component of the first.\<close>

lemma fingerprint_conflates:
  "schemaFingerprint (props_of (object_of [(''a'', object_of [(''x'', typed ''integer'')])]))
     = schemaFingerprint (props_of (object_of [(''a'', object_of [(''y'', typed ''string'')])]))"
  by code_simp

section \<open>Parameters\<close>

text \<open>The values of a query parameter in a group, and whether one observation had several.\<close>

definition observed_values :: "('s, 'm) ClassifiedRequest_scheme list \<Rightarrow> string \<Rightarrow> string list" where
  "observed_values ms name = concat (map (\<lambda>ep. case map_get (query_of ep) name of None \<Rightarrow> [] | Some vs \<Rightarrow> vs) ms)"

definition several :: "('s, 'm) ClassifiedRequest_scheme \<Rightarrow> string \<Rightarrow> bool" where
  "several ep name =
     (case map_get (query_of ep) name of None \<Rightarrow> False
      | Some vs \<Rightarrow> (case MultiValueQueryKeys ep of Some ks \<Rightarrow> map_get ks name = Some True | None \<Rightarrow> length vs > 1))"

definition param_info :: "('s, 'm) ClassifiedRequest_scheme list \<Rightarrow> string \<Rightarrow> queryParamInfo option" where
  "param_info ms name =
     (if \<exists>ep\<in>set ms. map_has (query_of ep) name
      then Some \<lparr>param_count = length (filter (\<lambda>ep. map_has (query_of ep) name) ms),
        param_values = take MaxQueryParamValues (nub (observed_values ms name)), multiValueSeen = (\<exists>ep\<in>set ms. several ep name)\<rparr>
      else None)"

lemma observe_params_get:
  "map_wf q \<Longrightarrow> map_get (fold (observe_param ep) q m) name =
     (case map_get q name of None \<Rightarrow> map_get m name
      | Some vals \<Rightarrow> map_get (observe_param ep (name, vals) m) name)"
proof (induction q arbitrary: m)
  case (Cons nv q)
  obtain n vs where nv: "nv = (n, vs)" by (cases nv)
  have same: "map_get (observe_param ep (n', vs') m') n' = map_get (observe_param ep (n', vs') m'') n'"
    if "map_get m' n' = map_get m'' n'" for n' vs' m' m''
    by (simp only: observe_param_def prod.case that Let_def map_get_put fun_upd_same)
  have other: "map_get (observe_param ep (n, vs) m) n' = map_get m n'" if "n' \<noteq> n" for n'
    using that by (simp add: observe_param_def Let_def)
  have q: "map_wf q" "map_get q n = None" using Cons.prems nv by (simp_all add: map_wf_Cons map_of_eq_None_iff)
  show ?case
  proof (cases "name = n")
    case True
    then show ?thesis using Cons.IH [OF q(1)] q(2) nv by simp
  next
    case False
    show ?thesis
    proof (cases "map_get q name")
      case None
      then show ?thesis using Cons.IH [OF q(1)] nv other [OF False] False by simp
    next
      case (Some vals)
      have "map_get (observe_param ep (name, vals) (observe_param ep (n, vs) m)) name = map_get (observe_param ep (name, vals) m) name"
        by (rule same) (rule other [OF False])
      then show ?thesis using Cons.IH [OF q(1)] nv Some False by simp
    qed
  qed
qed simp

lemma merge_values: "MergeUniqueOrdered (take MaxQueryParamValues (nub xs)) ys = take MaxQueryParamValues (nub (xs @ ys))"
proof (cases "length (nub xs) < MaxQueryParamValues")
  case True
  have "nub (nub xs @ ys) = nub (xs @ ys)"
    by (induction ys rule: rev_induct) (simp_all flip: append_assoc add: nub_distinct)
  then show ?thesis using True by (simp add: MergeUniqueOrdered_spec)
next
  case False
  obtain zs where z: "nub (xs @ ys) = nub xs @ zs" using nub_append_prefix by blast
  obtain ws where w: "nub (take MaxQueryParamValues (nub xs) @ ys) = take MaxQueryParamValues (nub xs) @ ws"
    using nub_append_prefix [of "take MaxQueryParamValues (nub xs)" ys] by (metis distinct_nub distinct_take nub_distinct)
  show ?thesis using False by (simp add: MergeUniqueOrdered_spec z w)
qed

lemma collect_params_get:
  "\<forall>ep\<in>set ms. map_wf (query_of ep) \<Longrightarrow> map_get (collect_params ms) name = param_info ms name"
proof (induction ms rule: rev_induct)
  case Nil
  then show ?case by (simp add: collect_params_def param_info_def)
next
  case (snoc ep ms)
  have step: "collect_params (ms @ [ep]) = fold (observe_param ep) (query_of ep) (collect_params ms)"
    by (simp add: collect_params_def)
  have IH: "map_get (collect_params ms) name = param_info ms name" using snoc by simp
  have none: "observed_values ms name = []" "\<not> (\<exists>ep\<in>set ms. several ep name)" "filter (\<lambda>ep. map_has (query_of ep) name) ms = []"
    if "param_info ms name = None"
    using that by (auto simp: param_info_def observed_values_def several_def filter_empty_conv split: if_splits)
  show ?case
  proof (cases "map_get (query_of ep) name")
    case None
    then show ?thesis using snoc.prems IH
      by (simp add: step observe_params_get param_info_def observed_values_def several_def)
  next
    case (Some vals)
    have v: "observed_values (ms @ [ep]) name = observed_values ms name @ vals" using Some by (simp add: observed_values_def)
    have "MergeUniqueOrdered [] vals = take MaxQueryParamValues (nub vals)" using merge_values [of "[]"] by simp
    then show ?thesis using snoc.prems Some none
      by (cases "param_info ms name")
        (auto simp: step observe_params_get observe_param_def IH Let_def v merge_values param_info_def several_def
          split: option.splits if_splits)
  qed
qed

end
