(* ===== verification/Soap_Body.thy ===== *)
theory Soap_Body
  imports Go_Prelude
begin

text \<open>
  Parameters of a SOAP request, \<^verbatim>\<open>pkg/generate/wsdl/soapbody.go\<close>. The XML decoder is
  the list of the tokens that \<^verbatim>\<open>Token\<close> returns before its first error, so a call
  takes the head of the list and the empty list is the error; any list is allowed. The decoder's
  tokenisation of bytes is a parameter of the functions that start from bytes. The recursive structs
  are datatypes.
\<close>

section \<open>Tokens\<close>

record xml_name =
  NameSpace :: string
  NameLocal :: string

type_synonym xml_attrs = "(xml_name \<times> string) list"

datatype xml_token = StartElement xml_name xml_attrs | EndElement xml_name | CharData bytes | OtherToken

text \<open>\<^verbatim>\<open>Decoder.Skip\<close>: up to the end of the current element.\<close>

fun skip_tokens :: "nat \<Rightarrow> xml_token list \<Rightarrow> xml_token list" where
  "skip_tokens d [] = []"
| "skip_tokens d (StartElement n as # ts) = skip_tokens (Suc d) ts"
| "skip_tokens 0 (EndElement n # ts) = ts"
| "skip_tokens (Suc d) (EndElement n # ts) = skip_tokens d ts"
| "skip_tokens d (_ # ts) = skip_tokens d ts"

lemma skip_length: "length (skip_tokens d ts) \<le> length ts"
  by (induction d ts rule: skip_tokens.induct) auto

section \<open>Types of values\<close>

definition soapNS11 :: string where "soapNS11 = ''http://schemas.xmlsoap.org/soap/envelope/''"
definition soapNS12 :: string where "soapNS12 = ''http://www.w3.org/2003/05/soap-envelope''"
definition xsiNS :: string where "xsiNS = ''http://www.w3.org/2001/XMLSchema-instance''"
definition maxBodyDepth :: nat where "maxBodyDepth = 32"

definition digits :: "string \<Rightarrow> bool" where
  "digits s = list_all is_digit s"

definition strip_sign :: "string \<Rightarrow> string" where
  "strip_sign s = (if has_prefix s ''-'' then tl s else s)"

definition boolRe :: "string \<Rightarrow> bool" where
  "boolRe s = (s = ''true'' \<or> s = ''false'')"

definition intRe :: "string \<Rightarrow> bool" where
  "intRe s = (let t = strip_sign s in
     t = ''0'' \<or> (case t of c # r \<Rightarrow> in_range (CHR ''1'') (CHR ''9'') c \<and> digits r | [] \<Rightarrow> False))"

definition decimalRe :: "string \<Rightarrow> bool" where
  "decimalRe s = (case cut (CHR ''.'') (strip_sign s) of
     (a, Some b) \<Rightarrow> a \<noteq> [] \<and> digits a \<and> b \<noteq> [] \<and> digits b | _ \<Rightarrow> False)"

definition dateRe :: "string \<Rightarrow> bool" where
  "dateRe s = (length s = 10 \<and> digits (take 4 s) \<and> s ! 4 = CHR ''-'' \<and> digits (take 2 (drop 5 s))
     \<and> s ! 7 = CHR ''-'' \<and> digits (drop 8 s))"

definition clockRe :: "string \<Rightarrow> bool" where
  "clockRe s = (length s = 8 \<and> digits (take 2 s) \<and> s ! 2 = CHR '':'' \<and> digits (take 2 (drop 3 s))
     \<and> s ! 5 = CHR '':'' \<and> digits (drop 6 s))"

definition offsetRe :: "string \<Rightarrow> bool" where
  "offsetRe s = (length s = 6 \<and> s ! 0 \<in> {CHR ''+'', CHR ''-''} \<and> digits (take 2 (drop 1 s))
     \<and> s ! 3 = CHR '':'' \<and> digits (drop 4 s))"

definition strip_fraction :: "string \<Rightarrow> string" where
  "strip_fraction s =
     (case s of c # d # r \<Rightarrow> if c = CHR ''.'' \<and> is_digit d then dropWhile is_digit r else s | _ \<Rightarrow> s)"

text \<open>The zone of a date-time: what follows the seconds and the optional fraction.\<close>

definition zone_of :: "string \<Rightarrow> string" where
  "zone_of s = strip_fraction (drop 19 s)"

definition datetimeRe :: "string \<Rightarrow> bool" where
  "datetimeRe s = (dateRe (take 10 s) \<and> length s \<ge> 19 \<and> s ! 10 = CHR ''T'' \<and> clockRe (take 8 (drop 11 s))
     \<and> (zone_of s = [] \<or> zone_of s = ''Z'' \<or> offsetRe (zone_of s)))"

definition leap_year :: "nat \<Rightarrow> bool" where
  "leap_year y = (y mod 4 = 0 \<and> (y mod 100 \<noteq> 0 \<or> y mod 400 = 0))"

definition days_in :: "nat \<Rightarrow> nat \<Rightarrow> nat" where
  "days_in m y = (if m = 2 then (if leap_year y then 29 else 28)
     else if m \<in> {4, 6, 9, 11} then 30 else 31)"

text \<open>The checks of \<^verbatim>\<open>time.Parse\<close> on a text of the lexical shape.\<close>

definition isPlausibleDate :: "string \<Rightarrow> bool" where
  "isPlausibleDate s = (dateRe s \<and>
     (let y = atoi (take 4 s); m = atoi (take 2 (drop 5 s)); d = atoi (drop 8 s)
      in 1 \<le> m \<and> m \<le> 12 \<and> 1 \<le> d \<and> d \<le> days_in m y))"

definition isPlausibleDateTime :: "string \<Rightarrow> bool" where
  "isPlausibleDateTime s = (isPlausibleDate (take 10 s) \<and>
     (let c = take 8 (drop 11 s); z = zone_of s
      in atoi (take 2 c) < 24 \<and> atoi (take 2 (drop 3 c)) < 60 \<and> atoi (drop 6 c) < 60
         \<and> (offsetRe z \<longrightarrow> atoi (take 2 (drop 1 z)) \<le> 24 \<and> atoi (drop 4 z) \<le> 60)))"

definition inferTypeFromValue :: "string \<Rightarrow> string" where
  "inferTypeFromValue tx =
     (if tx = [] then []
      else if boolRe tx then ''xsd:boolean''
      else if intRe tx then ''xsd:int''
      else if decimalRe tx then ''xsd:decimal''
      else if dateRe tx \<and> isPlausibleDate tx then ''xsd:date''
      else if datetimeRe tx \<and> isPlausibleDateTime tx then ''xsd:dateTime''
      else ''xsd:string'')"

fun findXSIType :: "xml_attrs \<Rightarrow> string" where
  "findXSIType [] = []"
| "findXSIType ((n, v) # as) = (if NameSpace n = xsiNS \<and> NameLocal n = ''type'' then v else findXSIType as)"

definition resolveXSIType :: "string \<Rightarrow> string" where
  "resolveXSIType v =
     (let val = trim_space v in
      if val = [] then ''xsd:string''
      else (case cut (CHR '':'') val of
          (_, None) \<Rightarrow> ''xsd:'' @ val
        | (prefix, Some localName) \<Rightarrow>
            if prefix = ''xsd'' \<or> prefix = ''xs'' then ''xsd:'' @ localName else ''xsd:string''))"

section \<open>Parameters\<close>

datatype inferredParam = InferredParam
    (ParamName: string) (XSDType: string) (IsComplex: bool) (Children: "soapBodyInfo option")
  and soapBodyInfo = SoapBodyInfo
    (Namespace: string) (OrderedKeys: "string list") (Params: "(string \<times> inferredParam) list")

definition hasType :: "inferredParam \<Rightarrow> bool" where
  "hasType p = (IsComplex p \<or> XSDType p \<noteq> [])"

definition shouldUpgradeWith :: "inferredParam \<Rightarrow> inferredParam \<Rightarrow> bool" where
  "shouldUpgradeWith p cand = (\<not> hasType p \<and> hasType cand)"

definition put_param :: "string \<Rightarrow> inferredParam \<Rightarrow> soapBodyInfo \<Rightarrow> soapBodyInfo" where
  "put_param k p info = SoapBodyInfo (Namespace info) (OrderedKeys info) (map_put k p (Params info))"

definition addOrUpgrade :: "soapBodyInfo \<Rightarrow> inferredParam \<Rightarrow> soapBodyInfo" where
  "addOrUpgrade info param =
     (case map_get (Params info) (ParamName param) of
        None \<Rightarrow> SoapBodyInfo (Namespace info) (OrderedKeys info @ [ParamName param])
                  (map_put (ParamName param) param (Params info))
      | Some existing \<Rightarrow>
          if shouldUpgradeWith existing param then put_param (ParamName param) param info else info)"

definition empty_info :: "string \<Rightarrow> soapBodyInfo" where
  "empty_info ns = SoapBodyInfo ns [] []"

section \<open>Walking the body\<close>

text \<open>\<open>collectParam\<close> is the loop of \<^verbatim>\<open>walkParam\<close>. Its guard on lengths is there for
  the termination proof; \<open>walkParam_length\<close> proves that it always holds.\<close>

function (sequential) walkParam ::
    "xml_name \<Rightarrow> xml_attrs \<Rightarrow> xml_token list \<Rightarrow> nat \<Rightarrow> inferredParam \<times> xml_token list"
  and collectParam ::
    "xml_name \<Rightarrow> nat \<Rightarrow> string \<Rightarrow> soapBodyInfo option \<Rightarrow> xml_token list \<Rightarrow> string \<times> soapBodyInfo option \<times> xml_token list"
where
  "walkParam name as ts depth =
     (let xsiType = findXSIType as
      in if xsiType \<noteq> [] then
           (InferredParam (NameLocal name) (resolveXSIType xsiType) False None, skip_tokens 0 ts)
         else (case collectParam name depth [] None ts of (tx, children, rest) \<Rightarrow>
           (if children \<noteq> None then InferredParam (NameLocal name) [] True children
            else InferredParam (NameLocal name) (inferTypeFromValue (trim_space tx)) False None, rest)))"
| "collectParam name depth tx children [] = (tx, children, [])"
| "collectParam name depth tx children (EndElement n # ts) =
     (if n = name then (tx, children, ts) else collectParam name depth tx children ts)"
| "collectParam name depth tx children (CharData s # ts) = collectParam name depth (tx @ s) children ts"
| "collectParam name depth tx children (StartElement n as # ts) =
     (if depth \<ge> maxBodyDepth then collectParam name depth tx children (skip_tokens 0 ts)
      else
        let c = (case children of None \<Rightarrow> empty_info [] | Some c \<Rightarrow> c)
        in (case walkParam n as ts (depth + 1) of (p, ts') \<Rightarrow>
             if length ts' \<le> length ts then collectParam name depth tx (Some (addOrUpgrade c p)) ts'
             else (tx, children, [])))"
| "collectParam name depth tx children (OtherToken # ts) = collectParam name depth tx children ts"
  by pat_completeness auto
termination
  by (relation "measures
      [\<lambda>x. case x of Inl (n, as, ts, d) \<Rightarrow> length ts | Inr (n, d, t, c, ts) \<Rightarrow> length ts,
       \<lambda>x. case x of Inl _ \<Rightarrow> 1 | Inr _ \<Rightarrow> 0]")
    (auto simp: le_imp_less_Suc skip_length)

declare walkParam.simps [simp del] collectParam.simps [simp del]

lemma collectParam_length: "length (snd (snd (collectParam name depth tx children ts))) \<le> length ts"
proof (induction ts arbitrary: depth tx children rule: length_induct)
  case (1 ts)
  show ?case
  proof (cases ts)
    case Nil
    then show ?thesis by (simp add: collectParam.simps)
  next
    case (Cons t r)
    have IH: "length (snd (snd (collectParam name d x c r'))) \<le> length r" if "length r' \<le> length r" for d x c r'
    proof -
      have "length r' < length ts" using that Cons by simp
      then have "length (snd (snd (collectParam name d x c r'))) \<le> length r'" using 1 by blast
      then show ?thesis using that by simp
    qed
    show ?thesis
      using IH [of r] IH [of "skip_tokens 0 r"] skip_length [of 0 r] IH Cons
      by (cases t) (auto simp: collectParam.simps Let_def le_SucI split: prod.split)
  qed
qed

lemma walkParam_length: "length (snd (walkParam name as ts depth)) \<le> length ts"
  using collectParam_length [of name depth "[]" None ts] skip_length [of 0 ts]
  by (auto simp: walkParam.simps Let_def split: prod.split)

text \<open>The loop without the guard.\<close>

lemma collectParam_start:
  "collectParam name depth tx children (StartElement n as # ts) =
     (if depth \<ge> maxBodyDepth then collectParam name depth tx children (skip_tokens 0 ts)
      else (case walkParam n as ts (depth + 1) of (p, ts') \<Rightarrow>
        collectParam name depth tx
          (Some (addOrUpgrade (case children of None \<Rightarrow> empty_info [] | Some c \<Rightarrow> c) p)) ts'))"
  using walkParam_length [of n as ts "depth + 1"]
  by (auto simp: collectParam.simps Let_def split: prod.split)

function (sequential) walkOperation_from :: "xml_name \<Rightarrow> soapBodyInfo \<Rightarrow> xml_token list \<Rightarrow> soapBodyInfo" where
  "walkOperation_from opName info [] = info"
| "walkOperation_from opName info (EndElement n # ts) =
     (if n = opName then info else walkOperation_from opName info ts)"
| "walkOperation_from opName info (StartElement n as # ts) =
     (case walkParam n as ts 2 of (p, ts') \<Rightarrow>
        if length ts' \<le> length ts then walkOperation_from opName (addOrUpgrade info p) ts' else info)"
| "walkOperation_from opName info (_ # ts) = walkOperation_from opName info ts"
  by pat_completeness auto
termination
  by (relation "measure (\<lambda>(n, i, ts). length ts)") (auto simp: le_imp_less_Suc)

declare walkOperation_from.simps [simp del]

definition walkOperation :: "xml_name \<Rightarrow> xml_token list \<Rightarrow> soapBodyInfo" where
  "walkOperation opName ts = walkOperation_from opName (empty_info (NameSpace opName)) ts"

definition is_soap_body :: "xml_name \<Rightarrow> bool" where
  "is_soap_body n = (equal_fold (NameLocal n) ''Body'' \<and> (NameSpace n = soapNS11 \<or> NameSpace n = soapNS12))"

fun extract_from :: "bool \<Rightarrow> xml_token list \<Rightarrow> soapBodyInfo option" where
  "extract_from inBody [] = None"
| "extract_from inBody (StartElement n as # ts) =
     (if is_soap_body n then extract_from True ts
      else if inBody then Some (walkOperation n ts)
      else extract_from inBody ts)"
| "extract_from inBody (_ # ts) = extract_from inBody ts"

definition extractSOAPParameters :: "(bytes \<Rightarrow> xml_token list) \<Rightarrow> bytes \<Rightarrow> soapBodyInfo option" where
  "extractSOAPParameters tokens body =
     (if length body = 0 then None else extract_from False (tokens body))"

section \<open>Merging observations\<close>

lemma size_entries: "map_get ps k = Some p \<Longrightarrow> size p < Suc (size_list (size_prod (\<lambda>x. 0) size) ps)"
proof (induction ps)
  case (Cons x ps)
  then show ?case by (cases x) (auto split: if_splits)
qed simp

lemma size_param: "map_get (Params b) k = Some p \<Longrightarrow> size p < size b"
  using size_entries [of "Params b" k p] by (cases b) simp

lemma size_children: "Some c = Children p \<Longrightarrow> size c < size p"
  by (cases p) auto

lemma size_grandchild: "map_get (Params b) k = Some p \<Longrightarrow> Some c = Children p \<Longrightarrow> size c < size b"
  using size_param size_children less_trans by blast

definition set_children :: "inferredParam \<Rightarrow> soapBodyInfo \<Rightarrow> inferredParam" where
  "set_children p c = InferredParam (ParamName p) (XSDType p) (IsComplex p) (Some c)"

text \<open>\<open>merge_keys\<close> is the loop over the keys of \<open>b\<close>. A key without an entry cannot occur
  (\<open>info_ok\<close> below); the code would dereference a nil pointer.\<close>

function (sequential) merge_info :: "soapBodyInfo \<Rightarrow> soapBodyInfo \<Rightarrow> soapBodyInfo"
  and merge_keys :: "soapBodyInfo \<Rightarrow> soapBodyInfo \<Rightarrow> string list \<Rightarrow> soapBodyInfo"
where
  "merge_info a b =
     merge_keys (if Namespace a = [] \<and> Namespace b \<noteq> []
       then SoapBodyInfo (Namespace b) (OrderedKeys a) (Params a) else a) b (OrderedKeys b)"
| "merge_keys a b [] = a"
| "merge_keys a b (k # ks) =
     (case map_get (Params b) k of
        None \<Rightarrow> merge_keys a b ks
      | Some bParam \<Rightarrow>
          (case (map_get (Params a) k, Children bParam) of
             (Some existing, Some bc) \<Rightarrow>
               (case Children existing of
                  Some ec \<Rightarrow>
                    if IsComplex existing \<and> IsComplex bParam
                    then merge_keys (put_param k (set_children existing (merge_info ec bc)) a) b ks
                    else merge_keys (addOrUpgrade a bParam) b ks
                | None \<Rightarrow> merge_keys (addOrUpgrade a bParam) b ks)
           | _ \<Rightarrow> merge_keys (addOrUpgrade a bParam) b ks))"
  by pat_completeness auto

termination
  by (relation "measures
      [\<lambda>x. case x of Inl (a, b) \<Rightarrow> size b | Inr (a, b, ks) \<Rightarrow> size b,
       \<lambda>x. case x of Inl (a, b) \<Rightarrow> Suc (length (OrderedKeys b)) | Inr (a, b, ks) \<Rightarrow> length ks]")
    (auto dest: size_grandchild)

declare merge_info.simps [simp del] merge_keys.simps [simp del]

end
