(* ===== verification/Wsdl_Infer.thy ===== *)
theory Wsdl_Infer
  imports Soap_Body Classify_Types Go_Url
begin

text \<open>
  Inferring a WSDL document from SOAP traffic: the structs of
  \<^verbatim>\<open>pkg/generate/wsdl/types.go\<close>, schema building in \<^verbatim>\<open>soapbody.go\<close>,
  \<^verbatim>\<open>infer.go\<close> and \<^verbatim>\<open>generator.go\<close>. The \<^verbatim>\<open>XMLName\<close> fields
  only name the element for \<^verbatim>\<open>encoding/xml\<close> and have no counterpart. Tokenising a
  document, validating it as WSDL and printing the struct are parameters.
\<close>

section \<open>The document\<close>

datatype Element = Element (ElementName: string) (ElementType: string) (ElementComplexType: "ComplexType option")
  and ComplexType = ComplexType (ComplexTypeName: string) (Sequence: "Element list")

record Schema =
  SchemaTargetNS :: string
  SchemaXMLNS :: string
  SchemaElements :: "Element list"
  SchemaComplexTypes :: "ComplexType list"

record Types =
  Schemas :: "Schema list"

record MessagePart =
  PartName :: string
  PartElement :: string
  PartType :: string

record Message =
  MessageName :: string
  Parts :: "MessagePart list"

record IOMsg =
  IOMessage :: string

record Operation =
  OperationName :: string
  Input :: "IOMsg option"
  Output :: "IOMsg option"

record PortType =
  PortTypeName :: string
  PortTypeOperations :: "Operation list"

record SOAPBinding =
  Style :: string
  Transport :: string

record SOAPOperation =
  SOAPAction :: string

record BindingOperation =
  BindingOperationName :: string
  SOAPOp :: "SOAPOperation option"

record Binding =
  BindingName :: string
  BindingType :: string
  BindingSOAP :: "SOAPBinding option"
  BindingOperations :: "BindingOperation list"

record SOAPAddress =
  Location :: string

record Port =
  PortName :: string
  PortBinding :: string
  PortAddress :: "SOAPAddress option"

record Service =
  ServiceName :: string
  Ports :: "Port list"

record Definitions =
  DefName :: string
  DefTargetNS :: string
  DefXMLNS :: string
  DefXMLNSWSDL :: string
  DefXMLNSSOAP :: string
  DefXMLNSTNS :: string
  DefXMLNSXSD :: string
  DefTypes :: "Types option"
  Messages :: "Message list"
  PortTypes :: "PortType list"
  Bindings :: "Binding list"
  Services :: "Service list"

section \<open>Schemas\<close>

lemma size_param_in: "map_get ps k = Some p \<Longrightarrow> size p < Suc (size_list (size_prod (\<lambda>x. 0) size) ps)"
  by (rule size_entries)

text \<open>\<open>build_elements\<close> is the loop over the ordered keys.\<close>

function buildComplexType :: "soapBodyInfo \<Rightarrow> ComplexType"
  and build_elements :: "soapBodyInfo \<Rightarrow> string list \<Rightarrow> Element list"
where
  "buildComplexType info = ComplexType [] (build_elements info (OrderedKeys info))"
| "build_elements info [] = []"
| "build_elements info (k # ks) =
     (case map_get (Params info) k of
        None \<Rightarrow> build_elements info ks
      | Some param \<Rightarrow>
          if XSDType param = [] \<and> \<not> IsComplex param then build_elements info ks
          else
            (case Children param of
               Some c \<Rightarrow>
                 if IsComplex param then Element (ParamName param) [] (Some (buildComplexType c)) # build_elements info ks
                 else Element (ParamName param) (XSDType param) None # build_elements info ks
             | None \<Rightarrow> Element (ParamName param) (XSDType param) None # build_elements info ks))"
  by pat_completeness auto
termination
  by (relation "measures
      [\<lambda>x. case x of Inl a \<Rightarrow> size a | Inr (a, ks) \<Rightarrow> size a,
       \<lambda>x. case x of Inl a \<Rightarrow> Suc (length (OrderedKeys a)) | Inr (a, ks) \<Rightarrow> length ks]")
    (auto dest: size_grandchild size_param size_children)

declare buildComplexType.simps [simp del] build_elements.simps [simp del]

fun types_namespace_from :: "string \<Rightarrow> (string, soapBodyInfo) gomap \<Rightarrow> string \<Rightarrow> string list \<Rightarrow> string option" where
  "types_namespace_from observed obs urlDerived [] = Some observed"
| "types_namespace_from observed obs urlDerived (opName # ops) =
     (case map_get obs opName of
        None \<Rightarrow> types_namespace_from observed obs urlDerived ops
      | Some info \<Rightarrow>
          if Namespace info = [] then types_namespace_from observed obs urlDerived ops
          else if observed = [] then types_namespace_from (Namespace info) obs urlDerived ops
          else if observed = Namespace info then types_namespace_from observed obs urlDerived ops
          else None)"

definition typesNamespace :: "string list \<Rightarrow> (string, soapBodyInfo) gomap \<Rightarrow> string \<Rightarrow> string" where
  "typesNamespace operations obs urlDerived =
     (case types_namespace_from [] obs urlDerived operations of
        None \<Rightarrow> urlDerived
      | Some observed \<Rightarrow> if observed = [] then urlDerived else observed)"

definition operation_elements :: "string list \<Rightarrow> (string, soapBodyInfo) gomap \<Rightarrow> Element list" where
  "operation_elements operations obs =
     concat (map (\<lambda>opName. case map_get obs opName of None \<Rightarrow> []
       | Some info \<Rightarrow> [Element opName [] (Some (buildComplexType info))]) operations)"

definition inferTypesFromObservations ::
    "string list \<Rightarrow> (string, soapBodyInfo) gomap \<Rightarrow> string \<Rightarrow> Types option" where
  "inferTypesFromObservations operations obs targetNS =
     (if length obs = 0 then None
      else
        let elements = operation_elements operations obs
        in if length elements = 0 then None
           else Some \<lparr>Schemas = [\<lparr>SchemaTargetNS = targetNS, SchemaXMLNS = ''http://www.w3.org/2001/XMLSchema'',
             SchemaElements = elements, SchemaComplexTypes = []\<rparr>]\<rparr>)"

section \<open>Operation names\<close>

definition extractNameFromURI :: "string \<Rightarrow> string" where
  "extractNameFromURI raw =
     (let uri = trim_char (CHR 0x22) raw in
      if has_prefix uri ''urn:'' then drop 4 uri
      else (case after_last (CHR ''#'') uri of
          Some (c # r) \<Rightarrow> c # r
        | _ \<Rightarrow> (case after_last (CHR ''/'') uri of Some (c # r) \<Rightarrow> c # r | _ \<Rightarrow> uri)))"

fun first_body_element :: "bool \<Rightarrow> xml_token list \<Rightarrow> string" where
  "first_body_element inBody [] = []"
| "first_body_element inBody (StartElement n as # ts) =
     (if is_soap_body n then first_body_element True ts
      else if inBody then NameLocal n
      else first_body_element inBody ts)"
| "first_body_element inBody (_ # ts) = first_body_element inBody ts"

definition extractFirstBodyElement :: "(bytes \<Rightarrow> xml_token list) \<Rightarrow> bytes \<Rightarrow> string" where
  "extractFirstBodyElement tokens body = first_body_element False (tokens body)"

fun action_header :: "headers \<Rightarrow> (string \<times> string) option" where
  "action_header [] = None"
| "action_header ((k, v) # hs) =
     (if equal_fold k ''soapaction'' then
        (let soapAction = trim_char (CHR 0x22) v; opName = extractNameFromURI soapAction
         in if opName \<noteq> [] then Some (opName, soapAction) else action_header hs)
      else action_header hs)"

definition extractOperation ::
    "(bytes \<Rightarrow> xml_token list) \<Rightarrow> ('s, 'm) ClassifiedRequest_scheme \<Rightarrow> string \<times> string" where
  "extractOperation tokens ep =
     (case action_header (Headers ep) of Some r \<Rightarrow> r
      | None \<Rightarrow>
          let opName = (if length (Body ep) > 0 then extractFirstBodyElement tokens (Body ep) else [])
          in if opName \<noteq> [] then (opName, [])
             else
               let respOp = (if length (RespBody (Response ep)) > 0
                     then extractFirstBodyElement tokens (RespBody (Response ep)) else [])
               in if respOp \<noteq> [] then (trim_suffix respOp ''Response'', []) else ([], []))"

definition inferServiceName :: "string \<Rightarrow> string" where
  "inferServiceName rawURL =
     (case parse_url rawURL of None \<Rightarrow> ''Service''
      | Some u \<Rightarrow>
          let path = trim_right (\<lambda>c. c = CHR ''/'') (Path u) in
          (case after_last (CHR ''/'') path of None \<Rightarrow> ''Service''
           | Some base \<Rightarrow>
               let name = trim_suffix (trim_suffix (trim_suffix base ''.php'') ''.asmx'') ''.svc''
               in if name \<noteq> [] then name else ''Service''))"

definition inferTargetNamespace :: "string \<Rightarrow> string" where
  "inferTargetNamespace rawURL =
     (case parse_url rawURL of None \<Rightarrow> ''http://tempuri.org/''
      | Some u \<Rightarrow> Scheme u @ ''://'' @ Host u @ ''/'')"

section \<open>The inference\<close>

record wsdl_state =
  operations :: "string list"
  soapActions :: "(string, string) gomap"
  observations_of :: "(string, soapBodyInfo) gomap"

definition record_op ::
    "(bytes \<Rightarrow> xml_token list) \<Rightarrow> string \<Rightarrow> string \<Rightarrow> bytes \<Rightarrow> wsdl_state \<Rightarrow> wsdl_state" where
  "record_op tokens opName soapAction body st =
     (let st1 = (if soapAction \<noteq> [] \<and> (case map_get (soapActions st) opName of None \<Rightarrow> True | Some a \<Rightarrow> a = [])
            then st\<lparr>soapActions := map_put opName soapAction (soapActions st)\<rparr> else st)
      in if length body = 0 then st1
         else (case extractSOAPParameters tokens body of
             None \<Rightarrow> st1
           | Some info \<Rightarrow>
               st1\<lparr>observations_of := map_put opName
                 (case map_get (observations_of st1) opName of Some existing \<Rightarrow> merge_info existing info | None \<Rightarrow> info)
                 (observations_of st1)\<rparr>))"

definition infer_step ::
    "(bytes \<Rightarrow> xml_token list) \<Rightarrow> ('s, 'm) ClassifiedRequest_scheme \<Rightarrow> wsdl_state \<Rightarrow> wsdl_state" where
  "infer_step tokens ep st =
     (case extractOperation tokens ep of (opName, soapAction) \<Rightarrow>
        if opName = [] then st
        else record_op tokens opName soapAction (Body ep)
          (if opName \<in> set (operations st) then st else st\<lparr>operations := operations st @ [opName]\<rparr>))"

definition messages_of :: "string \<Rightarrow> Message list" where
  "messages_of opName =
     [\<lparr>MessageName = opName @ ''Request'',
       Parts = [\<lparr>PartName = ''parameters'', PartElement = ''tns:'' @ opName, PartType = []\<rparr>]\<rparr>,
      \<lparr>MessageName = opName @ ''Response'',
       Parts = [\<lparr>PartName = ''parameters'', PartElement = ''tns:'' @ opName @ ''Response'', PartType = []\<rparr>]\<rparr>]"

definition port_operation :: "string \<Rightarrow> Operation" where
  "port_operation opName =
     \<lparr>OperationName = opName,
      Input = Some \<lparr>IOMessage = ''tns:'' @ opName @ ''Request''\<rparr>,
      Output = Some \<lparr>IOMessage = ''tns:'' @ opName @ ''Response''\<rparr>\<rparr>"

definition binding_operation :: "(string, string) gomap \<Rightarrow> string \<Rightarrow> BindingOperation" where
  "binding_operation actions opName =
     \<lparr>BindingOperationName = opName,
      SOAPOp = (case map_get actions opName of None \<Rightarrow> None | Some sa \<Rightarrow> Some \<lparr>SOAPAction = sa\<rparr>)\<rparr>"

datatype wsdl_error = NoEndpoints | NoEndpointsToInfer | NoOperations | MarshalFailed

definition infer_state :: "(bytes \<Rightarrow> xml_token list) \<Rightarrow> ('s, 'm) ClassifiedRequest_scheme list \<Rightarrow> wsdl_state" where
  "infer_state tokens endpoints =
     fold (infer_step tokens) endpoints \<lparr>operations = [], soapActions = [], observations_of = []\<rparr>"

definition InferWSDL ::
    "(bytes \<Rightarrow> xml_token list) \<Rightarrow> ('s, 'm) ClassifiedRequest_scheme list \<Rightarrow> wsdl_error + Definitions" where
  "InferWSDL tokens endpoints =
     (case endpoints of [] \<Rightarrow> Inl NoEndpointsToInfer
      | ep # _ \<Rightarrow>
          let serviceURL = URL ep;
              serviceName = inferServiceName serviceURL;
              targetNS = inferTargetNamespace serviceURL;
              st = infer_state tokens endpoints;
              ops = operations st
          in if length ops = 0 then Inl NoOperations
             else
               let schemaNS = typesNamespace ops (observations_of st) targetNS;
                   portTypeName = serviceName @ ''PortType'';
                   bindingName = serviceName @ ''Binding''
               in Inr
                 \<lparr>DefName = serviceName, DefTargetNS = schemaNS,
                  DefXMLNS = ''http://schemas.xmlsoap.org/wsdl/'', DefXMLNSWSDL = [],
                  DefXMLNSSOAP = ''http://schemas.xmlsoap.org/wsdl/soap/'', DefXMLNSTNS = schemaNS,
                  DefXMLNSXSD = ''http://www.w3.org/2001/XMLSchema'',
                  DefTypes = (if length (observations_of st) > 0
                    then inferTypesFromObservations ops (observations_of st) schemaNS else None),
                  Messages = concat (map messages_of ops),
                  PortTypes = [\<lparr>PortTypeName = portTypeName, PortTypeOperations = map port_operation ops\<rparr>],
                  Bindings = [\<lparr>BindingName = bindingName, BindingType = ''tns:'' @ portTypeName,
                    BindingSOAP = Some \<lparr>Style = ''document'', Transport = ''http://schemas.xmlsoap.org/soap/http''\<rparr>,
                    BindingOperations = map (binding_operation (soapActions st)) ops\<rparr>],
                  Services = [\<lparr>ServiceName = serviceName,
                    Ports = [\<lparr>PortName = serviceName @ ''Port'', PortBinding = ''tns:'' @ bindingName,
                      PortAddress = Some \<lparr>Location = serviceURL\<rparr>\<rparr>]\<rparr>]\<rparr>)"

section \<open>The generator\<close>

definition xml_header :: string where
  "xml_header = ''<?xml version=\"1.0\" encoding=\"UTF-8\"?>'' @ [CHR 0x0A]"

fun probed_document :: "(bytes \<Rightarrow> bool) \<Rightarrow> ('s, 'm) ClassifiedRequest_scheme list \<Rightarrow> bytes option" where
  "probed_document is_wsdl [] = None"
| "probed_document is_wsdl (ep # eps) =
     (if length (WSDLDocument ep) > 0 \<and> is_wsdl (WSDLDocument ep) then Some (WSDLDocument ep)
      else if length (RespBody (Response ep)) > 0 \<and> is_wsdl (RespBody (Response ep)) then Some (RespBody (Response ep))
      else probed_document is_wsdl eps)"

definition Generate ::
    "(bytes \<Rightarrow> xml_token list) \<Rightarrow> (bytes \<Rightarrow> bool) \<Rightarrow> (Definitions \<Rightarrow> bytes option)
      \<Rightarrow> ('s, 'm) ClassifiedRequest_scheme list \<Rightarrow> wsdl_error + bytes" where
  "Generate tokens is_wsdl marshal endpoints =
     (if length endpoints = 0 then Inl NoEndpoints
      else (case probed_document is_wsdl endpoints of
          Some doc \<Rightarrow> Inr doc
        | None \<Rightarrow>
            (case InferWSDL tokens endpoints of
               Inl e \<Rightarrow> Inl e
             | Inr defs \<Rightarrow>
                 (case marshal defs of None \<Rightarrow> Inl MarshalFailed | Some out \<Rightarrow> Inr (xml_header @ out)))))"

end
