(* ===== verification/Soap_Spec.thy ===== *)
theory Soap_Spec
  imports Soap_Body
begin

text \<open>
  The invariant of the extracted parameters, and what merging two observations of an operation means:
  keys in order of first observation, and for each key the first observation that carries a type.
\<close>

section \<open>The invariant\<close>

definition info_ok_with :: "(inferredParam \<Rightarrow> bool) \<Rightarrow> soapBodyInfo \<Rightarrow> bool" where
  "info_ok_with P info =
     (OrderedKeys info = map fst (Params info) \<and> distinct (OrderedKeys info)
      \<and> list_all (\<lambda>(k, p). ParamName p = k \<and> P p) (Params info))"

text \<open>\<open>param_ok n\<close>: complex exactly when it has children, a complex parameter has no simple type, and at
  most \<open>n\<close> levels of children.\<close>

fun param_ok :: "nat \<Rightarrow> inferredParam \<Rightarrow> bool" where
  "param_ok 0 p = (\<not> IsComplex p \<and> Children p = None)"
| "param_ok (Suc n) p =
     (case Children p of None \<Rightarrow> \<not> IsComplex p
      | Some c \<Rightarrow> IsComplex p \<and> XSDType p = [] \<and> info_ok_with (param_ok n) c)"

definition info_ok :: "nat \<Rightarrow> soapBodyInfo \<Rightarrow> bool" where
  "info_ok n = info_ok_with (param_ok n)"

lemma param_ok_leaf: "param_ok n (InferredParam k t False None)"
  by (cases n) simp_all

lemma param_ok_complex: "info_ok n c \<Longrightarrow> param_ok (Suc n) (InferredParam k [] True (Some c))"
  by (simp add: info_ok_def)

lemma param_ok_cases:
  assumes "param_ok n p"
  obtains "\<not> IsComplex p" "Children p = None"
  | m c where "n = Suc m" "IsComplex p" "XSDType p = []" "Children p = Some c" "info_ok m c"
  using assms by (cases n) (auto simp: info_ok_def split: option.splits)

lemma empty_info_ok [simp]: "info_ok n (empty_info ns)"
  by (simp add: info_ok_def info_ok_with_def empty_info_def)

lemma info_okD:
  assumes "info_ok n info" "map_get (Params info) k = Some p"
  shows "ParamName p = k \<and> param_ok n p"
  using assms map_of_SomeD [OF assms(2)] by (auto simp: info_ok_def info_ok_with_def list_all_iff)

lemma info_ok_keys: "info_ok n info \<Longrightarrow> map_get (Params info) k = None \<longleftrightarrow> k \<notin> set (OrderedKeys info)"
  by (auto simp: info_ok_def info_ok_with_def map_of_eq_None_iff)

lemma keys_put: "map fst (map_put k v m) = (if k \<in> fst ` set m then map fst m else map fst m @ [k])"
  unfolding map_put_def by (induction m) auto

lemma set_put: "x \<in> set (map_put k v m) \<Longrightarrow> x = (k, v) \<or> x \<in> set m"
  unfolding map_put_def by (induction m) (auto split: if_splits)

lemma put_existing_ok:
  "info_ok n info \<Longrightarrow> k \<in> set (OrderedKeys info) \<Longrightarrow> ParamName p = k \<Longrightarrow> param_ok n p \<Longrightarrow> info_ok n (put_param k p info)"
  by (fastforce simp: info_ok_def info_ok_with_def put_param_def keys_put list_all_iff dest!: set_put)

lemma addOrUpgrade_ok:
  assumes "info_ok n info" "param_ok n p"
  shows "info_ok n (addOrUpgrade info p)"
proof (cases "map_get (Params info) (ParamName p)")
  case None
  then have new: "ParamName p \<notin> set (OrderedKeys info)" using info_ok_keys assms(1) by blast
  have keys: "OrderedKeys info = map fst (Params info)" "distinct (OrderedKeys info)"
    and ok: "list_all (\<lambda>(k, p). ParamName p = k \<and> param_ok n p) (Params info)"
    using assms(1) unfolding info_ok_def info_ok_with_def by blast+
  have "ParamName p \<notin> fst ` set (Params info)" using new keys(1) by simp
  moreover have "list_all (\<lambda>(k, p). ParamName p = k \<and> param_ok n p) (map_put (ParamName p) p (Params info))"
    using ok assms(2) by (fastforce simp: list_all_iff dest: set_put)
  ultimately show ?thesis using None new keys
    by (simp add: addOrUpgrade_def info_ok_def info_ok_with_def keys_put)
next
  case (Some e)
  then have "ParamName p \<in> set (OrderedKeys info)" using info_ok_keys [OF assms(1), of "ParamName p"] by auto
  then show ?thesis using Some assms put_existing_ok by (simp add: addOrUpgrade_def)
qed

section \<open>Extraction keeps it\<close>

lemma walk_ok:
  "d \<le> maxBodyDepth \<Longrightarrow> param_ok (maxBodyDepth - d) (fst (walkParam name as ts d))"
  "d \<le> maxBodyDepth \<Longrightarrow> (\<forall>c. children = Some c \<longrightarrow> d < maxBodyDepth \<and> info_ok (maxBodyDepth - Suc d) c)
    \<Longrightarrow> fst (snd (collectParam name d tx children ts)) = Some c'
    \<Longrightarrow> d < maxBodyDepth \<and> info_ok (maxBodyDepth - Suc d) c'"
proof (induction name as ts d and name d tx children ts arbitrary: and c' rule: walkParam_collectParam.induct)
  case (1 name as ts depth)
  show ?case
  proof (cases "findXSIType as = []")
    case True
    obtain tx children rest where c: "collectParam name depth [] None ts = (tx, children, rest)" by (metis prod.exhaust)
    show ?thesis
    proof (cases children)
      case None
      then show ?thesis using True c by (simp add: walkParam.simps param_ok_leaf)
    next
      case (Some ch)
      then have d: "depth < maxBodyDepth" "info_ok (maxBodyDepth - Suc depth) ch"
        using "1.IH" [OF refl _ "1.prems"] True c by auto
      then have "param_ok (Suc (maxBodyDepth - Suc depth)) (InferredParam (NameLocal name) [] True (Some ch))"
        using param_ok_complex by blast
      then show ?thesis using True c Some d by (simp add: walkParam.simps Suc_diff_Suc)
    qed
  next
    case False
    then show ?thesis by (simp add: walkParam.simps param_ok_leaf)
  qed
next
  case (5 name depth tx children n as ts)
  show ?case
  proof (cases "depth \<ge> maxBodyDepth")
    case True
    then show ?thesis using 5 by (simp add: collectParam_start)
  next
    case False
    let ?c = "case children of None \<Rightarrow> empty_info [] | Some c \<Rightarrow> c"
    obtain p ts' where w: "walkParam n as ts (depth + 1) = (p, ts')" by fastforce
    have len: "length ts' \<le> length ts" using walkParam_length [of n as ts "depth + 1"] w by simp
    have "param_ok (maxBodyDepth - (depth + 1)) p" using "5.IH"(2) [OF False refl] False w by simp
    moreover have "info_ok (maxBodyDepth - Suc depth) ?c" using "5.prems"(2) by (cases children) auto
    ultimately have "info_ok (maxBodyDepth - Suc depth) (addOrUpgrade ?c p)" using addOrUpgrade_ok by simp
    then have pre: "\<forall>c. Some (addOrUpgrade ?c p) = Some c \<longrightarrow>
        depth < maxBodyDepth \<and> info_ok (maxBodyDepth - Suc depth) c"
      using False by auto
    have "collectParam name depth tx children (StartElement n as # ts)
        = collectParam name depth tx (Some (addOrUpgrade ?c p)) ts'"
      unfolding collectParam_start w using False by (simp only: if_False prod.case)
    then have "fst (snd (collectParam name depth tx (Some (addOrUpgrade ?c p)) ts')) = Some c'"
      using "5.prems"(3) by (simp only:)
    then show ?thesis by (rule "5.IH"(3) [OF False refl w [symmetric] len "5.prems"(1) pre])
  qed
qed (auto simp: collectParam.simps split: if_splits)

lemma walkOperation_from_ok:
  "info_ok (maxBodyDepth - 2) info \<Longrightarrow> info_ok (maxBodyDepth - 2) (walkOperation_from opName info ts)"
proof (induction opName info ts rule: walkOperation_from.induct)
  case (3 opName info n as ts)
  obtain p ts' where w: "walkParam n as ts 2 = (p, ts')" by fastforce
  have "param_ok (maxBodyDepth - 2) p" using walk_ok(1) [of 2 n as ts] w by (simp add: maxBodyDepth_def)
  then show ?case using 3 w addOrUpgrade_ok by (simp add: walkOperation_from.simps)
qed (simp_all add: walkOperation_from.simps)

lemma extract_from_ok: "extract_from b ts = Some info \<Longrightarrow> info_ok (maxBodyDepth - 2) info"
  by (induction b ts rule: extract_from.induct)
    (auto simp: walkOperation_def walkOperation_from_ok split: if_splits)

text \<open>Whatever tokens the XML decoder returns, the extracted parameters are well-formed: keys are
  distinct, in the order of the table and equal to the names of their parameters, a parameter is
  complex exactly when it has children, and the nesting below the operation is at most 30 (the cap of
  32 levels of the body).\<close>

theorem extractSOAPParameters_ok:
  assumes "extractSOAPParameters tokens body = Some info"
  shows "info_ok (maxBodyDepth - 2) info"
  using assms extract_from_ok by (simp add: extractSOAPParameters_def split: if_splits)

definition sample_tokens :: "xml_token list" where
  "sample_tokens = (let q = (\<lambda>ns l. \<lparr>NameSpace = ns, NameLocal = l\<rparr>) in
     [StartElement (q soapNS11 ''Envelope'') [], StartElement (q soapNS11 ''Body'') [],
      StartElement (q ''urn:x'' ''GetUser'') [], StartElement (q [] ''id'') [], CharData ''42'', EndElement (q [] ''id''),
      EndElement (q ''urn:x'' ''GetUser'')])"

lemma extractSOAPParameters_ok_witness:
  "info_ok (maxBodyDepth - 2)
     (SoapBodyInfo ''urn:x'' [''id''] [(''id'', InferredParam ''id'' ''xsd:int'' False None)])"
proof (rule extractSOAPParameters_ok [of "\<lambda>_. sample_tokens" "''x''"])
  show "extractSOAPParameters (\<lambda>_. sample_tokens) ''x''
      = Some (SoapBodyInfo ''urn:x'' [''id''] [(''id'', InferredParam ''id'' ''xsd:int'' False None)])"
    by code_simp
qed

section \<open>Merging\<close>

definition both_complex :: "inferredParam \<Rightarrow> inferredParam \<Rightarrow> bool" where
  "both_complex e p = (IsComplex e \<and> IsComplex p \<and> Children e \<noteq> None \<and> Children p \<noteq> None)"

text \<open>What the merge makes of an existing and a new observation of one parameter.\<close>

definition merge_param :: "inferredParam \<Rightarrow> inferredParam \<Rightarrow> inferredParam" where
  "merge_param e p =
     (if both_complex e p then set_children e (merge_info (the (Children e)) (the (Children p)))
      else if shouldUpgradeWith e p then p else e)"

definition combine :: "inferredParam option \<Rightarrow> inferredParam option \<Rightarrow> inferredParam option" where
  "combine x y = (case (x, y) of (None, _) \<Rightarrow> y | (Some e, None) \<Rightarrow> Some e | (Some e, Some p) \<Rightarrow> Some (merge_param e p))"

definition merge_step :: "soapBodyInfo \<Rightarrow> string \<Rightarrow> inferredParam \<Rightarrow> soapBodyInfo" where
  "merge_step a k p =
     (case map_get (Params a) k of
        Some e \<Rightarrow> if both_complex e p then put_param k (merge_param e p) a else addOrUpgrade a p
      | None \<Rightarrow> addOrUpgrade a p)"

lemma merge_keys_Cons:
  "map_get (Params b) k = Some p \<Longrightarrow> merge_keys a b (k # ks) = merge_keys (merge_step a k p) b ks"
  by (auto simp: merge_keys.simps merge_step_def both_complex_def merge_param_def split: option.splits)

lemma addOrUpgrade_lookup:
  "map_get (Params (addOrUpgrade a p)) j
    = (if j = ParamName p
       then (case map_get (Params a) j of None \<Rightarrow> Some p | Some e \<Rightarrow> Some (if shouldUpgradeWith e p then p else e))
       else map_get (Params a) j)"
  "OrderedKeys (addOrUpgrade a p)
    = (if map_get (Params a) (ParamName p) = None then OrderedKeys a @ [ParamName p] else OrderedKeys a)"
  by (auto simp: addOrUpgrade_def put_param_def split: option.splits)

lemma merge_step_lookup:
  assumes "ParamName p = k"
  shows "map_get (Params (merge_step a k p)) j
      = (if j = k then combine (map_get (Params a) k) (Some p) else map_get (Params a) j)"
    and "OrderedKeys (merge_step a k p)
      = (if map_get (Params a) k = None then OrderedKeys a @ [k] else OrderedKeys a)"
  using assms
  by (auto simp: merge_step_def addOrUpgrade_lookup combine_def merge_param_def put_param_def split: option.splits)

lemma merge_keys_spec:
  assumes "info_ok n b" "distinct ks" "set ks \<subseteq> set (OrderedKeys b)"
    and "\<forall>k. map_get (Params a) k = None \<longleftrightarrow> k \<notin> set (OrderedKeys a)"
  shows "OrderedKeys (merge_keys a b ks) = OrderedKeys a @ filter (\<lambda>k. k \<notin> set (OrderedKeys a)) ks
    \<and> map_get (Params (merge_keys a b ks)) j
      = (if j \<in> set ks then combine (map_get (Params a) j) (map_get (Params b) j) else map_get (Params a) j)"
  using assms(2-)
proof (induction ks arbitrary: a)
  case (Cons k ks)
  have "map_get (Params b) k \<noteq> None" using Cons.prems(2) info_ok_keys [OF assms(1)] by simp
  then obtain p where p: "map_get (Params b) k = Some p" by blast
  then have name: "ParamName p = k" using info_okD [OF assms(1)] by blast
  let ?a = "merge_step a k p"
  have keys: "OrderedKeys ?a = (if k \<notin> set (OrderedKeys a) then OrderedKeys a @ [k] else OrderedKeys a)"
    using merge_step_lookup(2) [OF name, of a] Cons.prems(3) by simp
  have look: "map_get (Params ?a) i = (if i = k then combine (map_get (Params a) k) (Some p) else map_get (Params a) i)" for i
    by (rule merge_step_lookup(1) [OF name])
  have inv: "\<forall>i. map_get (Params ?a) i = None \<longleftrightarrow> i \<notin> set (OrderedKeys ?a)"
    using Cons.prems(3) unfolding look keys by (auto simp: combine_def split: option.splits)
  have IH: "OrderedKeys (merge_keys ?a b ks) = OrderedKeys ?a @ filter (\<lambda>k. k \<notin> set (OrderedKeys ?a)) ks"
    "map_get (Params (merge_keys ?a b ks)) j
      = (if j \<in> set ks then combine (map_get (Params ?a) j) (map_get (Params b) j) else map_get (Params ?a) j)"
    using Cons.IH [OF _ _ inv] Cons.prems(1,2) by auto
  have f: "filter (\<lambda>i. i \<notin> set (OrderedKeys a @ [k])) ks = filter (\<lambda>i. i \<notin> set (OrderedKeys a)) ks"
    using Cons.prems(1) by (intro filter_cong) auto
  show ?case unfolding merge_keys_Cons [OF p] IH look
    using Cons.prems(1) p f by (auto simp: keys)
qed (simp add: merge_keys.simps)

text \<open>C24. Merging two observations of an operation keeps the parameters of both, in order of first
  observation, and decides each name by itself: one observation is taken as it is, two complex ones are
  merged child by child, and otherwise the first that carries a type wins.\<close>

theorem merge_info_spec:
  assumes "info_ok n a" "info_ok n b"
  shows "OrderedKeys (merge_info a b) = OrderedKeys a @ filter (\<lambda>k. k \<notin> set (OrderedKeys a)) (OrderedKeys b)
    \<and> (\<forall>k. map_get (Params (merge_info a b)) k = combine (map_get (Params a) k) (map_get (Params b) k))"
proof -
  let ?a = "if Namespace a = [] \<and> Namespace b \<noteq> [] then SoapBodyInfo (Namespace b) (OrderedKeys a) (Params a) else a"
  have a: "OrderedKeys ?a = OrderedKeys a" "Params ?a = Params a" by simp_all
  have d: "distinct (OrderedKeys b)" using assms(2) unfolding info_ok_def info_ok_with_def by blast
  have inv: "\<forall>k. map_get (Params ?a) k = None \<longleftrightarrow> k \<notin> set (OrderedKeys ?a)"
    unfolding a using info_ok_keys [OF assms(1)] by blast
  have out: "map_get (Params b) k = None" if "k \<notin> set (OrderedKeys b)" for k
    using info_ok_keys [OF assms(2)] that by blast
  note spec = merge_keys_spec [OF assms(2) d order_refl inv, unfolded a]
  have "map_get (Params (merge_info a b)) k = combine (map_get (Params a) k) (map_get (Params b) k)" for k
    using spec [of k] out [of k] unfolding merge_info.simps
    by (cases "k \<in> set (OrderedKeys b)") (auto simp: combine_def split: option.splits)
  then show ?thesis using spec unfolding merge_info.simps by blast
qed

definition sample_info :: "string \<Rightarrow> string \<Rightarrow> soapBodyInfo" where
  "sample_info k ty = SoapBodyInfo [] [k] [(k, InferredParam k ty False None)]"

lemma sample_info_ok: "info_ok n (sample_info k ty)"
  by (simp add: info_ok_def info_ok_with_def sample_info_def param_ok_leaf)

lemma merge_info_spec_witness:
  "OrderedKeys (merge_info (sample_info ''a'' []) (sample_info ''b'' ''xsd:int''))
    = OrderedKeys (sample_info ''a'' []) @ filter (\<lambda>k. k \<notin> set (OrderedKeys (sample_info ''a'' [])))
        (OrderedKeys (sample_info ''b'' ''xsd:int''))
    \<and> (\<forall>k. map_get (Params (merge_info (sample_info ''a'' []) (sample_info ''b'' ''xsd:int''))) k
        = combine (map_get (Params (sample_info ''a'' [])) k) (map_get (Params (sample_info ''b'' ''xsd:int'')) k))"
  by (rule merge_info_spec [OF sample_info_ok [of 0] sample_info_ok])

text \<open>No type is lost, whichever observation carries it.\<close>

lemma hasType_merge_param: "hasType (merge_param e p) \<longleftrightarrow> hasType e \<or> hasType p"
  by (auto simp: merge_param_def both_complex_def set_children_def hasType_def shouldUpgradeWith_def)

section \<open>Merging keeps the invariant\<close>

lemma merge_keys_ok:
  assumes step: "\<And>e p. param_ok n e \<Longrightarrow> param_ok n p \<Longrightarrow> ParamName e = ParamName p
      \<Longrightarrow> param_ok n (merge_param e p) \<and> ParamName (merge_param e p) = ParamName e"
    and b: "info_ok n b"
  shows "set ks \<subseteq> set (OrderedKeys b) \<Longrightarrow> info_ok n a \<Longrightarrow> info_ok n (merge_keys a b ks)"
proof (induction ks arbitrary: a)
  case (Cons k ks)
  have "map_get (Params b) k \<noteq> None" using Cons.prems(1) info_ok_keys [OF b] by simp
  then obtain p where p: "map_get (Params b) k = Some p" by blast
  then have pk: "ParamName p = k" "param_ok n p" using info_okD [OF b] by blast+
  have "info_ok n (merge_step a k p)"
  proof (cases "map_get (Params a) k")
    case None
    then show ?thesis using addOrUpgrade_ok [OF Cons.prems(2) pk(2)] by (simp add: merge_step_def)
  next
    case (Some e)
    then have e: "ParamName e = k" "param_ok n e" using info_okD [OF Cons.prems(2)] by blast+
    have "k \<in> set (OrderedKeys a)" using Some info_ok_keys [OF Cons.prems(2), of k] by auto
    then have "info_ok n (put_param k (merge_param e p) a)"
      using put_existing_ok [OF Cons.prems(2)] step [OF e(2) pk(2)] e(1) pk(1) by simp
    then show ?thesis using addOrUpgrade_ok [OF Cons.prems(2) pk(2)] Some by (simp add: merge_step_def)
  qed
  then show ?case using Cons.IH Cons.prems(1) unfolding merge_keys_Cons [OF p] by simp
qed (simp add: merge_keys.simps)

lemma set_namespace_ok: "info_ok n a \<Longrightarrow> info_ok n (SoapBodyInfo ns (OrderedKeys a) (Params a))"
  unfolding info_ok_def info_ok_with_def soapBodyInfo.sel .

lemma merge_param_step:
  assumes "\<And>m a b. n = Suc m \<Longrightarrow> info_ok m a \<Longrightarrow> info_ok m b \<Longrightarrow> info_ok m (merge_info a b)"
    and e: "param_ok n e" and p: "param_ok n p" and same: "ParamName e = ParamName p"
  shows "param_ok n (merge_param e p) \<and> ParamName (merge_param e p) = ParamName e"
proof (cases "both_complex e p")
  case True
  then obtain m ec pc where n: "n = Suc m" "Children e = Some ec" "Children p = Some pc" "info_ok m ec" "info_ok m pc"
      "XSDType e = []" "IsComplex e"
    using e p by (elim param_ok_cases) (auto simp: both_complex_def)
  have "info_ok m (merge_info ec pc)" using assms(1) [OF n(1,4,5)] .
  then show ?thesis using True n by (simp add: merge_param_def set_children_def info_ok_def)
next
  case False
  then show ?thesis using e p same by (simp add: merge_param_def)
qed

lemma merge_info_ok: "info_ok n a \<Longrightarrow> info_ok n b \<Longrightarrow> info_ok n (merge_info a b)"
proof (induction n arbitrary: a b)
  case 0
  show ?case unfolding merge_info.simps
    by (rule merge_keys_ok [OF merge_param_step "0.prems"(2)]) (use 0 set_namespace_ok in auto)
next
  case (Suc n)
  show ?case unfolding merge_info.simps
    by (rule merge_keys_ok [OF merge_param_step Suc.prems(2)]) (use Suc set_namespace_ok in auto)
qed

section \<open>Value types\<close>

text \<open>An unbounded integer literal is typed \<^verbatim>\<open>xsd:int\<close>, which XSD limits to 32 bits.\<close>

lemma inferType_large_int: "inferTypeFromValue ''99999999999'' = ''xsd:int''"
  by code_simp

lemma inferType_dates:
  "inferTypeFromValue ''2024-02-29'' = ''xsd:date''" "inferTypeFromValue ''2023-02-29'' = ''xsd:string''"
  "inferTypeFromValue ''2024-02-29T23:59:59.5Z'' = ''xsd:dateTime''"
  "inferTypeFromValue ''2024-02-29T99:99:99'' = ''xsd:string''"
  by code_simp+

end
