(* ===== verification/Wsdl_Spec.thy ===== *)
theory Wsdl_Spec
  imports Wsdl_Infer Soap_Spec
begin

text \<open>
  What \<^verbatim>\<open>InferWSDL\<close> promises: it fails exactly when no request names an operation;
  the document has one operation per distinct name, in order, in the port type and in the binding, and
  its internal references resolve.
\<close>

section \<open>The loop\<close>

definition op_name :: "(bytes \<Rightarrow> xml_token list) \<Rightarrow> ('s, 'm) ClassifiedRequest_scheme \<Rightarrow> string" where
  "op_name tokens ep = fst (extractOperation tokens ep)"

definition op_names :: "(bytes \<Rightarrow> xml_token list) \<Rightarrow> ('s, 'm) ClassifiedRequest_scheme list \<Rightarrow> string list" where
  "op_names tokens eps = filter (\<lambda>n. n \<noteq> []) (map (op_name tokens) eps)"

definition state_ok :: "wsdl_state \<Rightarrow> bool" where
  "state_ok st = (\<forall>k info. map_get (observations_of st) k = Some info \<longrightarrow>
     k \<in> set (operations st) \<and> info_ok (maxBodyDepth - 2) info)"

lemma extract_params_ok: "extractSOAPParameters tokens body = Some info \<Longrightarrow> info_ok (maxBodyDepth - 2) info"
  using extract_from_ok by (simp add: extractSOAPParameters_def split: if_splits)

lemma operations_record_op [simp]: "operations (record_op tokens k sa body st) = operations st"
  by (simp add: record_op_def Let_def split: option.split)

lemma record_op_ok:
  assumes "state_ok st" "k \<in> set (operations st)"
  shows "state_ok (record_op tokens k sa body st)"
proof -
  have old: "j \<in> set (operations st) \<and> info_ok (maxBodyDepth - 2) i" if "map_get (observations_of st) j = Some i" for j i
    using assms(1) that unfolding state_ok_def by blast
  show ?thesis
    using assms(2) old extract_params_ok [of tokens body] merge_info_ok
    unfolding state_ok_def operations_record_op
    by (auto simp: record_op_def Let_def split: option.splits if_splits)
qed

lemma infer_step_operations:
  "operations (infer_step tokens ep st) =
    (if op_name tokens ep = [] \<or> op_name tokens ep \<in> set (operations st) then operations st
     else operations st @ [op_name tokens ep])"
  by (simp add: infer_step_def op_name_def split: prod.split)

lemma infer_step_ok:
  assumes "state_ok st"
  shows "state_ok (infer_step tokens ep st)"
proof -
  obtain k sa where e: "extractOperation tokens ep = (k, sa)" by fastforce
  have "state_ok (st\<lparr>operations := operations st @ [k]\<rparr>)" using assms by (auto simp: state_ok_def)
  then show ?thesis using assms record_op_ok e by (simp add: infer_step_def)
qed

lemma infer_state_spec:
  "operations (infer_state tokens eps) = nub (op_names tokens eps) \<and> state_ok (infer_state tokens eps)"
proof (induction eps rule: rev_induct)
  case Nil
  show ?case by (simp add: infer_state_def op_names_def state_ok_def)
next
  case (snoc ep eps)
  have s: "infer_state tokens (eps @ [ep]) = infer_step tokens ep (infer_state tokens eps)"
    by (simp add: infer_state_def)
  have "state_ok (infer_step tokens ep (infer_state tokens eps))" using infer_step_ok snoc by blast
  moreover have "operations (infer_step tokens ep (infer_state tokens eps)) = nub (op_names tokens (eps @ [ep]))"
    unfolding infer_step_operations using snoc by (simp add: op_names_def)
  ultimately show ?case unfolding s by blast
qed

section \<open>The document\<close>

definition message_names :: "Definitions \<Rightarrow> string list" where
  "message_names d = map MessageName (Messages d)"

lemma messages_names: "map MessageName (concat (map messages_of ops))
    = concat (map (\<lambda>n. [n @ ''Request'', n @ ''Response'']) ops)"
  by (induction ops) (simp_all add: messages_of_def)

lemma request_not_response: "(m :: string) @ ''Request'' \<noteq> n @ ''Response''"
proof
  assume "m @ ''Request'' = n @ ''Response''"
  then have "rev (m @ ''Request'') = rev (n @ ''Response'')" by simp
  then show False by simp
qed

lemma distinct_messages: "distinct ops \<Longrightarrow> distinct (concat (map (\<lambda>n. [n @ ''Request'', n @ ''Response'']) ops))"
  by (induction ops) (auto simp: request_not_response request_not_response [symmetric])

text \<open>A reference resolves when the named message exists.\<close>

definition resolves :: "Definitions \<Rightarrow> IOMsg option \<Rightarrow> bool" where
  "resolves d io = (case io of None \<Rightarrow> False | Some m \<Rightarrow> \<exists>n\<in>set (message_names d). IOMessage m = ''tns:'' @ n)"

definition well_formed :: "string list \<Rightarrow> Definitions \<Rightarrow> bool" where
  "well_formed ops d =
     (distinct ops \<and> [] \<notin> set ops \<and> distinct (message_names d)
      \<and> DefXMLNSTNS d = DefTargetNS d
      \<and> (\<exists>pt b s p. PortTypes d = [pt] \<and> Bindings d = [b] \<and> Services d = [s] \<and> Ports s = [p]
          \<and> map OperationName (PortTypeOperations pt) = ops
          \<and> map BindingOperationName (BindingOperations b) = ops
          \<and> (\<forall>opr\<in>set (PortTypeOperations pt). resolves d (Input opr) \<and> resolves d (Output opr))
          \<and> BindingType b = ''tns:'' @ PortTypeName pt \<and> PortBinding p = ''tns:'' @ BindingName b)
      \<and> (\<forall>ts\<in>set_option (DefTypes d). \<forall>sc\<in>set (Schemas ts). SchemaTargetNS sc = DefTargetNS d
          \<and> set (map ElementName (SchemaElements sc)) \<subseteq> set ops))"

lemma operation_elements_names: "e \<in> set (operation_elements ops obs) \<Longrightarrow> ElementName e \<in> set ops"
  by (auto simp: operation_elements_def split: option.splits)

lemma inferTypes_names:
  "ts \<in> set_option (inferTypesFromObservations ops obs ns) \<Longrightarrow> sc \<in> set (Schemas ts)
    \<Longrightarrow> SchemaTargetNS sc = ns \<and> set (map ElementName (SchemaElements sc)) \<subseteq> set ops"
  using operation_elements_names by (auto simp: inferTypesFromObservations_def Let_def split: if_splits)

lemma ops_resolve:
  "message_names d = concat (map (\<lambda>n. [n @ ''Request'', n @ ''Response'']) ops) \<Longrightarrow> n \<in> set ops
    \<Longrightarrow> resolves d (Input (port_operation n)) \<and> resolves d (Output (port_operation n))"
  by (auto simp: resolves_def port_operation_def)

text \<open>C23. \<^verbatim>\<open>InferWSDL\<close> fails exactly when there is no request, or none names an operation. Otherwise
  the document has one operation per distinct name, in order of first appearance, in the port type and
  in the binding; message names are distinct and every message, port type and binding reference
  resolves; schema, definitions and \<^verbatim>\<open>tns\<close> share one namespace.\<close>

theorem InferWSDL_spec:
  "case InferWSDL tokens endpoints of
     Inl e \<Rightarrow> if endpoints = [] then e = NoEndpointsToInfer else e = NoOperations \<and> op_names tokens endpoints = []
   | Inr d \<Rightarrow> op_names tokens endpoints \<noteq> [] \<and> well_formed (nub (op_names tokens endpoints)) d"
proof (cases endpoints)
  case (Cons ep eps)
  let ?st = "infer_state tokens endpoints"
  let ?ops = "operations ?st"
  have ops: "?ops = nub (op_names tokens endpoints)" using infer_state_spec by blast
  have empty: "?ops = [] \<longleftrightarrow> op_names tokens endpoints = []"
    unfolding ops by (metis nub_Nil set_empty set_nub)
  show ?thesis
  proof (cases "?ops = []")
    case True
    then show ?thesis using Cons empty by (simp add: InferWSDL_def Let_def)
  next
    case False
    then obtain d where d: "InferWSDL tokens endpoints = Inr d" by (simp add: InferWSDL_def Let_def Cons)
    have ns: "[] \<notin> set ?ops" unfolding ops by (simp add: op_names_def)
    have msgs: "message_names d = concat (map (\<lambda>n. [n @ ''Request'', n @ ''Response'']) ?ops)"
      using d False by (auto simp: InferWSDL_def Let_def Cons message_names_def messages_names)
    have dist: "distinct ?ops" unfolding ops by simp
    have types: "SchemaTargetNS sc = DefTargetNS d \<and> set (map ElementName (SchemaElements sc)) \<subseteq> set ?ops"
      if "ts \<in> set_option (DefTypes d)" "sc \<in> set (Schemas ts)" for ts sc
      using d False that inferTypes_names by (fastforce simp: InferWSDL_def Let_def Cons split: if_splits)
    have frame: "DefXMLNSTNS d = DefTargetNS d \<and> (\<exists>pt b s p. PortTypes d = [pt] \<and> Bindings d = [b] \<and> Services d = [s] \<and> Ports s = [p]
          \<and> PortTypeOperations pt = map port_operation ?ops
          \<and> map BindingOperationName (BindingOperations b) = ?ops
          \<and> BindingType b = ''tns:'' @ PortTypeName pt \<and> PortBinding p = ''tns:'' @ BindingName b)"
      using d False by (auto simp: InferWSDL_def Let_def Cons binding_operation_def comp_def)
    then have "well_formed ?ops d"
      unfolding well_formed_def using dist ns distinct_messages [OF dist] msgs types ops_resolve [OF msgs]
      by (auto simp: port_operation_def comp_def)
    then show ?thesis using d False empty ops by simp
  qed
qed (simp add: InferWSDL_def)

section \<open>Schemas\<close>

lemma build_elements_names:
  assumes "info_ok n info"
  shows "set ks \<subseteq> set (OrderedKeys info) \<Longrightarrow>
    map ElementName (build_elements info ks) = filter (\<lambda>k. \<exists>p. map_get (Params info) k = Some p \<and> hasType p) ks
    \<and> list_all (\<lambda>e. (ElementType e \<noteq> []) = (ElementComplexType e = None)) (build_elements info ks)"
proof (induction ks)
  case (Cons k ks)
  then have IH: "map ElementName (build_elements info ks) = filter (\<lambda>k. \<exists>p. map_get (Params info) k = Some p \<and> hasType p) ks"
    "list_all (\<lambda>e. (ElementType e \<noteq> []) = (ElementComplexType e = None)) (build_elements info ks)" by simp_all
  have "map_get (Params info) k \<noteq> None" using Cons.prems info_ok_keys [OF assms] by simp
  then obtain p where p: "map_get (Params info) k = Some p" by blast
  have name: "ParamName p = k" and ok: "param_ok n p" using info_okD [OF assms p] by blast+
  from ok show ?case
  proof (cases rule: param_ok_cases)
    case 1
    then show ?thesis using p name IH by (simp add: build_elements.simps hasType_def)
  next
    case 2
    then show ?thesis using p name IH by (simp add: build_elements.simps hasType_def)
  qed
qed (simp add: build_elements.simps)

text \<open>The complex type built from an observation lists each parameter that carries a type exactly once,
  in the order observed, and nothing else; every element has either a simple type or a complex one.\<close>

theorem buildComplexType_spec:
  assumes "info_ok n info"
  shows "map ElementName (Sequence (buildComplexType info))
      = filter (\<lambda>k. \<exists>p. map_get (Params info) k = Some p \<and> hasType p) (OrderedKeys info)
    \<and> distinct (map ElementName (Sequence (buildComplexType info)))
    \<and> list_all (\<lambda>e. (ElementType e \<noteq> []) = (ElementComplexType e = None)) (Sequence (buildComplexType info))"
proof -
  have "distinct (OrderedKeys info)" using assms unfolding info_ok_def info_ok_with_def by blast
  then show ?thesis using build_elements_names [OF assms order_refl] by (simp add: buildComplexType.simps)
qed

lemma buildComplexType_spec_witness:
  "map ElementName (Sequence (buildComplexType (sample_info ''a'' ''xsd:int'')))
      = filter (\<lambda>k. \<exists>p. map_get (Params (sample_info ''a'' ''xsd:int'')) k = Some p \<and> hasType p) (OrderedKeys (sample_info ''a'' ''xsd:int''))
    \<and> distinct (map ElementName (Sequence (buildComplexType (sample_info ''a'' ''xsd:int''))))
    \<and> list_all (\<lambda>e. (ElementType e \<noteq> []) = (ElementComplexType e = None)) (Sequence (buildComplexType (sample_info ''a'' ''xsd:int'')))"
  by (rule buildComplexType_spec [OF sample_info_ok [of 0]])

text \<open>References to schema elements need not resolve: an operation known from its SOAPAction alone has
  message parts of the elements \<open>tns:Op\<close> and \<open>tns:OpResponse\<close>, and no schema declares
  them.\<close>

definition sample_soap :: "unit ClassifiedRequest" where
  "sample_soap =
     ObservedRequest.extend (empty_request\<lparr>Headers := [(''SOAPAction'', ''urn:Get'')]\<rparr>)
       \<lparr>IsAPI = True, Confidence = one, Reason = [], APIType = ''wsdl'', MultiValueQueryKeys = None,
        AllowedMethods = [], ResponseSchema = None, WSDLDocument = [], GraphQLSchema = None, GRPCSchema = None\<rparr>"

lemma InferWSDL_dangling:
  "case InferWSDL (\<lambda>_. []) [sample_soap] of
     Inr d \<Rightarrow> map PartElement (concat (map Parts (Messages d))) = [''tns:Get'', ''tns:GetResponse''] \<and> DefTypes d = None
   | Inl e \<Rightarrow> False"
  by code_simp

end
