(* ===== verification/Js_Extract.thy ===== *)
theory Js_Extract
  imports Origin
begin

text \<open>
  Candidates for API paths in a JavaScript bundle: the extraction part of
  \<^verbatim>\<open>pkg/crawl/jsreplay.go\<close>. The scanners of the code move an index through the bundle; here
  they consume the text, so an index is what is left from it on, and the slice between two indices is the text
  that has gone. The length tests of the recursive scanners only make their recursion well-founded:
  \<open>Js_Extract_Spec\<close> shows that a scan leaves less than it was given.
\<close>

section \<open>Patterns\<close>

abbreviation dquote :: char where "dquote \<equiv> CHR 0x22"
abbreviation squote :: char where "squote \<equiv> CHR 0x27"
abbreviation backtick :: char where "backtick \<equiv> CHR 0x60"
abbreviation backslash :: char where "backslash \<equiv> CHR 0x5C"
abbreviation newline :: char where "newline \<equiv> CHR 0x0A"
abbreviation return :: char where "return \<equiv> CHR 0x0D"

abbreviation letters :: "(char \<times> char) list" where "letters \<equiv> [(CHR ''a'', CHR ''z''), (CHR ''A'', CHR ''Z'')]"
abbreviation digits :: "(char \<times> char) list" where "digits \<equiv> [(CHR ''0'', CHR ''9'')]"
abbreviation quote_re :: re where "quote_re \<equiv> Class (chars [dquote, squote])"
abbreviation any_quote_re :: re where "any_quote_re \<equiv> Class (chars [dquote, squote, backtick])"
abbreviation space_re :: re where "space_re \<equiv> Star (Class (chars [CHR 0x09, newline, CHR 0x0C, return, CHR '' '']))"
abbreviation word_re :: re where "word_re \<equiv> Class (letters @ digits @ chars ''_-'')"
abbreviation segments_re :: re where "segments_re \<equiv> Star (Cat (plus_re word_re) (Lit ''/''))"
abbreviation tail_re :: re where "tail_re \<equiv> Star (Class (letters @ digits @ chars ''/_{}.:-''))"

definition api_path_re :: re where
  "api_path_re = seq [Opt (Lit ''/''), segments_re, APIIndicatorAlternation, tail_re]"

definition apiPathPattern :: pattern where
  "apiPathPattern = \<lparr>Before = quote_re, Group = api_path_re, After = quote_re\<rparr>"

definition templateLiteralPattern :: pattern where
  "templateLiteralPattern = \<lparr>Before = Lit [backtick], Group = api_path_re, After = Lit [backtick]\<rparr>"

definition fullURLPattern :: pattern where
  "fullURLPattern =
     \<lparr>Before = any_quote_re,
      Group = seq [Lit ''http'', Opt (Lit ''s''), Lit ''://'', plus_re (Class (letters @ digits @ chars ''._-'')),
        Opt (Cat (Lit '':'') (plus_re (Class digits))), Lit ''/'', segments_re, APIIndicatorAlternation, tail_re],
      After = any_quote_re\<rparr>"

definition servicePrefixPattern :: pattern where
  "servicePrefixPattern =
     \<lparr>Before = quote_re, Group = seq [Class letters, rep 1 29 word_re, Lit ''/''],
      After = seq [quote_re, space_re, Lit ''+'', space_re, quote_re, APIIndicatorAlternation]\<rparr>"

definition concatMethodPattern :: pattern where
  "concatMethodPattern =
     \<lparr>Before = quote_re, Group = Cat (Opt (Lit ''/'')) (plus_re (Class (letters @ digits @ chars ''/_{}.:?=&%~-''))),
      After = Cat quote_re (Lit ''.concat('')\<rparr>"

definition concatPlusHeadPattern :: pattern where
  "concatPlusHeadPattern =
     \<lparr>Before = quote_re, Group = api_path_re, After = seq [quote_re, space_re, Lit ''+'']\<rparr>"

definition standalonePrefixPattern :: pattern where
  "standalonePrefixPattern =
     \<lparr>Before = quote_re,
      Group = seq [Class [(CHR ''a'', CHR ''z'')], rep 1 29 (Class ([(CHR ''a'', CHR ''z'')] @ digits @ chars ''_-'')), Lit ''/''],
      After = quote_re\<rparr>"

definition servicePrefixPlusHeadPattern :: pattern where
  "servicePrefixPlusHeadPattern =
     \<lparr>Before = quote_re, Group = seq [Class letters, rep 0 30 word_re, Lit ''/''],
      After = seq [quote_re, space_re, Lit ''+'']\<rparr>"

definition ConcatPathSentinel :: string where "ConcatPathSentinel = ''0''"
definition maxConcatChainOperands :: nat where "maxConcatChainOperands = 16"
definition maxConcatChainSpan :: nat where "maxConcatChainSpan = 1024"
definition maxConcatArgList :: nat where "maxConcatArgList = 500"
definition maxConcatPathsPerBundle :: nat where "maxConcatPathsPerBundle = 256"
definition standalonePrefixMinFrequency :: nat where "standalonePrefixMinFrequency = 1"
definition maxBundlePrefixCap :: nat where "maxBundlePrefixCap = 8"

section \<open>Scanning literals\<close>

text \<open>What follows the backtick that closes a template literal. The counter is the brace depth inside
  an interpolation; it is positive there, so the code's test for a negative depth never holds.\<close>

function template_end :: "nat \<Rightarrow> string \<Rightarrow> string option" where
  "template_end d [] = None"
| "template_end d (c # s) =
     (if d = 0 then
        (if c = backtick then Some s
         else if c = CHR ''$'' \<and> has_prefix s ''{'' then template_end 1 (drop 1 s)
         else if c = backslash \<and> s \<noteq> [] then template_end 0 (drop 1 s)
         else template_end 0 s)
      else if c = backtick then
        (case template_end 0 s of None \<Rightarrow> None
         | Some t \<Rightarrow> if length t \<le> length s then template_end d t else None)
      else if c = CHR ''{'' then template_end (d + 1) s
      else if c = CHR ''}'' then template_end (d - 1) s
      else if c = backslash \<and> s \<noteq> [] then template_end d (drop 1 s)
      else template_end d s)"
  by pat_completeness auto
termination by (relation "measure (\<lambda>(d, s). length s)") auto

declare template_end.simps(2) [simp del]

definition findTemplateLiteralEnd :: "string \<Rightarrow> string option" where
  "findTemplateLiteralEnd s = template_end 0 s"

fun quoted_end :: "char \<Rightarrow> string \<Rightarrow> string option" where
  "quoted_end q [] = None"
| "quoted_end q (c # s) =
     (if c = backslash \<and> s \<noteq> [] then quoted_end q (drop 1 s)
      else if c = q then Some s
      else if c = newline then None
      else quoted_end q s)"

definition scanStringLiteral :: "string \<Rightarrow> string option" where
  "scanStringLiteral s =
     (case s of [] \<Rightarrow> None
      | q # s \<Rightarrow> if q = backtick then findTemplateLiteralEnd s else quoted_end q s)"

definition is_quote :: "char \<Rightarrow> bool" where
  "is_quote c = (c = dquote \<or> c = squote \<or> c = backtick)"

text \<open>The text from \<open>s\<close> up to where \<open>t\<close> is left.\<close>

definition upto :: "string \<Rightarrow> string \<Rightarrow> string" where
  "upto s t = take (length s - length t) s"

definition stringLiteralValue :: "string \<Rightarrow> string option" where
  "stringLiteralValue s =
     (if length s < 2 then None
      else if hd s \<noteq> last s then None
      else
        let inner = butlast (tl s)
        in if hd s = dquote \<or> hd s = squote then Some inner
           else if hd s = backtick then (if contains inner ''${'' then None else Some inner)
           else None)"

section \<open>Chains of additions\<close>

definition skipPlusChainWhitespace :: "string \<Rightarrow> string" where
  "skipPlusChainWhitespace s = dropWhile (\<lambda>c. c \<in> {CHR '' '', CHR 0x09, newline, return}) s"

text \<open>The counters are the depths of round, square and curly brackets.\<close>

function identifier_end :: "nat \<Rightarrow> nat \<Rightarrow> nat \<Rightarrow> string \<Rightarrow> string" where
  "identifier_end r sq cu [] = []"
| "identifier_end r sq cu (c # s) =
     (if r = 0 \<and> sq = 0 \<and> cu = 0 \<and> c \<in> set (newline # return # ''+;,)]}'') then c # s
      else if c = CHR ''('' then identifier_end (r + 1) sq cu s
      else if c = CHR '')'' then identifier_end (r - 1) sq cu s
      else if c = CHR ''['' then identifier_end r (sq + 1) cu s
      else if c = CHR '']'' then identifier_end r (sq - 1) cu s
      else if c = CHR ''{'' then identifier_end r sq (cu + 1) s
      else if c = CHR ''}'' then identifier_end r sq (cu - 1) s
      else if is_quote c then
        (case scanStringLiteral (c # s) of None \<Rightarrow> c # s
         | Some t \<Rightarrow> if length t \<le> length s then identifier_end r sq cu t else c # s)
      else identifier_end r sq cu s)"
  by pat_completeness auto
termination by (relation "measure (\<lambda>(r, sq, cu, s). length s)") auto

declare identifier_end.simps(2) [simp del]

definition scanIdentifierOperand :: "string \<Rightarrow> string" where
  "scanIdentifierOperand s = identifier_end 0 0 0 s"

definition readChainOperand :: "string \<Rightarrow> (string \<times> string) option" where
  "readChainOperand s =
     (case s of [] \<Rightarrow> None
      | c # _ \<Rightarrow>
          if is_quote c then
            (case scanStringLiteral s of None \<Rightarrow> None
             | Some t \<Rightarrow> (case stringLiteralValue (upto s t) of
                   Some lit \<Rightarrow> Some (lit, t) | None \<Rightarrow> Some (ConcatPathSentinel, t)))
          else let t = scanIdentifierOperand s in if t = s then None else Some (ConcatPathSentinel, t))"

fun plus_chain :: "nat \<Rightarrow> string \<Rightarrow> string" where
  "plus_chain 0 s = []"
| "plus_chain (Suc n) s =
     (case readChainOperand (skipPlusChainWhitespace s) of None \<Rightarrow> []
      | Some (lit, t) \<Rightarrow>
          lit @ (case skipPlusChainWhitespace t of [] \<Rightarrow> []
                 | c # u \<Rightarrow> if c \<noteq> CHR ''+'' then [] else plus_chain n u))"

definition parsePlusChain :: "string \<Rightarrow> string" where
  "parsePlusChain s = plus_chain maxConcatChainOperands (take maxConcatChainSpan s)"

section \<open>Argument lists\<close>

function arg_list_end :: "nat \<Rightarrow> nat \<Rightarrow> nat \<Rightarrow> string \<Rightarrow> string option" where
  "arg_list_end r sq cu [] = None"
| "arg_list_end r sq cu (c # s) =
     (if is_quote c then
        (case scanStringLiteral (c # s) of None \<Rightarrow> None
         | Some t \<Rightarrow> if length t \<le> length s then arg_list_end r sq cu t else None)
      else if c = CHR ''('' then arg_list_end (r + 1) sq cu s
      else if c = CHR '')'' then
        (if r = 0 \<and> sq = 0 \<and> cu = 0 then Some (c # s) else arg_list_end (r - 1) sq cu s)
      else if c = CHR ''['' then arg_list_end r (sq + 1) cu s
      else if c = CHR '']'' then arg_list_end r (sq - 1) cu s
      else if c = CHR ''{'' then arg_list_end r sq (cu + 1) s
      else if c = CHR ''}'' then arg_list_end r sq (cu - 1) s
      else arg_list_end r sq cu s)"
  by pat_completeness auto
termination by (relation "measure (\<lambda>(r, sq, cu, s). length s)") auto

declare arg_list_end.simps(2) [simp del]

text \<open>The argument list itself.\<close>

definition findConcatArgListEnd :: "string \<Rightarrow> string option" where
  "findConcatArgListEnd s =
     (let body = take maxConcatArgList s
      in (case arg_list_end 0 0 0 body of None \<Rightarrow> None | Some t \<Rightarrow> Some (upto body t)))"

function split_args :: "nat \<Rightarrow> nat \<Rightarrow> nat \<Rightarrow> string \<Rightarrow> string \<Rightarrow> string list" where
  "split_args r sq cu b [] = (if b = [] then [] else [b])"
| "split_args r sq cu b (c # s) =
     (if is_quote c then
        (case scanStringLiteral (c # s) of None \<Rightarrow> [b @ c # s]
         | Some t \<Rightarrow> if length t \<le> length s then split_args r sq cu (b @ upto (c # s) t) t else [b @ c # s])
      else if c = CHR ''('' then split_args (r + 1) sq cu (b @ [c]) s
      else if c = CHR '')'' then split_args (r - 1) sq cu (b @ [c]) s
      else if c = CHR ''['' then split_args r (sq + 1) cu (b @ [c]) s
      else if c = CHR '']'' then split_args r (sq - 1) cu (b @ [c]) s
      else if c = CHR ''{'' then split_args r sq (cu + 1) (b @ [c]) s
      else if c = CHR ''}'' then split_args r sq (cu - 1) (b @ [c]) s
      else if c = CHR '','' \<and> r = 0 \<and> sq = 0 \<and> cu = 0 then b # split_args r sq cu [] s
      else split_args r sq cu (b @ [c]) s)"
  by pat_completeness auto
termination by (relation "measure (\<lambda>(r, sq, cu, b, s). length s)") auto

declare split_args.simps(2) [simp del]

definition splitConcatArgs :: "string \<Rightarrow> string list" where
  "splitConcatArgs argList = split_args 0 0 0 [] argList"

definition parseConcatArgs :: "string \<Rightarrow> string" where
  "parseConcatArgs argList =
     concat (map (\<lambda>arg. let arg = trim_space arg
        in if arg = [] then []
           else (case stringLiteralValue arg of Some lit \<Rightarrow> lit | None \<Rightarrow> ConcatPathSentinel)) (splitConcatArgs argList))"

section \<open>Paths built by concatenation\<close>

text \<open>Both extractors emit a cleaned path once, up to the limit.\<close>

definition emit :: "string \<Rightarrow> string list \<Rightarrow> string list" where
  "emit p paths =
     (if length paths \<ge> maxConcatPathsPerBundle then paths
      else let p = cleanConcatPath p in if p = [] \<or> p \<in> set paths then paths else paths @ [p])"

definition concat_calls :: "string \<Rightarrow> string list" where
  "concat_calls jsBody =
     List.map_filter (\<lambda>(receiver, rest). map_option (\<lambda>argList. receiver @ parseConcatArgs argList) (findConcatArgListEnd rest))
       (find_all concatMethodPattern jsBody)"

definition plus_chains :: "string \<Rightarrow> string list" where
  "plus_chains jsBody = map (\<lambda>(head, rest). head @ parsePlusChain rest) (find_all concatPlusHeadPattern jsBody)"

definition extractConcatPaths :: "string \<Rightarrow> string list" where
  "extractConcatPaths jsBody = fold emit (plus_chains jsBody) (fold emit (concat_calls jsBody) [])"

definition servicePrefixPlusPaths :: "string \<Rightarrow> string list" where
  "servicePrefixPlusPaths jsBody =
     fold emit (map (\<lambda>(head, rest). head @ parsePlusChain rest) (find_all servicePrefixPlusHeadPattern jsBody)) []"

definition ExtractStaticConcatPaths :: "string \<Rightarrow> string list" where
  "ExtractStaticConcatPaths jsBody =
     nub (filter (\<lambda>p. p \<noteq> []) (extractConcatPaths jsBody @ servicePrefixPlusPaths jsBody))"

section \<open>Template literals\<close>

fun template_text :: "nat \<Rightarrow> string \<Rightarrow> string" where
  "template_text d [] = []"
| "template_text d (c # s) =
     (if d = 0 then
        (if c = CHR ''$'' \<and> has_prefix s ''{'' then ''{param}'' @ template_text 1 (drop 1 s)
         else c # template_text 0 s)
      else if c = CHR ''{'' then template_text (d + 1) s
      else if c = CHR ''}'' then template_text (d - 1) s
      else template_text d s)"

definition reconstructTemplateLiteral :: "string \<Rightarrow> string option" where
  "reconstructTemplateLiteral segment =
     (let candidate = trim_space (template_text 0 segment);
          candidate = (if \<not> has_prefix candidate ''/'' \<and> \<not> IsAbsoluteHTTPURL candidate \<and> CHR ''/'' \<in> set candidate
            then dropWhile (\<lambda>c. c \<noteq> CHR ''/'') candidate else candidate)
      in if candidate = [] \<or> \<not> hasAPIIndicator candidate then None
         else if list_ex (\<lambda>c. c \<in> {CHR '' '', CHR 0x09, return, newline}) candidate then None
         else Some candidate)"

function extractTemplateLiteralPaths :: "string \<Rightarrow> string list" where
  "extractTemplateLiteralPaths [] = []"
| "extractTemplateLiteralPaths (c # s) =
     (if c \<noteq> backtick then extractTemplateLiteralPaths s
      else (case findTemplateLiteralEnd s of None \<Rightarrow> []
        | Some t \<Rightarrow>
            if length t \<le> length s then
              (case reconstructTemplateLiteral (butlast (upto s t)) of None \<Rightarrow> [] | Some p \<Rightarrow> [p]) @ extractTemplateLiteralPaths t
            else []))"
  by pat_completeness auto
termination by (relation "measure length") auto

declare extractTemplateLiteralPaths.simps(2) [simp del]

section \<open>Service prefixes\<close>

text \<open>The directory of a path, with its slash.\<close>

definition dir_of :: "string \<Rightarrow> string" where
  "dir_of path = (case cut_last (CHR ''/'') path of None \<Rightarrow> [] | Some (d, _) \<Rightarrow> d @ ''/'')"

definition prefix_of_request :: "string list \<Rightarrow> ObservedRequest \<Rightarrow> string option" where
  "prefix_of_request jsURLs req =
     (if \<not> isJSURL (Source req) \<or> Source req \<notin> set jsURLs then None
      else (case (parse_url (Source req), parse_url (URL req)) of
          (Some srcURL, Some reqURL) \<Rightarrow>
            let jsDir = dir_of (Path srcURL)
            in if \<not> has_prefix (Path reqURL) jsDir then None
               else
                 let suffix = trim_suffix (trim_prefix (Path reqURL) jsDir) ''/''
                 in if suffix = [] \<or> CHR ''/'' \<in> set suffix \<or> CHR ''.'' \<in> set suffix then None
                    else if list_all (\<lambda>c. is_lower c \<or> is_digit c \<or> c = CHR ''-'' \<or> c = CHR ''_'') suffix
                      \<and> 2 \<le> length suffix \<and> length suffix \<le> 30
                    then Some (suffix @ ''/'') else None
        | _ \<Rightarrow> None))"

text \<open>Most frequent first, then by name.\<close>

definition addStandaloneCandidates :: "string \<Rightarrow> string list \<Rightarrow> string list" where
  "addStandaloneCandidates jsBody prefixes =
     (if length prefixes \<ge> maxBundlePrefixCap then prefixes
      else
        let budget = maxBundlePrefixCap - length prefixes;
            found = filter (\<lambda>c. apiIndicatorPattern c = None \<and> c \<notin> set prefixes)
              (map fst (find_all standalonePrefixPattern jsBody));
            candidates = filter (\<lambda>c. count_list found c \<ge> standalonePrefixMinFrequency) (nub found)
        in prefixes @ take budget (sort_key (\<lambda>c. - int (count_list found c)) (sort candidates)))"

definition extractServicePrefixes :: "string \<Rightarrow> ObservedRequest list \<Rightarrow> string list" where
  "extractServicePrefixes jsBody requests =
     (let jsURLs = filter isJSURL (map URL requests)
      in addStandaloneCandidates jsBody
           (nub (map fst (find_all servicePrefixPattern jsBody) @ List.map_filter (prefix_of_request jsURLs) requests)))"

section \<open>All candidates\<close>

definition add_path :: "string \<Rightarrow> string list \<Rightarrow> string list" where
  "add_path p paths = (if p \<in> set paths then paths else paths @ [p])"

definition addPath :: "string list \<Rightarrow> string \<Rightarrow> string list \<Rightarrow> string list" where
  "addPath prefixes raw paths =
     (if isStaticFile raw then paths
      else if IsAbsoluteHTTPURL raw then
        (case ValidateFullURL raw of None \<Rightarrow> paths
         | Some cleaned \<Rightarrow> add_path (trim_right (\<lambda>c. c = CHR ''/'') cleaned) paths)
      else
        let raw = (if has_prefix raw ''/'' then raw else CHR ''/'' # raw);
            raw = trim_right (\<lambda>c. c = CHR ''/'') raw
        in if raw = [] then paths
           else
             let trimmed = trim_prefix raw ''/'';
                 knownPrefix = list_ex (\<lambda>prefix. has_prefix trimmed prefix) prefixes
             in if knownPrefix \<or> hasInlinePrefix trimmed \<or> prefixes = [] then add_path raw paths
                else fold (\<lambda>prefix. add_path (CHR ''/'' # prefix @ trimmed)) prefixes paths)"

definition extractAPIPaths :: "string \<Rightarrow> ObservedRequest list \<Rightarrow> string list" where
  "extractAPIPaths jsBody requests =
     (let prefixes = extractServicePrefixes jsBody requests
      in fold (addPath prefixes)
          (map fst (find_all apiPathPattern jsBody) @ extractTemplateLiteralPaths jsBody
            @ map fst (find_all templateLiteralPattern jsBody) @ map fst (find_all fullURLPattern jsBody)
            @ extractConcatPaths jsBody @ servicePrefixPlusPaths jsBody) [])"

end
