(* ===== verification/Js_Extract_Spec.thy ===== *)
theory Js_Extract_Spec
  imports Js_Extract
begin

text \<open>
  What the extraction guarantees about hostile bundles, and that it reads chains of additions correctly.
\<close>

section \<open>Scans move forward\<close>

lemma template_end_length: "template_end d s = Some t \<Longrightarrow> length t < length s"
proof (induction d s arbitrary: t rule: template_end.induct)
  case (2 d c s)
  show ?case
  proof (cases "d \<noteq> 0 \<and> c = backtick")
    case True
    then obtain u where u: "template_end 0 s = Some u" "length u \<le> length s" "template_end d u = Some t"
      using "2.prems" by (subst (asm) template_end.simps(2)) (auto split: option.splits if_splits)
    then show ?thesis using "2.IH"(5) [OF _ _ u(1,2), of t] True by auto
  next
    case False
    then show ?thesis using "2.prems" "2.IH"(1-3,6-)
      by (subst (asm) template_end.simps(2)) (fastforce split: if_splits)
  qed
qed simp

lemma quoted_end_length: "quoted_end q s = Some t \<Longrightarrow> length t < length s"
  by (induction q s rule: quoted_end.induct) (fastforce split: if_splits)+

lemma scan_length: "scanStringLiteral s = Some t \<Longrightarrow> length t < length s"
  by (auto simp: scanStringLiteral_def findTemplateLiteralEnd_def dest!: template_end_length quoted_end_length
      split: list.splits if_splits)

text \<open>The equations of the code, without the tests.\<close>

lemma template_end_interpolation:
  "d \<noteq> 0 \<Longrightarrow> template_end d (backtick # s) = (case template_end 0 s of None \<Rightarrow> None | Some t \<Rightarrow> template_end d t)"
  by (subst template_end.simps(2)) (auto dest: template_end_length split: option.splits)

lemma identifier_end_quote:
  "is_quote c \<Longrightarrow> identifier_end r sq cu (c # s) =
    (case scanStringLiteral (c # s) of None \<Rightarrow> c # s | Some t \<Rightarrow> identifier_end r sq cu t)"
proof -
  assume c: "is_quote c"
  have le: "\<And>t. scanStringLiteral (c # s) = Some t \<Longrightarrow> length t \<le> length s" using scan_length by fastforce
  have n: "c \<notin> set (newline # return # ''+;,()[]{}'')" using c by (auto simp: is_quote_def)
  show ?thesis by (subst identifier_end.simps(2)) (cases "scanStringLiteral (c # s)"; use c n le in simp)
qed

lemma arg_list_end_quote:
  "is_quote c \<Longrightarrow> arg_list_end r sq cu (c # s) =
    (case scanStringLiteral (c # s) of None \<Rightarrow> None | Some t \<Rightarrow> arg_list_end r sq cu t)"
proof -
  assume c: "is_quote c"
  have le: "\<And>t. scanStringLiteral (c # s) = Some t \<Longrightarrow> length t \<le> length s" using scan_length by fastforce
  have n: "c \<notin> set (newline # return # ''+;,()[]{}'')" using c by (auto simp: is_quote_def)
  show ?thesis by (subst arg_list_end.simps(2)) (cases "scanStringLiteral (c # s)"; use c n le in simp)
qed

lemma split_args_quote:
  "is_quote c \<Longrightarrow> split_args r sq cu b (c # s) =
    (case scanStringLiteral (c # s) of None \<Rightarrow> [b @ c # s] | Some t \<Rightarrow> split_args r sq cu (b @ upto (c # s) t) t)"
proof -
  assume c: "is_quote c"
  have le: "\<And>t. scanStringLiteral (c # s) = Some t \<Longrightarrow> length t \<le> length s" using scan_length by fastforce
  have n: "c \<notin> set (newline # return # ''+;,()[]{}'')" using c by (auto simp: is_quote_def)
  show ?thesis by (subst split_args.simps(2)) (cases "scanStringLiteral (c # s)"; use c n le in simp)
qed

section \<open>Reading a chain of additions\<close>

text \<open>A plain character of an expression: no quote, no bracket, and nothing that ends a chain.\<close>

definition plain_char :: "char \<Rightarrow> bool" where
  "plain_char c = (c \<notin> set (newline # return # dquote # squote # backtick # ''+;,()[]{}''))"

lemma plain_charD: "plain_char c \<Longrightarrow> c \<notin> set (newline # return # ''+;,()[]{}'') \<and> \<not> is_quote c"
  by (simp add: plain_char_def is_quote_def)

lemma plain_blanks: "plain_char (CHR '' '')" "plain_char (CHR 0x09)"
  by code_simp+

lemma plain_not_newline: "plain_char c \<Longrightarrow> c \<noteq> newline \<and> c \<noteq> return"
  by (simp add: plain_char_def)

text \<open>An expression is a sequence of plain texts, quoted literals, and bracketed groups. Inside a group, texts may
  hold everything but quotes and brackets: arguments, indices and sums of their own.\<close>

datatype piece = Plain string | Quoted char string | Round "piece list" | Square "piece list" | Curly "piece list"

text \<open>The text of a literal between its quotes: escapes are complete, the quote itself is escaped, and a line break
  is escaped or in a template; a template has no interpolation.\<close>

fun body_ok :: "char \<Rightarrow> string \<Rightarrow> bool" where
  "body_ok q [] = True"
| "body_ok q (c # s) =
     (if c = backslash then (case s of [] \<Rightarrow> False | _ # s' \<Rightarrow> body_ok q s')
      else c \<noteq> q \<and> (q = backtick \<or> c \<noteq> newline) \<and> \<not> (q = backtick \<and> c = CHR ''$'' \<and> has_prefix s ''{'') \<and> body_ok q s)"

fun piece_ok :: "bool \<Rightarrow> piece \<Rightarrow> bool" where
  "piece_ok inside (Plain s) = list_all (\<lambda>c. plain_char c \<or> inside \<and> c \<in> set (newline # return # ''+;,'')) s"
| "piece_ok inside (Quoted q s) = (is_quote q \<and> body_ok q s)"
| "piece_ok inside (Round ps) = list_all (piece_ok True) ps"
| "piece_ok inside (Square ps) = list_all (piece_ok True) ps"
| "piece_ok inside (Curly ps) = list_all (piece_ok True) ps"

fun print_piece :: "piece \<Rightarrow> string" where
  "print_piece (Plain s) = s"
| "print_piece (Quoted q s) = q # s @ [q]"
| "print_piece (Round ps) = ''('' @ concat (map print_piece ps) @ '')''"
| "print_piece (Square ps) = ''['' @ concat (map print_piece ps) @ '']''"
| "print_piece (Curly ps) = ''{'' @ concat (map print_piece ps) @ ''}''"

definition print_pieces :: "piece list \<Rightarrow> string" where
  "print_pieces ps = concat (map print_piece ps)"

text \<open>An operand: a literal, a template with interpolations (pairs of the text before one and its expression, and the
  text after the last), or an expression that does not start with a literal or a blank.\<close>

datatype operand = TextOp char string | TemplateOp "(string \<times> string) list" string | ExprOp "piece list"

fun operand_ok :: "operand \<Rightarrow> bool" where
  "operand_ok (TextOp q t) = (is_quote q \<and> body_ok q t)"
| "operand_ok (TemplateOp parts t) = (parts \<noteq> [] \<and> body_ok backtick t
     \<and> list_all (\<lambda>(s, e). body_ok backtick s \<and> list_all (\<lambda>c. c \<notin> set (backtick # backslash # ''{}'')) e) parts)"
| "operand_ok (ExprOp ps) = (list_all (piece_ok False) ps
     \<and> (case print_pieces ps of [] \<Rightarrow> False | c # _ \<Rightarrow> \<not> is_quote c \<and> c \<noteq> CHR '' '' \<and> c \<noteq> CHR 0x09))"

fun print_operand :: "operand \<Rightarrow> string" where
  "print_operand (TextOp q t) = q # t @ [q]"
| "print_operand (TemplateOp parts t) = backtick # concat (map (\<lambda>(s, e). s @ ''${'' @ e @ ''}'') parts) @ t @ [backtick]"
| "print_operand (ExprOp ps) = print_pieces ps"

text \<open>The value of a literal is its text, escapes and all; in a template an escaped dollar before a brace counts as
  an interpolation, as the code only looks for the two characters.\<close>

fun operand_value :: "operand \<Rightarrow> string" where
  "operand_value (TextOp q t) = (if q = backtick \<and> contains t ''${'' then ConcatPathSentinel else t)"
| "operand_value (TemplateOp parts t) = ConcatPathSentinel"
| "operand_value (ExprOp ps) = ConcatPathSentinel"

definition chain_space :: "string \<Rightarrow> bool" where
  "chain_space s = list_all (\<lambda>c. c \<in> {CHR '' '', CHR 0x09, newline, return}) s"

text \<open>The operands with their additions, each surrounded by the given white space.\<close>

fun print_chain :: "string \<Rightarrow> operand list \<Rightarrow> string" where
  "print_chain pad [] = []"
| "print_chain pad [x] = pad @ print_operand x"
| "print_chain pad (x # y # ops) = pad @ print_operand x @ pad @ ''+'' @ print_chain pad (y # ops)"

text \<open>What may follow a chain: nothing, or the end of the surrounding expression.\<close>

definition chain_end :: "string \<Rightarrow> bool" where
  "chain_end s = (case s of [] \<Rightarrow> True | c # _ \<Rightarrow> c \<in> set '';,)]}'')"

lemma quoted_end_body:
  "body_ok q t \<Longrightarrow> q = dquote \<or> q = squote \<Longrightarrow> quoted_end q (t @ q # s) = Some s"
  by (induction q t rule: body_ok.induct) (auto split: list.splits)

lemma template_end_body:
  "body_ok q t \<Longrightarrow> q = backtick \<Longrightarrow> \<not> has_prefix s ''{'' \<Longrightarrow> template_end 0 (t @ s) = template_end 0 s"
proof (induction q t rule: body_ok.induct)
  case (2 q c t)
  show ?case
  proof (cases "c = backslash")
    case True
    then obtain e u where u: "t = e # u" "body_ok q u" using "2.prems" by (auto split: list.splits)
    then show ?thesis using "2.IH"(1) [OF True u "2.prems"(2,3)] True by (simp add: template_end.simps(2))
  next
    case False
    then have c: "c \<noteq> backtick" "\<not> (c = CHR ''$'' \<and> has_prefix t ''{'')" "body_ok q t" using "2.prems" by auto
    have "has_prefix (t @ s) ''{'' \<longleftrightarrow> (if t = [] then has_prefix s ''{'' else has_prefix t ''{'')"
      by (cases t) (auto simp: has_prefix_iff)
    then have "\<not> (c = CHR ''$'' \<and> has_prefix (t @ s) ''{'')" using c(2) "2.prems"(3) by simp
    then show ?thesis using "2.IH"(2) [OF False c(3) "2.prems"(2,3)] False c
      by (cases "c = CHR ''$''") (simp_all add: template_end.simps(2))
  qed
qed simp

lemma template_end_close: "template_end 0 (backtick # s) = Some s"
  by (simp add: template_end.simps(2))

lemma scan_body: "is_quote q \<Longrightarrow> body_ok q t \<Longrightarrow> scanStringLiteral (q # t @ q # s) = Some s"
  using quoted_end_body [of q t s] template_end_body [of backtick t "backtick # s"]
  by (auto simp: is_quote_def has_prefix_iff scanStringLiteral_def findTemplateLiteralEnd_def template_end_close)

lemma template_end_expr:
  "list_all (\<lambda>c. c \<notin> set (backtick # backslash # ''{}'')) e \<Longrightarrow> template_end 1 (e @ CHR ''}'' # s) = template_end 0 s"
  by (induction e) (simp_all add: template_end.simps(2))

lemma template_end_parts:
  "list_all (\<lambda>(s, e). body_ok backtick s \<and> list_all (\<lambda>c. c \<notin> set (backtick # backslash # ''{}'')) e) parts
    \<Longrightarrow> template_end 0 (concat (map (\<lambda>(s, e). s @ ''${'' @ e @ ''}'') parts) @ s) = template_end 0 s"
proof (induction parts)
  case (Cons p parts)
  obtain u e where p: "p = (u, e)" by fastforce
  have "template_end 0 (''${'' @ x) = template_end 1 x" for x
    by (simp add: template_end.simps(2) has_prefix_iff)
  moreover have "\<not> has_prefix (''${'' @ r) ''{''" for r by (simp add: has_prefix_iff)
  ultimately show ?case
    using Cons p template_end_body [of backtick u "''${'' @ r" for r] template_end_expr [of e] by (simp add: has_prefix_iff)
qed simp

lemma skip_space: "chain_space pad \<Longrightarrow> skipPlusChainWhitespace (pad @ s) = skipPlusChainWhitespace s"
  by (induction pad) (auto simp: chain_space_def skipPlusChainWhitespace_def)

lemma skip_stop: "c \<notin> {CHR '' '', CHR 0x09, newline, return} \<Longrightarrow> skipPlusChainWhitespace (c # s) = c # s"
  by (simp add: skipPlusChainWhitespace_def)

lemma quote_literal_value:
  "is_quote q \<Longrightarrow> stringLiteralValue (q # t @ [q]) = (if q = backtick \<and> contains t ''${'' then None else Some t)"
  by (auto simp: stringLiteralValue_def is_quote_def butlast_append)

lemma read_text:
  assumes "operand_ok (TextOp q t)"
  shows "readChainOperand (q # t @ q # s) = Some (operand_value (TextOp q t), s)"
proof -
  have q: "is_quote q" "scanStringLiteral (q # t @ q # s) = Some s" using assms scan_body by auto
  moreover have "upto (q # t @ q # s) s = q # t @ [q]" by (simp add: upto_def)
  ultimately show ?thesis using quote_literal_value [OF q(1), of t] by (auto simp: readChainOperand_def)
qed

lemma read_template:
  assumes "operand_ok (TemplateOp parts t)"
  shows "readChainOperand (print_operand (TemplateOp parts t) @ s) = Some (ConcatPathSentinel, s)"
proof -
  let ?body = "concat (map (\<lambda>(s, e). s @ ''${'' @ e @ ''}'') parts) @ t"
  have scan: "scanStringLiteral (backtick # ?body @ backtick # s) = Some s"
    using assms template_end_parts [of parts "t @ backtick # s"] template_end_body [of backtick t "backtick # s"]
    by (simp add: has_prefix_iff scanStringLiteral_def findTemplateLiteralEnd_def template_end_close)
  obtain u e parts' where p: "parts = (u, e) # parts'" using assms by (cases parts) auto
  have "?body = u @ ''${'' @ (e @ ''}'' @ concat (map (\<lambda>(s, e). s @ ''${'' @ e @ ''}'') parts') @ t)" by (simp add: p)
  then have "contains ?body ''${''" unfolding contains_iff by blast
  then have "stringLiteralValue (backtick # ?body @ [backtick]) = None"
    using quote_literal_value [of backtick ?body] by (simp add: is_quote_def)
  moreover have "upto (backtick # ?body @ backtick # s) s = backtick # ?body @ [backtick]" by (simp add: upto_def)
  ultimately show ?thesis using scan by (simp add: readChainOperand_def is_quote_def)
qed

text \<open>At the top level an expression goes on over all its pieces; inside a group, everything is skipped.\<close>

lemma identifier_end_plain:
  "list_all (\<lambda>c. plain_char c \<or> (r, sq, cu) \<noteq> (0, 0, 0) \<and> c \<in> set (newline # return # ''+;,'')) e \<Longrightarrow>
    identifier_end r sq cu (e @ s) = identifier_end r sq cu s"
proof (induction e)
  case (Cons c e)
  have "\<not> (r = 0 \<and> sq = 0 \<and> cu = 0 \<and> c \<in> set (newline # return # ''+;,)]}''))" "\<not> is_quote c" "c \<notin> set ''()[]{}''"
    using Cons.prems by (auto simp: plain_char_def is_quote_def)
  then have "identifier_end r sq cu (c # e @ s) = identifier_end r sq cu (e @ s)"
    by (subst identifier_end.simps(2)) auto
  then show ?case using Cons by simp
qed simp

lemma identifier_end_group:
  "identifier_end r sq cu (CHR ''('' # s) = identifier_end (r + 1) sq cu s"
  "identifier_end r sq cu (CHR ''['' # s) = identifier_end r (sq + 1) cu s"
  "identifier_end r sq cu (CHR ''{'' # s) = identifier_end r sq (cu + 1) s"
  "identifier_end (r + 1) sq cu (CHR '')'' # s) = identifier_end r sq cu s"
  "identifier_end r (sq + 1) cu (CHR '']'' # s) = identifier_end r sq cu s"
  "identifier_end r sq (cu + 1) (CHR ''}'' # s) = identifier_end r sq cu s"
  by (subst identifier_end.simps(2), simp)+

lemma identifier_end_pieces_from:
  assumes "\<And>p s. p \<in> set ps \<Longrightarrow> identifier_end r sq cu (print_piece p @ s) = identifier_end r sq cu s"
  shows "identifier_end r sq cu (concat (map print_piece ps) @ s) = identifier_end r sq cu s"
  using assms by (induction ps) simp_all

lemma identifier_end_piece:
  "piece_ok ((r, sq, cu) \<noteq> (0, 0, 0)) p \<Longrightarrow> identifier_end r sq cu (print_piece p @ s) = identifier_end r sq cu s"
proof (induction p arbitrary: r sq cu s)
  case (Plain e)
  then show ?case using identifier_end_plain [of r sq cu e s] by (auto simp: list_all_iff)
next
  case (Quoted q t)
  then show ?case using scan_body [of q t s] by (simp add: identifier_end_quote)
next
  case (Round ps)
  have "identifier_end (r + 1) sq cu (concat (map print_piece ps) @ CHR '')'' # s) = identifier_end (r + 1) sq cu (CHR '')'' # s)"
    using Round by (intro identifier_end_pieces_from) (auto simp: list_all_iff)
  then show ?case by (simp only: print_piece.simps append_Cons append_Nil append_assoc identifier_end_group)
next
  case (Square ps)
  have "identifier_end r (sq + 1) cu (concat (map print_piece ps) @ CHR '']'' # s) = identifier_end r (sq + 1) cu (CHR '']'' # s)"
    using Square by (intro identifier_end_pieces_from) (auto simp: list_all_iff)
  then show ?case by (simp only: print_piece.simps append_Cons append_Nil append_assoc identifier_end_group)
next
  case (Curly ps)
  have "identifier_end r sq (cu + 1) (concat (map print_piece ps) @ CHR ''}'' # s) = identifier_end r sq (cu + 1) (CHR ''}'' # s)"
    using Curly by (intro identifier_end_pieces_from) (auto simp: list_all_iff)
  then show ?case by (simp only: print_piece.simps append_Cons append_Nil append_assoc identifier_end_group)
qed

lemma identifier_end_pieces:
  "list_all (piece_ok False) ps \<Longrightarrow> identifier_end 0 0 0 (print_pieces ps @ s) = identifier_end 0 0 0 s"
  unfolding print_pieces_def by (intro identifier_end_pieces_from identifier_end_piece) (auto simp: list_all_iff)

lemma identifier_end_stop: "c \<in> set (newline # return # ''+;,)]}'') \<Longrightarrow> identifier_end 0 0 0 (c # s) = c # s"
  by (subst identifier_end.simps(2)) simp

lemma read_expr:
  assumes "operand_ok (ExprOp ps)" "list_all (\<lambda>c. c = CHR '' '' \<or> c = CHR 0x09) w"
    and "s = [] \<or> hd s \<in> set (newline # return # ''+;,)]}'')"
  shows "readChainOperand (print_pieces ps @ w @ s) = Some (ConcatPathSentinel, s)"
proof -
  have "list_all plain_char w" using assms(2) plain_blanks unfolding list_all_iff by metis
  then have "piece_ok False (Plain w)" by simp
  then have "list_all (piece_ok False) (ps @ [Plain w])" using assms(1) by simp
  from identifier_end_pieces [OF this, of s] have i: "scanIdentifierOperand (print_pieces ps @ w @ s) = s"
    using assms(3) by (cases s) (auto simp: scanIdentifierOperand_def identifier_end_stop print_pieces_def)
  obtain c e where e: "print_pieces ps = c # e" "\<not> is_quote c" using assms(1) by (auto split: list.splits)
  then have "s \<noteq> print_pieces ps @ w @ s" by auto
  then show ?thesis using i e by (auto simp: readChainOperand_def Let_def)
qed

text \<open>White space before the next addition: an expression takes blanks with it.\<close>

lemma split_blanks: "\<exists>w v. pad = w @ v \<and> list_all (\<lambda>c. c = CHR '' '' \<or> c = CHR 0x09) w
    \<and> (v = [] \<or> hd v \<noteq> CHR '' '' \<and> hd v \<noteq> CHR 0x09)"
  by (rule exI [of _ "takeWhile (\<lambda>c. c = CHR '' '' \<or> c = CHR 0x09) pad"], rule exI [of _ "dropWhile (\<lambda>c. c = CHR '' '' \<or> c = CHR 0x09) pad"])
    (use hd_dropWhile [of "\<lambda>c. c = CHR '' '' \<or> c = CHR 0x09" pad] in \<open>auto simp: list_all_iff dest: set_takeWhileD\<close>)

lemma read_operand:
  assumes "operand_ok x" "chain_space pad" "s = [] \<or> hd s \<in> set ''+;,)]}''"
  shows "\<exists>v. readChainOperand (print_operand x @ pad @ s) = Some (operand_value x, v @ s) \<and> chain_space v"
proof (cases x)
  case (TextOp q t)
  then show ?thesis using assms read_text [of q t "pad @ s"] by auto
next
  case (TemplateOp parts t)
  then show ?thesis using assms read_template [of parts t "pad @ s"] by auto
next
  case (ExprOp e)
  obtain w v where wv: "pad = w @ v" "list_all (\<lambda>c. c = CHR '' '' \<or> c = CHR 0x09) w"
    "v = [] \<or> hd v \<noteq> CHR '' '' \<and> hd v \<noteq> CHR 0x09" using split_blanks by blast
  have v: "chain_space v" using assms(2) wv(1) by (simp add: chain_space_def)
  have "v @ s = [] \<or> hd (v @ s) \<in> set (newline # return # ''+;,)]}'')"
    using wv(3) v assms(3) by (cases v) (auto simp: chain_space_def)
  then show ?thesis using read_expr [of e w "v @ s"] assms(1) wv ExprOp v by auto
qed

lemma operand_start:
  assumes "operand_ok x"
  shows "skipPlusChainWhitespace (print_operand x @ s) = print_operand x @ s"
proof -
  obtain c e where e: "print_operand x = c # e" "c \<notin> {CHR '' '', CHR 0x09, newline, return}"
  proof (cases x)
    case (TextOp q t)
    then show thesis using assms that [of q "t @ [q]"] by (auto simp: is_quote_def)
  next
    case (TemplateOp parts t)
    then show thesis using that by simp
  next
    case (ExprOp ps)
    then obtain c e where c: "print_pieces ps = c # e" "c \<noteq> CHR '' ''" "c \<noteq> CHR 0x09" "list_all (piece_ok False) ps"
      using assms by (cases "print_pieces ps") simp_all
    have "identifier_end 0 0 0 (print_pieces ps @ []) = []" using identifier_end_pieces [OF c(4), of "[]"] by simp
    then have "c \<noteq> newline" "c \<noteq> return" using identifier_end_stop [of c e] c(1) by auto
    then show thesis using that ExprOp c by simp
  qed
  then show ?thesis using skip_stop by simp
qed

lemma plus_chain_step:
  assumes "readChainOperand (skipPlusChainWhitespace s) = Some (lit, t)"
  shows "plus_chain (Suc n) s = lit @ (case skipPlusChainWhitespace t of [] \<Rightarrow> []
    | c # u \<Rightarrow> if c \<noteq> CHR ''+'' then [] else plus_chain n u)"
  using assms by simp

lemma plus_chain_print:
  assumes "chain_space pad" "chain_end s"
  shows "list_all operand_ok ops \<Longrightarrow> length ops \<le> n \<Longrightarrow> ops \<noteq> [] \<Longrightarrow>
    plus_chain n (print_chain pad ops @ s) = concat (map operand_value ops)"
proof (induction ops arbitrary: n)
  case (Cons x ops)
  obtain m where n: "n = Suc m" using Cons.prems(2) by (cases n) auto
  have x: "operand_ok x" using Cons.prems(1) by simp
  show ?case
  proof (cases ops)
    case Nil
    have e: "s = [] \<or> hd s \<in> set ''+;,)]}''" using assms(2) by (auto simp: chain_end_def split: list.splits)
    have "chain_space []" by (simp add: chain_space_def)
    from read_operand [OF x this e] obtain v
      where v: "readChainOperand (print_operand x @ s) = Some (operand_value x, v @ s)" "chain_space v" by auto
    have "skipPlusChainWhitespace (pad @ print_operand x @ s) = print_operand x @ s"
      using skip_space [OF assms(1)] operand_start [OF x] by simp
    moreover have "skipPlusChainWhitespace (v @ s) = s" using skip_space [OF v(2), of s] assms(2)
      by (cases s) (auto simp: chain_end_def skip_stop skipPlusChainWhitespace_def)
    moreover have "s = [] \<or> hd s \<noteq> CHR ''+''" using assms(2) by (cases s) (auto simp: chain_end_def)
    ultimately show ?thesis using Nil n v(1) by (cases s) (simp_all add: plus_chain_step)
  next
    case (Cons y ys)
    let ?r = "''+'' @ print_chain pad ops @ s"
    obtain v where v: "readChainOperand (print_operand x @ pad @ ?r) = Some (operand_value x, v @ ?r)" "chain_space v"
      using read_operand [OF x assms(1), of ?r] by auto
    have "skipPlusChainWhitespace (pad @ print_operand x @ pad @ ?r) = print_operand x @ pad @ ?r"
      using skip_space [OF assms(1)] operand_start [OF x] by simp
    moreover have "skipPlusChainWhitespace (v @ ?r) = ?r" using skip_space [OF v(2), of ?r] by (simp add: skip_stop)
    ultimately have "plus_chain (Suc m) (pad @ print_operand x @ pad @ ?r)
        = operand_value x @ plus_chain m (print_chain pad ops @ s)"
      using v(1) by (simp add: plus_chain_step)
    moreover have "plus_chain m (print_chain pad ops @ s) = concat (map operand_value ops)"
      using Cons.IH [of m] Cons.prems n Cons by simp
    ultimately show ?thesis using n Cons by simp
  qed
qed simp

text \<open>C11. A chain of additions is read as it was written: for at most 16 operands within 1024 bytes, with any
  white space around the signs, and whatever code comes after the end of the surrounding expression, the path that
  follows the head is the texts of the literals, with \<^verbatim>\<open>0\<close> for every other operand. An operand is a quoted literal or a
  template (escapes stay as they are), or an expression: names, calls, indexing, object literals and operators, with
  quoted literals and nested brackets of any depth. Outside its brackets an expression has no plus sign, comma, semicolon or
  line break; the brackets close, and it does not start with a literal; an interpolation of a template holds no
  brace, backtick or backslash. So an increment \<^verbatim>\<open>i++\<close> is no operand: \<open>increment_misread\<close> shows what the code makes of it.\<close>

theorem parsePlusChain_print:
  assumes "list_all operand_ok ops" "ops \<noteq> []" "length ops \<le> maxConcatChainOperands" "chain_space pad" "chain_end rest"
    and "length (print_chain pad ops) \<le> maxConcatChainSpan"
  shows "parsePlusChain (print_chain pad ops @ rest) = concat (map operand_value ops)"
proof -
  let ?n = "maxConcatChainSpan - length (print_chain pad ops)"
  have "take maxConcatChainSpan (print_chain pad ops @ rest) = print_chain pad ops @ take ?n rest"
    using assms(6) by simp
  moreover have "chain_end (take ?n rest)" using assms(5) by (cases rest; cases ?n) (auto simp: chain_end_def)
  ultimately show ?thesis using plus_chain_print [OF assms(4) _ assms(1,3,2)] by (simp add: parsePlusChain_def)
qed

lemma parsePlusChain_print_witness:
  "parsePlusChain (print_chain '' '' [ExprOp [Plain ''f'', Round [Plain ''a + 1, '', Quoted dquote ''+'']], TextOp dquote ''/x'',
    TemplateOp [(''/'', ''id'')] ''/y''] @ '';'') = ''0/x0''"
  by (subst parsePlusChain_print) (simp_all add: chain_space_def chain_end_def maxConcatChainOperands_def print_pieces_def
      maxConcatChainSpan_def ConcatPathSentinel_def plain_char_def is_quote_def has_prefix_iff)

text \<open>The sign of an increment is read as an addition: the chain ends there, and the literal after it is lost.\<close>

lemma increment_misread:
  "parsePlusChain '' i++ + \"/posts\";'' = ''0''"
  by code_simp

section \<open>What a bundle can put into a path\<close>

lemma scanEscapedBytes_mono:
  "scanEscapedBytes f s \<Longrightarrow> (\<And>c. f c \<Longrightarrow> g c) \<Longrightarrow> scanEscapedBytes g s"
  by (induction f s rule: scanEscapedBytes.induct) (auto split: if_splits)

lemma validPercentEscape_append: "validPercentEscape s \<Longrightarrow> validPercentEscape (s @ t) \<and> drop 2 (s @ t) = drop 2 s @ t"
  by (cases s; cases "tl s") (auto simp: validPercentEscape_def)

lemma scanEscapedBytes_append:
  "scanEscapedBytes f s \<Longrightarrow> scanEscapedBytes f t \<Longrightarrow> scanEscapedBytes f (s @ t)"
proof (induction f s rule: scanEscapedBytes.induct)
  case (2 f c s)
  then show ?case using validPercentEscape_append [of s t] by (auto split: if_splits)
qed simp

lemma printable_members:
  "list_all (\<lambda>x. 33 \<le> byte_at x \<and> byte_at x \<le> 126) (CHR 0x27 # ''/_-.:{}~@!$()*+,;'')"
  "list_all (\<lambda>x. 33 \<le> byte_at x \<and> byte_at x \<le> 126) ''[]|''"
  "list_all (\<lambda>x. 33 \<le> byte_at x \<and> byte_at x \<le> 126) ''?=&#''"
  by code_simp+

lemma allowed_byte_cases:
  assumes "isAllowedConcatByte c b"
  obtains "is_lower c \<or> is_upper c \<or> is_digit c" | "c \<in> set (CHR 0x27 # ''/_-.:{}~@!$()*+,;'')"
    | "c \<in> set ''[]|''" | "c \<in> set ''?=&#''" "b"
  using assms unfolding isAllowedConcatByte_def by presburger

lemma allowed_byte_printable: "isAllowedConcatByte c b \<Longrightarrow> 33 \<le> byte_at c \<and> byte_at c \<le> 126"
  using printable_members
proof (elim allowed_byte_cases)
  assume "is_lower c \<or> is_upper c \<or> is_digit c"
  then show ?thesis by (auto simp: is_lower_def is_upper_def is_digit_def in_range_def byte_at_def)
qed (simp_all only: list_all_iff)

lemma scanEscapedBytes_all:
  assumes "\<And>c. f c \<Longrightarrow> Q c" "Q (CHR ''%'')" "\<And>c. is_hex c \<Longrightarrow> Q c"
  shows "scanEscapedBytes f s \<Longrightarrow> list_all Q s"
proof (induction s rule: length_induct)
  case (1 s)
  show ?case
  proof (cases s)
    case (Cons c r)
    show ?thesis
    proof (cases "c = CHR ''%''")
      case True
      then obtain h1 h2 t where t: "r = h1 # h2 # t" "is_hex h1" "is_hex h2" "scanEscapedBytes f t"
        using 1(2) Cons by (auto simp: validPercentEscape_def split: list.splits if_splits)
      then have "list_all Q t" using 1(1) Cons by simp
      then show ?thesis using t assms Cons True by simp
    next
      case False
      then have "f c" "scanEscapedBytes f r" using 1(2) Cons by (auto split: if_splits)
      then show ?thesis using 1(1) Cons assms(1) by simp
    qed
  qed simp
qed

text \<open>Characters that would end a quoted text or open a tag or an escape where the path is printed.\<close>

definition unsafe_chars :: string where
  "unsafe_chars = dquote # backtick # backslash # ''<>^''"

lemma allowed_byte_safe: "isAllowedConcatByte c b \<Longrightarrow> c \<notin> set unsafe_chars"
proof -
  have "list_all (\<lambda>c. \<not> isAllowedConcatByte c True \<and> \<not> isAllowedConcatByte c False) unsafe_chars" by code_simp
  then show "isAllowedConcatByte c b \<Longrightarrow> c \<notin> set unsafe_chars" 
    unfolding list_all_iff by (cases b) (metis (full_types))+
qed

lemma safe_escape: "CHR ''%'' \<notin> set unsafe_chars" "is_hex c \<Longrightarrow> c \<notin> set unsafe_chars"
proof -
  have "list_all (\<lambda>c. \<not> is_hex c) unsafe_chars" by code_simp
  then show "is_hex c \<Longrightarrow> c \<notin> set unsafe_chars" unfolding list_all_iff by blast
  show "CHR ''%'' \<notin> set unsafe_chars" by code_simp
qed

definition safe_path :: "string \<Rightarrow> bool" where
  "safe_path p = (p \<noteq> [] \<and> hasAPIIndicator p \<and> IsPrintableASCIIURL p
     \<and> list_all (\<lambda>c. c \<notin> set unsafe_chars) p
     \<and> \<not> has_suffix (fst (split_suffix p)) ''/'')"

lemma trim_right_end: "\<not> has_suffix (trim_right (\<lambda>x. x = c) s) [c]"
proof
  assume "has_suffix (trim_right (\<lambda>x. x = c) s) [c]"
  then obtain r where "rev (dropWhile (\<lambda>x. x = c) (rev s)) = r @ [c]" by (auto simp: trim_right_def has_suffix_iff)
  then have "dropWhile (\<lambda>x. x = c) (rev s) = c # rev r" by (metis rev.simps(2) rev_append rev_rev_ident append.simps rev_singleton_conv)
  then show False using hd_dropWhile [of "\<lambda>x. x = c" "rev s"] by simp
qed

lemma cleanConcatPath_safe:
  assumes "cleanConcatPath p \<noteq> []"
  shows "safe_path (cleanConcatPath p)"
proof -
  obtain path0 suffix where sp: "split_suffix p = (path0, suffix)" by (cases "split_suffix p")
  then obtain path1 where c: "cleanConcatPath p = (let path = trim_right (\<lambda>c. c = CHR ''/'') path1; q = path @ suffix
      in if q = [] \<or> \<not> hasAPIIndicator q then []
         else if \<not> allowedConcatBytes path False \<or> \<not> allowedConcatBytes suffix True then [] else q)"
    by (auto simp: cleanConcatPath_def Let_def)
  let ?path = "trim_right (\<lambda>c. c = CHR ''/'') path1"
  have q: "cleanConcatPath p = ?path @ suffix" "?path @ suffix \<noteq> []" "hasAPIIndicator (?path @ suffix)"
    "allowedConcatBytes ?path False" "allowedConcatBytes suffix True"
    using assms c by (auto simp: Let_def split: if_splits)
  have "IsPrintableASCIIURL (?path @ suffix)" unfolding IsPrintableASCIIURL_def
    using q(4,5) allowed_byte_printable
    by (auto simp: allowedConcatBytes_def intro!: scanEscapedBytes_append elim!: scanEscapedBytes_mono)
  moreover have "fst (split_suffix (?path @ suffix)) = ?path"
  proof -
    have "isAllowedConcatByte (CHR ''?'') False = False" "isAllowedConcatByte (CHR ''#'') False = False" by code_simp+
    moreover have "\<not> is_hex (CHR ''?'')" "\<not> is_hex (CHR ''#'')" by code_simp+
    ultimately have "list_all (\<lambda>c. c \<notin> set ''?#'') ?path"
      using q(4) unfolding allowedConcatBytes_def by (intro scanEscapedBytes_all [where s = ?path]) auto
    moreover have "suffix = [] \<or> hd suffix \<in> set ''?#''" using sp hd_dropWhile [of "\<lambda>c. c \<notin> set ''?#''" p]
      by (auto simp: split_suffix_def)
    ultimately show ?thesis by (cases suffix) (auto simp: split_suffix_def takeWhile_append list_all_iff)
  qed
  moreover have "list_all (\<lambda>c. c \<notin> set unsafe_chars) (?path @ suffix)"
    using q(4,5) allowed_byte_safe safe_escape unfolding allowedConcatBytes_def list_all_append
    by (intro conjI; elim scanEscapedBytes_all [rotated 3]) blast+
  ultimately show ?thesis using q trim_right_end [of "CHR ''/''" path1] by (simp add: safe_path_def)
qed

lemma emit_invariant:
  assumes "list_all safe_path ps" "distinct ps" "length ps \<le> maxConcatPathsPerBundle"
  shows "list_all safe_path (emit p ps) \<and> distinct (emit p ps) \<and> length (emit p ps) \<le> maxConcatPathsPerBundle"
  using assms cleanConcatPath_safe [of p] by (auto simp: emit_def Let_def)

lemma fold_emit_invariant:
  assumes "list_all safe_path ps" "distinct ps" "length ps \<le> maxConcatPathsPerBundle"
  shows "list_all safe_path (fold emit xs ps) \<and> distinct (fold emit xs ps)
    \<and> length (fold emit xs ps) \<le> maxConcatPathsPerBundle"
  using assms
proof (induction xs arbitrary: ps)
  case (Cons x xs)
  show ?case using Cons.IH [of "emit x ps"] emit_invariant [OF Cons.prems, of x] by simp
qed simp

lemma extractConcatPaths_safe:
  "list_all safe_path (extractConcatPaths js)" "length (extractConcatPaths js) \<le> maxConcatPathsPerBundle"
proof -
  have 1: "list_all safe_path (fold emit (concat_calls js) []) \<and> distinct (fold emit (concat_calls js) [])
      \<and> length (fold emit (concat_calls js) []) \<le> maxConcatPathsPerBundle"
    by (rule fold_emit_invariant) (simp_all add: maxConcatPathsPerBundle_def)
  show "list_all safe_path (extractConcatPaths js)" "length (extractConcatPaths js) \<le> maxConcatPathsPerBundle"
    using fold_emit_invariant [of "fold emit (concat_calls js) []" "plus_chains js"] 1 by (simp_all add: extractConcatPaths_def)
qed

lemma servicePrefixPlusPaths_safe:
  "list_all safe_path (servicePrefixPlusPaths js)" "length (servicePrefixPlusPaths js) \<le> maxConcatPathsPerBundle"
  unfolding servicePrefixPlusPaths_def
  using fold_emit_invariant [of "[]"] by (simp_all add: maxConcatPathsPerBundle_def)

text \<open>C10. The offline extraction is safe whatever the bundle holds: every path it yields has an API
  indicator, and every byte of it is printable ASCII but no blank, double quote, backtick, backslash, angle bracket or
  caret; an escape is complete and stands for a printable ASCII byte. (A single quote is allowed, and an escape can
  stand for a blank or a double quote.) No path has a slash at the end of its path part, none comes twice, and there
  are at most 512.\<close>

theorem ExtractStaticConcatPaths_safe:
  "list_all safe_path (ExtractStaticConcatPaths jsBody) \<and> distinct (ExtractStaticConcatPaths jsBody)
   \<and> length (ExtractStaticConcatPaths jsBody) \<le> 512"
proof (intro conjI)
  let ?ps = "extractConcatPaths jsBody @ servicePrefixPlusPaths jsBody"
  show "list_all safe_path (ExtractStaticConcatPaths jsBody)"
    using extractConcatPaths_safe [of jsBody] servicePrefixPlusPaths_safe [of jsBody]
    by (auto simp: ExtractStaticConcatPaths_def list_all_iff)
  show "distinct (ExtractStaticConcatPaths jsBody)" by (simp add: ExtractStaticConcatPaths_def)
  have "length (ExtractStaticConcatPaths jsBody) \<le> length ?ps"
    unfolding ExtractStaticConcatPaths_def by (meson length_filter_le length_nub_le order_trans)
  also have "\<dots> \<le> 512"
    using extractConcatPaths_safe [of jsBody] servicePrefixPlusPaths_safe [of jsBody] by (simp add: maxConcatPathsPerBundle_def)
  finally show "length (ExtractStaticConcatPaths jsBody) \<le> 512" .
qed

section \<open>The candidates of a bundle\<close>

text \<open>A candidate is a rooted path with no slash at its end, or an absolute URL that was validated: HTTP or
  HTTPS, a host, and no user information.\<close>

definition candidate :: "string \<Rightarrow> bool" where
  "candidate p =
     ((has_prefix p ''/'' \<and> \<not> has_suffix p ''/'') \<or>
      (\<exists>raw u :: url. parse_url raw = Some u \<and> (Scheme u = ''http'' \<or> Scheme u = ''https'') \<and> Host u \<noteq> []
        \<and> User u = None \<and> p = trim_right (\<lambda>c. c = CHR ''/'') (url_string u)))"

lemma add_path_invariant: "list_all candidate ps \<and> distinct ps \<Longrightarrow> candidate p \<Longrightarrow>
    list_all candidate (add_path p ps) \<and> distinct (add_path p ps)"
  by (simp add: add_path_def)

lemma trim_right_append_end: "r \<noteq> [] \<Longrightarrow> \<not> has_suffix r [c] \<Longrightarrow> \<not> has_suffix (p @ r) [c]"
  by (cases r rule: rev_cases) (auto simp: has_suffix_iff)

lemma fold_invariant_list:
  "P s \<Longrightarrow> (\<And>x s. x \<in> set xs \<Longrightarrow> P s \<Longrightarrow> P (f x s)) \<Longrightarrow> P (fold f xs s)"
  by (induction xs arbitrary: s) auto

lemma addPath_invariant:
  assumes inv: "list_all candidate ps \<and> distinct ps"
  shows "list_all candidate (addPath prefixes raw ps) \<and> distinct (addPath prefixes raw ps)"
proof (cases "IsAbsoluteHTTPURL raw")
  case True
  show ?thesis
  proof (cases "ValidateFullURL raw")
    case (Some cleaned)
    then obtain u :: url where "parse_url raw = Some u" "Scheme u = ''http'' \<or> Scheme u = ''https''" "Host u \<noteq> []"
      "User u = None" "cleaned = url_string u"
      unfolding ValidateFullURL_def
      by (auto simp del: not_None_eq not_Some_eq split: option.split_asm if_split_asm)
    then have "candidate (trim_right (\<lambda>c. c = CHR ''/'') cleaned)" unfolding candidate_def by blast
    then show ?thesis using True Some inv add_path_invariant [OF inv] by (simp add: addPath_def)
  qed (use True inv in \<open>simp add: addPath_def\<close>)
next
  case False
  define rooted where "rooted = (if has_prefix raw ''/'' then raw else CHR ''/'' # raw)"
  define path where "path = trim_right (\<lambda>c. c = CHR ''/'') rooted"
  show ?thesis
  proof (cases "isStaticFile raw \<or> path = []")
    case True
    then show ?thesis using False inv by (auto simp: addPath_def Let_def rooted_def path_def)
  next
    case nonempty: False
    have no_slash: "\<not> has_suffix path ''/''" unfolding path_def by (rule trim_right_end)
    obtain r where r: "rooted = CHR ''/'' # r"
      by (cases "has_prefix raw ''/''") (auto simp: rooted_def has_prefix_iff)
    obtain t where t: "path = CHR ''/'' # t"
    proof -
      obtain u where "rooted = path @ u" unfolding path_def trim_right_def
        by (metis rev_append rev_rev_ident takeWhile_dropWhile_id)
      then show thesis using r nonempty that by (cases path) auto
    qed
    have ne: "t \<noteq> []" "\<not> has_suffix t ''/''" using no_slash t by (auto simp: has_suffix_iff)
    have path: "candidate path" using no_slash t by (simp add: candidate_def has_prefix_iff)
    have variants: "candidate (CHR ''/'' # prefix @ t)" for prefix
      using trim_right_append_end [OF ne, of "CHR ''/'' # prefix"] by (simp add: candidate_def has_prefix_iff)
    have "addPath prefixes raw ps =
        (if list_ex (\<lambda>prefix. has_prefix t prefix) prefixes \<or> hasInlinePrefix t \<or> prefixes = [] then add_path path ps
         else fold (\<lambda>prefix. add_path (CHR ''/'' # prefix @ t)) prefixes ps)"
    proof -
      have "trim_prefix path ''/'' = t" using t by (simp add: trim_prefix_def has_prefix_iff)
      moreover have "addPath prefixes raw ps = (let trimmed = trim_prefix path ''/''
          in if list_ex (\<lambda>prefix. has_prefix trimmed prefix) prefixes \<or> hasInlinePrefix trimmed \<or> prefixes = []
             then add_path path ps
             else fold (\<lambda>prefix. add_path (CHR ''/'' # prefix @ trimmed)) prefixes ps)"
        using False nonempty unfolding addPath_def path_def rooted_def Let_def by simp
      ultimately show ?thesis by (simp add: Let_def)
    qed
    moreover have "list_all candidate (add_path path ps) \<and> distinct (add_path path ps)"
      by (rule add_path_invariant [OF inv path])
    moreover have "list_all candidate (fold (\<lambda>prefix. add_path (CHR ''/'' # prefix @ t)) prefixes ps)
        \<and> distinct (fold (\<lambda>prefix. add_path (CHR ''/'' # prefix @ t)) prefixes ps)"
      by (rule fold_invariant_list [where P = "\<lambda>ps. list_all candidate ps \<and> distinct ps"])
        (simp_all add: inv add_path_invariant variants)
    ultimately show ?thesis by auto
  qed
qed

text \<open>C12. Every candidate of a bundle, whatever the bundle holds, is a rooted path
  without a slash at its end, or a validated HTTP URL with a host and no user information; none comes twice.\<close>

theorem extractAPIPaths_candidates:
  "list_all candidate (extractAPIPaths jsBody requests) \<and> distinct (extractAPIPaths jsBody requests)"
  unfolding extractAPIPaths_def Let_def
  by (rule fold_invariant_list [where P = "\<lambda>ps. list_all candidate ps \<and> distinct ps"]) (simp_all add: addPath_invariant)

text \<open>The cap on the service prefixes holds for the third strategy only: what the first two find is never cut.\<close>

theorem extractServicePrefixes_cap:
  "let found = nub (map fst (find_all servicePrefixPattern jsBody)
         @ List.map_filter (prefix_of_request (filter isJSURL (map URL requests))) requests)
   in length found \<le> length (extractServicePrefixes jsBody requests)
      \<and> length (extractServicePrefixes jsBody requests) \<le> max maxBundlePrefixCap (length found)
      \<and> take (length found) (extractServicePrefixes jsBody requests) = found"
  by (auto simp: Let_def extractServicePrefixes_def addStandaloneCandidates_def)

lemma cleanConcatPath_run_survives: "cleanConcatPath ''/api//v1://'' = ''/api//v1:''" by code_simp

end
