(* ===== verification/Go_Resolve.thy ===== *)
theory Go_Resolve
  imports Go_Url
begin

text \<open>
  \<^verbatim>\<open>URL.ResolveReference\<close> of \<^verbatim>\<open>net/url\<close>: a reference against the URL of
  the page it stands on.
\<close>

text \<open>\<^verbatim>\<open>resolvePath\<close>. The output is kept without the slash that is written first; \<open>first\<close> says
  that no slash comes before the next element.\<close>

function resolve_elems :: "bool \<Rightarrow> string \<Rightarrow> string \<Rightarrow> string" where
  "resolve_elems first dst remaining =
     (let (elem, rest) = cut (CHR ''/'') remaining;
          (first', dst') =
            (if elem = ''.'' then (False, dst)
             else if elem = ''..'' then
               (case cut_last (CHR ''/'') dst of None \<Rightarrow> (True, []) | Some (d, _) \<Rightarrow> (first, d))
             else (False, dst @ (if first then [] else ''/'') @ elem))
      in (case rest of
          None \<Rightarrow> dst' @ (if elem = ''.'' \<or> elem = ''..'' then ''/'' else [])
        | Some r \<Rightarrow> if length r < length remaining then resolve_elems first' dst' r else []))"
  by pat_completeness auto
termination by (relation "measure (\<lambda>(first, dst, remaining). length remaining)") auto

declare resolve_elems.simps [simp del]

definition resolvePath :: "string \<Rightarrow> string \<Rightarrow> string" where
  "resolvePath base ref =
     (let full = (if ref = [] then base
                  else if hd ref \<noteq> CHR ''/'' then
                    (case cut_last (CHR ''/'') base of None \<Rightarrow> [] | Some (d, _) \<Rightarrow> d @ ''/'') @ ref
                  else ref)
      in if full = [] then []
         else let dst = resolve_elems True [] full
              in if has_prefix dst ''/'' then dst else CHR ''/'' # dst)"

text \<open>A path that does not unescape leaves the URL as it is; the paths here are escaped.\<close>

definition set_path :: "string \<Rightarrow> url \<Rightarrow> url" where
  "set_path p u = (case setPath p u of None \<Rightarrow> u | Some u' \<Rightarrow> u')"

definition ResolveReference :: "url \<Rightarrow> url \<Rightarrow> url" where
  "ResolveReference base ref =
     (let url = (if Scheme ref = [] then ref\<lparr>Scheme := Scheme base\<rparr> else ref)
      in if Scheme ref \<noteq> [] \<or> Host ref \<noteq> [] \<or> User ref \<noteq> None
         then set_path (resolvePath (escaped_path ref) []) url
         else if Opaque ref \<noteq> [] then url\<lparr>User := None, Host := [], Path := []\<rparr>
         else
           let url = (if Path ref = [] \<and> \<not> ForceQuery ref \<and> RawQuery ref = [] then
                 (let u = url\<lparr>RawQuery := RawQuery base\<rparr>
                  in if Fragment ref = [] then u\<lparr>Fragment := Fragment base, RawFragment := RawFragment base\<rparr> else u)
               else url)
           in if Path ref = [] \<and> Opaque base \<noteq> []
              then url\<lparr>Opaque := Opaque base, User := None, Host := [], Path := []\<rparr>
              else set_path (resolvePath (escaped_path base) (escaped_path ref))
                     (url\<lparr>Host := Host base, User := User base\<rparr>))"

lemma resolvePath_examples:
  "resolvePath ''/a/b/c'' ''./../../g'' = ''/g''"
  "resolvePath ''/a/b'' ''..'' = ''/''"
  "resolvePath ''/a/b/'' ''../../..'' = ''/''"
  "resolvePath ''/a/b'' ''../.././c'' = ''/c''"
  "resolvePath ''/a'' ''//b'' = ''//b''"
  by code_simp+

end
