(* ===== verification/Probe_Http.thy ===== *)
theory Probe_Http
  imports Classify_Types Ssrf
begin

text \<open>
  What the probes of \<^verbatim>\<open>pkg/probe\<close> share: their configuration (\<^verbatim>\<open>types.go\<close>,
  \<^verbatim>\<open>validate.go\<close>), sending a request, the loop over endpoints, and
  \<^verbatim>\<open>RunStrategies\<close> (\<^verbatim>\<open>prober.go\<close>). The HTTP client is a parameter: it may answer a
  request (\<open>None\<close> is an error) as it likes, also depending on the requests before it. The list of
  requests sent so far is passed through every operation, so what a probe sends is part of its result. No
  client of the program follows redirects: one request is one exchange.
\<close>

section \<open>Requests and responses\<close>

record http_request =
  ReqMethod :: string
  ReqURL :: string
  ReqHeaders :: headers
  ReqBody :: bytes

text \<open>The body is \<open>None\<close> when reading it fails.\<close>

record http_response =
  Status :: int
  Header :: "(string, string list) gomap"
  BodyRead :: "bytes option"

type_synonym http_log = "http_request list"
type_synonym http_client = "http_log \<Rightarrow> http_request \<Rightarrow> http_response option"

text \<open>\<^verbatim>\<open>resp.Header.Get\<close> for a name in canonical form.\<close>

definition header_get :: "http_response \<Rightarrow> string \<Rightarrow> string" where
  "header_get r name = (case map_get (Header r) name of Some (v # _) \<Rightarrow> v | _ \<Rightarrow> [])"

text \<open>\<^verbatim>\<open>http.Header.Set\<close>: names of token characters are put in canonical form.\<close>

fun canonical_words :: "bool \<Rightarrow> string \<Rightarrow> string" where
  "canonical_words up [] = []"
| "canonical_words up (c # s) = (if up then upper_char c else lower_char c) # canonical_words (c = CHR ''-'') s"

definition token_char :: "char \<Rightarrow> bool" where
  "token_char c = (is_upper c \<or> is_lower c \<or> is_digit c \<or> c \<in> set (CHR 0x27 # ''!#$%&*+-.^_|~'' @ [CHR 0x60]))"

definition canonical_key :: "string \<Rightarrow> string" where
  "canonical_key k = (if list_all token_char k then canonical_words True k else k)"

definition header_set :: "headers \<Rightarrow> string \<Rightarrow> string \<Rightarrow> headers" where
  "header_set hs k v = map_put (canonical_key k) v hs"

section \<open>Configuration\<close>

text \<open>The fields the HTTP probes read. A client that is absent is built by
  \<open>withDefaults\<close>: through the proxy when there is one, and otherwise with the safe
  dialer; the three clients are the fields of \<open>http_env\<close>.\<close>

record probe_config =
  Client :: "http_client option"
  ProxyEnabled :: bool
  AuthHeaders :: headers
  URLValidator :: "(string \<Rightarrow> bool) option"
  MaxEndpoints :: int

record http_env =
  resolve :: resolver
  proxied_client :: http_client
  safe_client :: http_client

definition DefaultMaxEndpoints :: int where "DefaultMaxEndpoints = 500"

text \<open>\<^verbatim>\<open>ssrf.ValidateURL\<close> as a test: no error.\<close>

definition ValidateProbeURL :: "http_env \<Rightarrow> string \<Rightarrow> bool" where
  "ValidateProbeURL env raw = (ValidateURL (resolve env) raw = Inr ())"

definition withDefaults :: "http_env \<Rightarrow> probe_config \<Rightarrow> probe_config" where
  "withDefaults env cfg =
     (let cfg = (case URLValidator cfg of None \<Rightarrow> cfg\<lparr>URLValidator := Some (ValidateProbeURL env)\<rparr> | Some _ \<Rightarrow> cfg);
          cfg = (if MaxEndpoints cfg = 0 then cfg\<lparr>MaxEndpoints := DefaultMaxEndpoints\<rparr> else cfg)
      in (case Client cfg of
          None \<Rightarrow> cfg\<lparr>Client := Some (if ProxyEnabled cfg then proxied_client env else safe_client env)\<rparr>
        | Some _ \<Rightarrow> cfg))"

definition DefaultConfig :: probe_config where
  "DefaultConfig = \<lparr>Client = None, ProxyEnabled = False, AuthHeaders = [], URLValidator = None, MaxEndpoints = 0\<rparr>"

definition valid_url :: "probe_config \<Rightarrow> string \<Rightarrow> bool" where
  "valid_url cfg url = (case URLValidator cfg of None \<Rightarrow> True | Some f \<Rightarrow> f url)"

text \<open>Validate, build the request (\<^verbatim>\<open>http.NewRequestWithContext\<close> refuses a URL that does not
  parse), send it. The headers given are set before the configured ones.\<close>

definition send :: "probe_config \<Rightarrow> string \<Rightarrow> string \<Rightarrow> headers \<Rightarrow> bytes \<Rightarrow> http_log \<Rightarrow> http_log \<times> http_response option" where
  "send cfg meth url hs body log =
     (case parse_url url of None \<Rightarrow> (log, None)
      | Some _ \<Rightarrow>
          let req = \<lparr>ReqMethod = meth, ReqURL = url,
                ReqHeaders = fold (\<lambda>(k, v) m. header_set m k v) (AuthHeaders cfg) hs, ReqBody = body\<rparr>
          in (log @ [req], (case Client cfg of None \<Rightarrow> None | Some c \<Rightarrow> c log req)))"

section \<open>Probing each key once\<close>

text \<open>The loop of every HTTP probe: an endpoint without a key is skipped, a key is probed once, and the
  loop stops before it exceeds the limit. \<open>probe\<close> may find nothing.\<close>

fun probe_each ::
    "('e \<Rightarrow> string option) \<Rightarrow> int \<Rightarrow> (string \<Rightarrow> http_log \<Rightarrow> http_log \<times> 'r option)
      \<Rightarrow> string list \<Rightarrow> (string, 'r) gomap \<Rightarrow> http_log \<Rightarrow> 'e list \<Rightarrow> http_log \<times> (string, 'r) gomap" where
  "probe_each key limit probe seen found log [] = (log, found)"
| "probe_each key limit probe seen found log (ep # eps) =
     (case key ep of None \<Rightarrow> probe_each key limit probe seen found log eps
      | Some k \<Rightarrow>
          if k \<in> set seen then probe_each key limit probe seen found log eps
          else if int (length seen) \<ge> limit then (log, found)
          else (case probe k log of (log', r) \<Rightarrow>
            probe_each key limit probe (seen @ [k])
              (case r of None \<Rightarrow> found | Some x \<Rightarrow> map_put k x found) log' eps))"

text \<open>The loop over the copied endpoints.\<close>

definition enrich :: "('e \<Rightarrow> string option) \<Rightarrow> ('r \<Rightarrow> 'e \<Rightarrow> 'e) \<Rightarrow> (string, 'r) gomap \<Rightarrow> 'e list \<Rightarrow> 'e list" where
  "enrich key put found eps =
     map (\<lambda>ep. case key ep of None \<Rightarrow> ep
        | Some k \<Rightarrow> (case map_get found k of None \<Rightarrow> ep | Some x \<Rightarrow> put x ep)) eps"

text \<open>Both loops.\<close>

definition loop_probe ::
    "('e \<Rightarrow> string option) \<Rightarrow> ('e \<Rightarrow> string option) \<Rightarrow> int \<Rightarrow> (string \<Rightarrow> http_log \<Rightarrow> http_log \<times> 'r option)
      \<Rightarrow> ('r \<Rightarrow> 'e \<Rightarrow> 'e) \<Rightarrow> http_log \<Rightarrow> 'e list \<Rightarrow> http_log \<times> (string + 'e list)" where
  "loop_probe key key' limit probe put log eps =
     (case probe_each key limit probe [] [] log eps of
        (log', found) \<Rightarrow> (log', Inr (enrich key' put found eps)))"

section \<open>Strategies\<close>

datatype probe_error = ProbeError (Strategy: string) (Cause: string)

text \<open>A strategy and its context: \<open>StrategyProbe\<close> is \<^verbatim>\<open>Probe\<close>, with an error or the endpoints.\<close>

record 'e strategy =
  StrategyName :: string
  StrategyProbe :: "http_log \<Rightarrow> 'e list \<Rightarrow> http_log \<times> (string + 'e list)"

text \<open>\<^verbatim>\<open>RunStrategies\<close>. \<open>ctx\<close> is what \<^verbatim>\<open>ctx.Err()\<close> answers before each strategy.\<close>

fun RunStrategies ::
    "(http_log \<Rightarrow> string option) \<Rightarrow> 'e strategy list \<Rightarrow> http_log \<Rightarrow> 'e list \<Rightarrow> http_log \<times> 'e list \<times> probe_error list" where
  "RunStrategies ctx [] log result = (log, result, [])"
| "RunStrategies ctx (s # ss) log result =
     (case ctx log of Some err \<Rightarrow> (log, result, [ProbeError (StrategyName s) err])
      | None \<Rightarrow>
          (case StrategyProbe s log result of
             (log', Inl err) \<Rightarrow>
               (case RunStrategies ctx ss log' result of
                  (log'', r, errs) \<Rightarrow> (log'', r, ProbeError (StrategyName s) err # errs))
           | (log', Inr enriched) \<Rightarrow> RunStrategies ctx ss log' enriched))"

section \<open>The contract of a strategy\<close>

text \<open>What a strategy may do to the endpoints: \<open>ok\<close> says which requests it may send, \<open>frame\<close> what it
  may not change. The contract is a locale; every strategy of the program interprets it.\<close>

definition sends_only :: "(http_request \<Rightarrow> bool) \<Rightarrow> http_log \<Rightarrow> http_log \<Rightarrow> bool" where
  "sends_only ok log log' = (\<exists>new. log' = log @ new \<and> list_all ok new)"

lemma sends_only_refl [simp]: "sends_only ok log log"
  by (simp add: sends_only_def)

lemma sends_only_trans: "sends_only ok a b \<Longrightarrow> sends_only ok b c \<Longrightarrow> sends_only ok a c"
  unfolding sends_only_def by (metis append_assoc list_all_append)

lemma sends_only_send:
  assumes "send cfg meth url hs body log = (log', r)"
    and "\<And>hs'. ok \<lparr>ReqMethod = meth, ReqURL = url, ReqHeaders = hs', ReqBody = body\<rparr>"
  shows "sends_only ok log log'"
  using assms by (auto simp: send_def sends_only_def Let_def split: option.splits)

locale probe_strategy =
  fixes probe :: "http_log \<Rightarrow> 'e list \<Rightarrow> http_log \<times> (string + 'e list)"
    and ok :: "http_request \<Rightarrow> bool"
    and frame :: "'e \<Rightarrow> 'f"
  assumes probe_sends: "probe log eps = (log', r) \<Longrightarrow> sends_only ok log log'"
    and probe_frame: "probe log eps = (log', Inr eps') \<Longrightarrow> map frame eps' = map frame eps"
begin

lemma probe_length: "probe log eps = (log', Inr eps') \<Longrightarrow> length eps' = length eps"
  using probe_frame map_eq_imp_length_eq by blast

lemma probe_index: "probe log eps = (log', Inr eps') \<Longrightarrow> i < length eps \<Longrightarrow> frame (eps' ! i) = frame (eps ! i)"
  using probe_frame probe_length by (metis nth_map)

end

text \<open>One turn of the loop.\<close>

lemma probe_each_step:
  assumes "key ep = Some k" "k \<notin> set seen" "int (length seen) < limit" "probe k log = (l, r)"
  shows "probe_each key limit probe seen found log (ep # eps)
    = probe_each key limit probe (seen @ [k]) (case r of None \<Rightarrow> found | Some x \<Rightarrow> map_put k x found) l eps"
  using assms by simp

lemma probe_each_skip:
  assumes "\<And>k. key ep = Some k \<Longrightarrow> k \<in> set seen \<or> \<not> int (length seen) < limit"
  shows "probe_each key limit probe seen found log (ep # eps) = (log, found)
    \<or> probe_each key limit probe seen found log (ep # eps) = probe_each key limit probe seen found log eps"
  using assms by (cases "key ep") auto

text \<open>An invariant of log and findings that every turn keeps.\<close>

lemma probe_each_invariant:
  assumes turn: "\<And>k n log found l r. I n log found \<Longrightarrow> int n < limit \<Longrightarrow> probe k log = (l, r) \<Longrightarrow>
      I (Suc n) l (case r of None \<Rightarrow> found | Some x \<Rightarrow> map_put k x found)"
  shows "I (length seen) log found \<Longrightarrow> \<exists>n. (int n \<le> limit \<or> n = length seen) \<and>
    I n (fst (probe_each key limit probe seen found log eps)) (snd (probe_each key limit probe seen found log eps))"
proof (induction eps arbitrary: seen found log)
  case Nil
  then show ?case by auto
next
  case (Cons ep eps)
  show ?case
  proof (cases "\<exists>k. key ep = Some k \<and> k \<notin> set seen \<and> int (length seen) < limit")
    case True
    then obtain k where k: "key ep = Some k" "k \<notin> set seen" "int (length seen) < limit" by blast
    obtain l r where p: "probe k log = (l, r)" by (cases "probe k log")
    have "I (length (seen @ [k])) l (case r of None \<Rightarrow> found | Some x \<Rightarrow> map_put k x found)"
      using turn [OF Cons.prems k(3) p] by simp
    from Cons.IH [OF this] obtain n where n: "int n \<le> limit \<or> n = length (seen @ [k])"
      "I n (fst (probe_each key limit probe seen found log (ep # eps)))
         (snd (probe_each key limit probe seen found log (ep # eps)))"
      unfolding probe_each_step [where key = key and probe = probe, OF k p] by blast
    have "int n \<le> limit" using n(1) k(3) by auto
    then show ?thesis using n(2) by blast
  next
    case False
    then show ?thesis using probe_each_skip [of key ep seen limit probe found log eps] Cons by fastforce
  qed
qed

lemma probe_each_sends:
  assumes "\<And>k log log' r. probe k log = (log', r) \<Longrightarrow> sends_only ok log log'"
    and "probe_each key limit probe seen found log eps = (log', f)"
  shows "sends_only ok log log'"
proof -
  have "\<exists>n. (int n \<le> limit \<or> n = length seen) \<and> sends_only ok log (fst (probe_each key limit probe seen found log eps))"
    by (rule probe_each_invariant [where I = "\<lambda>n l f. sends_only ok log l"])
      (use assms(1) sends_only_trans in blast, simp)
  then show ?thesis using assms(2) by simp
qed

lemma probe_each_found:
  assumes "\<And>k l l' x. probe k l = (l', Some x) \<Longrightarrow> P k x"
    and "probe_each key limit probe [] [] log eps = (log', f)" "map_get f k = Some x"
  shows "P k x"
proof -
  let ?I = "\<lambda>n l f. \<forall>k x. map_get f k = Some x \<longrightarrow> P k x"
  have "\<exists>n. (int n \<le> limit \<or> n = length ([] :: string list)) \<and> ?I n (fst (probe_each key limit probe [] [] log eps))
      (snd (probe_each key limit probe [] [] log eps))"
    by (rule probe_each_invariant) (use assms(1) in \<open>auto split: option.splits if_splits\<close>)
  then show ?thesis using assms(2,3) by simp
qed

text \<open>How many requests a loop sends when each turn sends at most \<open>n\<close>.\<close>

lemma probe_each_bound:
  assumes turn: "\<And>k log log' r. probe k log = (log', r) \<Longrightarrow> length log' \<le> length log + m"
    and "probe_each key limit probe [] [] log eps = (log', f)"
  shows "length log' \<le> length log + nat limit * m"
proof -
  have "\<exists>n. (int n \<le> limit \<or> n = length ([] :: string list))
      \<and> length (fst (probe_each key limit probe [] [] log eps)) \<le> length log + n * m"
    by (rule probe_each_invariant [where I = "\<lambda>n l f. length l \<le> length log + n * m"]) (use turn in fastforce)+
  then obtain n where n: "int n \<le> limit \<or> n = 0" "length log' \<le> length log + n * m" using assms(2) by auto
  have "n \<le> nat limit" using n(1) by auto
  then have "n * m \<le> nat limit * m" by simp
  then show ?thesis using n(2) by linarith
qed

lemma enrich_frame:
  assumes "\<And>x ep. frame (put x ep) = frame ep"
  shows "map frame (enrich key put found eps) = map frame eps"
  using assms by (auto simp: enrich_def split: option.splits)

lemma loop_strategy:
  assumes "\<And>k log log' r. probe k log = (log', r) \<Longrightarrow> sends_only ok log log'"
    and "\<And>x ep. frame (put x ep) = frame ep"
  shows "probe_strategy (loop_probe key key' limit probe put) ok frame"
proof
  fix log eps log' r
  obtain l f where p: "probe_each key limit probe [] [] log eps = (l, f)"
    by (cases "probe_each key limit probe [] [] log eps")
  assume "loop_probe key key' limit probe put log eps = (log', r)"
  then show "sends_only ok log log'" using probe_each_sends [of probe ok, OF assms(1) p] p by (simp add: loop_probe_def)
next
  fix log eps log' eps'
  obtain l f where p: "probe_each key limit probe [] [] log eps = (l, f)"
    by (cases "probe_each key limit probe [] [] log eps")
  assume "loop_probe key key' limit probe put log eps = (log', Inr eps')"
  with p have "eps' = enrich key' put f eps" by (simp add: loop_probe_def)
  then show "map frame eps' = map frame eps" using enrich_frame [of frame put, OF assms(2)] by simp
qed

lemma RunStrategies_contract:
  assumes "\<And>s. s \<in> set ss \<Longrightarrow> probe_strategy (StrategyProbe s) ok frame"
  shows "RunStrategies ctx ss log eps = (log', eps', errs) \<Longrightarrow>
    sends_only ok log log' \<and> map frame eps' = map frame eps \<and> length errs \<le> length ss"
  using assms
proof (induction ss arbitrary: log eps log' eps' errs)
  case (Cons s ss)
  have s: "probe_strategy (StrategyProbe s) ok frame" using Cons.prems(2) by simp
  have ss: "\<And>s. s \<in> set ss \<Longrightarrow> probe_strategy (StrategyProbe s) ok frame" using Cons.prems(2) by simp
  show ?case
  proof (cases "ctx log")
    case None
    obtain l r where p: "StrategyProbe s log eps = (l, r)" by (cases "StrategyProbe s log eps")
    note sends = probe_strategy.probe_sends [OF s p]
    show ?thesis
    proof (cases r)
      case (Inl err)
      obtain l2 r2 e2 where rest: "RunStrategies ctx ss l eps = (l2, r2, e2)"
        by (cases "RunStrategies ctx ss l eps") auto
      show ?thesis using Cons.IH [OF rest ss] Cons.prems(1) None p Inl rest sends sends_only_trans by auto
    next
      case (Inr enriched)
      then have rest: "RunStrategies ctx ss l enriched = (log', eps', errs)" using Cons.prems(1) None p by simp
      have "map frame enriched = map frame eps" using probe_strategy.probe_frame [OF s] p Inr by blast
      then show ?thesis using Cons.IH [OF rest ss] sends sends_only_trans by auto
    qed
  qed (use Cons in auto)
qed simp

end
