(* ===== verification/Js_Replay.thy ===== *)
theory Js_Replay
  imports Js_Extract Go_Resolve Probe_Http
begin

text \<open>
  The replay of JavaScript candidates, the other half of \<^verbatim>\<open>pkg/crawl/jsreplay.go\<close>: fetching
  bundles, probing candidates, and superseding offline mirrors. As in \<open>Probe_Http\<close> an HTTP client is a
  parameter that answers a request as it likes, given the requests before it; deadlines are failures of it. The
  state that the operations pass on holds the requests handed to the client and the warnings printed.
\<close>

section \<open>Configuration and clients\<close>

text \<open>A transport by its dynamic type: none, \<^verbatim>\<open>*http.Transport\<close>, whose dialer can be
  replaced, or another one. The function of a standard transport says how it behaves with its own dialer
  (\<open>False\<close>) and with the safe one (\<open>True\<close>).\<close>

datatype transport = NilTransport | StdTransport "bool \<Rightarrow> http_client" | OtherTransport http_client

record replay_config =
  ReplayHeaders :: headers
  TargetURL :: string
  AllowPrivate :: bool
  AllowCrossOrigin :: bool
  ReplayMaxEndpoints :: int
  ReplayClient :: "transport option"
  ReplayProxy :: bool

text \<open>What is outside: DNS, the client through the proxy, the default transport, and the order in which
  a range visits the keys of a map.\<close>

record replay_env =
  dns :: resolver
  proxy_transport :: http_client
  default_transport :: "bool \<Rightarrow> http_client"
  range_order :: "string list \<Rightarrow> string list"

datatype warning =
    ProxyIgnored
  | OpaqueTransport
  | DerivedOrigin string bool
  | CrossOriginSkipped string
  | UnsafeSkipped string
  | MirrorDropped string
  | LimitReached int nat

record replay_state =
  Sent :: http_log
  Warnings :: "warning list"

definition warn :: "warning \<Rightarrow> replay_state \<Rightarrow> replay_state" where
  "warn w st = st\<lparr>Warnings := Warnings st @ [w]\<rparr>"

definition defaultMaxEndpoints :: int where "defaultMaxEndpoints = 500"

definition url_ok :: "replay_env \<Rightarrow> string \<Rightarrow> bool" where
  "url_ok env raw = (ValidateURLContext (dns env) raw = Inr ())"

definition newSSRFSafeClient :: "replay_env \<Rightarrow> bool \<Rightarrow> http_client" where
  "newSSRFSafeClient env allowPrivate = default_transport env (\<not> allowPrivate)"

text \<open>\<^verbatim>\<open>ssrfValidatingRoundTripper.RoundTrip\<close>.\<close>

definition validating_round_trip :: "replay_env \<Rightarrow> http_client \<Rightarrow> http_client" where
  "validating_round_trip env transport log req =
     (case parse_url (ReqURL req) of None \<Rightarrow> None
      | Some u \<Rightarrow> if url_ok env (url_string u) then transport log req else None)"

definition wrapClientWithSSRF :: "replay_env \<Rightarrow> transport \<Rightarrow> replay_state \<Rightarrow> replay_state \<times> http_client" where
  "wrapClientWithSSRF env caller st =
     (case caller of
        StdTransport t \<Rightarrow> (st, t True)
      | NilTransport \<Rightarrow> (st, newSSRFSafeClient env False)
      | OtherTransport c \<Rightarrow> (warn OpaqueTransport st, validating_round_trip env c))"

definition own_client :: "replay_env \<Rightarrow> transport \<Rightarrow> http_client" where
  "own_client env caller =
     (case caller of StdTransport t \<Rightarrow> t False | NilTransport \<Rightarrow> default_transport env False | OtherTransport c \<Rightarrow> c)"

text \<open>\<^verbatim>\<open>JSReplayConfig.withDefaults\<close>: the configuration and the client it ends up with.\<close>

definition replay_withDefaults ::
    "replay_env \<Rightarrow> replay_config \<Rightarrow> replay_state \<Rightarrow> replay_state \<times> replay_config \<times> http_client" where
  "replay_withDefaults env cfg st =
     (let cfg = (if ReplayMaxEndpoints cfg = 0 then cfg\<lparr>ReplayMaxEndpoints := defaultMaxEndpoints\<rparr> else cfg)
      in (case ReplayClient cfg of
          None \<Rightarrow> (st, cfg, if ReplayProxy cfg then proxy_transport env else newSSRFSafeClient env (AllowPrivate cfg))
        | Some caller \<Rightarrow>
            let st = (if ReplayProxy cfg then warn ProxyIgnored st else st);
                (st, client) = (if \<not> AllowPrivate cfg then wrapClientWithSSRF env caller st
                  else (st, own_client env caller))
            in (st, cfg, client)))"

section \<open>Scripts of a page\<close>

abbreviation not_char :: "char \<Rightarrow> re" where
  "not_char c \<equiv> Class [(CHR 0x00, char_of (byte_at c - 1)), (char_of (byte_at c + 1), CHR 0xFF)]"

text \<open>The group cannot be empty and holds no quote: the bytes below, between and above
  \<^verbatim>\<open>"\<close> and \<^verbatim>\<open>'\<close>.\<close>

definition scriptSrcPattern :: pattern where
  "scriptSrcPattern =
     \<lparr>Before = seq (map either_case ''<script'' @ [plus_re (not_char (CHR ''>''))] @ map either_case ''src=''
        @ [quote_re]),
      Group = plus_re (Class [(CHR 0x00, CHR 0x21), (CHR 0x23, CHR 0x26), (CHR 0x28, CHR 0xFF)]),
      After = quote_re\<rparr>"

definition resolved_script :: "url \<Rightarrow> string \<Rightarrow> string option" where
  "resolved_script base src =
     (case parse_url src of None \<Rightarrow> None
      | Some ref \<Rightarrow> let resolved = url_string (ResolveReference base ref) in if isJSURL resolved then Some resolved else None)"

definition extractScriptURLs :: "bytes \<Rightarrow> string \<Rightarrow> string list" where
  "extractScriptURLs htmlBody pageURL =
     (case parse_url pageURL of None \<Rightarrow> []
      | Some base \<Rightarrow> nub (List.map_filter (\<lambda>(src, _). resolved_script base src) (find_all scriptSrcPattern htmlBody)))"

section \<open>Requests\<close>

definition jsExtractUserAgent :: string where "jsExtractUserAgent = ''vespasian-js-extract''"
definition maxReplayBodySize :: nat where "maxReplayBodySize = 2 ^ 20"
definition maxJSBodySize :: nat where "maxJSBodySize = 10 * 2 ^ 20"
definition maxJSRedirects :: nat where "maxJSRedirects = 5"
definition MaxResponseBodySize :: nat where "MaxResponseBodySize = 1024 * 1024"

text \<open>What all requests of a run share: the environment, the configuration, its client, and the target.\<close>

record replay_run =
  run_env :: replay_env
  run_cfg :: replay_config
  run_client :: http_client
  run_target :: string

definition doRequest :: "replay_run \<Rightarrow> string \<Rightarrow> replay_state \<Rightarrow> replay_state \<times> http_response option" where
  "doRequest run raw st =
     (case parse_url raw of None \<Rightarrow> (st, None)
      | Some _ \<Rightarrow>
          let hs = header_set [] ''User-Agent'' jsExtractUserAgent;
              hs = (if isSameOrigin raw (run_target run)
                then fold (\<lambda>(k, v) m. header_set m k v) (ReplayHeaders (run_cfg run)) hs else hs);
              req = \<lparr>ReqMethod = ''GET'', ReqURL = raw, ReqHeaders = hs, ReqBody = []\<rparr>
          in (st\<lparr>Sent := Sent st @ [req]\<rparr>, run_client run (Sent st) req))"

definition canFetchURL :: "replay_run \<Rightarrow> string \<Rightarrow> bool" where
  "canFetchURL run raw =
     (if \<not> AllowCrossOrigin (run_cfg run) \<and> \<not> isSameOrigin raw (run_target run) then False
      else if \<not> AllowPrivate (run_cfg run) then url_ok (run_env run) raw
      else True)"

definition resolveRedirect :: "string \<Rightarrow> string \<Rightarrow> string option" where
  "resolveRedirect currentURL location =
     (case (parse_url currentURL, parse_url location) of
        (Some cur, Some loc) \<Rightarrow> Some (url_string (ResolveReference cur loc)) | _ \<Rightarrow> None)"

text \<open>The body, where to go, and whether that is final.\<close>

definition fetchJSBodyHop :: "replay_run \<Rightarrow> string \<Rightarrow> replay_state \<Rightarrow> replay_state \<times> (bytes option \<times> string \<times> bool)" where
  "fetchJSBodyHop run raw st =
     (case doRequest run raw st of
        (st, None) \<Rightarrow> (st, None, [], True)
      | (st, Some resp) \<Rightarrow>
          (st, if Status resp \<ge> 300 \<and> Status resp < 400 then
             let loc = header_get resp ''Location''
             in if loc = [] then (None, [], True)
                else (case resolveRedirect raw loc of None \<Rightarrow> (None, [], True) | Some next \<Rightarrow> (None, next, False))
           else if Status resp \<ge> 400 then (None, [], True)
           else if isHTMLResponse (header_get resp ''Content-Type'') then (None, [], True)
           else (case BodyRead resp of None \<Rightarrow> (None, [], True)
             | Some body \<Rightarrow>
                 let read = take maxJSBodySize body
                 in if looksLikeHTML read then (None, [], True) else (Some read, [], True))))"

fun fetch_hops :: "replay_run \<Rightarrow> nat \<Rightarrow> string \<Rightarrow> replay_state \<Rightarrow> replay_state \<times> bytes option" where
  "fetch_hops run n raw st =
     (if \<not> canFetchURL run raw then (st, None)
      else (case fetchJSBodyHop run raw st of (st, body, redirectTo, terminal) \<Rightarrow>
        if terminal then (st, body)
        else (case n of 0 \<Rightarrow> (st, None) | Suc n \<Rightarrow> if redirectTo = [] then (st, None) else fetch_hops run n redirectTo st)))"

declare fetch_hops.simps [simp del]

definition fetchJSBody :: "replay_run \<Rightarrow> string \<Rightarrow> replay_state \<Rightarrow> replay_state \<times> bytes option" where
  "fetchJSBody run raw st = fetch_hops run maxJSRedirects raw st"

definition flattenHeaders :: "(string, string list) gomap \<Rightarrow> headers" where
  "flattenHeaders h = List.map_filter (\<lambda>(k, vals). case vals of [] \<Rightarrow> None | v # _ \<Rightarrow> Some (k, v)) h"

definition probeURL :: "replay_run \<Rightarrow> string \<Rightarrow> replay_state \<Rightarrow> replay_state \<times> ObservedResponse option" where
  "probeURL run raw st =
     (case doRequest run raw st of
        (st, None) \<Rightarrow> (st, None)
      | (st, Some resp) \<Rightarrow>
          (st, map_option (\<lambda>body. \<lparr>StatusCode = Status resp, RespHeaders = flattenHeaders (Header resp),
             ContentType = header_get resp ''Content-Type'', RespBody = take maxReplayBodySize body\<rparr>) (BodyRead resp)))"

section \<open>Scanning the bundles\<close>

definition htmlJSURLs :: "ObservedRequest list \<Rightarrow> string list" where
  "htmlJSURLs requests =
     nub (concat (map (\<lambda>req. let body = RespBody (Response req)
        in if body = [] then []
           else if \<not> isHTMLResponse (ContentType (Response req)) \<and> \<not> looksLikeHTML body then []
           else extractScriptURLs body (URL req)) requests))"

text \<open>The bundles of the capture: what is scanned is the body, or the fetched one when it is empty or
  truncated and fetching succeeds.\<close>

definition scan_captured ::
    "replay_run \<Rightarrow> ObservedRequest list \<Rightarrow> ObservedRequest \<Rightarrow> replay_state \<times> string list \<Rightarrow> replay_state \<times> string list" where
  "scan_captured run requests req acc =
     (case acc of (st, paths) \<Rightarrow>
        if \<not> isJSURL (URL req) \<and> \<not> isJSResponse (ContentType (Response req)) then (st, paths)
        else
          let body = RespBody (Response req);
              (st, body) =
                (if body = [] \<or> length body \<ge> MaxResponseBodySize then
                   (case fetchJSBody run (URL req) st of (st, None) \<Rightarrow> (st, body) | (st, Some full) \<Rightarrow> (st, full))
                 else (st, body))
          in if body = [] then (st, paths) else (st, paths @ extractAPIPaths body requests))"

definition processedJSURLs :: "ObservedRequest list \<Rightarrow> string list" where
  "processedJSURLs requests =
     map URL (filter (\<lambda>req. isJSURL (URL req) \<or> isJSResponse (ContentType (Response req))) requests)"

definition scan_html ::
    "replay_run \<Rightarrow> ObservedRequest list \<Rightarrow> string \<Rightarrow> replay_state \<times> string list \<Rightarrow> replay_state \<times> string list" where
  "scan_html run requests jsURL acc =
     (case acc of (st, paths) \<Rightarrow>
        if jsURL \<in> set (processedJSURLs requests) then (st, paths)
        else (case fetchJSBody run jsURL st of
            (st, None) \<Rightarrow> (st, paths)
          | (st, Some body) \<Rightarrow> (st, paths @ extractAPIPaths body requests)))"

definition allPaths :: "replay_run \<Rightarrow> ObservedRequest list \<Rightarrow> replay_state \<Rightarrow> replay_state \<times> string list" where
  "allPaths run requests st =
     fold (scan_html run requests) (range_order (run_env run) (htmlJSURLs requests))
       (fold (scan_captured run requests) requests (st, []))"

section \<open>Probing the candidates\<close>

definition reachedPathKey :: "string \<Rightarrow> string" where
  "reachedPathKey raw =
     (case parse_url raw of None \<Rightarrow> raw
      | Some u \<Rightarrow>
          let path = escaped_path u
          in if path = [] then raw
             else if path \<noteq> ''/'' then trim_right (\<lambda>c. c = CHR ''/'') path else path)"

definition full_url :: "replay_run \<Rightarrow> string \<Rightarrow> string" where
  "full_url run path = (if \<not> IsAbsoluteHTTPURL path then run_target run @ path else path)"

definition replayed :: "replay_run \<Rightarrow> string \<Rightarrow> ObservedResponse \<Rightarrow> ObservedRequest" where
  "replayed run raw resp =
     empty_request\<lparr>Method := ''GET'', URL := raw,
       Headers := (if isSameOrigin raw (run_target run) then ReplayHeaders (run_cfg run) else []),
       Response := resp, Source := ''js-extract''\<rparr>"

record probe_loop =
  Probed :: int
  Result :: "ObservedRequest list"
  Refuted :: "string list"

text \<open>The loop over the sorted candidates.\<close>

fun probe_paths :: "replay_run \<Rightarrow> string list \<Rightarrow> probe_loop \<Rightarrow> replay_state \<Rightarrow> replay_state \<times> probe_loop" where
  "probe_paths run [] lp st = (st, lp)"
| "probe_paths run (path # paths) lp st =
     (if Probed lp \<ge> ReplayMaxEndpoints (run_cfg run) then (st, lp)
      else
        let fullURL = full_url run path; sameOrigin = isSameOrigin fullURL (run_target run)
        in if \<not> AllowCrossOrigin (run_cfg run) \<and> \<not> sameOrigin
           then probe_paths run paths lp (warn (CrossOriginSkipped fullURL) st)
           else if \<not> AllowPrivate (run_cfg run) \<and> \<not> url_ok (run_env run) fullURL
           then probe_paths run paths lp (warn (UnsafeSkipped fullURL) st)
           else
             let lp = lp\<lparr>Probed := Probed lp + 1\<rparr>
             in (case probeURL run fullURL st of
                 (st, None) \<Rightarrow> probe_paths run paths lp st
               | (st, Some resp) \<Rightarrow>
                   if StatusCode resp = 404
                   then probe_paths run paths (lp\<lparr>Refuted := Refuted lp @ [reachedPathKey fullURL]\<rparr>)
                     (warn (MirrorDropped fullURL) st)
                   else probe_paths run paths (lp\<lparr>Result := Result lp @ [replayed run fullURL resp]\<rparr>) st))"

definition supersedeConcatMirrors :: "ObservedRequest list \<Rightarrow> string list \<Rightarrow> ObservedRequest list" where
  "supersedeConcatMirrors result refuted =
     (if refuted = [] then result
      else filter (\<lambda>r. \<not> (Source r = SourceStaticJSConcat \<and> reachedPathKey (URL r) \<in> set refuted)) result)"

section \<open>The whole step\<close>

definition replay_stage :: "replay_run \<Rightarrow> ObservedRequest list \<Rightarrow> replay_state \<Rightarrow> replay_state \<times> ObservedRequest list" where
  "replay_stage run requests st =
     (case allPaths run requests st of (st, paths) \<Rightarrow>
        if paths = [] then (st, requests)
        else
          let sortedPaths = sort (nub paths)
          in (case probe_paths run sortedPaths \<lparr>Probed = 0, Result = requests, Refuted = []\<rparr> st of (st, lp) \<Rightarrow>
            (if Probed lp \<ge> ReplayMaxEndpoints (run_cfg run)
                \<and> int (length sortedPaths) > ReplayMaxEndpoints (run_cfg run)
             then warn (LimitReached (Probed lp) (length sortedPaths)) st else st,
             supersedeConcatMirrors (Result lp) (Refuted lp))))"

definition ReplayJSExtracted ::
    "replay_env \<Rightarrow> replay_config \<Rightarrow> ObservedRequest list \<Rightarrow> replay_state \<times> ObservedRequest list" where
  "ReplayJSExtracted env cfg requests =
     (case replay_withDefaults env cfg \<lparr>Sent = [], Warnings = []\<rparr> of (st, cfg, client) \<Rightarrow>
        let targetOrigin = ResolveTargetOrigin (TargetURL cfg) requests
        in if targetOrigin = [] then (st, requests)
           else
             let st = (if TargetURL cfg = [] then warn (DerivedOrigin targetOrigin (ReplayHeaders cfg \<noteq> [])) st else st)
             in replay_stage \<lparr>run_env = env, run_cfg = cfg, run_client = client, run_target = targetOrigin\<rparr> requests st)"

end
