(* ===== verification/Js_Replay_Spec.thy ===== *)
theory Js_Replay_Spec
  imports Js_Replay
begin

text \<open>
  What a replay may send, and what it does to the capture: for any client, any bundle and any answers.
\<close>

section \<open>Requests\<close>

definition replay_headers :: "replay_run \<Rightarrow> string \<Rightarrow> headers" where
  "replay_headers run raw =
     (if isSameOrigin raw (run_target run)
      then fold (\<lambda>(k, v) m. header_set m k v) (ReplayHeaders (run_cfg run)) [(''User-Agent'', jsExtractUserAgent)]
      else [(''User-Agent'', jsExtractUserAgent)])"

text \<open>A request that may be sent: a GET without a body, of the target's origin unless other origins are
  allowed, of a public address unless private ones are allowed; the operator's headers are on it only when it
  is of the target's origin.\<close>

definition request_ok :: "replay_run \<Rightarrow> http_request \<Rightarrow> bool" where
  "request_ok run req =
     (ReqMethod req = ''GET'' \<and> ReqBody req = []
      \<and> (AllowCrossOrigin (run_cfg run) \<or> isSameOrigin (ReqURL req) (run_target run))
      \<and> (AllowPrivate (run_cfg run) \<or> url_ok (run_env run) (ReqURL req))
      \<and> ReqHeaders req = replay_headers run (ReqURL req))"

text \<open>The URLs that the warnings name as refuted.\<close>

definition dropped :: "replay_state \<Rightarrow> string list" where
  "dropped st = List.map_filter (\<lambda>w. case w of MirrorDropped u \<Rightarrow> Some u | _ \<Rightarrow> None) (Warnings st)"

lemma dropped_warn: "dropped (warn w st) = dropped st @ (case w of MirrorDropped u \<Rightarrow> [u] | _ \<Rightarrow> [])"
  by (cases w) (simp_all add: dropped_def warn_def map_filter_def)

lemma warn_simps [simp]: "Sent (warn w st) = Sent st" "dropped (st\<lparr>Sent := s\<rparr>) = dropped st"
  by (simp_all add: warn_def dropped_def)

text \<open>From one state to another with at most so many requests, all of which may be sent, and no refutation.\<close>

definition sends :: "replay_run \<Rightarrow> nat \<Rightarrow> replay_state \<Rightarrow> replay_state \<Rightarrow> bool" where
  "sends run k st st' \<longleftrightarrow>
     (\<exists>reqs. Sent st' = Sent st @ reqs \<and> list_all (request_ok run) reqs \<and> length reqs \<le> k)
     \<and> dropped st' = dropped st"

lemma sends_refl [simp]: "sends run k st st"
  by (simp add: sends_def)

lemma sends_trans: "sends run k st st' \<Longrightarrow> sends run m st' st'' \<Longrightarrow> sends run (k + m) st st''"
  unfolding sends_def
  by (elim exE conjE, intro conjI, rule_tac x = "reqs @ reqsa" in exI) simp_all

lemma sends_mono: "sends run k st st' \<Longrightarrow> k \<le> m \<Longrightarrow> sends run m st st'"
  unfolding sends_def by (meson order_trans)

lemma user_agent_header: "header_set [] ''User-Agent'' v = [(''User-Agent'', v)]"
  by (simp add: header_set_def, code_simp)

lemma canFetchURL_iff: "canFetchURL run raw \<longleftrightarrow>
    (AllowCrossOrigin (run_cfg run) \<or> isSameOrigin raw (run_target run))
    \<and> (AllowPrivate (run_cfg run) \<or> url_ok (run_env run) raw)"
  by (simp add: canFetchURL_def)

lemma doRequest_sends: "canFetchURL run raw \<Longrightarrow> sends run 1 st (fst (doRequest run raw st))"
  by (auto simp: doRequest_def sends_def dropped_def Let_def request_ok_def replay_headers_def canFetchURL_iff user_agent_header
      split: option.splits)

lemma fetchJSBodyHop_sends: "canFetchURL run raw \<Longrightarrow> sends run 1 st (fst (fetchJSBodyHop run raw st))"
  using doRequest_sends [of run raw st] by (auto simp: fetchJSBodyHop_def split: prod.splits option.splits)

lemma probeURL_sends: "canFetchURL run raw \<Longrightarrow> sends run 1 st (fst (probeURL run raw st))"
  using doRequest_sends [of run raw st] by (auto simp: probeURL_def split: prod.splits option.splits)

lemma fetch_hops_sends: "sends run (Suc n) st (fst (fetch_hops run n raw st))"
proof (induction n arbitrary: raw st)
  case 0
  show ?case using fetchJSBodyHop_sends [of run raw st] by (subst fetch_hops.simps) (auto split: prod.splits)
next
  case (Suc n)
  obtain st1 body next_url terminal where hop: "fetchJSBodyHop run raw st = (st1, body, next_url, terminal)"
    by (metis prod_cases4)
  have "fst (fetch_hops run (Suc n) raw st) =
      (if \<not> canFetchURL run raw then st else if terminal \<or> next_url = [] then st1 else fst (fetch_hops run n next_url st1))"
    by (subst fetch_hops.simps) (simp add: hop)
  moreover have "sends run 1 st st1" if "canFetchURL run raw" using fetchJSBodyHop_sends [OF that, of st] hop by simp
  ultimately show ?case
    using sends_trans [of run 1 st st1 "Suc n"] Suc.IH [of st1 next_url] sends_mono [of run 1 st st1 "Suc (Suc n)"] by auto
qed

lemma fetchJSBody_sends: "sends run 6 st (fst (fetchJSBody run raw st))"
  using fetch_hops_sends [of run maxJSRedirects st raw] by (simp add: fetchJSBody_def maxJSRedirects_def)

text \<open>The captured bundles that are fetched again, and the scripts of captured pages that were not captured.\<close>

definition unread_bundle :: "ObservedRequest \<Rightarrow> bool" where
  "unread_bundle req =
     ((isJSURL (URL req) \<or> isJSResponse (ContentType (Response req)))
      \<and> (RespBody (Response req) = [] \<or> length (RespBody (Response req)) \<ge> 1024 * 1024))"

definition unseen_scripts :: "replay_env \<Rightarrow> ObservedRequest list \<Rightarrow> string list" where
  "unseen_scripts env requests =
     filter (\<lambda>u. \<not> list_ex (\<lambda>req. URL req = u \<and> (isJSURL u \<or> isJSResponse (ContentType (Response req)))) requests)
       (range_order env (htmlJSURLs requests))"

lemma scan_captured_sends:
  "sends run (if unread_bundle req then 6 else 0) (fst acc) (fst (scan_captured run requests req acc))"
  using fetchJSBody_sends [of run "fst acc" "URL req"]
  by (auto simp: scan_captured_def unread_bundle_def MaxResponseBodySize_def Let_def split: prod.splits option.splits)

lemma processed_iff: "u \<in> set (processedJSURLs requests)
    \<longleftrightarrow> list_ex (\<lambda>req. URL req = u \<and> (isJSURL u \<or> isJSResponse (ContentType (Response req)))) requests"
  by (auto simp: processedJSURLs_def list_ex_iff)

lemma scan_html_sends: "sends run (if jsURL \<in> set (processedJSURLs requests) then 0 else 6)
    (fst acc) (fst (scan_html run requests jsURL acc))"
  using fetchJSBody_sends [of run "fst acc" jsURL] by (auto simp: scan_html_def split: prod.splits option.splits)

lemma fold_sends:
  assumes "\<And>x acc. sends run (k x) (fst acc) (fst (f x acc))"
  shows "sends run (sum_list (map k xs)) (fst acc) (fst (fold f xs acc))"
proof (induction xs arbitrary: acc)
  case (Cons x xs)
  show ?case using sends_trans [OF assms Cons.IH] by simp
qed simp

lemma sum_list_if: "sum_list (map (\<lambda>x. if P x then n else 0) xs) = n * length (filter P xs)"
  for n :: nat
  by (induction xs) simp_all

definition fetch_budget :: "replay_env \<Rightarrow> ObservedRequest list \<Rightarrow> nat" where
  "fetch_budget env requests = 6 * (length (filter unread_bundle requests) + length (unseen_scripts env requests))"

lemma allPaths_sends: "sends run (fetch_budget (run_env run) requests) st (fst (allPaths run requests st))"
proof -
  let ?mid = "fold (scan_captured run requests) requests (st, [])"
  let ?scripts = "range_order (run_env run) (htmlJSURLs requests)"
  have "sends run (6 * length (filter unread_bundle requests)) st (fst ?mid)"
    using fold_sends [where f = "scan_captured run requests" and xs = requests and acc = "(st, [])",
        OF scan_captured_sends] by (simp add: sum_list_if)
  moreover have "sends run (sum_list (map (\<lambda>u. if u \<in> set (processedJSURLs requests) then 0 else 6) ?scripts))
      (fst ?mid) (fst (allPaths run requests st))"
    unfolding allPaths_def by (rule fold_sends [OF scan_html_sends])
  moreover have "sum_list (map (\<lambda>u. if u \<in> set (processedJSURLs requests) then 0 else 6) xs)
      = 6 * length (filter (\<lambda>u. u \<notin> set (processedJSURLs requests)) xs)" for xs
    by (induction xs) simp_all
  ultimately show ?thesis
    using sends_trans by (fastforce simp: fetch_budget_def unseen_scripts_def processed_iff algebra_simps)
qed

section \<open>Results\<close>

text \<open>What a list of requests was answered with, each after those before it: the URL and the response as it is
  recorded, when its body could be read.\<close>

definition recorded :: "http_response \<Rightarrow> ObservedResponse option" where
  "recorded resp = map_option (\<lambda>body. \<lparr>StatusCode = Status resp, RespHeaders = flattenHeaders (Header resp),
     ContentType = header_get resp ''Content-Type'', RespBody = take maxReplayBodySize body\<rparr>) (BodyRead resp)"

fun probe_answers :: "http_client \<Rightarrow> http_log \<Rightarrow> http_request list \<Rightarrow> (string \<times> ObservedResponse) list" where
  "probe_answers client log [] = []"
| "probe_answers client log (req # reqs) =
     (case Option.bind (client log req) recorded of None \<Rightarrow> [] | Some resp \<Rightarrow> [(ReqURL req, resp)])
     @ probe_answers client (log @ [req]) reqs"

lemma probe_answers_append:
  "probe_answers client log (as @ bs) = probe_answers client log as @ probe_answers client (log @ as) bs"
  by (induction as arbitrary: log) simp_all

text \<open>The answers that refute a candidate, and the others.\<close>

definition refuted_urls :: "(string \<times> ObservedResponse) list \<Rightarrow> string list" where
  "refuted_urls answers = map fst (filter (\<lambda>(u, resp). StatusCode resp = 404) answers)"

definition confirmed :: "replay_run \<Rightarrow> (string \<times> ObservedResponse) list \<Rightarrow> ObservedRequest list" where
  "confirmed run answers = map (\<lambda>(u, resp). replayed run u resp) (filter (\<lambda>(u, resp). StatusCode resp \<noteq> 404) answers)"

lemma answers_append [simp]:
  "refuted_urls (as @ bs) = refuted_urls as @ refuted_urls bs"
  "confirmed run (as @ bs) = confirmed run as @ confirmed run bs"
  by (simp_all add: refuted_urls_def confirmed_def)

text \<open>What a part of the loop adds: requests, and for each answer either a result or a refutation.\<close>

definition adds :: "replay_run \<Rightarrow> nat \<Rightarrow> replay_state \<Rightarrow> probe_loop \<Rightarrow> replay_state \<Rightarrow> probe_loop \<Rightarrow> bool" where
  "adds run k st lp st' lp' \<longleftrightarrow>
     (\<exists>reqs answers. Sent st' = Sent st @ reqs \<and> list_all (request_ok run) reqs \<and> length reqs \<le> k
       \<and> answers = probe_answers (run_client run) (Sent st) reqs
       \<and> Result lp' = Result lp @ confirmed run answers
       \<and> Refuted lp' = Refuted lp @ map reachedPathKey (refuted_urls answers)
       \<and> dropped st' = dropped st @ refuted_urls answers)"

lemma adds_refl [simp]: "adds run k st lp st lp"
  by (simp add: adds_def refuted_urls_def confirmed_def)

lemma adds_trans: "adds run k st lp st' lp' \<Longrightarrow> adds run m st' lp' st'' lp'' \<Longrightarrow> adds run (k + m) st lp st'' lp''"
  unfolding adds_def
  by (elim exE conjE, rule_tac x = "reqs @ reqsa" in exI) (simp add: probe_answers_append)

lemma adds_mono: "adds run k st lp st' lp' \<Longrightarrow> k \<le> m \<Longrightarrow> adds run m st lp st' lp'"
  unfolding adds_def by (meson order_trans)

lemma adds_skip:
  assumes "Sent st1 = Sent st" "dropped st1 = dropped st" "Result lp1 = Result lp" "Refuted lp1 = Refuted lp"
  shows "adds run 0 st lp st1 lp1"
  using assms by (simp add: adds_def refuted_urls_def confirmed_def)

text \<open>One probe.\<close>

definition probe_step :: "replay_run \<Rightarrow> string \<Rightarrow> probe_loop \<Rightarrow> replay_state \<Rightarrow> replay_state \<times> probe_loop" where
  "probe_step run u lp st =
     (let lp = lp\<lparr>Probed := Probed lp + 1\<rparr> in
      case probeURL run u st of
        (st, None) \<Rightarrow> (st, lp)
      | (st, Some resp) \<Rightarrow>
          if StatusCode resp = 404 then (warn (MirrorDropped u) st, lp\<lparr>Refuted := Refuted lp @ [reachedPathKey u]\<rparr>)
          else (st, lp\<lparr>Result := Result lp @ [replayed run u resp]\<rparr>))"

lemma probe_step_adds:
  assumes "canFetchURL run u" "probe_step run u lp st = (st', lp')"
  shows "adds run 1 st lp st' lp'" "Probed lp' = Probed lp + 1"
proof -
  show "Probed lp' = Probed lp + 1"
    using assms(2) by (auto simp: probe_step_def Let_def split: prod.splits option.splits if_splits)
  show "adds run 1 st lp st' lp'"
  proof (cases "parse_url u")
    case None
    then have "st' = st" "Result lp' = Result lp" "Refuted lp' = Refuted lp"
      using assms(2) by (auto simp: probe_step_def probeURL_def doRequest_def Let_def)
    then show ?thesis using adds_mono [OF adds_skip, of st' st lp' lp] by simp
  next
    case (Some v)
    define req where "req = \<lparr>ReqMethod = ''GET'', ReqURL = u, ReqHeaders = replay_headers run u, ReqBody = []\<rparr>"
    have ok: "request_ok run req" using assms(1) by (simp add: request_ok_def canFetchURL_iff req_def)
    have d: "doRequest run u st = (st\<lparr>Sent := Sent st @ [req]\<rparr>, run_client run (Sent st) req)"
      by (simp add: doRequest_def Some replay_headers_def user_agent_header req_def Let_def)
    have p: "probeURL run u st = (st\<lparr>Sent := Sent st @ [req]\<rparr>, Option.bind (run_client run (Sent st) req) recorded)"
      by (simp add: probeURL_def d recorded_def split: option.split)
    have u: "ReqURL req = u" by (simp add: req_def)
    show ?thesis unfolding adds_def
      by (rule exI [of _ "[req]"])
        (use assms(2) ok in \<open>auto simp: probe_step_def p u dropped_warn refuted_urls_def confirmed_def Let_def
          split: option.splits if_splits\<close>)
  qed
qed

text \<open>The loop, by the gate for a candidate.\<close>

lemma probe_paths_Cons:
  "probe_paths run (path # paths) lp st =
    (if Probed lp \<ge> ReplayMaxEndpoints (run_cfg run) then (st, lp)
     else if canFetchURL run (full_url run path)
     then (case probe_step run (full_url run path) lp st of (st', lp') \<Rightarrow> probe_paths run paths lp' st')
     else probe_paths run paths lp
       (warn (if AllowCrossOrigin (run_cfg run) \<or> isSameOrigin (full_url run path) (run_target run)
          then UnsafeSkipped (full_url run path) else CrossOriginSkipped (full_url run path)) st))"
  by (auto simp: canFetchURL_iff probe_step_def Let_def split: prod.split option.split)

lemma probe_paths_adds:
  "probe_paths run paths lp st = (st', lp') \<Longrightarrow>
    adds run (nat (ReplayMaxEndpoints (run_cfg run) - Probed lp)) st lp st' lp'"
proof (induction paths arbitrary: lp st)
  case (Cons path paths)
  let ?u = "full_url run path" and ?lim = "ReplayMaxEndpoints (run_cfg run)"
  consider "Probed lp \<ge> ?lim" | "\<not> Probed lp \<ge> ?lim" "canFetchURL run ?u" | "\<not> Probed lp \<ge> ?lim" "\<not> canFetchURL run ?u"
    by blast
  then show ?case
  proof cases
    case 1
    then show ?thesis using Cons.prems by simp
  next
    case 2
    obtain st1 lp1 where s: "probe_step run ?u lp st = (st1, lp1)" by fastforce
    note step = probe_step_adds [OF 2(2) s]
    have "probe_paths run paths lp1 st1 = (st', lp')" using Cons.prems 2 s by (simp only: probe_paths_Cons) simp
    from adds_trans [OF step(1) Cons.IH [OF this]] show ?thesis using 2(1) step(2) by (simp add: adds_mono)
  next
    case 3
    obtain w where w: "probe_paths run paths lp (warn w st) = (st', lp')" "\<And>u. w \<noteq> MirrorDropped u"
      using Cons.prems 3 by (simp only: probe_paths_Cons) (auto split: if_splits)
    have "adds run 0 st lp (warn w st) lp"
      using w(2) by (intro adds_skip) (auto simp: dropped_warn split: warning.splits)
    from adds_trans [OF this Cons.IH [OF w(1)]] show ?thesis by simp
  qed
qed simp

section \<open>The whole step\<close>

lemma withDefaults_fields:
  assumes "replay_withDefaults env cfg st = (st', cfg', client)"
  shows "AllowPrivate cfg' = AllowPrivate cfg" "AllowCrossOrigin cfg' = AllowCrossOrigin cfg"
    "ReplayHeaders cfg' = ReplayHeaders cfg" "TargetURL cfg' = TargetURL cfg"
    "ReplayMaxEndpoints cfg' = (if ReplayMaxEndpoints cfg = 0 then defaultMaxEndpoints else ReplayMaxEndpoints cfg)"
    "Sent st' = Sent st" "dropped st' = dropped st"
  using assms
  by (auto simp: replay_withDefaults_def Let_def wrapClientWithSSRF_def dropped_def warn_def map_filter_def
      split: option.splits if_splits transport.splits prod.splits)

text \<open>Without mirrors of these URLs.\<close>

definition without_mirrors :: "string list \<Rightarrow> ObservedRequest list \<Rightarrow> ObservedRequest list" where
  "without_mirrors us = filter (\<lambda>r. \<not> (Source r = SourceStaticJSConcat \<and> reachedPathKey (URL r) \<in> reachedPathKey ` set us))"

lemma supersede_alt: "supersedeConcatMirrors rs (map reachedPathKey us) = without_mirrors us rs"
  by (auto simp: supersedeConcatMirrors_def without_mirrors_def)

lemma without_mirrors_confirmed: "without_mirrors us (rs @ confirmed run answers) = without_mirrors us rs @ confirmed run answers"
  by (auto simp: without_mirrors_def confirmed_def filter_id_conv replayed_def SourceStaticJSConcat_def)

definition stage_spec :: "replay_run \<Rightarrow> ObservedRequest list \<Rightarrow> replay_state \<Rightarrow> replay_state \<Rightarrow> ObservedRequest list \<Rightarrow> bool" where
  "stage_spec run requests st st' result \<longleftrightarrow>
     (\<exists>fetched probed answers. Sent st' = Sent st @ fetched @ probed \<and> list_all (request_ok run) (fetched @ probed)
       \<and> length fetched \<le> fetch_budget (run_env run) requests \<and> length probed \<le> nat (ReplayMaxEndpoints (run_cfg run))
       \<and> answers = probe_answers (run_client run) (Sent st @ fetched) probed
       \<and> result = without_mirrors (refuted_urls answers) requests @ confirmed run answers
       \<and> dropped st' = dropped st @ refuted_urls answers)"

lemma replay_stage_spec:
  assumes "replay_stage run requests st = (st', result)"
  shows "stage_spec run requests st st' result"
proof -
  obtain st1 paths where all: "allPaths run requests st = (st1, paths)" by fastforce
  obtain fetched where f: "Sent st1 = Sent st @ fetched" "list_all (request_ok run) fetched"
    "length fetched \<le> fetch_budget (run_env run) requests" "dropped st1 = dropped st"
    using allPaths_sends [of run requests st] all by (auto simp: sends_def)
  show ?thesis
  proof (cases "paths = []")
    case True
    then have "st' = st1" "result = requests" using assms all by (simp_all add: replay_stage_def)
    then show ?thesis unfolding stage_spec_def using f
      by (intro exI [of _ fetched] exI [of _ "[]"]) (simp add: refuted_urls_def confirmed_def without_mirrors_def)
  next
    case False
    let ?lp = "\<lparr>Probed = 0, Result = requests, Refuted = []\<rparr>"
    obtain st2 lp where loop: "probe_paths run (sort (nub paths)) ?lp st1 = (st2, lp)" by fastforce
    have st': "Sent st' = Sent st2" "dropped st' = dropped st2" and result: "result = supersedeConcatMirrors (Result lp) (Refuted lp)"
      using assms False all loop by (auto simp: replay_stage_def dropped_warn Let_def split: if_splits)
    obtain probed where p: "Sent st2 = Sent st1 @ probed" "list_all (request_ok run) probed"
      "length probed \<le> nat (ReplayMaxEndpoints (run_cfg run))"
      "Result lp = requests @ confirmed run (probe_answers (run_client run) (Sent st1) probed)"
      "Refuted lp = map reachedPathKey (refuted_urls (probe_answers (run_client run) (Sent st1) probed))"
      "dropped st2 = dropped st1 @ refuted_urls (probe_answers (run_client run) (Sent st1) probed)"
      using probe_paths_adds [OF loop] by (auto simp: adds_def)
    show ?thesis unfolding stage_spec_def result p(4,5) supersede_alt without_mirrors_confirmed
      using f p(1-3,6) st' by (intro exI [of _ fetched] exI [of _ probed]) simp
  qed
qed

text \<open>A pinned target that has no origin is refused: nothing is sent to any other.\<close>

lemma ReplayJSExtracted_cases [consumes 1]:
  assumes "replay_withDefaults env cfg \<lparr>Sent = [], Warnings = []\<rparr> = (st1, cfg', client)"
  obtains (no_target) "ResolveTargetOrigin (TargetURL cfg) requests = []"
      "ReplayJSExtracted env cfg requests = (st1, requests)" "Sent st1 = []" "dropped st1 = []"
    | (run) run st0 where "ReplayJSExtracted env cfg requests = replay_stage run requests st0" "Sent st0 = []"
      "dropped st0 = []" "run_env run = env" "run_target run = ResolveTargetOrigin (TargetURL cfg) requests"
      "AllowPrivate (run_cfg run) = AllowPrivate cfg" "AllowCrossOrigin (run_cfg run) = AllowCrossOrigin cfg"
      "ReplayHeaders (run_cfg run) = ReplayHeaders cfg" "run_client run = client"
      "ReplayMaxEndpoints (run_cfg run) = (if ReplayMaxEndpoints cfg = 0 then 500 else ReplayMaxEndpoints cfg)"
proof -
  note f = withDefaults_fields [OF assms]
  have e: "dropped \<lparr>Sent = [], Warnings = []\<rparr> = []" by (simp add: dropped_def map_filter_def)
  show thesis
  proof (cases "ResolveTargetOrigin (TargetURL cfg) requests = []")
    case True
    then show thesis using f(4,6,7) e by (intro no_target) (simp_all add: ReplayJSExtracted_def assms Let_def)
  next
    case False
    then show thesis using f e
      by (intro run [of "\<lparr>run_env = env, run_cfg = cfg', run_client = client,
            run_target = ResolveTargetOrigin (TargetURL cfg) requests\<rparr>"
          "if TargetURL cfg' = [] then warn (DerivedOrigin (ResolveTargetOrigin (TargetURL cfg) requests)
            (ReplayHeaders cfg' \<noteq> [])) st1 else st1"])
        (simp_all add: ReplayJSExtracted_def assms Let_def dropped_warn defaultMaxEndpoints_def)
  qed
qed


text \<open>C4. What a replay makes of the capture. Of the requests sent, the first fetch bundles and the others probe
  candidates. The result is the capture without the offline mirrors that a probe refuted, followed by one new
  request for each probe that was answered with another status than 404. A probe refutes its URL when it is
  answered with 404; a mirror is dropped exactly when its path is that of a refuted URL, and every refuted URL has
  a warning, in order. A new request is a GET of the probed URL, of an allowed origin, with the response as
  recorded, and with the operator's headers only where they were sent.\<close>

theorem ReplayJSExtracted_result:
  "case (replay_withDefaults env cfg \<lparr>Sent = [], Warnings = []\<rparr>, ReplayJSExtracted env cfg requests) of
     ((_, _, client), (st, result)) \<Rightarrow>
       \<exists>fetched probed answers. Sent st = fetched @ probed
         \<and> length fetched \<le> 6 * (length (filter unread_bundle requests) + length (unseen_scripts env requests))
         \<and> length probed \<le> nat (if ReplayMaxEndpoints cfg = 0 then 500 else ReplayMaxEndpoints cfg)
         \<and> answers = probe_answers client fetched probed
         \<and> dropped st = map fst (filter (\<lambda>(u, resp). StatusCode resp = 404) answers)
         \<and> (let target = ResolveTargetOrigin (TargetURL cfg) requests
            in result = filter (\<lambda>r. \<not> (Source r = SourceStaticJSConcat \<and> reachedPathKey (URL r) \<in> reachedPathKey ` set (dropped st)))
                 requests
               @ map (\<lambda>(u, resp). empty_request\<lparr>Method := ''GET'', URL := u,
                   Headers := (if SameOrigin u target then ReplayHeaders cfg else []), Response := resp, Source := ''js-extract''\<rparr>)
                 (filter (\<lambda>(u, resp). StatusCode resp \<noteq> 404) answers)
             \<and> list_all (\<lambda>(u, resp). AllowCrossOrigin cfg \<or> SameOrigin u target) answers)"
proof -
  obtain st1 cfg' client where d: "replay_withDefaults env cfg \<lparr>Sent = [], Warnings = []\<rparr> = (st1, cfg', client)"
    by (metis prod_cases3)
  from d show ?thesis
  proof (cases rule: ReplayJSExtracted_cases [where requests = requests])
    case no_target
    then show ?thesis by (simp add: d)
  next
    case (run run st0)
    obtain st' result where r: "ReplayJSExtracted env cfg requests = (st', result)" by fastforce
    obtain fetched probed where s: "Sent st' = fetched @ probed" "list_all (request_ok run) probed"
      "length fetched \<le> fetch_budget env requests"
      "length probed \<le> nat (if ReplayMaxEndpoints cfg = 0 then 500 else ReplayMaxEndpoints cfg)"
      "result = without_mirrors (refuted_urls (probe_answers client fetched probed)) requests
         @ confirmed run (probe_answers client fetched probed)"
      "dropped st' = refuted_urls (probe_answers client fetched probed)"
      using replay_stage_spec [of run requests st0 st' result] run r unfolding stage_spec_def by auto
    have origin: "list_all (\<lambda>(u, resp). AllowCrossOrigin cfg \<or> SameOrigin u (run_target run)) (probe_answers client log reqs)"
      if "list_all (request_ok run) reqs" for log reqs
      using that run(7) by (induction reqs arbitrary: log) (auto simp: request_ok_def isSameOrigin_def split: option.split)
    have "confirmed run answers = map (\<lambda>(u, resp). empty_request\<lparr>Method := ''GET'', URL := u,
        Headers := (if SameOrigin u (run_target run) then ReplayHeaders cfg else []), Response := resp, Source := ''js-extract''\<rparr>)
      (filter (\<lambda>(u, resp). StatusCode resp \<noteq> 404) answers)" for answers
      by (simp add: confirmed_def replayed_def isSameOrigin_def run(8))
    from this [of "probe_answers client fetched probed"] s(5,6)
    have "result = filter (\<lambda>r. \<not> (Source r = SourceStaticJSConcat \<and> reachedPathKey (URL r) \<in> reachedPathKey ` set (dropped st')))
        requests @ map (\<lambda>(u, resp). empty_request\<lparr>Method := ''GET'', URL := u,
          Headers := (if SameOrigin u (run_target run) then ReplayHeaders cfg else []), Response := resp, Source := ''js-extract''\<rparr>)
        (filter (\<lambda>(u, resp). StatusCode resp \<noteq> 404) (probe_answers client fetched probed))"
      by (simp only: without_mirrors_def)
    then show ?thesis
      unfolding d r prod.case Let_def run(5) [symmetric] using s(1,3,4,6) origin [OF s(2)]
      by (intro exI [of _ fetched] exI [of _ probed] exI [of _ "probe_answers client fetched probed"] conjI refl)
        (simp_all only: refuted_urls_def fetch_budget_def)
  qed
qed

text \<open>The gate of a fetch does not look at user information, so a redirect can put credentials of its own
  into the next request.\<close>

lemma redirect_userinfo:
  "resolveRedirect ''https://t/a.js'' ''//u:p@t/x.js'' = Some ''https://u:p@t/x.js''"
  "isSameOrigin ''https://u:p@t/x.js'' ''https://t:443''"
  "ValidateFullURL ''https://u:p@t/x.js'' = None"
  by code_simp+

end
