(* ===== verification/Origin_Spec.thy ===== *)
theory Origin_Spec
  imports Origin
begin

text \<open>
  What an origin is: the scheme, the host up to letter case, whether it is a bracketed address, and
  the port with its default. \<open>SameOrigin\<close> compares exactly these, and the string that
  \<open>originOf\<close> prints is a URL of the origin it came from.
\<close>

section \<open>The origin of a URL\<close>

definition bracketed :: "url \<Rightarrow> bool" where
  "bracketed u = has_prefix (Host u) ''[''"

definition usable_origin :: "url \<Rightarrow> bool" where
  "usable_origin u = (Host u \<noteq> [] \<and> \<not> (bracketed u \<and> CHR ''%'' \<in> set (Hostname u))
     \<and> (bracketed u \<or> CHR '':'' \<notin> set (Hostname u)))"

definition effective_port :: "url \<Rightarrow> string" where
  "effective_port u = (if Port u = [] then defaultPortForScheme (Scheme u) else Port u)"

definition origin_host :: "url \<Rightarrow> string" where
  "origin_host u = (let h = to_lower (Hostname u) in if bracketed u then ''['' @ h @ '']'' else h)"

definition port_suffix :: "string \<Rightarrow> string" where
  "port_suffix p = (if p = [] then [] else '':'' @ p)"

lemma originOf_parsed:
  assumes "parse_url raw = Some u"
  shows "originOf raw = (if usable_origin u
     then Scheme u @ ''://'' @ origin_host u @ port_suffix (effective_port u) else [])"
  using assms parse_url_parts(2) [OF assms]
  by (simp add: originOf_def usable_origin_def bracketed_def origin_host_def effective_port_def port_suffix_def Let_def)

lemma originOf_unparsed: "parse_url raw = None \<Longrightarrow> originOf raw = []"
  by (simp add: originOf_def)

lemma effective_port_digits: "list_all is_digit (effective_port u)"
proof -
  have "list_all is_digit (defaultPortForScheme s)" for s
    unfolding defaultPortForScheme_def Let_def by (cases "to_lower s = ''http''"; cases "to_lower s = ''https''") (simp_all, code_simp+)
  then show ?thesis using split_host_port_digits [of "Host u"] by (simp add: effective_port_def Port_def)
qed

text \<open>A host with an optional port can be read back.\<close>

lemma port_suffix_inject:
  assumes "list_all is_digit p" "list_all is_digit q"
    and "CHR '':'' \<notin> set h \<or> (h \<noteq> [] \<and> last h = CHR '']'')"
    and "CHR '':'' \<notin> set k \<or> (k \<noteq> [] \<and> last k = CHR '']'')"
  shows "h @ port_suffix p = k @ port_suffix q \<longleftrightarrow> h = k \<and> p = q"
proof
  assume e: "h @ port_suffix p = k @ port_suffix q"
  have clash: "False" if "k' = h' @ '':'' @ p'" "p' \<noteq> []" "list_all is_digit p'"
    "CHR '':'' \<notin> set k' \<or> (k' \<noteq> [] \<and> last k' = CHR '']'')" for h' k' p'
  proof -
    have "last k' = last p'" using that(1,2) by simp
    moreover have "is_digit (last p')" using that(2,3) by (metis last_in_set list_all_iff)
    ultimately show False using that(1,4) marks_not_letters(10) by auto
  qed
  show "h = k \<and> p = q"
  proof (cases "p = []"; cases "q = []")
    assume "p \<noteq> []" "q \<noteq> []"
    then have "h @ CHR '':'' # p = k @ CHR '':'' # q" using e by (simp add: port_suffix_def)
    then have "cut_last (CHR '':'') (h @ CHR '':'' # p) = cut_last (CHR '':'') (k @ CHR '':'' # q)" by simp
    then show ?thesis using cut_last_at [OF digits_no_colon] assms(1,2) by simp
  next
    assume "p = []" "q \<noteq> []"
    then show ?thesis using e clash [of h k q] assms by (simp add: port_suffix_def)
  next
    assume "p \<noteq> []" "q = []"
    then show ?thesis using e [symmetric] clash [of k h p] assms by (simp add: port_suffix_def)
  qed (use e in \<open>simp add: port_suffix_def\<close>)
qed simp

lemma plain_host: "\<not> bracketed u \<Longrightarrow> \<exists>r. Host u = Hostname u @ r \<and> valid_optional_port r"
proof -
  assume "\<not> bracketed u"
  then have nb: "\<not> has_prefix (Host u) ''[''" by (simp add: bracketed_def)
  obtain h p r where hp: "(case cut_last (CHR '':'') (Host u) of
          Some (h, p) \<Rightarrow> if list_all is_digit p then (h, p) else (Host u, []) | None \<Rightarrow> (Host u, [])) = (h, p)"
    "Host u = h @ r" "valid_optional_port r"
  proof (cases "cut_last (CHR '':'') (Host u)")
    case None
    then show ?thesis using that [of "Host u" "[]" "[]"] by (simp add: valid_optional_port_def)
  next
    case (Some ab)
    obtain a b where ab: "ab = (a, b)" by (cases ab)
    have "Host u = a @ CHR '':'' # b" using Some ab cut_last_Some by blast
    then show ?thesis using Some ab that [of a b "CHR '':'' # b"] that [of "Host u" "[]" "[]"]
      by (cases "list_all is_digit b") (simp_all add: valid_optional_port_def)
  qed
  have "\<not> has_prefix h ''[''" using nb hp(2) by (cases h) (auto simp: has_prefix_def)
  then have "Hostname u = h" using hp(1) by (simp add: Hostname_def split_host_port_def)
  then show ?thesis using hp(2,3) by blast
qed

lemma origin_host_inject:
  "origin_host u = origin_host v \<longleftrightarrow> bracketed u = bracketed v \<and> to_lower (Hostname u) = to_lower (Hostname v)"
proof -
  have no: "to_lower (Hostname w) \<noteq> ''['' @ h @ '']''" if nb: "\<not> bracketed w" for w h
  proof
    assume e: "to_lower (Hostname w) = ''['' @ h @ '']''"
    then obtain c s where s: "Hostname w = c # s" "lower_char c = CHR ''[''" by (cases "Hostname w") auto
    have c: "c = CHR ''[''" using s(2) lower_char_eq [OF marks_not_letters(3,4), of c] by blast
    obtain r where "Host w = Hostname w @ r" using plain_host [OF nb] by blast
    then have "has_prefix (Host w) ''[''" using s(1) c by (simp add: has_prefix_def)
    then show False using nb by (simp add: bracketed_def)
  qed
  show ?thesis
  proof (cases "bracketed u = bracketed v")
    case True
    then show ?thesis by (simp add: origin_host_def Let_def)
  next
    case False
    then show ?thesis using no [of u "to_lower (Hostname v)"] no [of v "to_lower (Hostname u)", THEN not_sym]
      by (cases "bracketed u") (simp_all add: origin_host_def Let_def)
  qed
qed

lemma origin_host_end: "usable_origin u \<Longrightarrow>
    CHR '':'' \<notin> set (origin_host u) \<or> (origin_host u \<noteq> [] \<and> last (origin_host u) = CHR '']'')"
  by (auto simp: usable_origin_def origin_host_def Let_def)

text \<open>C9. Two URLs have the same origin exactly when both have a usable one, their schemes agree, their
  host names agree up to letter case, both or neither are bracketed addresses, and their ports
  agree once the scheme's default is filled in; nothing else (path, query, userinfo) matters.\<close>

theorem SameOrigin_spec:
  "SameOrigin a b = (case (parse_url a, parse_url b) of
     (Some u, Some v) \<Rightarrow> usable_origin u \<and> usable_origin v \<and> Scheme u = Scheme v
        \<and> to_lower (Hostname u) = to_lower (Hostname v) \<and> bracketed u = bracketed v
        \<and> effective_port u = effective_port v
   | _ \<Rightarrow> False)"
proof (cases "parse_url a")
  case None
  then show ?thesis by (simp add: SameOrigin_def originOf_unparsed)
next
  case u: (Some u)
  show ?thesis
  proof (cases "parse_url b")
    case None
    then show ?thesis using u by (simp add: SameOrigin_def originOf_unparsed Let_def)
  next
    case v: (Some v)
    have "Scheme u @ ''://'' @ (origin_host u @ port_suffix (effective_port u))
        = Scheme v @ ''://'' @ (origin_host v @ port_suffix (effective_port v))
      \<longleftrightarrow> Scheme u = Scheme v \<and> origin_host u @ port_suffix (effective_port u)
        = origin_host v @ port_suffix (effective_port v)"
      by (intro origin_inject parse_url_scheme [OF u] parse_url_scheme [OF v])
    moreover have "usable_origin u \<Longrightarrow> usable_origin v \<Longrightarrow>
        origin_host u @ port_suffix (effective_port u) = origin_host v @ port_suffix (effective_port v)
        \<longleftrightarrow> origin_host u = origin_host v \<and> effective_port u = effective_port v"
      by (intro port_suffix_inject effective_port_digits origin_host_end)
    ultimately show ?thesis using u v
      by (auto simp: SameOrigin_def originOf_parsed [OF u] originOf_parsed [OF v] Let_def origin_host_inject
          simp del: append.simps)
  qed
qed

section \<open>Origins are URLs\<close>

lemma host_char_plain: "host_char c \<Longrightarrow> c \<notin> set ''/?#@'' \<and> \<not> is_ctl c"
proof -
  assume h: "host_char c"
  have "\<forall>x\<in>set ''/?#@''. \<not> host_char x" by code_simp
  moreover have "\<not> is_ctl c"
  proof
    assume "is_ctl c"
    then have "byte_at c \<in> set (127 # [0..<32])" by (auto simp: is_ctl_def)
    moreover have "list_all (\<lambda>n. \<not> host_char (char_of n)) (127 # [0..<32])" by code_simp
    ultimately have "\<not> host_char (char_of (byte_at c))" by (metis list_all_iff)
    then show False using h by simp
  qed
  ultimately show ?thesis using h by blast
qed

lemma host_char_lower: "host_char c \<Longrightarrow> host_char (lower_char c)"
proof (cases "is_upper c")
  case True
  then have "is_lower (lower_char c)" by (simp add: letters_lower)
  then show ?thesis by (simp add: host_char_def should_escape_def is_alnum_def)
qed (simp add: lower_char_def)

lemma host_char_digit: "is_digit c \<Longrightarrow> host_char c"
  by (simp add: host_char_def should_escape_def is_alnum_def)

lemma host_char_marks: "host_char (CHR '':'')" "host_char (CHR ''['')" "host_char (CHR '']'')"
  by code_simp+

lemma port_suffix_chars: "list_all is_digit p \<Longrightarrow> list_all host_char (port_suffix p)"
  using host_char_digit host_char_marks(1) by (auto simp: port_suffix_def list_all_iff)

lemma valid_port_suffix: "list_all is_digit p \<Longrightarrow> valid_optional_port (port_suffix p)"
  by (simp add: port_suffix_def valid_optional_port_def)

lemma after_last_at: "c \<notin> set t \<Longrightarrow> after_last c (s @ c # t) = Some t"
proof -
  assume "c \<notin> set t"
  then have "\<And>x. x \<in> set (rev t) \<Longrightarrow> x \<noteq> c" by auto
  then have "takeWhile (\<lambda>x. x \<noteq> c) (rev t @ c # rev s) = rev t" by (subst takeWhile_append2) auto
  then show ?thesis by (simp add: after_last_def)
qed

text \<open>What is left to show of a host: its own shape.\<close>

definition origin_shape :: "string \<Rightarrow> string \<Rightarrow> bool \<Rightarrow> string \<Rightarrow> bool" where
  "origin_shape k h b p = (clean_host k \<and> split_host_port k = (h, p) \<and> has_prefix k ''['' = b)"

lemma has_prefix_mem: "has_prefix s [c] \<Longrightarrow> c \<in> set s"
  by (cases s) (auto simp: has_prefix_def)

lemma plain_origin_host:
  assumes "parse_url raw = Some u" "usable_origin u" "\<not> bracketed u"
    and "CHR ''%'' \<notin> set (Hostname u)" "Hostname u \<noteq> []" "list_all is_digit p"
  shows "origin_shape (to_lower (Hostname u) @ port_suffix p) (to_lower (Hostname u)) False p"
proof -
  let ?h = "to_lower (Hostname u)"
  obtain r where r: "Host u = Hostname u @ r" "valid_optional_port r" using plain_host [OF assms(3)] by blast
  have "CHR ''%'' \<notin> set (Host u)" using r valid_port_chars [OF r(2)] assms(4) marks_not_letters by fastforce
  moreover obtain h where "parseHost h = Some (Host u)"
    using parse_url_parts(3) [OF assms(1)] assms(2) by (auto simp: usable_origin_def)
  ultimately have "list_all host_char (Host u)" "CHR ''['' \<notin> set (Host u)"
    using parse_host_plain assms(3) by (auto simp: bracketed_def)
  then have h: "list_all host_char ?h" "CHR ''['' \<notin> set ?h" using r(1) host_char_lower
    by (auto simp: to_lower_def list_all_iff) (metis in_to_lower_marks(2) image_eqI image_set to_lower_def)
  have pct: "CHR ''%'' \<notin> set ?h" using assms(4) by simp
  have colon: "CHR '':'' \<notin> set ?h" using assms(2,3) by (simp add: usable_origin_def)
  let ?k = "?h @ port_suffix p"
  have k: "list_all host_char ?k" using h(1) port_suffix_chars [OF assms(6)] by simp
  have marks: "CHR ''%'' \<notin> set ?k" "CHR ''['' \<notin> set ?k"
    using pct h(2) assms(6) marks_not_letters(11,12) by (auto simp: port_suffix_def list_all_iff)
  have "case after_last (CHR '':'') ?k of None \<Rightarrow> True | Some p \<Rightarrow> list_all is_digit p"
  proof (cases "p = []")
    case True
    then show ?thesis using colon by (simp add: port_suffix_def after_last_def)
  next
    case False
    then show ?thesis using after_last_at [OF digits_no_colon [OF assms(6)], of ?h] assms(6)
      by (simp add: port_suffix_def)
  qed
  then have "clean_host ?k" using k marks assms(5) host_char_plain
    by (auto simp: clean_host_def parseHost_plain list_all_iff)
  moreover have pre: "\<not> has_prefix ?h ''[''"
    using h(2) has_prefix_mem by blast
  then have "split_host_port ?k = (?h, p)" using assms(6) colon
    by (cases "p = []") (auto simp: port_suffix_def split_plain split_plain_port [simplified])
  moreover have "\<not> has_prefix ?k ''[''" using marks(2) has_prefix_mem by blast
  ultimately show ?thesis by (simp add: origin_shape_def)
qed

lemma bracketed_origin_host:
  assumes "parse_url raw = Some u" "usable_origin u" "bracketed u" "list_all is_digit p"
  shows "origin_shape (''['' @ to_lower (Hostname u) @ '']'' @ port_suffix p) (to_lower (Hostname u)) True p"
proof -
  obtain h where h: "parseHost h = Some (Host u)"
    using parse_url_parts(3) [OF assms(1)] assms(2) by (auto simp: usable_origin_def)
  obtain n q where nq: "Host u = ''['' @ n @ '']'' @ q" "valid_optional_port q"
    "CHR ''%'' \<notin> set n \<longrightarrow> bracketed_host n q"
    using parse_host_bracketed [OF h assms(3) [unfolded bracketed_def]] by blast
  have n: "Hostname u = n"
  proof (cases q)
    case Nil
    then show ?thesis using nq(1) split_bracketed [of n] by (simp add: Hostname_def)
  next
    case (Cons c ds)
    then have "Host u = ''['' @ n @ '']'' @ '':'' @ ds" "list_all is_digit ds"
      using nq(1,2) by (simp_all add: valid_optional_port_def)
    then show ?thesis using split_bracketed_port [of ds n] by (simp add: Hostname_def del: append.simps)
  qed
  have b: "bracketed_host n q" using nq(3) assms(2,3) n by (simp add: usable_origin_def)
  let ?n = "to_lower n"
  have chars: "list_all host_char ?n" using b host_char_lower by (auto simp: bracketed_host_def to_lower_def list_all_iff)
  have "bracketed_host ?n (port_suffix p)"
    using b chars valid_port_suffix [OF assms(4)] ParseAddr_lower [of n] by (auto simp: bracketed_host_def)
  note ok = parseHost_bracketed [OF this]
  let ?k = "''['' @ ?n @ '']'' @ port_suffix p"
  have "list_all host_char ?k" using chars port_suffix_chars [OF assms(4)] host_char_marks by simp
  then have "clean_host ?k" using ok host_char_plain by (auto simp: clean_host_def list_all_iff)
  moreover have "split_host_port ?k = (?n, p)"
    using assms(4) split_bracketed [of ?n] split_bracketed_port [of p ?n]
    by (cases "p = []") (simp_all add: port_suffix_def)
  moreover have "has_prefix ?k ''[''" by (auto simp: has_prefix_def)
  ultimately show ?thesis using n by (simp add: origin_shape_def)
qed

lemma origin_host_shape:
  assumes "parse_url raw = Some u" "usable_origin u" "CHR ''%'' \<notin> set (Hostname u)" "Hostname u \<noteq> []" "list_all is_digit p"
  shows "origin_shape (origin_host u @ port_suffix p) (to_lower (Hostname u)) (bracketed u) p"
  using assms plain_origin_host [OF assms(1,2) _ assms(3,4,5)] bracketed_origin_host [OF assms(1,2) _ assms(5)]
  by (cases "bracketed u") (simp_all add: origin_host_def Let_def)

lemma parse_shape:
  assumes "parse_url raw = Some u" "Scheme u \<noteq> []" "origin_shape k h b p"
  shows "parse_url (Scheme u @ ''://'' @ k) = Some (empty_url\<lparr>Scheme := Scheme u, Host := k\<rparr>)"
  using assms(3) parse_origin [OF parse_url_parts(1) [OF assms(1)] assms(2) parse_url_parts(2) [OF assms(1)]]
  by (simp add: origin_shape_def)

text \<open>A URL that is a scheme and the host of an origin has that origin.\<close>

lemma same_origin_shape:
  assumes u: "parse_url raw = Some u" "usable_origin u" "Scheme u \<noteq> []"
    and shape: "origin_shape k (to_lower (Hostname u)) (bracketed u) p"
    and port: "effective_port u = (if p = [] then defaultPortForScheme (Scheme u) else p)"
  shows "originOf (Scheme u @ ''://'' @ k) = originOf raw"
proof -
  let ?v = "empty_url\<lparr>Scheme := Scheme u, Host := k\<rparr>"
  have v: "parse_url (Scheme u @ ''://'' @ k) = Some ?v" using u(1,3) shape by (rule parse_shape)
  have s: "k \<noteq> []" "split_host_port k = (to_lower (Hostname u), p)" "has_prefix k ''['' = bracketed u"
    using shape by (auto simp: origin_shape_def clean_host_def)
  have fields: "Host ?v = k" "Scheme ?v = Scheme u" by simp_all
  have "Hostname ?v = to_lower (Hostname u)" "Port ?v = p" "bracketed ?v = bracketed u"
    using s(2,3) by (simp_all add: Hostname_def Port_def bracketed_def)
  moreover from this have "usable_origin ?v" using u(2) s(1) by (simp add: usable_origin_def)
  ultimately show ?thesis using u(2) port unfolding originOf_parsed [OF v] originOf_parsed [OF u(1)]
    by (simp add: origin_host_def effective_port_def Let_def)
qed

text \<open>An origin is a URL of its own origin: for a URL with a scheme and a host name without a percent
  sign, what \<^verbatim>\<open>originOf\<close> prints is parsed again, into the same scheme and nothing but a
  host, and has the same origin; so comparing with a printed origin is comparing with the URL it
  was printed for.\<close>

theorem originOf_reparses:
  assumes "parse_url raw = Some u" "originOf raw \<noteq> []" "Scheme u \<noteq> []"
    and "CHR ''%'' \<notin> set (Hostname u)" "Hostname u \<noteq> []"
  shows "(\<exists>k. parse_url (originOf raw) = Some (empty_url\<lparr>Scheme := Scheme u, Host := k\<rparr>))
    \<and> originOf (originOf raw) = originOf raw \<and> SameOrigin b (originOf raw) = SameOrigin b raw"
proof -
  have u: "usable_origin u" using assms(2) by (simp add: originOf_parsed [OF assms(1)] split: if_splits)
  note shape = origin_host_shape [OF assms(1) u assms(4,5) effective_port_digits [of u]]
  have o: "originOf raw = Scheme u @ ''://'' @ origin_host u @ port_suffix (effective_port u)"
    using u by (simp add: originOf_parsed [OF assms(1)])
  have "originOf (Scheme u @ ''://'' @ origin_host u @ port_suffix (effective_port u)) = originOf raw"
    using assms(1) u assms(3) shape by (rule same_origin_shape) (simp add: effective_port_def)
  moreover have "\<exists>k. parse_url (Scheme u @ ''://'' @ origin_host u @ port_suffix (effective_port u))
      = Some (empty_url\<lparr>Scheme := Scheme u, Host := k\<rparr>)"
    using parse_shape [OF assms(1,3) shape] by blast
  ultimately show ?thesis by (simp add: o SameOrigin_def)
qed

lemma originOf_reparses_witness:
  "\<exists>u :: url. (\<exists>k. parse_url (originOf ''HTTPS://u:p@[FE80::1]/x?y'') = Some (empty_url\<lparr>Scheme := Scheme u, Host := k\<rparr>))
    \<and> originOf (originOf ''HTTPS://u:p@[FE80::1]/x?y'') = originOf ''HTTPS://u:p@[FE80::1]/x?y''
    \<and> SameOrigin ''https://[fe80::1]:443/z'' (originOf ''HTTPS://u:p@[FE80::1]/x?y'')
      = SameOrigin ''https://[fe80::1]:443/z'' ''HTTPS://u:p@[FE80::1]/x?y''"
proof -
  let ?raw = "''HTTPS://u:p@[FE80::1]/x?y''"
  have "parse_url ?raw \<noteq> None" by code_simp
  then obtain u where u: "parse_url ?raw = Some u" by auto
  have f: "map_option (\<lambda>u. (Scheme u \<noteq> [], CHR ''%'' \<notin> set (Hostname u), Hostname u \<noteq> [])) (parse_url ?raw)
      = Some (True, True, True)" by code_simp
  have "originOf ?raw \<noteq> []" by code_simp
  then show ?thesis using originOf_reparses [OF u] f u by (intro exI [of _ u]) simp
qed

section \<open>Canonical origins\<close>

lemma trim_port_suffix:
  assumes "list_all is_digit p" "list_all is_digit q" "p \<noteq> []" "q \<noteq> []"
  shows "trim_suffix (h @ port_suffix p) ('':'' @ q) = h @ port_suffix (if p = q then [] else p)"
proof (cases "p = q")
  case True
  then show ?thesis using assms(4) trim_suffix_append [of h "'':'' @ q"] by (simp add: port_suffix_def)
next
  case False
  have "\<not> has_suffix (h @ port_suffix p) ('':'' @ q)"
  proof
    assume "has_suffix (h @ port_suffix p) ('':'' @ q)"
    then obtain r where "h @ CHR '':'' # p = r @ CHR '':'' # q"
      using assms(3) by (auto simp: has_suffix_iff port_suffix_def)
    then have "cut_last (CHR '':'') (h @ CHR '':'' # p) = cut_last (CHR '':'') (r @ CHR '':'' # q)" by simp
    then show False using False cut_last_at [OF digits_no_colon] assms(1,2) by simp
  qed
  then show ?thesis using False by (simp add: trim_suffix_def)
qed

definition http_origin :: "url \<Rightarrow> bool" where
  "http_origin u = (Scheme u \<in> {''http'', ''https''} \<and> usable_origin u)"

definition display_port :: "url \<Rightarrow> string" where
  "display_port u = (if effective_port u = defaultPortForScheme (Scheme u) then [] else effective_port u)"

lemma default_port: "Scheme u \<in> {''http'', ''https''} \<Longrightarrow> defaultPortForScheme (Scheme u) \<noteq> []"
  "list_all is_digit (defaultPortForScheme s)"
proof -
  have "defaultPortForScheme ''http'' \<noteq> []" "defaultPortForScheme ''https'' \<noteq> []" by code_simp+
  then show "Scheme u \<in> {''http'', ''https''} \<Longrightarrow> defaultPortForScheme (Scheme u) \<noteq> []" by auto
  show "list_all is_digit (defaultPortForScheme s)"
    using effective_port_digits [of "empty_url\<lparr>Scheme := s\<rparr>"]
    by (simp add: effective_port_def Port_def empty_url_def split_host_port_def cut_last_def has_prefix_def)
qed

lemma http_port: "http_origin u \<Longrightarrow> effective_port u \<noteq> []"
  using default_port(1) by (auto simp: http_origin_def effective_port_def)

lemma CanonicalOrigin_parsed:
  assumes "parse_url raw = Some u"
  shows "CanonicalOrigin raw = (if http_origin u
     then Scheme u @ ''://'' @ origin_host u @ port_suffix (display_port u) else [])"
proof (cases "http_origin u")
  case True
  let ?h = "Scheme u @ ''://'' @ origin_host u"
  have "trim_suffix (?h @ port_suffix (effective_port u)) ('':'' @ defaultPortForScheme (Scheme u))
      = ?h @ port_suffix (display_port u)"
    using trim_port_suffix [OF effective_port_digits default_port(2) http_port [OF True]] default_port(1) True
    unfolding display_port_def http_origin_def by blast
  moreover have "Host u \<noteq> []" using True by (simp add: http_origin_def usable_origin_def)
  ultimately show ?thesis using True assms default_port(1) [of u] parse_url_parts(2) [OF assms]
    by (auto simp: CanonicalOrigin_def originOf_parsed [OF assms] http_origin_def Let_def)
next
  case False
  have "trim_suffix [] t = []" for t by (simp add: trim_suffix_def)
  then show ?thesis using False assms
    by (auto simp: CanonicalOrigin_def originOf_parsed [OF assms] http_origin_def usable_origin_def Let_def)
qed

lemma CanonicalOrigin_unparsed: "parse_url raw = None \<Longrightarrow> CanonicalOrigin raw = []"
  by (simp add: CanonicalOrigin_def)

lemma display_port_inject:
  "http_origin u \<Longrightarrow> http_origin v \<Longrightarrow> Scheme u = Scheme v \<Longrightarrow>
    display_port u = display_port v \<longleftrightarrow> effective_port u = effective_port v"
  using http_port [of u] http_port [of v] by (auto simp: display_port_def)

lemma CanonicalOrigin_same:
  assumes "CanonicalOrigin raw \<noteq> []"
  shows "CanonicalOrigin b = CanonicalOrigin raw \<longleftrightarrow> SameOrigin b raw"
proof (cases "parse_url raw")
  case None
  then show ?thesis using assms by (simp add: CanonicalOrigin_unparsed)
next
  case u: (Some u)
  have hu: "http_origin u" using assms by (simp add: CanonicalOrigin_parsed [OF u] split: if_splits)
  show ?thesis
  proof (cases "parse_url b")
    case None
    then show ?thesis using assms by (simp add: CanonicalOrigin_unparsed SameOrigin_spec)
  next
    case v: (Some v)
    show ?thesis
    proof (cases "http_origin v")
      case False
      then have "CanonicalOrigin b = []" by (simp add: CanonicalOrigin_parsed [OF v])
      then show ?thesis using assms False hu u v by (auto simp: SameOrigin_spec http_origin_def)
    next
      case hv: True
      have "Scheme v @ ''://'' @ (origin_host v @ port_suffix (display_port v))
          = Scheme u @ ''://'' @ (origin_host u @ port_suffix (display_port u))
        \<longleftrightarrow> Scheme v = Scheme u \<and> origin_host v @ port_suffix (display_port v)
          = origin_host u @ port_suffix (display_port u)"
        by (intro origin_inject parse_url_scheme [OF u] parse_url_scheme [OF v])
      moreover have "list_all is_digit (display_port w)" for w
        using effective_port_digits by (simp add: display_port_def)
      then have "origin_host v @ port_suffix (display_port v) = origin_host u @ port_suffix (display_port u)
        \<longleftrightarrow> origin_host v = origin_host u \<and> display_port v = display_port u"
        using hu hv by (intro port_suffix_inject origin_host_end) (auto simp: http_origin_def)
      ultimately have "CanonicalOrigin b = CanonicalOrigin raw \<longleftrightarrow>
          Scheme v = Scheme u \<and> origin_host v = origin_host u \<and> display_port v = display_port u"
        using hu hv by (simp add: CanonicalOrigin_parsed [OF u] CanonicalOrigin_parsed [OF v] del: append.simps)
      then show ?thesis using hu hv display_port_inject [OF hv hu] u v
        by (auto simp: SameOrigin_spec origin_host_inject http_origin_def)
    qed
  qed
qed

text \<open>A canonical origin stands for its origin: two URLs have the same canonical origin exactly when
  they have the same origin, and (for a host name that is not empty and has no percent sign) the
  canonical origin is itself a URL of that origin, with itself as canonical origin, and carries no
  default port.\<close>

theorem CanonicalOrigin_spec:
  assumes "parse_url raw = Some u" "CanonicalOrigin raw \<noteq> []"
    and "CHR ''%'' \<notin> set (Hostname u)" "Hostname u \<noteq> []"
  shows "(CanonicalOrigin b = CanonicalOrigin raw \<longleftrightarrow> SameOrigin b raw)
    \<and> SameOrigin (CanonicalOrigin raw) raw \<and> CanonicalOrigin (CanonicalOrigin raw) = CanonicalOrigin raw
    \<and> \<not> has_suffix (CanonicalOrigin raw) ('':'' @ defaultPortForScheme (Scheme u))"
proof -
  have h: "http_origin u" using assms(2) by (simp add: CanonicalOrigin_parsed [OF assms(1)] split: if_splits)
  then have u: "usable_origin u" "Scheme u \<noteq> []" by (auto simp: http_origin_def)
  have d: "list_all is_digit (display_port u)" using effective_port_digits by (simp add: display_port_def)
  note shape = origin_host_shape [OF assms(1) u(1) assms(3,4) d]
  have c: "CanonicalOrigin raw = Scheme u @ ''://'' @ origin_host u @ port_suffix (display_port u)"
    using h by (simp add: CanonicalOrigin_parsed [OF assms(1)])
  have "originOf (CanonicalOrigin raw) = originOf raw" unfolding c
    using assms(1) u shape by (rule same_origin_shape) (use http_port [OF h] in \<open>simp add: display_port_def\<close>)
  moreover have "originOf raw \<noteq> []" using u by (simp add: originOf_parsed [OF assms(1)])
  ultimately have same: "SameOrigin (CanonicalOrigin raw) raw" by (simp add: SameOrigin_def)
  have "\<not> has_suffix (CanonicalOrigin raw) ('':'' @ defaultPortForScheme (Scheme u))"
  proof
    assume "has_suffix (CanonicalOrigin raw) ('':'' @ defaultPortForScheme (Scheme u))"
    then obtain r where r: "CanonicalOrigin raw = r @ CHR '':'' # defaultPortForScheme (Scheme u)"
      by (auto simp: has_suffix_iff)
    show False
    proof (cases "display_port u = []")
      case False
      then have "cut_last (CHR '':'') ((Scheme u @ ''://'' @ origin_host u) @ CHR '':'' # display_port u)
          = cut_last (CHR '':'') (r @ CHR '':'' # defaultPortForScheme (Scheme u))"
        using r c by (simp add: port_suffix_def)
      then have "display_port u = defaultPortForScheme (Scheme u)"
        unfolding cut_last_at [OF digits_no_colon [OF d]] cut_last_at [OF digits_no_colon [OF default_port(2)]]
        by blast
      then show False using False by (simp add: display_port_def split: if_splits)
    next
      case True
      have k: "origin_host u \<noteq> []" using assms(4) by (simp add: origin_host_def Let_def)
      have l: "last (CanonicalOrigin raw) = last (defaultPortForScheme (Scheme u))" "is_digit (last (CanonicalOrigin raw))"
        using r default_port(1) [of u] default_port(2) [of "Scheme u"] h
        by (auto simp: http_origin_def list_all_iff)
      have e: "CanonicalOrigin raw = Scheme u @ ''://'' @ origin_host u" using c True by (simp add: port_suffix_def)
      have "last (origin_host u) \<noteq> CHR '']''" using l(2) e k marks_not_letters(10) by auto
      then have nc: "CHR '':'' \<notin> set (origin_host u)" using origin_host_end [OF u(1)] by blast
      have "cut_last (CHR '':'') ((Scheme u) @ CHR '':'' # (''//'' @ origin_host u)) = Some (Scheme u, ''//'' @ origin_host u)"
        using nc by (intro cut_last_at) simp
      moreover have "Scheme u @ CHR '':'' # (''//'' @ origin_host u) = r @ CHR '':'' # defaultPortForScheme (Scheme u)"
        using r e by simp
      ultimately have "''//'' @ origin_host u = defaultPortForScheme (Scheme u)"
        using cut_last_at [OF digits_no_colon [OF default_port(2)], of r "Scheme u"] by simp
      moreover have "\<not> is_digit (CHR ''/'')" by code_simp
      ultimately show False using default_port(2) [of "Scheme u"] by (metis append_Cons list.pred_inject(2))
    qed
  qed
  moreover have "CanonicalOrigin (CanonicalOrigin raw) = CanonicalOrigin raw"
    using CanonicalOrigin_same [OF assms(2)] same by blast
  ultimately show ?thesis using CanonicalOrigin_same [OF assms(2)] same by blast
qed

lemma CanonicalOrigin_spec_witness:
  "SameOrigin (CanonicalOrigin ''HTTP://Ex.com:80/a'') ''HTTP://Ex.com:80/a''
    \<and> CanonicalOrigin (CanonicalOrigin ''HTTP://Ex.com:80/a'') = CanonicalOrigin ''HTTP://Ex.com:80/a''"
proof -
  let ?raw = "''HTTP://Ex.com:80/a''"
  have "parse_url ?raw \<noteq> None" by code_simp
  then obtain u where u: "parse_url ?raw = Some u" by auto
  have f: "map_option (\<lambda>u. (CHR ''%'' \<notin> set (Hostname u), Hostname u \<noteq> [])) (parse_url ?raw)
      = Some (True, True)" by code_simp
  have "CanonicalOrigin ?raw \<noteq> []" by code_simp
  from CanonicalOrigin_spec [OF u this] show ?thesis using f u by simp
qed

subsection \<open>Where the hypotheses are needed\<close>

text \<open>A host with an escaped percent sign is printed unescaped: the printed origin does not parse, or
  is the origin of another host.\<close>

lemma originOf_percent:
  "originOf ''http://a%25/'' = ''http://a%:80''" "originOf ''http://a%:80'' = []"
  "originOf ''http://a%25e4/'' = ''http://a%e4:80''"
  "\<not> SameOrigin ''http://a%25e4/'' (originOf ''http://a%25e4/'')"
  "SameOrigin ''http://a%E4/'' (originOf ''http://a%25e4/'')"
  by code_simp+

text \<open>Without a scheme, or without a host name, what is printed is not a URL with a host.\<close>

lemma originOf_no_scheme: "originOf ''//h/x'' = ''://h''" "originOf ''://h'' = []"
  by code_simp+

lemma CanonicalOrigin_no_host: "CanonicalOrigin ''http://:80/x'' = ''http://''" "CanonicalOrigin ''http://'' = []"
  by code_simp+

end
