(* ===== verification/Probe_Rest.thy ===== *)
theory Probe_Rest
  imports Probe_Http Go_Json Go_Query
begin

text \<open>
  The OPTIONS, schema and WSDL probes: \<^verbatim>\<open>pkg/probe/options.go\<close>, \<^verbatim>\<open>schema.go\<close> and
  \<^verbatim>\<open>wsdl.go\<close>. A schema, in Go a map from strings to anything, has three shapes.
\<close>

datatype jschema = SType string | SObject "(string \<times> jschema) list" | SArray "jschema option"

type_synonym endpoint = "jschema ClassifiedRequest"

section \<open>OPTIONS\<close>

definition parseAllowHeader :: "string \<Rightarrow> string list" where
  "parseAllowHeader header =
     (if header = [] then []
      else map to_upper (filter (\<lambda>m. m \<noteq> []) (map trim_space (split_on (CHR '','') header))))"

definition options_probeURL :: "probe_config \<Rightarrow> string \<Rightarrow> http_log \<Rightarrow> http_log \<times> string list option" where
  "options_probeURL cfg url log =
     (if \<not> valid_url cfg url then (log, None)
      else (case send cfg ''OPTIONS'' url [] [] log of
          (log', None) \<Rightarrow> (log', None)
        | (log', Some resp) \<Rightarrow>
            if Status resp \<ge> 400 then (log', None)
            else let methods = parseAllowHeader (header_get resp ''Allow'')
                 in (log', if length methods > 0 then Some methods else None)))"

definition set_methods :: "string list \<Rightarrow> endpoint \<Rightarrow> endpoint" where
  "set_methods methods ep = ep\<lparr>AllowedMethods := methods\<rparr>"

definition url_key :: "endpoint \<Rightarrow> string option" where
  "url_key ep = Some (URL ep)"

definition options_Probe :: "probe_config \<Rightarrow> http_log \<Rightarrow> endpoint list \<Rightarrow> http_log \<times> (string + endpoint list)" where
  "options_Probe cfg = loop_probe url_key url_key (MaxEndpoints cfg) (options_probeURL cfg) set_methods"

definition NewOptionsProbe :: "http_env \<Rightarrow> probe_config \<Rightarrow> endpoint strategy" where
  "NewOptionsProbe env cfg = \<lparr>StrategyName = ''options'', StrategyProbe = options_Probe (withDefaults env cfg)\<rparr>"

section \<open>Schemas\<close>

definition maxSchemaBodySize :: nat where "maxSchemaBodySize = 2 ^ 20"
definition maxSchemaDepth :: nat where "maxSchemaDepth = 64"
definition maxSchemaProperties :: nat where "maxSchemaProperties = 200"

fun inferSchemaDepth :: "json \<Rightarrow> nat \<Rightarrow> jschema"
  and infer_props :: "(string \<times> json) list \<Rightarrow> nat \<Rightarrow> (string, jschema) gomap \<Rightarrow> (string, jschema) gomap" where
  "inferSchemaDepth v depth =
     (if depth > maxSchemaDepth then SType ''unknown''
      else (case v of
          JObj m \<Rightarrow> SObject (infer_props m depth [])
        | JArr [] \<Rightarrow> SArray None
        | JArr (x # _) \<Rightarrow> SArray (Some (inferSchemaDepth x (depth + 1)))
        | JStr _ \<Rightarrow> SType ''string''
        | JNum _ \<Rightarrow> SType ''number''
        | JBool _ \<Rightarrow> SType ''boolean''
        | JNull \<Rightarrow> SType ''null''))"
| "infer_props [] depth props = props"
| "infer_props ((k, child) # m) depth props =
     (if length props \<ge> maxSchemaProperties then props
      else infer_props m depth (map_put k (inferSchemaDepth child (depth + 1)) props))"

declare inferSchemaDepth.simps [simp del]

definition inferSchema :: "json \<Rightarrow> jschema" where
  "inferSchema v = inferSchemaDepth v 0"

definition isJSONContentType :: "string \<Rightarrow> bool" where
  "isJSONContentType ct =
     (let ct = to_lower ct;
          ct = (case cut (CHR '';'') ct of (a, Some _) \<Rightarrow> trim_space a | (_, None) \<Rightarrow> ct)
      in has_suffix ct ''/json'' \<or> has_suffix ct ''+json'')"

definition schema_probeURL :: "probe_config \<Rightarrow> string \<Rightarrow> http_log \<Rightarrow> http_log \<times> jschema option" where
  "schema_probeURL cfg url log =
     (if \<not> valid_url cfg url then (log, None)
      else (case send cfg ''GET'' url [] [] log of
          (log', None) \<Rightarrow> (log', None)
        | (log', Some resp) \<Rightarrow>
            (log',
             if Status resp \<ge> 400 then None
             else if \<not> isJSONContentType (header_get resp ''Content-Type'') then None
             else (case BodyRead resp of None \<Rightarrow> None
               | Some body \<Rightarrow> map_option inferSchema (unmarshal (take maxSchemaBodySize body))))))"

definition json_url_key :: "endpoint \<Rightarrow> string option" where
  "json_url_key ep = (if \<not> isJSONContentType (ContentType (Response ep)) then None else Some (URL ep))"

definition set_schema :: "jschema \<Rightarrow> endpoint \<Rightarrow> endpoint" where
  "set_schema schema ep = ep\<lparr>ResponseSchema := Some schema\<rparr>"

definition schema_Probe :: "probe_config \<Rightarrow> http_log \<Rightarrow> endpoint list \<Rightarrow> http_log \<times> (string + endpoint list)" where
  "schema_Probe cfg = loop_probe json_url_key url_key (MaxEndpoints cfg) (schema_probeURL cfg) set_schema"

definition NewSchemaProbe :: "http_env \<Rightarrow> probe_config \<Rightarrow> endpoint strategy" where
  "NewSchemaProbe env cfg = \<lparr>StrategyName = ''schema'', StrategyProbe = schema_Probe (withDefaults env cfg)\<rparr>"

section \<open>WSDL\<close>

definition maxWSDLBodySize :: nat where "maxWSDLBodySize = 2 * 2 ^ 20"

definition stripWSDLSuffix :: "string \<Rightarrow> string" where
  "stripWSDLSuffix raw =
     (case parse_url raw of None \<Rightarrow> raw
      | Some u \<Rightarrow>
          let q = AList.delete ''wsdl'' (parse_query (RawQuery u))
          in url_string (u\<lparr>RawQuery := query_encode q, Path := trim_suffix (Path u) ''/wsdl''\<rparr>))"

definition isWSDLResponse :: "bytes \<Rightarrow> bool" where
  "isWSDLResponse body =
     (contains body ''definitions''
      \<and> (contains body ''schemas.xmlsoap.org/wsdl'' \<or> contains body ''portType'' \<or> contains body ''message''))"

definition fetchWSDL :: "probe_config \<Rightarrow> string \<Rightarrow> http_log \<Rightarrow> http_log \<times> bytes option" where
  "fetchWSDL cfg baseURL log =
     (let wsdlURL = baseURL @ ''?wsdl''
      in if \<not> valid_url cfg wsdlURL then (log, None)
         else (case send cfg ''GET'' wsdlURL [] [] log of
             (log', None) \<Rightarrow> (log', None)
           | (log', Some resp) \<Rightarrow>
               (log',
                if Status resp \<ge> 400 then None
                else (case BodyRead resp of None \<Rightarrow> None
                  | Some b \<Rightarrow> let body = take maxWSDLBodySize b in if \<not> isWSDLResponse body then None else Some body))))"

definition wsdl_key :: "endpoint \<Rightarrow> string option" where
  "wsdl_key ep = (if APIType ep \<noteq> ''wsdl'' then None else Some (stripWSDLSuffix (URL ep)))"

definition set_document :: "bytes \<Rightarrow> endpoint \<Rightarrow> endpoint" where
  "set_document doc ep = ep\<lparr>WSDLDocument := doc\<rparr>"

definition wsdl_Probe :: "probe_config \<Rightarrow> http_log \<Rightarrow> endpoint list \<Rightarrow> http_log \<times> (string + endpoint list)" where
  "wsdl_Probe cfg = loop_probe wsdl_key wsdl_key (MaxEndpoints cfg) (fetchWSDL cfg) set_document"

definition NewWSDLProbe :: "http_env \<Rightarrow> probe_config \<Rightarrow> endpoint strategy" where
  "NewWSDLProbe env cfg = \<lparr>StrategyName = ''wsdl'', StrategyProbe = wsdl_Probe (withDefaults env cfg)\<rparr>"

section \<open>The contract\<close>

text \<open>What no probe may change of an endpoint: the request as captured, and its classification.\<close>

definition captured :: "endpoint \<Rightarrow> ObservedRequest \<times> bool \<times> confidence \<times> string \<times> string" where
  "captured ep = (ObservedRequest.truncate ep, IsAPI ep, Confidence ep, Reason ep, APIType ep)"

lemma captured_set [simp]: "captured (set_methods m ep) = captured ep" "captured (set_schema s ep) = captured ep"
  "captured (set_document d ep) = captured ep"
  by (simp_all add: captured_def set_methods_def set_schema_def set_document_def ObservedRequest.truncate_def)

definition allowed_request :: "probe_config \<Rightarrow> http_request \<Rightarrow> bool" where
  "allowed_request cfg r = valid_url cfg (ReqURL r)"

lemma options_probeURL_sends:
  "options_probeURL cfg url log = (log', r) \<Longrightarrow> sends_only (allowed_request cfg) log log' \<and> length log' \<le> Suc (length log)"
  using sends_only_send [of cfg "''OPTIONS''" url "[]" "[]" log _ _ "allowed_request cfg"]
  by (auto simp: options_probeURL_def allowed_request_def Let_def send_def split: if_splits prod.splits option.splits)

lemma schema_probeURL_sends:
  "schema_probeURL cfg url log = (log', r) \<Longrightarrow> sends_only (allowed_request cfg) log log' \<and> length log' \<le> Suc (length log)"
  using sends_only_send [of cfg "''GET''" url "[]" "[]" log _ _ "allowed_request cfg"]
  by (auto simp: schema_probeURL_def allowed_request_def Let_def send_def split: if_splits prod.splits option.splits)

lemma fetchWSDL_sends:
  "fetchWSDL cfg url log = (log', r) \<Longrightarrow> sends_only (allowed_request cfg) log log' \<and> length log' \<le> Suc (length log)"
  using sends_only_send [of cfg "''GET''" "url @ ''?wsdl''" "[]" "[]" log _ _ "allowed_request cfg"]
  by (auto simp: fetchWSDL_def allowed_request_def Let_def send_def split: if_splits prod.splits option.splits)

interpretation options: probe_strategy "options_Probe cfg" "allowed_request cfg" captured for cfg
  unfolding options_Probe_def by (rule loop_strategy [OF options_probeURL_sends [THEN conjunct1]]) simp_all

interpretation schema: probe_strategy "schema_Probe cfg" "allowed_request cfg" captured for cfg
  unfolding schema_Probe_def by (rule loop_strategy [OF schema_probeURL_sends [THEN conjunct1]]) simp_all

interpretation wsdl_doc: probe_strategy "wsdl_Probe cfg" "allowed_request cfg" captured for cfg
  unfolding wsdl_Probe_def by (rule loop_strategy [OF fetchWSDL_sends [THEN conjunct1]]) simp_all

section \<open>What a schema can be\<close>

text \<open>At most \<open>n\<close> levels of objects and arrays, and at most 200 properties with distinct names in each object.\<close>

fun schema_within :: "nat \<Rightarrow> jschema \<Rightarrow> bool" where
  "schema_within n (SType t) = True"
| "schema_within n (SArray None) = (0 < n)"
| "schema_within n (SArray (Some s)) = (0 < n \<and> schema_within (n - 1) s)"
| "schema_within n (SObject ps) = (0 < n \<and> map_wf ps \<and> length ps \<le> maxSchemaProperties
     \<and> (\<forall>p\<in>set ps. schema_within (n - 1) (snd p)))"

lemma map_put_length: "length (map_put k v m) \<le> Suc (length m)"
  by (induction m) (auto simp: map_put_def)

lemma map_put_mem: "p \<in> set (map_put k v m) \<Longrightarrow> p = (k, v) \<or> p \<in> set m"
  by (induction m) (auto simp: map_put_def split: if_splits)

lemma inferSchemaDepth_within:
  "depth \<le> Suc maxSchemaDepth \<Longrightarrow> schema_within (Suc maxSchemaDepth - depth) (inferSchemaDepth v depth)"
  "map_wf props \<Longrightarrow> length props \<le> maxSchemaProperties \<Longrightarrow> depth \<le> maxSchemaDepth \<Longrightarrow>
    \<forall>p\<in>set props. schema_within (maxSchemaDepth - depth) (snd p) \<Longrightarrow>
    map_wf (infer_props m depth props) \<and> length (infer_props m depth props) \<le> maxSchemaProperties
    \<and> (\<forall>p\<in>set (infer_props m depth props). schema_within (maxSchemaDepth - depth) (snd p))"
proof (induction v depth and m depth props rule: inferSchemaDepth_infer_props.induct)
  case (1 v depth)
  show ?case
  proof (cases "depth > maxSchemaDepth")
    case True
    then show ?thesis by (subst inferSchemaDepth.simps) simp
  next
    case False
    then have s: "Suc maxSchemaDepth - depth = Suc (maxSchemaDepth - depth)" by simp
    show ?thesis
    proof (cases v)
      case (JArr xs)
      show ?thesis
      proof (cases xs)
        case Nil
        then show ?thesis using JArr False s by (subst inferSchemaDepth.simps) simp
      next
        case (Cons x r)
        have "schema_within (Suc maxSchemaDepth - (depth + 1)) (inferSchemaDepth x (depth + 1))"
          using False by (intro "1.IH"(1) [OF False JArr Cons]) simp
        then show ?thesis using JArr Cons False s by (subst inferSchemaDepth.simps) simp
      qed
    next
      case (JObj m)
      have "map_wf (infer_props m depth []) \<and> length (infer_props m depth []) \<le> maxSchemaProperties
          \<and> (\<forall>p\<in>set (infer_props m depth []). schema_within (maxSchemaDepth - depth) (snd p))"
        using False by (intro "1.IH"(2) [OF False JObj]) simp_all
      then show ?thesis using JObj False s by (subst inferSchemaDepth.simps) simp
    qed (use False in \<open>subst inferSchemaDepth.simps, simp\<close>)+
  qed
next
  case (3 k child m depth props)
  show ?case
  proof (cases "length props \<ge> maxSchemaProperties")
    case False
    let ?props = "map_put k (inferSchemaDepth child (depth + 1)) props"
    have "schema_within (maxSchemaDepth - depth) (inferSchemaDepth child (depth + 1))"
      using "3.IH"(1) [OF False] "3.prems"(3) by simp
    then have "\<forall>p\<in>set ?props. schema_within (maxSchemaDepth - depth) (snd p)"
      using "3.prems"(4) map_put_mem by fastforce
    moreover have "length ?props \<le> maxSchemaProperties"
      using False map_put_length [of k "inferSchemaDepth child (depth + 1)" props] by simp
    ultimately show ?thesis using "3.IH"(2) [OF False] "3.prems" False by simp
  qed (use 3 in simp)
qed simp

text \<open>An inferred schema is bounded whatever the server answers: at most 65 levels of objects and
  arrays, and at most 200 properties, with distinct names, in each object.\<close>

theorem inferSchema_bounds: "schema_within (Suc maxSchemaDepth) (inferSchema v)"
  using inferSchemaDepth_within(1) [of 0 v] by (simp add: inferSchema_def)

text \<open>Of a larger object, the first 200 members visited are kept: which ones depends on the order in
  which Go ranges over the map.\<close>

lemma infer_props_keys:
  "distinct (map fst props @ map fst m) \<Longrightarrow> length props \<le> maxSchemaProperties \<Longrightarrow>
    map fst (infer_props m depth props) = take maxSchemaProperties (map fst props @ map fst m)"
proof (induction m arbitrary: props)
  case (Cons kc m)
  obtain k c where kc: "kc = (k, c)" by (cases kc)
  show ?case
  proof (cases "length props \<ge> maxSchemaProperties")
    case True
    then show ?thesis using Cons.prems kc by simp
  next
    case False
    have "k \<notin> set (map fst props)" using Cons.prems(1) kc by auto
    then have p: "map fst (map_put k x props) = map fst props @ [k]" for x
      by (simp add: map_put_def AList.update_keys)
    have "length (map_put k (inferSchemaDepth c (depth + 1)) props) \<le> maxSchemaProperties"
      using False map_put_length [of k "inferSchemaDepth c (depth + 1)" props] by simp
    then show ?thesis using Cons.IH [of "map_put k (inferSchemaDepth c (depth + 1)) props"] Cons.prems(1) False kc p
      by simp
  qed
qed simp

lemma stripWSDL_query:
  "stripWSDLSuffix ''https://x/svc?wsdl&a=1'' = ''https://x/svc?a=1''"
  "fst (fetchWSDL \<lparr>Client = None, ProxyEnabled = False, AuthHeaders = [], URLValidator = None, MaxEndpoints = 1\<rparr>
     ''https://x/svc?a=1'' [])
   = [\<lparr>ReqMethod = ''GET'', ReqURL = ''https://x/svc?a=1?wsdl'', ReqHeaders = [], ReqBody = []\<rparr>]"
  by code_simp+

end
