(* ===== verification/Probe_Graphql.thy ===== *)
theory Probe_Graphql
  imports Probe_Rest Go_Json_Struct
begin

text \<open>
  The GraphQL probe, \<^verbatim>\<open>pkg/probe/graphql.go\<close>: three introspection queries, from the most to the
  least complete, and the parser of the answer. The anonymous structs of the parser are records.
\<close>

section \<open>Queries\<close>

definition maxIntrospectionBodySize :: nat where "maxIntrospectionBodySize = 5 * 2 ^ 20"

text \<open>\<^verbatim>\<open>json.Marshal\<close> of the map with the single key \<^verbatim>\<open>query\<close>, for a text without quotes and
  backslashes: of its characters only the line feed is escaped.\<close>

definition mustMarshalQuery :: "string \<Rightarrow> bytes" where
  "mustMarshalQuery query =
     CHR 0x7B # CHR 0x22 # ''query'' @ [CHR 0x22, CHR '':'', CHR 0x22]
       @ concat (map (\<lambda>c. if c = CHR 0x0A then [CHR 0x5C, CHR ''n''] else [c]) query) @ [CHR 0x22, CHR 0x7D]"

definition introspectionQueryTier1 :: bytes where
  "introspectionQueryTier1 = mustMarshalQuery (join [CHR 0x0A]
     [''query IntrospectionQuery {'',
      ''  __schema {'',
      ''    queryType { name }'',
      ''    mutationType { name }'',
      ''    subscriptionType { name }'',
      ''    types {'',
      ''      ...FullType'',
      ''    }'',
      ''    directives {'',
      ''      name'',
      ''      description'',
      ''      locations'',
      ''      args {'',
      ''        ...InputValue'',
      ''      }'',
      ''    }'',
      ''  }'',
      ''}'',
      '''',
      ''fragment FullType on __Type {'',
      ''  kind'',
      ''  name'',
      ''  description'',
      ''  fields(includeDeprecated: true) {'',
      ''    name'',
      ''    description'',
      ''    args {'',
      ''      ...InputValue'',
      ''    }'',
      ''    type {'',
      ''      ...TypeRef'',
      ''    }'',
      ''    isDeprecated'',
      ''    deprecationReason'',
      ''  }'',
      ''  inputFields {'',
      ''    ...InputValue'',
      ''  }'',
      ''  interfaces {'',
      ''    ...TypeRef'',
      ''  }'',
      ''  enumValues(includeDeprecated: true) {'',
      ''    name'',
      ''    description'',
      ''    isDeprecated'',
      ''    deprecationReason'',
      ''  }'',
      ''  possibleTypes {'',
      ''    ...TypeRef'',
      ''  }'',
      ''}'',
      '''',
      ''fragment InputValue on __InputValue {'',
      ''  name'',
      ''  description'',
      ''  type { ...TypeRef }'',
      ''  defaultValue'',
      ''}'',
      '''',
      ''fragment TypeRef on __Type {'',
      ''  kind'',
      ''  name'',
      ''  ofType {'',
      ''    kind'',
      ''    name'',
      ''    ofType {'',
      ''      kind'',
      ''      name'',
      ''      ofType {'',
      ''        kind'',
      ''        name'',
      ''        ofType {'',
      ''          kind'',
      ''          name'',
      ''          ofType {'',
      ''            kind'',
      ''            name'',
      ''            ofType {'',
      ''              kind'',
      ''              name'',
      ''              ofType {'',
      ''                kind'',
      ''                name'',
      ''                ofType {'',
      ''                  kind'',
      ''                  name'',
      ''                }'',
      ''              }'',
      ''            }'',
      ''          }'',
      ''        }'',
      ''      }'',
      ''    }'',
      ''  }'',
      ''}''])"

definition introspectionQueryTier2 :: bytes where
  "introspectionQueryTier2 = mustMarshalQuery (join [CHR 0x0A]
     [''{ __schema {'',
      ''  queryType { name }'',
      ''  mutationType { name }'',
      ''  subscriptionType { name }'',
      ''  types {'',
      ''    kind'',
      ''    name'',
      ''    fields(includeDeprecated: true) {'',
      ''      name'',
      ''      args { name type { ...TypeRef } }'',
      ''      type { ...TypeRef }'',
      ''    }'',
      ''    inputFields { name type { ...TypeRef } }'',
      ''    interfaces { ...TypeRef }'',
      ''    enumValues { name }'',
      ''    possibleTypes { ...TypeRef }'',
      ''  }'',
      ''}}'',
      '''',
      ''fragment TypeRef on __Type {'',
      ''  kind name ofType { kind name ofType { kind name ofType { kind name'',
      ''  ofType { kind name ofType { kind name ofType { kind name ofType { kind name } } } } } } }'',
      ''}''])"

definition introspectionQueryTier3 :: bytes where
  "introspectionQueryTier3 = CHR 0x7B # CHR 0x22 # ''query'' @ [CHR 0x22, CHR '':'', CHR 0x22]
     @ ''{ __schema { types { name kind fields { name type { name kind ofType { name kind ofType { name kind ofType { name kind ofType { name kind ofType { name kind ofType { name kind ofType { name kind } } } } } } } } } } } }'' @ [CHR 0x22, CHR 0x7D]"

definition introspectionQueries :: "bytes list" where
  "introspectionQueries = [introspectionQueryTier1, introspectionQueryTier2, introspectionQueryTier3]"

section \<open>The answer\<close>

definition zero_ref :: GraphQLTypeRef where "zero_ref = GraphQLTypeRef None [] None"

text \<open>\<^verbatim>\<open>json.Unmarshal\<close> into a \<^verbatim>\<open>GraphQLTypeRef\<close>; its fields are \<^verbatim>\<open>name\<close>,
  \<^verbatim>\<open>kind\<close> and \<^verbatim>\<open>ofType\<close>.\<close>

fun dec_ref :: "json \<Rightarrow> GraphQLTypeRef \<Rightarrow> GraphQLTypeRef option"
  and dec_ref_members :: "(string \<times> json) list \<Rightarrow> GraphQLTypeRef \<Rightarrow> GraphQLTypeRef option" where
  "dec_ref (JObj ms) t = dec_ref_members ms t"
| "dec_ref JNull t = Some t"
| "dec_ref _ t = None"
| "dec_ref_members [] t = Some t"
| "dec_ref_members ((k, v) # ms) (GraphQLTypeRef n d o') =
     (if equal_fold k ''name'' then
        (case dec_string_ptr v of None \<Rightarrow> None | Some n' \<Rightarrow> dec_ref_members ms (GraphQLTypeRef n' d o'))
      else if equal_fold k ''kind'' then
        (case dec_string v d of None \<Rightarrow> None | Some d' \<Rightarrow> dec_ref_members ms (GraphQLTypeRef n d' o'))
      else if equal_fold k ''ofType'' then
        (if v = JNull then dec_ref_members ms (GraphQLTypeRef n d None)
         else (case dec_ref v (case o' of None \<Rightarrow> zero_ref | Some t \<Rightarrow> t) of None \<Rightarrow> None
           | Some t \<Rightarrow> dec_ref_members ms (GraphQLTypeRef n d (Some t))))
      else dec_ref_members ms (GraphQLTypeRef n d o'))"

text \<open>\<^verbatim>\<open>json.Unmarshal(raw, &typeRef)\<close>; an absent raw message is an error.\<close>

definition unmarshal_ref :: "json option \<Rightarrow> GraphQLTypeRef option" where
  "unmarshal_ref raw = (case raw of None \<Rightarrow> None | Some v \<Rightarrow> dec_ref v zero_ref)"

record raw_input =
  RawInputName :: string
  RawInputDescription :: string
  RawInputType :: "json option"
  RawDefaultValue :: "string option"

definition zero_input :: raw_input where
  "zero_input = \<lparr>RawInputName = [], RawInputDescription = [], RawInputType = None, RawDefaultValue = None\<rparr>"

definition input_fields :: "raw_input fields" where
  "input_fields =
     [(''name'', \<lambda>v r. map_option (\<lambda>x. r\<lparr>RawInputName := x\<rparr>) (dec_string v (RawInputName r))),
      (''description'', \<lambda>v r. map_option (\<lambda>x. r\<lparr>RawInputDescription := x\<rparr>) (dec_string v (RawInputDescription r))),
      (''type'', \<lambda>v r. Some (r\<lparr>RawInputType := Some v\<rparr>)),
      (''defaultValue'', \<lambda>v r. map_option (\<lambda>x. r\<lparr>RawDefaultValue := x\<rparr>) (dec_string_ptr v))]"

definition parseInputValue :: "json \<Rightarrow> GraphQLInputValue option" where
  "parseInputValue raw =
     (case dec_struct input_fields raw zero_input of None \<Rightarrow> None
      | Some v \<Rightarrow>
          (case unmarshal_ref (RawInputType v) of None \<Rightarrow> None
           | Some typeRef \<Rightarrow>
               Some \<lparr>InputName = RawInputName v, InputDescription = RawInputDescription v, InputType = typeRef,
                 DefaultValue = RawDefaultValue v\<rparr>))"

record raw_field =
  RawFieldName :: string
  RawFieldDescription :: string
  RawFieldType :: "json option"
  RawArgs :: "json list"
  RawIsDeprecated :: bool
  RawDeprecationReason :: string

definition zero_field :: raw_field where
  "zero_field = \<lparr>RawFieldName = [], RawFieldDescription = [], RawFieldType = None, RawArgs = [],
     RawIsDeprecated = False, RawDeprecationReason = []\<rparr>"

definition field_fields :: "raw_field fields" where
  "field_fields =
     [(''name'', \<lambda>v r. map_option (\<lambda>x. r\<lparr>RawFieldName := x\<rparr>) (dec_string v (RawFieldName r))),
      (''description'', \<lambda>v r. map_option (\<lambda>x. r\<lparr>RawFieldDescription := x\<rparr>) (dec_string v (RawFieldDescription r))),
      (''type'', \<lambda>v r. Some (r\<lparr>RawFieldType := Some v\<rparr>)),
      (''args'', \<lambda>v r. map_option (\<lambda>x. r\<lparr>RawArgs := x\<rparr>) (dec_raw_list v)),
      (''isDeprecated'', \<lambda>v r. map_option (\<lambda>x. r\<lparr>RawIsDeprecated := x\<rparr>) (dec_bool v (RawIsDeprecated r))),
      (''deprecationReason'', \<lambda>v r. map_option (\<lambda>x. r\<lparr>RawDeprecationReason := x\<rparr>) (dec_string v (RawDeprecationReason r)))]"

definition zero_enum :: GraphQLEnumValue where
  "zero_enum = \<lparr>EnumName = [], EnumDescription = [], EnumIsDeprecated = False, EnumDeprecationReason = []\<rparr>"

definition enum_fields :: "GraphQLEnumValue fields" where
  "enum_fields =
     [(''name'', \<lambda>v r. map_option (\<lambda>x. r\<lparr>EnumName := x\<rparr>) (dec_string v (EnumName r))),
      (''description'', \<lambda>v r. map_option (\<lambda>x. r\<lparr>EnumDescription := x\<rparr>) (dec_string v (EnumDescription r))),
      (''isDeprecated'', \<lambda>v r. map_option (\<lambda>x. r\<lparr>EnumIsDeprecated := x\<rparr>) (dec_bool v (EnumIsDeprecated r))),
      (''deprecationReason'', \<lambda>v r. map_option (\<lambda>x. r\<lparr>EnumDeprecationReason := x\<rparr>) (dec_string v (EnumDeprecationReason r)))]"

record raw_type =
  RawTypeName :: string
  RawKind :: string
  RawDescription :: string
  RawFields :: "raw_field list"
  RawInputFields :: "json list"
  RawEnumValues :: "GraphQLEnumValue list"
  RawInterfaces :: "json list"
  RawPossibleTypes :: "json list"

definition zero_type :: raw_type where
  "zero_type = \<lparr>RawTypeName = [], RawKind = [], RawDescription = [], RawFields = [], RawInputFields = [],
     RawEnumValues = [], RawInterfaces = [], RawPossibleTypes = []\<rparr>"

definition type_fields :: "raw_type fields" where
  "type_fields =
     [(''name'', \<lambda>v r. map_option (\<lambda>x. r\<lparr>RawTypeName := x\<rparr>) (dec_string v (RawTypeName r))),
      (''kind'', \<lambda>v r. map_option (\<lambda>x. r\<lparr>RawKind := x\<rparr>) (dec_string v (RawKind r))),
      (''description'', \<lambda>v r. map_option (\<lambda>x. r\<lparr>RawDescription := x\<rparr>) (dec_string v (RawDescription r))),
      (''fields'', \<lambda>v r. map_option (\<lambda>x. r\<lparr>RawFields := x\<rparr>) (dec_list (\<lambda>f. dec_struct field_fields f zero_field) v)),
      (''inputFields'', \<lambda>v r. map_option (\<lambda>x. r\<lparr>RawInputFields := x\<rparr>) (dec_raw_list v)),
      (''enumValues'', \<lambda>v r. map_option (\<lambda>x. r\<lparr>RawEnumValues := x\<rparr>) (dec_list (\<lambda>e. dec_struct enum_fields e zero_enum) v)),
      (''interfaces'', \<lambda>v r. map_option (\<lambda>x. r\<lparr>RawInterfaces := x\<rparr>) (dec_raw_list v)),
      (''possibleTypes'', \<lambda>v r. map_option (\<lambda>x. r\<lparr>RawPossibleTypes := x\<rparr>) (dec_raw_list v))]"

record raw_schema =
  RawQueryType :: "string option"
  RawMutationType :: "string option"
  RawSubscriptionType :: "string option"
  RawTypes :: "raw_type list"
  RawErrors :: "json list"

text \<open>The struct of one \<^verbatim>\<open>Name\<close>, and the schema under \<^verbatim>\<open>data\<close>.\<close>

definition name_fields :: "string fields" where
  "name_fields = [(''Name'', dec_string)]"

definition schema_fields :: "raw_schema fields" where
  "schema_fields =
     [(''queryType'', \<lambda>v r. map_option (\<lambda>x. r\<lparr>RawQueryType := x\<rparr>) (dec_ptr name_fields [] v (RawQueryType r))),
      (''mutationType'', \<lambda>v r. map_option (\<lambda>x. r\<lparr>RawMutationType := x\<rparr>) (dec_ptr name_fields [] v (RawMutationType r))),
      (''subscriptionType'',
        \<lambda>v r. map_option (\<lambda>x. r\<lparr>RawSubscriptionType := x\<rparr>) (dec_ptr name_fields [] v (RawSubscriptionType r))),
      (''types'', \<lambda>v r. map_option (\<lambda>x. r\<lparr>RawTypes := x\<rparr>) (dec_list (\<lambda>t. dec_struct type_fields t zero_type) v))]"

definition envelope_fields :: "raw_schema fields" where
  "envelope_fields =
     [(''data'', dec_struct [(''__schema'', dec_struct schema_fields)]),
      (''errors'', \<lambda>v r. map_option (\<lambda>x. r\<lparr>RawErrors := x\<rparr>) (dec_raw_list v))]"

definition zero_envelope :: raw_schema where
  "zero_envelope = \<lparr>RawQueryType = None, RawMutationType = None, RawSubscriptionType = None, RawTypes = [], RawErrors = []\<rparr>"

definition disabled :: GraphQLIntrospection where
  "disabled = \<lparr>IntrospectionEnabled = False, Types = [], RawResponse = [], QueryTypeName = [],
     MutationTypeName = [], SubscriptionTypeName = []\<rparr>"

definition parse_field :: "raw_field \<Rightarrow> GraphQLField option" where
  "parse_field f =
     (case unmarshal_ref (RawFieldType f) of None \<Rightarrow> None
      | Some typeRef \<Rightarrow>
          Some \<lparr>FieldName = RawFieldName f, FieldDescription = RawFieldDescription f, FieldType = typeRef,
            Args = List.map_filter parseInputValue (RawArgs f), IsDeprecated = RawIsDeprecated f,
            DeprecationReason = RawDeprecationReason f\<rparr>)"

definition parse_type :: "raw_type \<Rightarrow> GraphQLType" where
  "parse_type t =
     \<lparr>TypeName = RawTypeName t, Kind = RawKind t, Description = RawDescription t,
      Fields = List.map_filter parse_field (RawFields t),
      InputFields = List.map_filter parseInputValue (RawInputFields t),
      EnumValues = RawEnumValues t,
      Interfaces = List.map_filter (\<lambda>raw. unmarshal_ref (Some raw)) (RawInterfaces t),
      PossibleTypes = List.map_filter (\<lambda>raw. unmarshal_ref (Some raw)) (RawPossibleTypes t)\<rparr>"

definition parseIntrospectionResponse :: "bytes \<Rightarrow> GraphQLIntrospection" where
  "parseIntrospectionResponse body =
     (case (case unmarshal_raw body of None \<Rightarrow> None | Some v \<Rightarrow> dec_struct envelope_fields v zero_envelope) of
        None \<Rightarrow> disabled
      | Some envelope \<Rightarrow>
          if length (RawErrors envelope) > 0 \<and> length (RawTypes envelope) = 0 then disabled
          else if length (RawTypes envelope) = 0 then disabled
          else
            \<lparr>IntrospectionEnabled = True, Types = map parse_type (RawTypes envelope), RawResponse = body,
             QueryTypeName = (case RawQueryType envelope of None \<Rightarrow> [] | Some n \<Rightarrow> n),
             MutationTypeName = (case RawMutationType envelope of None \<Rightarrow> [] | Some n \<Rightarrow> n),
             SubscriptionTypeName = (case RawSubscriptionType envelope of None \<Rightarrow> [] | Some n \<Rightarrow> n)\<rparr>)"

section \<open>The probe\<close>

text \<open>The pair \<^verbatim>\<open>(result, parsed)\<close>.\<close>

definition sendIntrospection ::
    "probe_config \<Rightarrow> string \<Rightarrow> bytes \<Rightarrow> http_log
      \<Rightarrow> http_log \<times> GraphQLIntrospection option \<times> GraphQLIntrospection option" where
  "sendIntrospection cfg targetURL query log =
     (case send cfg ''POST'' targetURL [(''Content-Type'', ''application/json'')] query log of
        (log', None) \<Rightarrow> (log', None, None)
      | (log', Some resp) \<Rightarrow>
          if Status resp \<ge> 400 then (log', None, None)
          else (case BodyRead resp of None \<Rightarrow> (log', None, None)
            | Some b \<Rightarrow>
                let p2 = parseIntrospectionResponse (take maxIntrospectionBodySize b)
                in if \<not> IntrospectionEnabled p2 then (log', None, Some p2) else (log', Some p2, Some p2)))"

fun try_tiers ::
    "probe_config \<Rightarrow> string \<Rightarrow> bytes list \<Rightarrow> GraphQLIntrospection option \<Rightarrow> http_log
      \<Rightarrow> http_log \<times> GraphQLIntrospection option" where
  "try_tiers cfg targetURL [] lastParsed log = (log, lastParsed)"
| "try_tiers cfg targetURL (query # queries) lastParsed log =
     (case sendIntrospection cfg targetURL query log of
        (log', Some result, _) \<Rightarrow> (log', Some result)
      | (log', None, Some parsed) \<Rightarrow> try_tiers cfg targetURL queries (Some parsed) log'
      | (log', None, None) \<Rightarrow> try_tiers cfg targetURL queries lastParsed log')"

definition probeEndpoint :: "probe_config \<Rightarrow> string \<Rightarrow> http_log \<Rightarrow> http_log \<times> GraphQLIntrospection option" where
  "probeEndpoint cfg targetURL log =
     (if \<not> valid_url cfg targetURL then (log, None)
      else try_tiers cfg targetURL introspectionQueries None log)"

definition graphql_key :: "endpoint \<Rightarrow> string option" where
  "graphql_key ep = (if APIType ep \<noteq> ''graphql'' then None else Some (URL ep))"

definition set_introspection :: "GraphQLIntrospection \<Rightarrow> endpoint \<Rightarrow> endpoint" where
  "set_introspection schema ep = ep\<lparr>GraphQLSchema := Some schema\<rparr>"

definition graphql_Probe :: "probe_config \<Rightarrow> http_log \<Rightarrow> endpoint list \<Rightarrow> http_log \<times> (string + endpoint list)" where
  "graphql_Probe cfg = loop_probe graphql_key graphql_key (MaxEndpoints cfg) (probeEndpoint cfg) set_introspection"

definition NewGraphQLProbe :: "http_env \<Rightarrow> probe_config \<Rightarrow> endpoint strategy" where
  "NewGraphQLProbe env cfg = \<lparr>StrategyName = ''graphql'', StrategyProbe = graphql_Probe (withDefaults env cfg)\<rparr>"

section \<open>The contract\<close>

lemma sendIntrospection_sends:
  assumes "valid_url cfg url" "sendIntrospection cfg url query log = (log', r)"
  shows "sends_only (allowed_request cfg) log log' \<and> length log' \<le> Suc (length log)"
proof -
  have "sends_only (allowed_request cfg) log (fst (send cfg ''POST'' url hs query log))
      \<and> length (fst (send cfg ''POST'' url hs query log)) \<le> Suc (length log)" for hs
    using assms(1) by (auto simp: send_def sends_only_def allowed_request_def Let_def split: option.splits)
  then show ?thesis using assms(2)
    by (auto simp: sendIntrospection_def Let_def split: prod.splits option.splits if_splits) (metis fst_conv)+
qed

lemma try_tiers_sends:
  assumes "valid_url cfg url"
  shows "try_tiers cfg url qs prev log = (log', r) \<Longrightarrow>
    sends_only (allowed_request cfg) log log' \<and> length log' \<le> length log + length qs"
proof (induction qs arbitrary: prev log)
  case (Cons q qs)
  obtain l a b where s: "sendIntrospection cfg url q log = (l, a, b)"
    by (cases "sendIntrospection cfg url q log") auto
  note sent = sendIntrospection_sends [OF assms s]
  show ?case
  proof (cases a)
    case (Some x)
    then show ?thesis using Cons.prems s sent by auto
  next
    case None
    then have "\<exists>prev'. try_tiers cfg url qs prev' l = (log', r)" using Cons.prems s by (cases b) auto
    then obtain prev' where t: "try_tiers cfg url qs prev' l = (log', r)" ..
    have "sends_only (allowed_request cfg) log log'" using Cons.IH [OF t] sent sends_only_trans by blast
    moreover have "length log' \<le> length log + length (q # qs)" using Cons.IH [OF t] sent by simp
    ultimately show ?thesis by blast
  qed
qed simp

lemma probeEndpoint_sends:
  "probeEndpoint cfg url log = (log', r) \<Longrightarrow> sends_only (allowed_request cfg) log log' \<and> length log' \<le> length log + 3"
  using try_tiers_sends [of cfg url introspectionQueries None log log' r]
  by (auto simp: probeEndpoint_def introspectionQueries_def split: if_splits)

lemma captured_introspection [simp]: "captured (set_introspection s ep) = captured ep"
  by (simp add: captured_def set_introspection_def ObservedRequest.truncate_def)

interpretation graphql_schema: probe_strategy "graphql_Probe cfg" "allowed_request cfg" captured for cfg
  unfolding graphql_Probe_def by (rule loop_strategy [OF probeEndpoint_sends [THEN conjunct1]]) simp_all

text \<open>An enabled answer has types, and keeps the bytes it was read from.\<close>

lemma parse_enabled: "IntrospectionEnabled (parseIntrospectionResponse body) \<Longrightarrow>
    Types (parseIntrospectionResponse body) \<noteq> [] \<and> RawResponse (parseIntrospectionResponse body) = body"
  by (auto simp: parseIntrospectionResponse_def disabled_def split: option.splits if_splits)

end
