(* ===== verification/Probe_Gate.thy ===== *)
theory Probe_Gate
  imports Origin_Spec Probe_Graphql
begin

text \<open>
  The gates in front of the probes, \<^verbatim>\<open>internal/pipeline/probe_origin_gate.go\<close>: a validator
  that refuses what \<open>ValidateFullURL\<close> refuses, and one that refuses every other origin than the
  target's. The second is a closure with a state, which serves its warnings only: what it answers is shown
  to be the stateless \<open>newCrossOriginValidator\<close>, and what it warns about is shown complete, free of
  repetition and free of credentials. A message is its constructor; its text is dropped. Nothing is written when the
  writer is nil.
\<close>

section \<open>Validators\<close>

text \<open>A validator answers whether a URL passes.\<close>

definition newFullURLValidator :: "http_env \<Rightarrow> (string \<Rightarrow> bool) option \<Rightarrow> string \<Rightarrow> bool" where
  "newFullURLValidator env base =
     (let base = (case base of None \<Rightarrow> ValidateProbeURL env | Some f \<Rightarrow> f)
      in (\<lambda>rawURL. if ValidateFullURL rawURL = None then False else base rawURL))"

definition newCrossOriginValidator :: "(string \<Rightarrow> bool) \<Rightarrow> string \<Rightarrow> string \<Rightarrow> bool" where
  "newCrossOriginValidator base targetOrigin rawURL = (if SameOrigin rawURL targetOrigin then base rawURL else False)"

section \<open>Warnings\<close>

datatype gate_warning =
  PinnedTargetUnresolved | NoOriginDerivable | OriginDerived string | SkippingOrigin string

record gate_state =
  WarnedOrigins :: "string list"
  WarnedDerivedOrigin :: bool
  Warnings :: "gate_warning list"

definition gate_start :: gate_state where
  "gate_start = \<lparr>WarnedOrigins = [], WarnedDerivedOrigin = False, Warnings = []\<rparr>"

definition bestEffortOrigin :: "string \<Rightarrow> string" where
  "bestEffortOrigin rawURL =
     (case parse_url rawURL of None \<Rightarrow> []
      | Some u \<Rightarrow> if Host u = [] then [] else to_lower (Scheme u) @ ''://'' @ to_lower (Host u))"

definition warnDerivedProbeOrigin :: "string \<Rightarrow> bool \<Rightarrow> gate_warning" where
  "warnDerivedProbeOrigin targetOrigin targetPinned =
     (if targetOrigin = [] then (if targetPinned then PinnedTargetUnresolved else NoOriginDerivable)
      else OriginDerived targetOrigin)"

text \<open>One call of the closure: its answer, and its state after it.\<close>

definition gate_call ::
    "(string \<Rightarrow> bool) \<Rightarrow> string \<Rightarrow> string \<Rightarrow> bool \<Rightarrow> gate_state \<Rightarrow> string \<Rightarrow> bool \<times> gate_state" where
  "gate_call base targetOrigin targetURL originIsDerived st rawURL =
     (if SameOrigin rawURL targetOrigin then (base rawURL, st)
      else
        let st = (if originIsDerived \<and> \<not> WarnedDerivedOrigin st
                  then st\<lparr>WarnedDerivedOrigin := True,
                    Warnings := Warnings st @ [warnDerivedProbeOrigin targetOrigin (targetURL \<noteq> [])]\<rparr>
                  else st);
            origin = bestEffortOrigin rawURL;
            st = (if origin \<notin> set (WarnedOrigins st)
                  then st\<lparr>WarnedOrigins := WarnedOrigins st @ [origin], Warnings := Warnings st @ [SkippingOrigin origin]\<rparr>
                  else st)
        in (False, st))"

fun gate_calls ::
    "(string \<Rightarrow> bool) \<Rightarrow> string \<Rightarrow> string \<Rightarrow> bool \<Rightarrow> gate_state \<Rightarrow> string list \<Rightarrow> bool list \<times> gate_state" where
  "gate_calls base targetOrigin targetURL derived st [] = ([], st)"
| "gate_calls base targetOrigin targetURL derived st (raw # raws) =
     (case gate_call base targetOrigin targetURL derived st raw of (ok, st') \<Rightarrow>
        (case gate_calls base targetOrigin targetURL derived st' raws of (oks, st'') \<Rightarrow> (ok # oks, st'')))"

section \<open>A host has no userinfo\<close>

lemma at_not_host: "\<not> host_char (CHR ''@'')" "CHR ''@'' \<noteq> CHR ''%''" "byte_at (CHR ''@'') < 128"
  by code_simp+

lemma unescape_zone_no_at: "unescape EncZone s = Some t \<Longrightarrow> CHR ''@'' \<notin> set t"
proof (induction EncZone s arbitrary: t rule: unescape.induct)
  case (2 c s)
  show ?case
  proof (cases "c = CHR ''%''")
    case True
    then obtain h1 h2 r t' where s: "s = h1 # h2 # r" "t = unhex2 h1 h2 # t'" "unescape EncZone r = Some t'"
      "[h1, h2] = ''25'' \<or> unhex2 h1 h2 = CHR '' '' \<or> \<not> should_escape EncHost (unhex2 h1 h2)"
      using "2.prems" by (auto split: list.splits if_splits)
    have "unhex2 (CHR ''2'') (CHR ''5'') \<noteq> CHR ''@''" "should_escape EncHost (CHR ''@'')" "CHR '' '' \<noteq> CHR ''@''"
      by code_simp+
    then have "unhex2 h1 h2 \<noteq> CHR ''@''" using s(4) by auto
    moreover have "CHR ''@'' \<notin> set t'" using "2.hyps"(1) [OF True s(1) refl] s "2.prems" True
      by (auto split: if_splits)
    ultimately show ?thesis using s(2) by auto
  next
    case False
    have "should_escape EncZone (CHR ''@'')" by code_simp
    then show ?thesis using "2.prems" "2.hyps"(2) False at_not_host(3) by (auto split: if_splits)
  qed
qed simp

lemma unescape_host_no_at: "unescape EncHost s = Some t \<Longrightarrow> CHR ''@'' \<notin> set t"
  using unescape_host_chars [of s t "CHR ''@''"] at_not_host by auto

lemma parseHost_no_at:
  assumes "parseHost h = Some k"
  shows "CHR ''@'' \<notin> set k"
proof (cases "CHR ''['' \<in> set h")
  case True
  then obtain name port where *: "cut_last (CHR '']'') (tl h) = Some (name, port)" "valid_optional_port port"
    using assms by (auto simp: parseHost_def split: if_splits option.splits)
  have "\<not> is_digit (CHR ''@'')" by code_simp
  then have "CHR ''@'' \<notin> set port" using valid_port_chars [OF *(2)] by fastforce
  then show ?thesis using assms True *
    by (auto simp: parseHost_def dest!: unescape_host_no_at unescape_zone_no_at split: if_splits option.splits prod.splits)
qed (use assms unescape_host_no_at in \<open>auto simp: parseHost_def split: if_splits option.splits\<close>)

lemma scheme_no_at:
  assumes "scheme_ok s"
  shows "CHR ''@'' \<notin> set s"
proof -
  have "\<not> scheme_char (CHR ''@'')" using scheme_char_plain by fastforce
  then show ?thesis using assms by (auto simp: scheme_ok_def list_all_iff)
qed

lemma origin_no_at:
  assumes "parse_url raw = Some u"
  shows "CHR ''@'' \<notin> set (Host u)" "CHR ''@'' \<notin> set (Scheme u)"
  using parse_url_parts [OF assms] parseHost_no_at scheme_no_at by fastforce+

lemma to_lower_no_at: "CHR ''@'' \<notin> set s \<Longrightarrow> CHR ''@'' \<notin> set (to_lower s)"
proof -
  have "\<not> is_upper (CHR ''@'')" "\<not> is_lower (CHR ''@'')" by code_simp+
  from in_to_lower [OF this] show "CHR ''@'' \<notin> set s \<Longrightarrow> CHR ''@'' \<notin> set (to_lower s)" by simp
qed

lemma bestEffortOrigin_no_at: "CHR ''@'' \<notin> set (bestEffortOrigin raw)"
proof (cases "parse_url raw")
  case (Some u)
  show ?thesis using origin_no_at [OF Some] by (simp add: bestEffortOrigin_def Some to_lower_no_at)
qed (simp add: bestEffortOrigin_def)

lemma split_host_port_parts: "set (fst (split_host_port h)) \<subseteq> set h \<and> set (snd (split_host_port h)) \<subseteq> set h"
proof -
  have inner: "set (butlast (tl x)) \<subseteq> set x" for x :: string
    by (cases x) (auto dest: in_set_butlastD)
  show ?thesis
  proof (cases "cut_last (CHR '':'') h")
    case None
    then show ?thesis using inner [of h] by (simp add: split_host_port_def)
  next
    case (Some ab)
    obtain a b where ab: "ab = (a, b)" by (cases ab)
    then have "h = a @ CHR '':'' # b" using cut_last_Some Some by blast
    then show ?thesis using inner [of a] inner [of h] Some ab by (auto simp: split_host_port_def)
  qed
qed

lemma originOf_no_at: "CHR ''@'' \<notin> set (originOf raw)"
proof (cases "parse_url raw")
  case (Some u)
  note no = origin_no_at [OF Some]
  have h: "CHR ''@'' \<notin> set (to_lower (Hostname u))" "CHR ''@'' \<notin> set (Port u)"
    using no(1) split_host_port_parts [of "Host u"] to_lower_no_at
    by (auto simp: Hostname_def Port_def)
  have "CHR ''@'' \<notin> set (defaultPortForScheme s)" for s by (auto simp: defaultPortForScheme_def Let_def)
  then show ?thesis using Some h to_lower_no_at [OF no(2)] by (simp add: originOf_def Let_def)
qed (simp add: originOf_def)

lemma firstHTMLOrigin_no_at: "CHR ''@'' \<notin> set (firstHTMLOrigin reqs)"
  by (induction reqs rule: firstHTMLOrigin.induct) (auto simp: originOf_no_at Let_def)

lemma first_origin_no_at: "CHR ''@'' \<notin> set (first_origin reqs)"
  by (induction reqs rule: first_origin.induct) (auto simp: originOf_no_at Let_def)

lemma ResolveTargetOrigin_no_at: "CHR ''@'' \<notin> set (ResolveTargetOrigin targetURL reqs)"
  by (simp add: ResolveTargetOrigin_def Let_def originOf_no_at firstHTMLOrigin_no_at first_origin_no_at)

section \<open>What the gate answers and what it prints\<close>

definition firsts :: "'a list \<Rightarrow> 'a list" where
  "firsts xs = rev (remdups (rev xs))"

lemma firsts_snoc: "firsts (xs @ [x]) = (if x \<in> set xs then firsts xs else firsts xs @ [x])"
  by (simp add: firsts_def)

lemma firsts_set [simp]: "set (firsts xs) = set xs"
  by (simp add: firsts_def)

definition cross_origin :: "string \<Rightarrow> string list \<Rightarrow> string list" where
  "cross_origin targetOrigin raws = filter (\<lambda>r. \<not> SameOrigin r targetOrigin) raws"

text \<open>The state after the calls on \<open>raws\<close>.\<close>

definition gate_after :: "string \<Rightarrow> string \<Rightarrow> bool \<Rightarrow> string list \<Rightarrow> gate_state" where
  "gate_after targetOrigin targetURL derived raws =
     (let rejected = cross_origin targetOrigin raws; origins = firsts (map bestEffortOrigin rejected)
      in \<lparr>WarnedOrigins = origins, WarnedDerivedOrigin = (derived \<and> rejected \<noteq> []),
          Warnings = (if derived \<and> rejected \<noteq> [] then [warnDerivedProbeOrigin targetOrigin (targetURL \<noteq> [])] else [])
            @ map SkippingOrigin origins\<rparr>)"

lemma gate_call_after:
  "gate_call base t tu derived (gate_after t tu derived raws) raw
    = (newCrossOriginValidator base t raw, gate_after t tu derived (raws @ [raw]))"
proof (cases "SameOrigin raw t")
  case True
  then show ?thesis by (simp add: gate_call_def newCrossOriginValidator_def gate_after_def cross_origin_def)
next
  case False
  show ?thesis
  proof (cases "cross_origin t raws = []")
    case True
    then show ?thesis using False
      by (simp add: gate_call_def newCrossOriginValidator_def gate_after_def Let_def cross_origin_def firsts_def)
  next
    case nonempty: False
    have "cross_origin t (raws @ [raw]) = cross_origin t raws @ [raw]" using False by (simp add: cross_origin_def)
    then show ?thesis using False nonempty
      by (simp add: gate_call_def newCrossOriginValidator_def gate_after_def Let_def firsts_snoc)
  qed
qed

lemma gate_calls_after:
  "gate_calls base t tu derived (gate_after t tu derived done) raws
    = (map (newCrossOriginValidator base t) raws, gate_after t tu derived (done @ raws))"
  by (induction raws arbitrary: "done") (simp_all add: gate_call_after)

lemma gate_start_after: "gate_start = gate_after t tu derived []"
  by (simp add: gate_start_def gate_after_def cross_origin_def firsts_def)

definition shows_origin :: "gate_warning \<Rightarrow> string" where
  "shows_origin w = (case w of OriginDerived orig \<Rightarrow> orig | SkippingOrigin orig \<Rightarrow> orig | _ \<Rightarrow> [])"

text \<open>C19. The cross-origin gate answers every call by the pure comparison of origins, whatever it has
  seen before. What it prints for any sequence of candidates is determined by the refused ones: first, when
  the origin was not chosen by the operator, one message about that, and then one line for each origin refused, in
  the order of first appearance; nothing at all when none is refused. No message discloses credentials: no
  text from outside that it shows has an at sign, although candidates may carry userinfo.\<close>

theorem gate_warnings:
  "case gate_calls base (ResolveTargetOrigin targetURL reqs) targetURL derived gate_start raws of (oks, st) \<Rightarrow>
     oks = map (newCrossOriginValidator base (ResolveTargetOrigin targetURL reqs)) raws
     \<and> Warnings st =
        (if derived \<and> cross_origin (ResolveTargetOrigin targetURL reqs) raws \<noteq> []
         then [warnDerivedProbeOrigin (ResolveTargetOrigin targetURL reqs) (targetURL \<noteq> [])] else [])
        @ map SkippingOrigin (firsts (map bestEffortOrigin (cross_origin (ResolveTargetOrigin targetURL reqs) raws)))
     \<and> list_all (\<lambda>w. CHR ''@'' \<notin> set (shows_origin w)) (Warnings st)"
proof -
  let ?t = "ResolveTargetOrigin targetURL reqs"
  have "gate_calls base ?t targetURL derived gate_start raws
      = (map (newCrossOriginValidator base ?t) raws, gate_after ?t targetURL derived raws)"
    by (simp add: gate_start_after [of ?t targetURL derived] gate_calls_after)
  moreover have "list_all (\<lambda>w. CHR ''@'' \<notin> set (shows_origin w)) (Warnings (gate_after ?t targetURL derived raws))"
    by (auto simp: gate_after_def Let_def list_all_iff shows_origin_def warnDerivedProbeOrigin_def
        bestEffortOrigin_no_at ResolveTargetOrigin_no_at)
  ultimately show ?thesis by (simp add: gate_after_def Let_def)
qed

end
