(* ===== verification/Pipeline.thy ===== *)
theory Pipeline
  imports Probe_Gate Classifier Deduplicate Wsdl_Infer Rest_Components
begin

text \<open>
  The composition of the stages, \<^verbatim>\<open>internal/pipeline\<close>: choosing the API type, the probe
  stage with its gates, the gRPC hosts and bindings, WSDL discovery, augmentation, and the generators of
  \<^verbatim>\<open>pkg/generate/registry.go\<close>. A record holds what the pipeline calls and this development
  does not model. Every operation that reaches the network passes on the list of requests sent. Progress and
  warning lines are dropped; \<open>Probe_Gate\<close> has the warnings of the gate.
\<close>

section \<open>API types\<close>

definition APITypeAuto :: string where "APITypeAuto = ''auto''"
definition APITypeREST :: string where "APITypeREST = ''rest''"
definition APITypeWSDL :: string where "APITypeWSDL = ''wsdl''"
definition APITypeGraphQL :: string where "APITypeGraphQL = ''graphql''"
definition APITypeGRPC :: string where "APITypeGRPC = ''grpc''"

lemmas api_types = APITypeAuto_def APITypeREST_def APITypeWSDL_def APITypeGraphQL_def APITypeGRPC_def

definition matches_threshold :: "classifier \<Rightarrow> confidence \<Rightarrow> ObservedRequest \<Rightarrow> bool" where
  "matches_threshold cl threshold req =
     (case ClassifyDetail cl req of (isAPI, confidence, _) \<Rightarrow> isAPI \<and> confidence \<ge> threshold)"

definition count_matches :: "classifier \<Rightarrow> confidence \<Rightarrow> ObservedRequest list \<Rightarrow> nat" where
  "count_matches cl threshold reqs = length (filter (matches_threshold cl threshold) reqs)"

definition DetectAPIType :: "ObservedRequest list \<Rightarrow> confidence \<Rightarrow> string" where
  "DetectAPIType requests threshold =
     (let wsdlCount = count_matches WSDLClassifier threshold requests;
          restCount = count_matches RESTClassifier threshold requests;
          graphqlCount = count_matches GraphQLClassifier threshold requests
      in if graphqlCount > 0 \<and> graphqlCount \<ge> wsdlCount \<and> graphqlCount \<ge> restCount then APITypeGraphQL
         else if wsdlCount > 0 \<and> wsdlCount \<ge> restCount then APITypeWSDL
         else APITypeREST)"

definition ClassifiersForType :: "string \<Rightarrow> classifier list option" where
  "ClassifiersForType apiType =
     (if apiType = APITypeREST then Some [RESTClassifier]
      else if apiType = APITypeWSDL then Some [WSDLClassifier]
      else if apiType = APITypeGraphQL then Some [GraphQLClassifier]
      else if apiType = APITypeGRPC then Some [GRPCClassifier]
      else None)"

section \<open>What the pipeline calls\<close>

text \<open>\<open>Http\<close> and \<open>PlainClient\<close> are the clients with and without address checks, \<open>CtxErr\<close> is
  \<^verbatim>\<open>ctx.Err()\<close>. The rest are the components that are not modelled: the gRPC probes, the
  reader of gRPC-Web bundles, the libraries of the OpenAPI generator, the generators for GraphQL and gRPC, the
  readers of XML, and the static analysis.\<close>

record pipeline_env =
  Http :: http_env
  PlainClient :: http_client
  CtxErr :: "http_log \<Rightarrow> string option"
  Dedup :: dedup_env
  GRPCStrategies :: "probe_config \<Rightarrow> endpoint strategy list"
  ExtractGRPCWebBindings :: "ObservedRequest list \<Rightarrow> GRPCService list"
  OpenAPI :: openapi_env
  GraphQLGenerate :: "endpoint list \<Rightarrow> bytes option"
  GRPCGenerate :: "endpoint list \<Rightarrow> bytes option"
  XmlTokens :: "bytes \<Rightarrow> xml_token list"
  IsWSDL :: "bytes \<Rightarrow> bool"
  MarshalXml :: "Definitions \<Rightarrow> bytes option"
  ExtractForms :: "ObservedRequest list \<Rightarrow> ObservedRequest list"
  AnalyzeBundles :: "bool \<Rightarrow> bool \<Rightarrow> bool \<Rightarrow> ObservedRequest list \<Rightarrow> ObservedRequest list option"

record pipeline_options =
  OptAPIType :: string
  OptConfidence :: confidence
  OptProbe :: bool
  OptDeduplicate :: bool
  OptAllowPrivate :: bool
  OptTargetURL :: string
  OptAllowCrossOriginProbe :: bool
  OptMergeSlugs :: bool
  OptSlugThreshold :: int
  OptProxy :: bool

definition StrategiesForType :: "pipeline_env \<Rightarrow> string \<Rightarrow> probe_config \<Rightarrow> endpoint strategy list" where
  "StrategiesForType env apiType cfg =
     (if apiType = APITypeWSDL then [NewWSDLProbe (Http env) cfg]
      else if apiType = APITypeGraphQL then [NewGraphQLProbe (Http env) cfg]
      else if apiType = APITypeGRPC then GRPCStrategies env cfg
      else [NewOptionsProbe (Http env) cfg, NewSchemaProbe (Http env) cfg])"

section \<open>Static assets\<close>

definition staticAssetExtensions :: "string list" where
  "staticAssetExtensions =
     [''.css'', ''.js'', ''.map'',
      ''.png'', ''.jpg'', ''.jpeg'', ''.gif'', ''.svg'', ''.ico'', ''.webp'', ''.avif'',
      ''.woff'', ''.woff2'', ''.ttf'', ''.eot'', ''.otf'', ''.webmanifest'',
      ''.mp4'', ''.webm'', ''.mp3'', ''.ogg'']"

definition IsStaticAssetURL :: "string \<Rightarrow> bool" where
  "IsStaticAssetURL rawURL =
     (case parse_url rawURL of None \<Rightarrow> False
      | Some parsed \<Rightarrow> let lower = to_lower (Path parsed)
          in list_ex (\<lambda>e. has_suffix lower e) staticAssetExtensions)"

section \<open>gRPC hosts and bindings\<close>

definition grpcHostKey :: "string \<Rightarrow> string" where
  "grpcHostKey rawURL =
     (case parse_url rawURL of None \<Rightarrow> []
      | Some u \<Rightarrow> if Host u = [] then []
          else (if Scheme u = [] then ''https'' else Scheme u) @ ''://'' @ Host u)"

definition existing_hosts :: "endpoint list \<Rightarrow> string list" where
  "existing_hosts classified =
     filter (\<lambda>h. h \<noteq> []) (map (\<lambda>c. grpcHostKey (URL c)) (filter (\<lambda>c. APIType c = APITypeGRPC) classified))"

fun collect_hosts :: "string list \<Rightarrow> string list \<Rightarrow> ObservedRequest list \<Rightarrow> string list" where
  "collect_hosts existing hosts [] = hosts"
| "collect_hosts existing hosts (req # reqs) =
     (let host = grpcHostKey (URL req)
      in if host = [] \<or> host \<in> set existing \<or> host \<in> set hosts then collect_hosts existing hosts reqs
         else collect_hosts existing (hosts @ [host]) reqs)"

definition host_endpoint :: "string \<Rightarrow> endpoint" where
  "host_endpoint host =
     ObservedRequest.extend (empty_request\<lparr>URL := host\<rparr>)
       \<lparr>IsAPI = False, Confidence = 0, Reason = [], APIType = APITypeGRPC, MultiValueQueryKeys = None,
        AllowedMethods = [], ResponseSchema = None, WSDLDocument = [], GraphQLSchema = None, GRPCSchema = None\<rparr>"

definition seedGRPCHostEndpoints :: "ObservedRequest list \<Rightarrow> endpoint list \<Rightarrow> int \<Rightarrow> endpoint list" where
  "seedGRPCHostEndpoints requests classified maxHosts =
     (let hosts = sort (collect_hosts (existing_hosts classified) [] requests);
          hosts = (if maxHosts > 0 \<and> int (length hosts) > maxHosts then take (nat maxHosts) hosts else hosts)
      in classified @ map host_endpoint hosts)"

definition fqn :: "GRPCService \<Rightarrow> string" where
  "fqn svc = trim_prefix (GRPCService.ServiceName svc) ''.''"

definition schema_services :: "endpoint \<Rightarrow> GRPCService list" where
  "schema_services ep = (case GRPCSchema ep of None \<Rightarrow> [] | Some s \<Rightarrow> GRPCReflectionResult.Services s)"

definition filterUncoveredServices :: "GRPCService list \<Rightarrow> endpoint list \<Rightarrow> GRPCService list" where
  "filterUncoveredServices services enriched =
     (let covered = map fqn (concat (map schema_services enriched))
      in filter (\<lambda>svc. fqn svc \<notin> set covered) services)"

text \<open>An endpoint that reflection answered for.\<close>

definition reflected :: "endpoint \<Rightarrow> bool" where
  "reflected ep = (case GRPCSchema ep of None \<Rightarrow> False
     | Some s \<Rightarrow> ReflectionEnabled s \<or> length (FileDescriptors s) > 0)"

definition nameOnlyCoveredServices :: "GRPCService list \<Rightarrow> endpoint list \<Rightarrow> GRPCService list" where
  "nameOnlyCoveredServices services enriched =
     (let reflectionFQNs = map fqn (concat (map schema_services (filter reflected enriched)));
          nameOnlyFQNs = map fqn (concat (map schema_services (filter (\<lambda>ep. \<not> reflected ep) enriched)))
      in filter (\<lambda>svc. fqn svc \<notin> set reflectionFQNs \<and> fqn svc \<in> set nameOnlyFQNs) services)"

definition grpcSchema :: "GRPCService list \<Rightarrow> GRPCReflectionResult" where
  "grpcSchema svcs = \<lparr>ReflectionEnabled = False, ReflectionUnavailableReason = [], Services = svcs, FileDescriptors = []\<rparr>"

definition hasCoverage :: "GRPCReflectionResult option \<Rightarrow> bool" where
  "hasCoverage s = (case s of None \<Rightarrow> False
     | Some s \<Rightarrow> length (FileDescriptors s) > 0 \<or> length (GRPCReflectionResult.Services s) > 0)"

definition fillable :: "endpoint \<Rightarrow> bool" where
  "fillable ep = (APIType ep = APITypeGRPC \<and> \<not> hasCoverage (GRPCSchema ep))"

definition fill :: "GRPCService list \<Rightarrow> endpoint \<Rightarrow> endpoint" where
  "fill svcs ep = (if fillable ep then ep\<lparr>GRPCSchema := Some (grpcSchema svcs)\<rparr> else ep)"

definition trailing_endpoint :: "GRPCService list \<Rightarrow> endpoint" where
  "trailing_endpoint svcs = (host_endpoint [])\<lparr>GRPCSchema := Some (grpcSchema svcs)\<rparr>"

definition enrichGRPCFromBindings :: "GRPCService list \<Rightarrow> endpoint list \<Rightarrow> endpoint list" where
  "enrichGRPCFromBindings services enriched =
     (if length services = 0 then enriched
      else
        let uncovered = filterUncoveredServices services enriched;
            nameOnlyExtra = nameOnlyCoveredServices services enriched
        in if length uncovered = 0 \<and> length nameOnlyExtra = 0 then enriched
           else
             let attached = (length uncovered > 0 \<and> list_ex fillable enriched);
                 filled = (if length uncovered > 0 then map (fill uncovered) enriched else enriched);
                 trailing = (if length uncovered > 0 \<and> \<not> attached then uncovered else []) @ nameOnlyExtra
             in if length trailing > 0 then filled @ [trailing_endpoint trailing] else filled)"

section \<open>Augmentation\<close>

record augment_options =
  OptAnalyzeJS :: bool
  OptFetchSourcemaps :: bool
  AugAllowPrivate :: bool
  AugProxy :: bool

definition AnalyzeJS :: "pipeline_env \<Rightarrow> augment_options \<Rightarrow> ObservedRequest list \<Rightarrow> ObservedRequest list" where
  "AnalyzeJS env opts requests =
     (if \<not> OptAnalyzeJS opts then requests
      else if AnyStaticSource requests then requests
      else (case AnalyzeBundles env (OptFetchSourcemaps opts) (AugAllowPrivate opts) (AugProxy opts) requests of
          None \<Rightarrow> requests
        | Some res \<Rightarrow> res))"

definition Augment :: "pipeline_env \<Rightarrow> augment_options \<Rightarrow> ObservedRequest list \<Rightarrow> ObservedRequest list" where
  "Augment env opts requests = AnalyzeJS env opts (requests @ ExtractForms env requests)"

section \<open>Generators\<close>

datatype pipeline_error =
  UnsupportedAPIType string | SlugThresholdTooSmall | GenerateFailed

definition GetWithOptions ::
    "pipeline_env \<Rightarrow> string \<Rightarrow> bool \<Rightarrow> int \<Rightarrow> string \<Rightarrow> (endpoint list \<Rightarrow> bytes option) option" where
  "GetWithOptions env apiType mergeSlugs slugThreshold targetOrigin =
     (if apiType = ''rest'' then
        Some (\<lambda>eps. case Generate_openapi (OpenAPI env) \<lparr>Format = [], GenMergeSlugs = mergeSlugs,
            GenSlugThreshold = slugThreshold, TargetOrigin = targetOrigin\<rparr> eps of Inl _ \<Rightarrow> None | Inr b \<Rightarrow> Some b)
      else if apiType = ''wsdl'' then
        Some (\<lambda>eps. case Generate (XmlTokens env) (IsWSDL env) (MarshalXml env) eps of Inl _ \<Rightarrow> None | Inr b \<Rightarrow> Some b)
      else if apiType = ''graphql'' then Some (GraphQLGenerate env)
      else if apiType = ''grpc'' then Some (GRPCGenerate env)
      else None)"

definition Get_generator :: "pipeline_env \<Rightarrow> string \<Rightarrow> (endpoint list \<Rightarrow> bytes option) option" where
  "Get_generator env apiType = GetWithOptions env apiType False 0 []"

section \<open>Classify, probe, generate\<close>

text \<open>\<open>True\<close> is no error.\<close>

definition ValidateSlugThreshold :: "string \<Rightarrow> bool \<Rightarrow> int \<Rightarrow> bool" where
  "ValidateSlugThreshold apiType mergeSlugs slugThreshold =
     (if apiType = APITypeWSDL \<or> apiType = APITypeGraphQL then True
      else if mergeSlugs \<and> slugThreshold < 2 then False
      else True)"

definition buildProbeConfig :: "pipeline_env \<Rightarrow> pipeline_options \<Rightarrow> probe_config" where
  "buildProbeConfig env opts =
     (let cfg = DefaultConfig\<lparr>ProxyEnabled := OptProxy opts\<rparr>
      in if \<not> OptAllowPrivate opts then cfg
         else
           let cfg = cfg\<lparr>URLValidator := Some (\<lambda>_. True)\<rparr>
           in if OptProxy opts then cfg else cfg\<lparr>Client := Some (PlainClient env)\<rparr>)"

definition gated_config :: "pipeline_env \<Rightarrow> pipeline_options \<Rightarrow> string \<Rightarrow> probe_config" where
  "gated_config env opts targetOrigin =
     (let cfg = buildProbeConfig env opts;
          full = newFullURLValidator (Http env) (URLValidator cfg)
      in if \<not> OptAllowCrossOriginProbe opts
         then cfg\<lparr>URLValidator := Some (newCrossOriginValidator full targetOrigin)\<rparr>
         else cfg\<lparr>URLValidator := Some full\<rparr>)"

definition probe_stage ::
    "pipeline_env \<Rightarrow> pipeline_options \<Rightarrow> ObservedRequest list \<Rightarrow> string \<Rightarrow> http_log \<Rightarrow> endpoint list
      \<Rightarrow> http_log \<times> endpoint list \<times> probe_error list" where
  "probe_stage env opts requests targetOrigin log classified =
     (let cfg = gated_config env opts targetOrigin;
          classified = (if OptAPIType opts = APITypeGRPC
            then seedGRPCHostEndpoints requests classified DefaultMaxEndpoints else classified)
      in RunStrategies (CtxErr env) (StrategiesForType env (OptAPIType opts) cfg) log classified)"

definition classify_stage :: "pipeline_env \<Rightarrow> pipeline_options \<Rightarrow> classifier list \<Rightarrow> ObservedRequest list \<Rightarrow> endpoint list" where
  "classify_stage env opts classifiers requests =
     (let classified = RunClassifiers classifiers requests (OptConfidence opts)
      in if OptDeduplicate opts then Deduplicate (Dedup env) classified else classified)"

definition ClassifyProbeGenerate ::
    "pipeline_env \<Rightarrow> pipeline_options \<Rightarrow> ObservedRequest list \<Rightarrow> http_log \<Rightarrow> http_log \<times> (pipeline_error + bytes)" where
  "ClassifyProbeGenerate env opts requests log =
     (case ClassifiersForType (OptAPIType opts) of
        None \<Rightarrow> (log, Inl (UnsupportedAPIType (OptAPIType opts)))
      | Some classifiers \<Rightarrow>
          if \<not> ValidateSlugThreshold (OptAPIType opts) (OptMergeSlugs opts) (OptSlugThreshold opts)
          then (log, Inl SlugThresholdTooSmall)
          else
            let classified = classify_stage env opts classifiers requests;
                targetOrigin = ResolveTargetOrigin (OptTargetURL opts) requests;
                (log, classified) =
                  (if OptProbe opts
                   then (case probe_stage env opts requests targetOrigin log classified of (l, enriched, _) \<Rightarrow> (l, enriched))
                   else (log, classified));
                classified = (if OptAPIType opts = APITypeGRPC
                  then enrichGRPCFromBindings (ExtractGRPCWebBindings env requests) classified else classified)
            in (case GetWithOptions env (OptAPIType opts) (OptMergeSlugs opts) (OptSlugThreshold opts) targetOrigin of
                  None \<Rightarrow> (log, Inl (UnsupportedAPIType (OptAPIType opts)))
                | Some gen \<Rightarrow>
                    (case gen classified of None \<Rightarrow> (log, Inl GenerateFailed) | Some spec \<Rightarrow> (log, Inr spec))))"

section \<open>WSDL discovery\<close>

definition buildWSDLProbeClient :: "pipeline_env \<Rightarrow> bool \<Rightarrow> bool \<Rightarrow> http_client" where
  "buildWSDLProbeClient env allowPrivate proxy =
     (if proxy then proxied_client (Http env)
      else if allowPrivate then PlainClient env else safe_client (Http env))"

definition wsdl_url :: "url \<Rightarrow> string" where
  "wsdl_url u = url_string (u\<lparr>RawQuery := ''wsdl''\<rparr>)"

definition ProbeWSDLDocument ::
    "pipeline_env \<Rightarrow> string \<Rightarrow> bool \<Rightarrow> bool \<Rightarrow> http_log \<Rightarrow> http_log \<times> bytes option" where
  "ProbeWSDLDocument env targetURL allowPrivate proxy log =
     (case parse_url targetURL of None \<Rightarrow> (log, None)
      | Some parsedURL \<Rightarrow>
          let wsdlURL = wsdl_url parsedURL
          in if \<not> allowPrivate \<and> \<not> ValidateProbeURL (Http env) wsdlURL then (log, None)
             else (case send (DefaultConfig\<lparr>Client := Some (buildWSDLProbeClient env allowPrivate proxy)\<rparr>)
                 ''GET'' wsdlURL [] [] log of
               (log', None) \<Rightarrow> (log', None)
             | (log', Some resp) \<Rightarrow>
                 (log',
                  if Status resp \<ge> 400 then None
                  else (case BodyRead resp of None \<Rightarrow> None
                    | Some b \<Rightarrow> let body = take (2 * 2 ^ 20) b in if IsWSDL env body then Some body else None))))"

definition ProbeAndAppendWSDLRequest ::
    "pipeline_env \<Rightarrow> string \<Rightarrow> ObservedRequest list \<Rightarrow> bool \<Rightarrow> bool \<Rightarrow> http_log
      \<Rightarrow> http_log \<times> ObservedRequest list \<times> bool \<times> string" where
  "ProbeAndAppendWSDLRequest env targetURL requests allowPrivate proxy log =
     (case ProbeWSDLDocument env targetURL allowPrivate proxy log of
        (log', None) \<Rightarrow> (log', requests, False, [])
      | (log', Some wsdlDoc) \<Rightarrow>
          (case parse_url targetURL of None \<Rightarrow> (log', requests, False, [])
           | Some parsedURL \<Rightarrow>
               (log',
                requests @ [empty_request\<lparr>Method := ''GET'', URL := wsdl_url parsedURL,
                  Response := empty_response\<lparr>StatusCode := 200, ContentType := ''text/xml'', RespBody := wsdlDoc\<rparr>\<rparr>],
                True, APITypeWSDL)))"

definition ResolveWSDLType ::
    "pipeline_env \<Rightarrow> string \<Rightarrow> string \<Rightarrow> ObservedRequest list \<Rightarrow> bool \<Rightarrow> bool \<Rightarrow> bool \<Rightarrow> http_log
      \<Rightarrow> http_log \<times> ObservedRequest list \<times> string \<times> bool" where
  "ResolveWSDLType env targetURL apiType requests probe allowPrivate proxy log =
     (if \<not> probe \<or> (apiType \<noteq> APITypeWSDL \<and> apiType \<noteq> APITypeREST) then (log, requests, apiType, False)
      else (case ProbeAndAppendWSDLRequest env targetURL requests allowPrivate proxy log of
          (log', augmented, foundWSDL, _) \<Rightarrow>
            if foundWSDL then (log', augmented, APITypeWSDL, True) else (log', requests, apiType, False)))"

text \<open>\<open>AfterWSDL\<close> is the identity when the field is nil. A scan never sets
  \<^verbatim>\<open>AllowCrossOriginProbe\<close>.\<close>

definition ResolveAndGenerate ::
    "pipeline_env \<Rightarrow> (ObservedRequest list \<Rightarrow> ObservedRequest list) \<Rightarrow> pipeline_options \<Rightarrow> ObservedRequest list \<Rightarrow> http_log
      \<Rightarrow> http_log \<times> (pipeline_error + bytes) \<times> string \<times> bool \<times> ObservedRequest list" where
  "ResolveAndGenerate env AfterWSDL opts requests log =
     (let apiType = OptAPIType opts;
          apiType = (if apiType = [] \<or> apiType = APITypeAuto then DetectAPIType requests (OptConfidence opts) else apiType)
      in (case ResolveWSDLType env (OptTargetURL opts) apiType requests (OptProbe opts) (OptAllowPrivate opts)
             (OptProxy opts) log of
           (log1, requests, apiType, foundWSDL) \<Rightarrow>
             let requests = AfterWSDL requests
             in (case ClassifyProbeGenerate env (opts\<lparr>OptAPIType := apiType, OptAllowCrossOriginProbe := False\<rparr>) requests log1 of
                  (log2, spec) \<Rightarrow> (log2, spec, apiType, foundWSDL, requests))))"

end
