(* ===== verification/Pipeline_Spec.thy ===== *)
theory Pipeline_Spec
  imports Pipeline
begin

text \<open>
  What the pipeline promises: which requests the probe stage may send, what it may not change, how the API
  type is chosen, and what the gRPC passes add.
\<close>

section \<open>The gates in front of every probe\<close>

text \<open>What a probed URL must satisfy: it is an absolute HTTP URL without credentials, on the target's
  origin unless that is switched off, and not of a private address unless that is switched off.\<close>

definition probe_allowed :: "pipeline_env \<Rightarrow> pipeline_options \<Rightarrow> string \<Rightarrow> string \<Rightarrow> bool" where
  "probe_allowed env opts targetOrigin raw =
     ((case parse_url raw of None \<Rightarrow> False
       | Some u \<Rightarrow> (Scheme u = ''http'' \<or> Scheme u = ''https'') \<and> Host u \<noteq> [] \<and> User u = None)
      \<and> (OptAllowCrossOriginProbe opts \<or> SameOrigin raw targetOrigin)
      \<and> (OptAllowPrivate opts \<or> ValidateProbeURL (Http env) raw))"

lemma ValidateFullURL_iff: "ValidateFullURL raw \<noteq> None \<longleftrightarrow>
    (case parse_url raw of None \<Rightarrow> False
     | Some u \<Rightarrow> (Scheme u = ''http'' \<or> Scheme u = ''https'') \<and> Host u \<noteq> [] \<and> User u = None)"
  by (cases "parse_url raw") (auto simp: ValidateFullURL_def simp del: not_None_eq)

lemma buildProbeConfig_validator: "URLValidator (buildProbeConfig env opts)
    = (if OptAllowPrivate opts then Some (\<lambda>_. True) else None)"
  by (simp add: buildProbeConfig_def DefaultConfig_def Let_def)

lemma gated_validator:
  "URLValidator (gated_config env opts t) \<noteq> None"
  "valid_url (gated_config env opts t) raw = probe_allowed env opts t raw"
proof -
  show "URLValidator (gated_config env opts t) \<noteq> None" by (simp add: gated_config_def Let_def)
  have full: "newFullURLValidator (Http env) (URLValidator (buildProbeConfig env opts)) raw
      = (ValidateFullURL raw \<noteq> None \<and> (OptAllowPrivate opts \<or> ValidateProbeURL (Http env) raw))"
    by (simp add: newFullURLValidator_def buildProbeConfig_validator)
  show "valid_url (gated_config env opts t) raw = probe_allowed env opts t raw"
    by (auto simp: valid_url_def gated_config_def Let_def newCrossOriginValidator_def full probe_allowed_def
        ValidateFullURL_iff [symmetric] simp del: not_None_eq)
qed

lemma withDefaults_validator: "URLValidator cfg \<noteq> None \<Longrightarrow> URLValidator (withDefaults env cfg) = URLValidator cfg"
  by (auto simp: withDefaults_def Let_def split: option.splits)

lemma withDefaults_max: "MaxEndpoints cfg = 0 \<Longrightarrow> MaxEndpoints (withDefaults env cfg) = 500"
  by (simp add: withDefaults_def Let_def DefaultMaxEndpoints_def split: option.split)

lemma gated_max: "MaxEndpoints (gated_config env opts t) = 0"
  by (simp add: gated_config_def buildProbeConfig_def DefaultConfig_def Let_def)

definition allowed :: "pipeline_env \<Rightarrow> pipeline_options \<Rightarrow> string \<Rightarrow> http_request \<Rightarrow> bool" where
  "allowed env opts t r = probe_allowed env opts t (ReqURL r)"

lemma allowed_request_gated:
  "allowed_request (withDefaults e (gated_config env opts t)) = allowed env opts t"
  by (rule ext) (simp add: allowed_request_def allowed_def valid_url_def
      withDefaults_validator gated_validator(1) gated_validator(2) [symmetric, unfolded valid_url_def])

text \<open>Every strategy of the HTTP types keeps the contract with the gated configuration, and sends at most
  so many requests.\<close>

definition request_budget :: "string \<Rightarrow> nat" where
  "request_budget apiType = (if apiType = APITypeWSDL then 500 else if apiType = APITypeGraphQL then 1500 else 1000)"

lemma strategies_contract:
  assumes "ty \<noteq> APITypeGRPC" "s \<in> set (StrategiesForType env ty (gated_config env opts t))"
  shows "probe_strategy (StrategyProbe s) (allowed env opts t) captured"
proof -
  let ?c = "withDefaults (Http env) (gated_config env opts t)"
  have "probe_strategy (options_Probe ?c) (allowed env opts t) captured"
    "probe_strategy (schema_Probe ?c) (allowed env opts t) captured"
    "probe_strategy (wsdl_Probe ?c) (allowed env opts t) captured"
    "probe_strategy (graphql_Probe ?c) (allowed env opts t) captured"
    using options.probe_strategy_axioms [of ?c] schema.probe_strategy_axioms [of ?c]
      wsdl_doc.probe_strategy_axioms [of ?c] graphql_schema.probe_strategy_axioms [of ?c]
    by (simp_all only: allowed_request_gated)
  then show ?thesis using assms
    by (auto simp: StrategiesForType_def NewOptionsProbe_def NewSchemaProbe_def NewWSDLProbe_def
        NewGraphQLProbe_def split: if_splits)
qed

lemma loop_probe_bound:
  assumes "\<And>k log log' r. probe k log = (log', r) \<Longrightarrow> length log' \<le> length log + m"
    and "loop_probe key key' limit probe put log eps = (log', r)"
  shows "length log' \<le> length log + nat limit * m"
  using probe_each_bound [of probe m key limit log eps, OF assms(1)] assms(2)
  by (auto simp: loop_probe_def split: prod.splits)

lemma http_probe_bounds:
  assumes "MaxEndpoints cfg = 500"
  shows "options_Probe cfg log eps = (log', r) \<Longrightarrow> length log' \<le> length log + 500"
    "schema_Probe cfg log eps = (log', r') \<Longrightarrow> length log' \<le> length log + 500"
    "wsdl_Probe cfg log eps = (log', r') \<Longrightarrow> length log' \<le> length log + 500"
    "graphql_Probe cfg log eps = (log', r') \<Longrightarrow> length log' \<le> length log + 1500"
  using loop_probe_bound [of "options_probeURL cfg" 1 url_key url_key 500 set_methods log eps log' r]
    loop_probe_bound [of "schema_probeURL cfg" 1 json_url_key url_key 500 set_schema log eps log' r']
    loop_probe_bound [of "fetchWSDL cfg" 1 wsdl_key wsdl_key 500 set_document log eps log' r']
    loop_probe_bound [of "probeEndpoint cfg" 3 graphql_key graphql_key 500 set_introspection log eps log' r']
    options_probeURL_sends schema_probeURL_sends fetchWSDL_sends probeEndpoint_sends assms
  by (auto simp: options_Probe_def schema_Probe_def wsdl_Probe_def graphql_Probe_def)

lemma RunStrategies_bound:
  assumes "\<And>s log eps log' r. s \<in> set ss \<Longrightarrow> StrategyProbe s log eps = (log', r) \<Longrightarrow> length log' \<le> length log + m"
  shows "RunStrategies ctx ss log eps = (log', eps', errs) \<Longrightarrow> length log' \<le> length log + length ss * m"
  using assms
proof (induction ss arbitrary: log eps log' eps' errs)
  case (Cons s ss)
  have IH: "\<And>l e l' e' er. RunStrategies ctx ss l e = (l', e', er) \<Longrightarrow> length l' \<le> length l + length ss * m"
    by (rule Cons.IH, assumption) (rule Cons.prems(2), auto)
  obtain l r where p: "StrategyProbe s log eps = (l, r)" by (cases "StrategyProbe s log eps")
  then have l: "length l \<le> length log + m" using Cons.prems(2) [OF _ p] by simp
  show ?case
  proof (cases "ctx log")
    case None
    then have "\<exists>e er. RunStrategies ctx ss l e = (log', eps', er)" using Cons.prems(1) p
      by (cases r) (auto split: prod.splits)
    then show ?thesis using IH l by fastforce
  qed (use Cons.prems(1) in auto)
qed simp

lemma probe_stage_contract:
  assumes "OptAPIType opts \<noteq> APITypeGRPC" "probe_stage env opts reqs t log eps = (log', eps', errs)"
  shows "sends_only (allowed env opts t) log log'" "map captured eps' = map captured eps"
    "length log' \<le> length log + request_budget (OptAPIType opts)"
proof -
  let ?ss = "StrategiesForType env (OptAPIType opts) (gated_config env opts t)"
  have run: "RunStrategies (CtxErr env) ?ss log eps = (log', eps', errs)"
    using assms by (simp add: probe_stage_def Let_def)
  note c = RunStrategies_contract [where ok = "allowed env opts t" and frame = captured,
      OF strategies_contract [OF assms(1)] run]
  show "sends_only (allowed env opts t) log log'" "map captured eps' = map captured eps" using c by blast+
  note max = withDefaults_max [OF gated_max]
  let ?m = "if OptAPIType opts = APITypeGraphQL then 1500 else 500"
  have "length log' \<le> length log + length ?ss * ?m"
  proof (rule RunStrategies_bound [OF _ run])
    fix s l e l' r
    assume s: "s \<in> set ?ss" "StrategyProbe s l e = (l', r)"
    show "length l' \<le> length l + ?m"
      using s assms(1) http_probe_bounds [OF max, of "Http env" env opts t l e l' r]
      by (auto simp: StrategiesForType_def NewOptionsProbe_def NewSchemaProbe_def NewWSDLProbe_def
          NewGraphQLProbe_def api_types split: if_splits)
  qed
  then show "length log' \<le> length log + request_budget (OptAPIType opts)"
    using assms(1) by (auto simp: StrategiesForType_def request_budget_def api_types split: if_splits)
qed

section \<open>Requests of a run\<close>

lemma sends_only_length: "sends_only ok log log' \<Longrightarrow> length log' \<le> length log + n \<Longrightarrow>
    \<exists>new. log' = log @ new \<and> list_all ok new \<and> length new \<le> n"
  by (auto simp: sends_only_def)

lemma ClassifyProbeGenerate_sends:
  assumes "OptAPIType opts \<noteq> APITypeGRPC" "ClassifyProbeGenerate env opts reqs log = (log', r)"
  shows "\<exists>new. log' = log @ new \<and> list_all (allowed env opts (ResolveTargetOrigin (OptTargetURL opts) reqs)) new
    \<and> length new \<le> (if OptProbe opts then request_budget (OptAPIType opts) else 0)"
proof (cases "log' = log")
  case False
  then obtain cls where "ClassifiersForType (OptAPIType opts) = Some cls"
    and v: "ValidateSlugThreshold (OptAPIType opts) (OptMergeSlugs opts) (OptSlugThreshold opts)" and p: "OptProbe opts"
    using assms(2) by (auto simp: ClassifyProbeGenerate_def Let_def split: option.splits if_splits)
  moreover obtain l eps errs where s: "probe_stage env opts reqs (ResolveTargetOrigin (OptTargetURL opts) reqs) log
      (classify_stage env opts cls reqs) = (l, eps, errs)" by (metis prod.exhaust)
  ultimately have "log' = l" using assms(2)
    by (auto simp: ClassifyProbeGenerate_def Let_def split: option.splits if_splits)
  then show ?thesis using probe_stage_contract(1,3) [OF assms(1) s] p sends_only_length by simp
qed simp

text \<open>A run with two candidates, one on the target and one planted for another host; the servers answer
  every request alike.\<close>

definition sample_client :: http_client where
  "sample_client log req = Some \<lparr>Status = 200, Header = [(''Allow'', [''GET, put'']), (''Content-Type'', [''text/html''])],
     BodyRead = Some []\<rparr>"

definition sample_library :: openapi_env where
  "sample_library =
     \<lparr>ParseMediaType = (\<lambda>_. None), NextParts = (\<lambda>_ _. []), FindPath = (\<lambda>_ _. None),
      MarshalYAML = (\<lambda>doc. Some (concat (map (\<lambda>s. s @ '' '') (DocServers doc @ map fst (DocPaths doc))))), LoadFromData = (\<lambda>_. True), MarshalIndent = (\<lambda>_. None)\<rparr>"

definition sample_env :: pipeline_env where
  "sample_env =
     \<lparr>Http = \<lparr>resolve = (\<lambda>_. None), proxied_client = sample_client, safe_client = sample_client\<rparr>,
      PlainClient = sample_client, CtxErr = (\<lambda>_. None),
      Dedup = \<lparr>parseMediaType = (\<lambda>_. None), fingerprint = (\<lambda>b. b)\<rparr>, GRPCStrategies = (\<lambda>_. []),
      ExtractGRPCWebBindings = (\<lambda>_. []), OpenAPI = sample_library,
      GraphQLGenerate = (\<lambda>_. None), GRPCGenerate = (\<lambda>_. None), XmlTokens = (\<lambda>_. []), IsWSDL = (\<lambda>_. False),
      MarshalXml = (\<lambda>_. None), ExtractForms = (\<lambda>_. []), AnalyzeBundles = (\<lambda>_ _ _ _. None)\<rparr>"

definition sample_opts :: pipeline_options where
  "sample_opts =
     \<lparr>OptAPIType = ''rest'', OptConfidence = DefaultConfidenceThreshold, OptProbe = True, OptDeduplicate = False,
      OptAllowPrivate = True, OptTargetURL = ''http://h/'', OptAllowCrossOriginProbe = False,
      OptMergeSlugs = False, OptSlugThreshold = 0, OptProxy = False\<rparr>"

definition sample_capture :: "ObservedRequest list" where
  "sample_capture = map (\<lambda>url. empty_request\<lparr>Method := ''GET'', URL := url,
     Response := empty_response\<lparr>ContentType := ''application/json''\<rparr>\<rparr>) [''http://h/users'', ''http://evil/x'']"

lemma sample_run:
  "map (\<lambda>q. (ReqMethod q, ReqURL q)) (fst (ClassifyProbeGenerate sample_env sample_opts sample_capture []))
    = [(''OPTIONS'', ''http://h/users''), (''GET'', ''http://h/users'')]"
  "snd (ClassifyProbeGenerate sample_env sample_opts sample_capture []) = Inr ''http://h http://evil /users /x ''"
  by code_simp+

text \<open>C1. Whatever is captured and whatever servers answer, a run of the pipeline for an HTTP API type sends only
  requests that pass all gates: absolute HTTP URLs without credentials, on the target's origin unless
  cross-origin probing is on, and to no private address unless those are allowed, each switch disabling its own
  gate and no other. The number of requests is bounded: 500 for WSDL, 1500 for GraphQL, 1000 for REST, and none
  when probing is off.\<close>

theorem ClassifyProbeGenerate_requests:
  assumes "OptAPIType opts \<noteq> APITypeGRPC" "ClassifyProbeGenerate env opts reqs log = (log', r)"
  shows "\<exists>new. log' = log @ new
    \<and> list_all (\<lambda>q. probe_allowed env opts (ResolveTargetOrigin (OptTargetURL opts) reqs) (ReqURL q)) new
    \<and> length new \<le> (if OptProbe opts then request_budget (OptAPIType opts) else 0)"
  using ClassifyProbeGenerate_sends [OF assms] by (simp add: allowed_def [abs_def])

lemma ClassifyProbeGenerate_requests_witness:
  "\<exists>new. fst (ClassifyProbeGenerate sample_env sample_opts sample_capture []) = [] @ new
    \<and> list_all (\<lambda>q. probe_allowed sample_env sample_opts (ResolveTargetOrigin (OptTargetURL sample_opts) sample_capture) (ReqURL q)) new
    \<and> length new \<le> (if OptProbe sample_opts then request_budget (OptAPIType sample_opts) else 0)"
  by (rule ClassifyProbeGenerate_requests [where r = "snd (ClassifyProbeGenerate sample_env sample_opts sample_capture [])"])
    (simp_all add: sample_opts_def api_types)

text \<open>C2. For an HTTP API type and with cross-origin probing off, a scan that pins its target stays on
  it: when the target URL has a scheme and a host without a percent sign, every request of the run goes to that
  scheme, that host name and that port, without credentials, whatever URLs the captured pages and scripts
  contain. (A gRPC run is excluded: its strategies are a parameter of the model. With cross-origin probing on, the
  other two gates of C1 remain.)\<close>

theorem probes_stay_on_target:
  assumes "OptAPIType opts \<noteq> APITypeGRPC" "\<not> OptAllowCrossOriginProbe opts"
    and "parse_url (OptTargetURL opts) = Some u" "Scheme u \<noteq> []" "Hostname u \<noteq> []" "CHR ''%'' \<notin> set (Hostname u)"
    and "ClassifyProbeGenerate env opts reqs log = (log', r)"
  shows "\<exists>new. log' = log @ new \<and> list_all (\<lambda>q. \<exists>v :: url. parse_url (ReqURL q) = Some v \<and> Scheme v = Scheme u
      \<and> to_lower (Hostname v) = to_lower (Hostname u) \<and> effective_port v = effective_port u \<and> User v = None) new"
proof -
  let ?t = "OptTargetURL opts"
  have "?t \<noteq> []"
  proof
    assume "?t = []"
    moreover have "case parse_url [] of None \<Rightarrow> True | Some u \<Rightarrow> Scheme u = []" by code_simp
    ultimately show False using assms(3,4) by simp
  qed
  then have t: "ResolveTargetOrigin ?t reqs = originOf ?t" by (simp add: ResolveTargetOrigin_def)
  obtain new where new: "log' = log @ new" "list_all (allowed env opts (originOf ?t)) new"
    using ClassifyProbeGenerate_sends [OF assms(1,7)] t by auto
  have "\<exists>v :: url. parse_url raw = Some v \<and> Scheme v = Scheme u \<and> to_lower (Hostname v) = to_lower (Hostname u)
      \<and> effective_port v = effective_port u \<and> User v = None" if a: "probe_allowed env opts (originOf ?t) raw" for raw
  proof -
    obtain v where v: "parse_url raw = Some v" "User v = None" "SameOrigin raw (originOf ?t)"
      using a assms(2) by (auto simp: probe_allowed_def simp del: not_None_eq split: option.splits)
    have "originOf ?t \<noteq> []"
    proof
      assume "originOf ?t = []"
      then have "originOf (originOf ?t) = []" by (simp add: originOf_def) (code_simp)
      then show False using v(3) by (auto simp: SameOrigin_def Let_def split: if_splits)
    qed
    then have "SameOrigin raw ?t" using originOf_reparses [OF assms(3) _ assms(4,6,5)] v(3) by blast
    then show ?thesis using v assms(3) by (simp add: SameOrigin_spec)
  qed
  then have "list_all (\<lambda>q. \<exists>v :: url. parse_url (ReqURL q) = Some v \<and> Scheme v = Scheme u
      \<and> to_lower (Hostname v) = to_lower (Hostname u) \<and> effective_port v = effective_port u \<and> User v = None) new"
    using new(2) by (auto simp: list_all_iff allowed_def)
  then show ?thesis using new(1) by blast
qed

lemma probes_stay_on_target_witness:
  "\<exists>new. fst (ClassifyProbeGenerate sample_env sample_opts sample_capture []) = [] @ new
    \<and> list_all (\<lambda>q. \<exists>v :: url. parse_url (ReqURL q) = Some v \<and> Scheme v = ''http'' \<and> to_lower (Hostname v) = ''h''
        \<and> effective_port v = ''80'' \<and> User v = None) new"
proof -
  let ?u = "empty_url\<lparr>Scheme := ''http'', Host := ''h'', Path := ''/''\<rparr>"
  have u: "parse_url (OptTargetURL sample_opts) = Some ?u" "to_lower (Hostname ?u) = ''h''" "effective_port ?u = ''80''"
    "Hostname ?u \<noteq> []" "CHR ''%'' \<notin> set (Hostname ?u)" "Scheme ?u = ''http''" by code_simp+
  have "OptAPIType sample_opts \<noteq> APITypeGRPC" "\<not> OptAllowCrossOriginProbe sample_opts" "Scheme ?u \<noteq> []"
    by (simp_all add: sample_opts_def api_types)
  from probes_stay_on_target [OF this(1,2) u(1) this(3) u(4,5), of sample_env sample_capture "[]"
      "fst (ClassifyProbeGenerate sample_env sample_opts sample_capture [])"
      "snd (ClassifyProbeGenerate sample_env sample_opts sample_capture [])"]
  show ?thesis unfolding u(2,3,6) by simp
qed

text \<open>Probing changes no endpoint but the fields it discovers: the probe stage hands on the same endpoints, in
  order, each with the same captured request, classification, score and reason, also when strategies fail.\<close>

theorem probe_stage_frame:
  assumes "OptAPIType opts \<noteq> APITypeGRPC" "probe_stage env opts reqs t log eps = (log', eps', errs)"
  shows "map captured eps' = map captured eps"
  using probe_stage_contract(2) [OF assms] .

lemma probe_stage_frame_witness:
  "map captured (fst (snd (probe_stage sample_env sample_opts sample_capture (originOf ''http://h/'') [] [host_endpoint ''http://h'']))) =
    [captured (host_endpoint ''http://h'')]"
  using probe_stage_frame [of sample_opts sample_env sample_capture "originOf ''http://h/''" "[]" "[host_endpoint ''http://h'']"]
  by (cases "probe_stage sample_env sample_opts sample_capture (originOf ''http://h/'') [] [host_endpoint ''http://h'']")
    (simp add: sample_opts_def api_types)

section \<open>Errors\<close>

text \<open>C21. The errors of the pipeline: an unknown API type, and with slug merging on a slug threshold below
  2, are reported before anything is classified or sent. The second is an error for REST and for gRPC, though
  only the REST generator reads the slug options; WSDL and GraphQL never get it. Everything else either fails in
  the generator or produces a specification.\<close>

theorem ClassifyProbeGenerate_errors:
  "case ClassifyProbeGenerate env opts reqs log of (log', r) \<Rightarrow>
     if OptAPIType opts \<notin> {''rest'', ''wsdl'', ''graphql'', ''grpc''}
     then log' = log \<and> r = Inl (UnsupportedAPIType (OptAPIType opts))
     else if OptAPIType opts \<in> {''rest'', ''grpc''} \<and> OptMergeSlugs opts \<and> OptSlugThreshold opts < 2
     then log' = log \<and> r = Inl SlugThresholdTooSmall
     else r = Inl GenerateFailed \<or> (\<exists>spec. r = Inr spec)"
proof -
  have types: "ClassifiersForType (OptAPIType opts) = None \<longleftrightarrow> OptAPIType opts \<notin> {''rest'', ''wsdl'', ''graphql'', ''grpc''}"
    "GetWithOptions env (OptAPIType opts) a b c = None \<longleftrightarrow> OptAPIType opts \<notin> {''rest'', ''wsdl'', ''graphql'', ''grpc''}" for a b c
    by (auto simp: ClassifiersForType_def GetWithOptions_def api_types)
  have slug: "ValidateSlugThreshold ty m n \<longleftrightarrow> \<not> (ty \<in> {''rest'', ''grpc''} \<and> m \<and> n < 2)"
    if "ty \<in> {''rest'', ''wsdl'', ''graphql'', ''grpc''}" for ty m n
    using that by (auto simp: ValidateSlugThreshold_def api_types)
  show ?thesis
  proof (cases "OptAPIType opts \<in> {''rest'', ''wsdl'', ''graphql'', ''grpc''}")
    case False
    then show ?thesis using types(1) by (simp add: ClassifyProbeGenerate_def)
  next
    case in_types: True
    then obtain cls where c: "ClassifiersForType (OptAPIType opts) = Some cls" using types(1) by auto
    show ?thesis
    proof (cases "ValidateSlugThreshold (OptAPIType opts) (OptMergeSlugs opts) (OptSlugThreshold opts)")
      case True
      obtain gen where gen: "GetWithOptions env (OptAPIType opts) (OptMergeSlugs opts) (OptSlugThreshold opts)
          (ResolveTargetOrigin (OptTargetURL opts) reqs) = Some gen"
        using types(2) in_types by (meson option.exhaust)
      have "case ClassifyProbeGenerate env opts reqs log of (log', r) \<Rightarrow>
          r = Inl GenerateFailed \<or> (\<exists>spec. r = Inr spec)"
        using c True gen unfolding ClassifyProbeGenerate_def by (simp add: Let_def split: prod.split option.split)
      then show ?thesis using slug [OF in_types] True in_types by (simp split: prod.splits) blast
    next
      case False
      then have "ClassifyProbeGenerate env opts reqs log = (log, Inl SlugThresholdTooSmall)"
        using c by (simp add: ClassifyProbeGenerate_def)
      then show ?thesis using slug [OF in_types] False in_types by auto
    qed
  qed
qed

section \<open>The API type\<close>

definition votes :: "ObservedRequest list \<Rightarrow> confidence \<Rightarrow> string \<Rightarrow> nat" where
  "votes reqs threshold apiType =
     (case ClassifiersForType apiType of None \<Rightarrow> 0
      | Some cls \<Rightarrow> sum_list (map (\<lambda>cl. count_matches cl threshold reqs) cls))"

lemma votes_simps:
  "votes reqs thr ''rest'' = count_matches RESTClassifier thr reqs"
  "votes reqs thr ''wsdl'' = count_matches WSDLClassifier thr reqs"
  "votes reqs thr ''graphql'' = count_matches GraphQLClassifier thr reqs"
  by (simp_all add: votes_def ClassifiersForType_def api_types)

text \<open>Detection takes the type whose classifier matches most requests at the threshold; ties go to GraphQL,
  then to WSDL; REST is the default when nothing matches.\<close>

theorem DetectAPIType_spec:
  "DetectAPIType reqs threshold =
     (if votes reqs threshold ''graphql'' = 0 \<and> votes reqs threshold ''wsdl'' = 0 \<and> votes reqs threshold ''rest'' = 0
      then ''rest''
      else hd (filter (\<lambda>t. votes reqs threshold t = Max (votes reqs threshold ` {''graphql'', ''wsdl'', ''rest''}))
        [''graphql'', ''wsdl'', ''rest'']))"
  by (auto simp: DetectAPIType_def votes_simps api_types Let_def max_def)

section \<open>gRPC hosts\<close>

definition observed_hosts :: "ObservedRequest list \<Rightarrow> string set" where
  "observed_hosts reqs = (\<lambda>r. grpcHostKey (URL r)) ` set reqs - {[]}"

lemma collect_hosts_spec:
  "distinct hosts \<Longrightarrow> distinct (collect_hosts existing hosts reqs)
    \<and> set (collect_hosts existing hosts reqs) = set hosts \<union> (observed_hosts reqs - set existing)"
proof (induction reqs arbitrary: hosts)
  case (Cons req reqs)
  then show ?case by (auto simp: Let_def observed_hosts_def)
qed (simp add: observed_hosts_def)

lemma seeded_hosts: "sort (collect_hosts existing [] reqs) = sorted_list_of_set (observed_hosts reqs - set existing)"
proof (rule sorted_distinct_set_unique)
  have "finite (observed_hosts reqs - set existing)" by (simp add: observed_hosts_def)
  then show "set (sort (collect_hosts existing [] reqs)) = set (sorted_list_of_set (observed_hosts reqs - set existing))"
    using collect_hosts_spec [of "[]" existing reqs] by simp
  show "distinct (sort (collect_hosts existing [] reqs))" using collect_hosts_spec [of "[]" existing reqs] by simp
qed simp_all

text \<open>The hosts that get a synthetic gRPC endpoint depend only on the set of observed hosts: they are the
  observed hosts without a gRPC endpoint, in order, up to the limit; the endpoints given are kept as they are.\<close>

theorem seedGRPCHostEndpoints_spec:
  "seedGRPCHostEndpoints reqs classified maxHosts = classified @ map host_endpoint
     (if maxHosts > 0 then take (nat maxHosts) (sorted_list_of_set (observed_hosts reqs - set (existing_hosts classified)))
      else sorted_list_of_set (observed_hosts reqs - set (existing_hosts classified)))"
  by (simp add: seedGRPCHostEndpoints_def seeded_hosts Let_def)

section \<open>gRPC bindings\<close>

definition services_of :: "endpoint list \<Rightarrow> GRPCService set" where
  "services_of eps = set (concat (map schema_services eps))"

definition reflected_names :: "endpoint list \<Rightarrow> string set" where
  "reflected_names eps = fqn ` services_of (filter reflected eps)"

lemma fillable_services: "fillable ep \<Longrightarrow> schema_services ep = []"
  by (auto simp: fillable_def hasCoverage_def schema_services_def split: option.splits)

lemma schema_services_fill [simp]: "schema_services (ep\<lparr>GRPCSchema := Some (grpcSchema svcs)\<rparr>) = svcs"
  by (simp add: schema_services_def grpcSchema_def)

lemma services_of_append [simp]: "services_of (a @ b) = services_of a \<union> services_of b"
  by (simp add: services_of_def)

lemma services_of_trailing [simp]: "services_of [trailing_endpoint svcs] = set svcs"
  by (simp add: services_of_def trailing_endpoint_def)

lemma services_of_fill: "services_of (map (fill svcs) eps) = services_of eps \<union> (if list_ex fillable eps then set svcs else {})"
  by (induction eps) (auto simp: services_of_def fill_def fillable_services)

lemma covered_split: "fqn ` services_of eps = reflected_names eps \<union> fqn ` services_of (filter (\<lambda>ep. \<not> reflected ep) eps)"
  by (auto simp: reflected_names_def services_of_def)

lemma new_services:
  "set (filterUncoveredServices svcs eps) \<union> set (nameOnlyCoveredServices svcs eps)
    = {svc \<in> set svcs. fqn svc \<notin> reflected_names eps}"
proof -
  have u: "set (filterUncoveredServices svcs eps) = {svc \<in> set svcs. fqn svc \<notin> fqn ` services_of eps}"
    by (auto simp: filterUncoveredServices_def services_of_def Let_def)
  have n: "set (nameOnlyCoveredServices svcs eps) = {svc \<in> set svcs. fqn svc \<notin> reflected_names eps
      \<and> fqn svc \<in> fqn ` services_of (filter (\<lambda>ep. \<not> reflected ep) eps)}"
    by (auto simp: nameOnlyCoveredServices_def reflected_names_def services_of_def Let_def)
  show ?thesis unfolding u n using covered_split [of eps] by auto
qed

definition bindings_result :: "GRPCService list \<Rightarrow> GRPCService list \<Rightarrow> endpoint list \<Rightarrow> endpoint list" where
  "bindings_result u n eps =
     (let filled = (if u = [] then eps else map (fill u) eps);
          trailing = (if list_ex fillable eps then [] else u) @ n
      in filled @ (if trailing = [] then [] else [trailing_endpoint trailing]))"

lemma enrich_bindings_result:
  "enrichGRPCFromBindings svcs eps = bindings_result (filterUncoveredServices svcs eps) (nameOnlyCoveredServices svcs eps) eps"
proof -
  have *: "(if length u = 0 \<and> length n = 0 then eps
      else let attached = (length u > 0 \<and> A);
               filled = (if length u > 0 then map (fill u) eps else eps);
               trailing = (if length u > 0 \<and> \<not> attached then u else []) @ n
           in if length trailing > 0 then filled @ [trailing_endpoint trailing] else filled)
    = (let filled = (if u = [] then eps else map (fill u) eps); trailing = (if A then [] else u) @ n
       in filled @ (if trailing = [] then [] else [trailing_endpoint trailing]))"
    if "A = list_ex fillable eps" for u n A
    by (cases "u = []"; cases "n = []"; cases A) (simp_all add: Let_def)
  show ?thesis
  proof (cases "svcs = []")
    case True
    have "filterUncoveredServices svcs eps = []" "nameOnlyCoveredServices svcs eps = []"
      by (simp_all add: True filterUncoveredServices_def nameOnlyCoveredServices_def Let_def)
    then show ?thesis unfolding bindings_result_def by (simp add: enrichGRPCFromBindings_def True Let_def)
  next
    case False
    then have "length svcs \<noteq> 0" by simp
    then show ?thesis
      unfolding enrichGRPCFromBindings_def bindings_result_def if_not_P [OF \<open>length svcs \<noteq> 0\<close>]
      using * [OF refl] by (simp only: Let_def)
  qed
qed

lemma services_of_result: "services_of (bindings_result u n eps) = services_of eps \<union> (set u \<union> set n)"
  by (cases "list_ex fillable eps"; cases u; cases n) (auto simp: bindings_result_def services_of_fill Let_def)

lemma uncovered_alt: "filterUncoveredServices svcs eps = filter (\<lambda>svc. fqn svc \<notin> fqn ` services_of eps) svcs"
  by (simp add: filterUncoveredServices_def services_of_def Let_def)

lemma name_only_alt: "nameOnlyCoveredServices svcs eps
    = filter (\<lambda>svc. fqn svc \<notin> reflected_names eps \<and> fqn svc \<in> fqn ` services_of eps) svcs"
proof -
  have "nameOnlyCoveredServices svcs eps = filter (\<lambda>svc. fqn svc \<notin> reflected_names eps
      \<and> fqn svc \<in> fqn ` services_of (filter (\<lambda>ep. \<not> reflected ep) eps)) svcs"
    by (simp add: nameOnlyCoveredServices_def reflected_names_def services_of_def Let_def)
  also have "\<dots> = filter (\<lambda>svc. fqn svc \<notin> reflected_names eps \<and> fqn svc \<in> fqn ` services_of eps) svcs"
    using covered_split [of eps] by (intro filter_cong refl) auto
  finally show ?thesis .
qed

lemma reflected_names_Cons: "reflected_names (ep # eps)
    = (if reflected ep then fqn ` set (schema_services ep) else {}) \<union> reflected_names eps"
  by (auto simp: reflected_names_def services_of_def)

lemma reflected_fill: "fqn ` (if reflected (fill u ep) then set (schema_services (fill u ep)) else {})
    = fqn ` (if reflected ep then set (schema_services ep) else {})"
proof (cases "fillable ep")
  case True
  then show ?thesis using fillable_services [OF True] by (simp add: fill_def reflected_def grpcSchema_def)
qed (simp add: fill_def)

lemma reflected_names_fill: "reflected_names (map (fill u) eps) = reflected_names eps"
proof (induction eps)
  case (Cons ep eps)
  then show ?case using reflected_fill [of u ep] by (auto simp: reflected_names_Cons split: if_splits)
qed simp

lemma reflected_names_trailing: "reflected_names (eps @ [trailing_endpoint svcs]) = reflected_names eps"
  by (simp add: reflected_names_def trailing_endpoint_def reflected_def grpcSchema_def)

text \<open>C20. The services recovered from JavaScript have the lowest rank. The uncovered ones, which no endpoint
  names, fill every gRPC endpoint that has neither descriptors nor services; without such an endpoint they go to
  one new endpoint, after all others. The services that only a gateway named go to that endpoint too, never into
  another one. What is filled in is marked as not reflected and has no descriptors, and all other endpoints stay as
  they are. So exactly the recovered services that reflection does not cover are added, and the names known from
  reflection are the same as before.\<close>

theorem enrichGRPCFromBindings_spec:
  "let uncovered = filter (\<lambda>svc. fqn svc \<notin> fqn ` services_of eps) svcs;
       name_only = filter (\<lambda>svc. fqn svc \<notin> reflected_names eps \<and> fqn svc \<in> fqn ` services_of eps) svcs;
       recovered = (\<lambda>svcs. Some \<lparr>ReflectionEnabled = False, ReflectionUnavailableReason = [], Services = svcs,
         FileDescriptors = []\<rparr>);
       filled = map (\<lambda>ep. if fillable ep \<and> uncovered \<noteq> [] then ep\<lparr>GRPCSchema := recovered uncovered\<rparr> else ep) eps;
       rest = (if list_ex fillable eps then [] else uncovered) @ name_only;
       result = enrichGRPCFromBindings svcs eps
   in result = filled @ (if rest = [] then [] else [(host_endpoint [])\<lparr>GRPCSchema := recovered rest\<rparr>])
      \<and> services_of result = services_of eps \<union> {svc \<in> set svcs. fqn svc \<notin> reflected_names eps}
      \<and> reflected_names result = reflected_names eps"
proof -
  let ?u = "filterUncoveredServices svcs eps" and ?n = "nameOnlyCoveredServices svcs eps"
  have filled: "(if ?u = [] then eps else map (fill ?u) eps)
      = map (\<lambda>ep. if fillable ep \<and> ?u \<noteq> [] then ep\<lparr>GRPCSchema := Some (grpcSchema ?u)\<rparr> else ep) eps"
    by (simp add: fill_def)
  have "reflected_names (bindings_result ?u ?n eps) = reflected_names eps"
    by (simp add: bindings_result_def Let_def reflected_names_trailing reflected_names_fill)
  then show ?thesis
    unfolding Let_def enrich_bindings_result services_of_result new_services uncovered_alt [symmetric] name_only_alt [symmetric]
      grpcSchema_def [symmetric]
    by (simp add: bindings_result_def filled trailing_endpoint_def Let_def)
qed
end
