(* ===== verification/Importer.thy ===== *)
theory Importer
  imports Crawl_Types Go_Query Tnet_Decode Go_Json_Struct
begin

text \<open>
  What the traffic importers share: \<^verbatim>\<open>pkg/importer/importer.go\<close> (the reader with a limit),
  \<^verbatim>\<open>helpers.go\<close>, \<^verbatim>\<open>options.go\<close> (scope and entry limit) and
  \<^verbatim>\<open>registry.go\<close>. The parts of the library that only the importers use are here too: base64, integers
  and byte slices in JSON.
\<close>

section \<open>A reader with a limit\<close>

text \<open>The source is an \<^verbatim>\<open>io.Reader\<close>: of the bytes that are left it gives some, at most as many as
  asked for, and may say that this is the end. \<open>source\<close> says how many, and whether the end is reported.\<close>

type_synonym source = "nat \<Rightarrow> bytes \<Rightarrow> nat \<times> bool"

record limited_reader =
  reader :: bytes
  remaining :: int
  hitLimit :: bool

definition newLimitedReader :: "bytes \<Rightarrow> int \<Rightarrow> limited_reader" where
  "newLimitedReader r limit = \<lparr>reader = r, remaining = limit, hitLimit = False\<rparr>"

text \<open>\<^verbatim>\<open>limitedReader.Read\<close> into a buffer of \<open>p\<close> bytes: the bytes read, and whether
  \<^verbatim>\<open>io.EOF\<close> is returned.\<close>

definition limited_Read :: "source \<Rightarrow> nat \<Rightarrow> limited_reader \<Rightarrow> limited_reader \<times> bytes \<times> bool" where
  "limited_Read source p lr =
     (if remaining lr \<le> 0 then (lr\<lparr>hitLimit := True\<rparr>, [], True)
      else
        let p = (if int p > remaining lr then nat (remaining lr) else p);
            (n, eof) = source p (reader lr);
            lr' = lr\<lparr>reader := drop n (reader lr), remaining := remaining lr - int n\<rparr>;
            data = take n (reader lr)
        in if remaining lr' \<le> 0 \<and> \<not> eof then (lr'\<lparr>hitLimit := True\<rparr>, data, True) else (lr', data, eof))"

text \<open>Reading until the end, with buffers of the sizes in the list.\<close>

fun read_until_eof :: "source \<Rightarrow> nat list \<Rightarrow> limited_reader \<Rightarrow> (limited_reader \<times> bytes) option" where
  "read_until_eof source [] lr = None"
| "read_until_eof source (p # ps) lr =
     (case limited_Read source p lr of (lr, data, eof) \<Rightarrow>
        if eof then Some (lr, data)
        else map_option (\<lambda>(lr, more). (lr, data @ more)) (read_until_eof source ps lr))"

text \<open>The contract of a source.\<close>

definition io_source :: "source \<Rightarrow> bool" where
  "io_source source \<longleftrightarrow> (\<forall>p r. fst (source p r) \<le> p \<and> fst (source p r) \<le> length r
     \<and> (snd (source p r) \<longrightarrow> fst (source p r) = length r))"

section \<open>Helpers\<close>

text \<open>\<^verbatim>\<open>extractQueryParams\<close>: \<open>None\<close> is nil.\<close>

definition extractQueryParams :: "string \<Rightarrow> url_values option" where
  "extractQueryParams urlStr =
     (case parse_url urlStr of None \<Rightarrow> None
      | Some parsed \<Rightarrow>
          if Scheme parsed = [] \<or> Host parsed = [] then None
          else
            let queryValues = CapQueryValues (parse_query (RawQuery parsed))
            in if queryValues = [] then None else Some queryValues)"

definition maxImportSize :: nat where "maxImportSize = 500 * 1024 * 1024"

definition validHTTPMethods :: "string list" where
  "validHTTPMethods = [''GET'', ''POST'', ''PUT'', ''DELETE'', ''PATCH'', ''HEAD'', ''OPTIONS'', ''TRACE'', ''CONNECT'']"

section \<open>Filtering\<close>

record import_options =
  Scope :: string
  MaxEntries :: int

definition matchesScope :: "string \<Rightarrow> string \<Rightarrow> bool" where
  "matchesScope urlStr scope =
     (if scope = [] then True
      else (case parse_url urlStr of None \<Rightarrow> False
        | Some parsed \<Rightarrow>
            let host = Hostname parsed
            in if has_prefix scope ''*.'' then
                 let suffix = drop 1 scope in has_suffix host suffix \<or> host = drop 2 scope
               else host = scope))"

text \<open>The errors of all importers; the importer's name and the message text are dropped.\<close>

datatype flow_error =
    InvalidPort int
  | InvalidMethod string
  | UnsupportedScheme string
  | InvalidHost
  | MissingPort
  | PortType
  | MissingRequest
  | RequestType
  | ResponseType
  | RequestBase64
  | ResponseBase64
  | RequestText
  | ResponseText

datatype import_error =
    ErrFileTooLarge
  | ErrTooManyEntries
  | ErrRead
  | ErrFormat char
  | ErrJSON
  | ErrXML
  | ErrNative tnet_error
  | ErrNotDict
  | ErrFlow flow_error
  | ErrUnsupportedFormat string

text \<open>An importer reads a file; \<open>at_limit\<close> says whether the reader had come to the limit when
  reading failed, which depends on how far it reads ahead, and matters for a file that reaches the limit only.\<close>

type_synonym importer = "bytes \<Rightarrow> bool \<Rightarrow> import_error + ObservedRequest list"

definition too_large :: "bytes \<Rightarrow> bool \<Rightarrow> bool" where
  "too_large file at_limit = (length file \<ge> maxImportSize \<and> at_limit)"

definition ImportWithOptions :: "importer \<Rightarrow> bytes \<Rightarrow> bool \<Rightarrow> import_options \<Rightarrow> import_error + ObservedRequest list" where
  "ImportWithOptions importer file at_limit opts =
     (case importer file at_limit of Inl e \<Rightarrow> Inl e
      | Inr requests \<Rightarrow>
          if MaxEntries opts > 0 \<and> int (length requests) > MaxEntries opts then Inl ErrTooManyEntries
          else if Scope opts = [] then Inr requests
          else Inr (filter (\<lambda>req. matchesScope (URL req) (Scope opts)) requests))"

section \<open>Parts of the library\<close>

text \<open>Base64 in the standard alphabet, padded; line breaks are skipped.\<close>

definition b64_val :: "char \<Rightarrow> nat option" where
  "b64_val c =
     (if is_upper c then Some (byte_at c - 65)
      else if is_lower c then Some (byte_at c - 71)
      else if is_digit c then Some (byte_at c + 4)
      else if c = CHR ''+'' then Some 62 else if c = CHR ''/'' then Some 63 else None)"

definition byte_of :: "nat \<Rightarrow> char" where "byte_of n = char_of (n mod 256)"

fun b64_quanta :: "string \<Rightarrow> bytes option" where
  "b64_quanta [] = Some []"
| "b64_quanta (a # b # c # d # s) =
     (case (b64_val a, b64_val b) of
        (Some x, Some y) \<Rightarrow>
          (case b64_val c of
             None \<Rightarrow> if c = CHR ''='' \<and> d = CHR ''='' \<and> s = [] then Some [byte_of (4 * x + y div 16)] else None
           | Some z \<Rightarrow>
               (case b64_val d of
                  None \<Rightarrow> if d = CHR ''='' \<and> s = [] then Some [byte_of (4 * x + y div 16), byte_of (16 * y + z div 4)] else None
                | Some w \<Rightarrow>
                    map_option (\<lambda>r. byte_of (4 * x + y div 16) # byte_of (16 * y + z div 4) # byte_of (64 * z + w) # r)
                      (b64_quanta s)))
      | _ \<Rightarrow> None)"
| "b64_quanta s = None"

definition base64_decode :: "string \<Rightarrow> bytes option" where
  "base64_decode s = b64_quanta (filter (\<lambda>c. c \<noteq> CHR 0x0A \<and> c \<noteq> CHR 0x0D) s)"

text \<open>Members of integer type, and of the type of byte slices: a base64 string or an array of bytes.\<close>

definition dec_int :: "json \<Rightarrow> int \<Rightarrow> int option" where
  "dec_int v old = (case v of JNum s \<Rightarrow> parseInt s | JNull \<Rightarrow> Some old | _ \<Rightarrow> None)"

definition dec_byte :: "json \<Rightarrow> char option" where
  "dec_byte v = (case dec_int v 0 of Some n \<Rightarrow> if 0 \<le> n \<and> n < 256 then Some (byte_of (nat n)) else None | None \<Rightarrow> None)"

definition dec_bytes :: "json \<Rightarrow> bytes option" where
  "dec_bytes v = (case v of JStr s \<Rightarrow> base64_decode s | _ \<Rightarrow> dec_list dec_byte v)"

text \<open>\<^verbatim>\<open>strings.Fields\<close>.\<close>

function split_fields :: "string \<Rightarrow> string list" where
  "split_fields s =
     (case dropWhile is_space s of [] \<Rightarrow> []
      | c # r \<Rightarrow> (c # takeWhile (\<lambda>x. \<not> is_space x) r) # split_fields (dropWhile (\<lambda>x. \<not> is_space x) r))"
  by pat_completeness auto
termination
proof (relation "measure length", simp, simp only: in_measure)
  fix s c r assume "dropWhile is_space s = c # r"
  then have "length (c # r) \<le> length s" by (metis length_dropWhile_le)
  moreover have "length (dropWhile (\<lambda>x. \<not> is_space x) r) \<le> length r" by (rule length_dropWhile_le)
  ultimately show "length (dropWhile (\<lambda>x. \<not> is_space x) r) < length s" by simp
qed

declare split_fields.simps [simp del]

lemma split_fields_example: "split_fields ''GET  /x HTTP/1.1 '' = [''GET'', ''/x'', ''HTTP/1.1'']"
  by code_simp

lemma base64_example: "base64_decode ''aGVsbG8='' = Some ''hello''" "base64_decode ''aGVsbG8'' = None"
  by code_simp+

end
