(* ===== verification/Import_Mitmproxy.thy ===== *)
theory Import_Mitmproxy
  imports Importer
begin

text \<open>
  The mitmproxy importer, \<^verbatim>\<open>pkg/importer/mitmproxy.go\<close>: the JSON export and the native flow
  file. \<^verbatim>\<open>strconv.ParseFloat\<close> is the argument \<open>pf\<close>, as in \<open>Tnet_Decode\<close>. Preview strings of
  error messages are dropped.
\<close>

section \<open>Flows\<close>

record mitmproxyRequest =
  MMethod :: string
  MScheme :: string
  MHost :: string
  MPort :: int
  MPath :: string
  MHeaders :: "string list list"
  MContent :: bytes

record mitmproxyResponse =
  MStatusCode :: int
  MRespHeaders :: "string list list"
  MRespContent :: bytes

record mitmproxyFlow =
  MRequest :: mitmproxyRequest
  MResponse :: mitmproxyResponse

definition zero_request :: mitmproxyRequest where
  "zero_request = \<lparr>MMethod = [], MScheme = [], MHost = [], MPort = 0, MPath = [], MHeaders = [], MContent = []\<rparr>"

definition zero_response :: mitmproxyResponse where
  "zero_response = \<lparr>MStatusCode = 0, MRespHeaders = [], MRespContent = []\<rparr>"

section \<open>From a flow to a request\<close>

definition validatePortRange :: "int \<Rightarrow> bool" where
  "validatePortRange port = (\<not> (port < 0 \<or> port > 65535))"

definition allowedSchemes :: "string list" where "allowedSchemes = [''http'', ''https'']"
definition maxHostLength :: nat where "maxHostLength = 253"

definition validateHost :: "string \<Rightarrow> bool" where
  "validateHost host =
     (if host = [] then False
      else if length host > maxHostLength then False
      else if CHR ''@'' \<in> set host then False
      else if CHR '':'' \<in> set host then False
      else if list_ex (\<lambda>c. c \<in> set (CHR 0x5C # ''/?#[]'')) host then False
      else list_all (\<lambda>c. \<not> (byte_at c < 0x21 \<or> byte_at c = 0x7F)) host)"

definition constructURL :: "string \<Rightarrow> string \<Rightarrow> int \<Rightarrow> string \<Rightarrow> string" where
  "constructURL scheme host port path =
     (let (pathPart, query) = cut (CHR ''?'') path;
          u = empty_url\<lparr>Scheme := scheme, Host := host, RawQuery := (case query of None \<Rightarrow> [] | Some q \<Rightarrow> q)\<rparr>;
          u = (case unescape EncPath pathPart of
              Some decoded \<Rightarrow> u\<lparr>Path := decoded, RawPath := pathPart\<rparr>
            | None \<Rightarrow> u\<lparr>Path := pathPart\<rparr>);
          isDefaultPort = (scheme = ''https'' \<and> port = 443) \<or> (scheme = ''http'' \<and> port = 80);
          u = (if \<not> isDefaultPort then u\<lparr>Host := host @ '':'' @ formatInt port\<rparr> else u)
      in url_string u)"

definition convertMitmproxyHeaders :: "string list list \<Rightarrow> headers" where
  "convertMitmproxyHeaders mitmHeaders =
     fold (\<lambda>h m. case h of k # v # _ \<Rightarrow> if k \<noteq> [] then map_put k v m else m | _ \<Rightarrow> m) mitmHeaders []"

definition content_type :: "headers \<Rightarrow> string" where
  "content_type hs = (case map_get hs ''Content-Type'' of None \<Rightarrow> [] | Some v \<Rightarrow> v)"

definition parseFlow :: "mitmproxyFlow \<Rightarrow> flow_error + ObservedRequest" where
  "parseFlow flow =
     (let req = MRequest flow; resp = MResponse flow
      in if \<not> validatePortRange (MPort req) then Inl (InvalidPort (MPort req))
         else if MMethod req \<notin> set validHTTPMethods then Inl (InvalidMethod (MMethod req))
         else if MScheme req \<notin> set allowedSchemes then Inl (UnsupportedScheme (MScheme req))
         else if \<not> validateHost (MHost req) then Inl InvalidHost
         else
           let url = constructURL (MScheme req) (MHost req) (MPort req) (MPath req);
               respHeaders = convertMitmproxyHeaders (MRespHeaders resp)
           in Inr (empty_request\<lparr>Method := MMethod req, URL := url,
                Headers := convertMitmproxyHeaders (MHeaders req),
                QueryParams := extractQueryParams url, Body := MContent req,
                Response := \<lparr>StatusCode = MStatusCode resp, RespHeaders = respHeaders,
                  ContentType = content_type respHeaders, RespBody = MRespContent resp\<rparr>,
                Source := ''import:mitmproxy''\<rparr>))"

section \<open>Native flow files\<close>

definition tnetBytesOrString :: "'f tnet option \<Rightarrow> string" where
  "tnetBytesOrString v = (case v of Some (TStr s) \<Rightarrow> s | Some (TBytes b) \<Rightarrow> b | _ \<Rightarrow> [])"

definition tnetInt64 :: "'f tnet option \<Rightarrow> int" where
  "tnetInt64 v = (case v of Some (TInt n) \<Rightarrow> n | _ \<Rightarrow> 0)"

text \<open>A missing member and a null are both nil.\<close>

definition requirePort :: "'f tnet option \<Rightarrow> flow_error + int" where
  "requirePort v =
     (case v of None \<Rightarrow> Inl MissingPort | Some TNil \<Rightarrow> Inl MissingPort
      | Some (TInt n) \<Rightarrow> if validatePortRange n then Inr n else Inl (InvalidPort n)
      | Some _ \<Rightarrow> Inl PortType)"

definition buildRequestPath :: "(string, 'f tnet) gomap \<Rightarrow> string" where
  "buildRequestPath reqMap =
     (let path = tnetBytesOrString (map_get reqMap ''path'') in if path \<noteq> [] then path else ''/'')"

definition nativeHeaders :: "'f tnet option \<Rightarrow> string list list" where
  "nativeHeaders v =
     (case v of Some (TList list) \<Rightarrow>
        List.map_filter (\<lambda>entry. case entry of
            TList (a # b # _) \<Rightarrow> Some [tnetBytesOrString (Some a), tnetBytesOrString (Some b)]
          | _ \<Rightarrow> None) list
      | _ \<Rightarrow> [])"

definition nativeContent :: "'f tnet option \<Rightarrow> bytes" where
  "nativeContent v = (case v of Some (TBytes b) \<Rightarrow> b | Some (TStr s) \<Rightarrow> s | _ \<Rightarrow> [])"

definition native_response :: "(string, 'f tnet) gomap \<Rightarrow> flow_error + mitmproxyResponse" where
  "native_response state =
     (case map_get state ''response'' of
        None \<Rightarrow> Inr zero_response
      | Some TNil \<Rightarrow> Inr zero_response
      | Some (TDict respMap) \<Rightarrow>
          Inr \<lparr>MStatusCode = tnetInt64 (map_get respMap ''status_code''),
            MRespHeaders = nativeHeaders (map_get respMap ''headers''),
            MRespContent = nativeContent (map_get respMap ''content'')\<rparr>
      | Some _ \<Rightarrow> Inl ResponseType)"

definition flowFromNativeState :: "(string, 'f tnet) gomap \<Rightarrow> flow_error + mitmproxyFlow" where
  "flowFromNativeState state =
     (case map_get state ''request'' of
        None \<Rightarrow> Inl MissingRequest
      | Some (TDict reqMap) \<Rightarrow>
          (case requirePort (map_get reqMap ''port'') of Inl e \<Rightarrow> Inl e
           | Inr port \<Rightarrow>
               let req = \<lparr>MMethod = tnetBytesOrString (map_get reqMap ''method''),
                     MScheme = tnetBytesOrString (map_get reqMap ''scheme''),
                     MHost = tnetBytesOrString (map_get reqMap ''host''), MPort = port,
                     MPath = buildRequestPath reqMap, MHeaders = nativeHeaders (map_get reqMap ''headers''),
                     MContent = nativeContent (map_get reqMap ''content'')\<rparr>
               in (case native_response state of Inl e \<Rightarrow> Inl e
                   | Inr resp \<Rightarrow> Inr \<lparr>MRequest = req, MResponse = resp\<rparr>))
      | Some _ \<Rightarrow> Inl RequestType)"

definition maxNativeFlows :: nat where "maxNativeFlows = 500000"

text \<open>What one record adds: nothing when it is not an HTTP flow.\<close>

definition native_flow :: "'f tnet \<Rightarrow> import_error + ObservedRequest option" where
  "native_flow raw =
     (case raw of
        TDict state \<Rightarrow>
          if tnetBytesOrString (map_get state ''type'') \<noteq> ''http'' then Inr None
          else (case flowFromNativeState state of Inl e \<Rightarrow> Inl (ErrFlow e)
            | Inr flow \<Rightarrow> (case parseFlow flow of Inl e \<Rightarrow> Inl (ErrFlow e) | Inr req \<Rightarrow> Inr (Some req)))
      | _ \<Rightarrow> Inl ErrNotDict)"

lemma decodeStream_length:
  "decodeTnetstringStream pf r d = Inr (v, r') \<Longrightarrow> length r' < length r"
  by (auto simp: decodeTnetstringStream_def split: if_splits sum.splits dest: readElement_length)

function importNative ::
    "(string \<Rightarrow> 'f option) \<Rightarrow> bool \<Rightarrow> nat \<Rightarrow> bytes \<Rightarrow> import_error + ObservedRequest list" where
  "importNative pf large seen r =
     (if r = [] then Inr []
      else if seen \<ge> maxNativeFlows then Inl ErrTooManyEntries
      else (case decodeTnetstringStream pf r 0 of
          Inl e \<Rightarrow> Inl (if large then ErrFileTooLarge else ErrNative e)
        | Inr (raw, rest) \<Rightarrow>
            (case native_flow raw of Inl e \<Rightarrow> Inl e
             | Inr req \<Rightarrow>
                 (case importNative pf large (seen + 1) rest of Inl e \<Rightarrow> Inl e
                  | Inr reqs \<Rightarrow> Inr ((case req of None \<Rightarrow> [] | Some q \<Rightarrow> [q]) @ reqs)))))"
  by pat_completeness auto
termination
  by (relation "measure (\<lambda>(pf, large, seen, r). length r)") (auto dest: decodeStream_length)

declare importNative.simps [simp del]

section \<open>JSON export\<close>

definition request_fields :: "mitmproxyRequest fields" where
  "request_fields =
     [(''method'', \<lambda>v st. map_option (\<lambda>x. st\<lparr>MMethod := x\<rparr>) (dec_string v (MMethod st))),
      (''scheme'', \<lambda>v st. map_option (\<lambda>x. st\<lparr>MScheme := x\<rparr>) (dec_string v (MScheme st))),
      (''host'', \<lambda>v st. map_option (\<lambda>x. st\<lparr>MHost := x\<rparr>) (dec_string v (MHost st))),
      (''port'', \<lambda>v st. map_option (\<lambda>x. st\<lparr>MPort := x\<rparr>) (dec_int v (MPort st))),
      (''path'', \<lambda>v st. map_option (\<lambda>x. st\<lparr>MPath := x\<rparr>) (dec_string v (MPath st))),
      (''headers'', into (\<lambda>x st. st\<lparr>MHeaders := x\<rparr>) (dec_list (dec_list (\<lambda>v. dec_string v [])))),
      (''content'', into (\<lambda>x st. st\<lparr>MContent := x\<rparr>) dec_bytes)]"

definition response_fields :: "mitmproxyResponse fields" where
  "response_fields =
     [(''status_code'', \<lambda>v st. map_option (\<lambda>x. st\<lparr>MStatusCode := x\<rparr>) (dec_int v (MStatusCode st))),
      (''headers'', into (\<lambda>x st. st\<lparr>MRespHeaders := x\<rparr>) (dec_list (dec_list (\<lambda>v. dec_string v [])))),
      (''content'', into (\<lambda>x st. st\<lparr>MRespContent := x\<rparr>) dec_bytes)]"

definition flow_fields :: "mitmproxyFlow fields" where
  "flow_fields =
     [(''request'', \<lambda>v st. map_option (\<lambda>x. st\<lparr>MRequest := x\<rparr>) (dec_struct request_fields v (MRequest st))),
      (''response'', \<lambda>v st. map_option (\<lambda>x. st\<lparr>MResponse := x\<rparr>) (dec_struct response_fields v (MResponse st)))]"

text \<open>\<^verbatim>\<open>decoder.Decode(&flow)\<close>: the next value of the stream, and the rest.\<close>

definition decode_flow :: "string \<Rightarrow> (mitmproxyFlow \<times> string) option" where
  "decode_flow s =
     (case json_value (2 * length s + 2) 10000 s of None \<Rightarrow> None
      | Some (v, r) \<Rightarrow> map_option (\<lambda>flow. (flow, r))
          (dec_struct flow_fields v \<lparr>MRequest = zero_request, MResponse = zero_response\<rparr>))"

definition json_error :: "bool \<Rightarrow> import_error" where
  "json_error large = (if large then ErrFileTooLarge else ErrJSON)"

lemma skip_ws_shorter: "skip_ws s = c # r \<Longrightarrow> length r < length s"
  unfolding skip_ws_def by (metis Suc_le_lessD length_Cons length_dropWhile_le)

text \<open>The loop over the elements after the opening bracket. \<^verbatim>\<open>More\<close> fails at a closing
  bracket of either kind and at the end; a comma comes before every element but the first. What follows the
  closing bracket is not read.\<close>

function parseJSONArray :: "bool \<Rightarrow> bool \<Rightarrow> string \<Rightarrow> import_error + ObservedRequest list" where
  "parseJSONArray large first s =
     (case skip_ws s of [] \<Rightarrow> Inl (json_error large)
      | c # r \<Rightarrow>
          if c = CHR '']'' then Inr []
          else if c = CHR ''}'' then Inl (json_error large)
          else if \<not> first \<and> c \<noteq> CHR '','' then Inl (json_error large)
          else
            let s1 = (if first then c # r else r)
            in (case decode_flow s1 of None \<Rightarrow> Inl (json_error large)
                | Some (flow, s2) \<Rightarrow>
                    if \<not> length s2 < length s1 then Inl (json_error large)
                    else (case parseFlow flow of Inl e \<Rightarrow> Inl (ErrFlow e)
                      | Inr req \<Rightarrow>
                          (case parseJSONArray large False s2 of Inl e \<Rightarrow> Inl e | Inr reqs \<Rightarrow> Inr (req # reqs)))))"
  by pat_completeness auto
termination
  by (relation "measure (\<lambda>(large, first, s). length s)")
    (auto dest!: skip_ws_shorter split: if_splits)

declare parseJSONArray.simps [simp del]

definition parseJSONObject :: "bool \<Rightarrow> string \<Rightarrow> import_error + ObservedRequest list" where
  "parseJSONObject large s =
     (case decode_flow s of None \<Rightarrow> Inl (json_error large)
      | Some (flow, _) \<Rightarrow> (case parseFlow flow of Inl e \<Rightarrow> Inl (ErrFlow e) | Inr req \<Rightarrow> Inr [req]))"

definition mitmproxy_Import :: "(string \<Rightarrow> 'f option) \<Rightarrow> importer" where
  "mitmproxy_Import pf file at_limit =
     (let large = too_large file at_limit
      in case skip_ws (take maxImportSize file) of
          [] \<Rightarrow> Inl (if large then ErrFileTooLarge else ErrRead)
        | c # r \<Rightarrow>
            if c = CHR ''['' then parseJSONArray large True r
            else if c = CHR ''{'' then parseJSONObject large (c # r)
            else if is_digit c then importNative pf large 0 (c # r)
            else Inl (ErrFormat c))"

end
