(* ===== verification/Import_Har_Burp.thy ===== *)
theory Import_Har_Burp
  imports Import_Mitmproxy
begin

text \<open>
  The HAR importer, \<^verbatim>\<open>pkg/importer/har.go\<close>, the Burp importer,
  \<^verbatim>\<open>burp.go\<close>, and the registry of importers, \<^verbatim>\<open>registry.go\<close>.
  Decoding the XML of a Burp export (\<^verbatim>\<open>encoding/xml\<close> with a third-party character set
  reader) is the argument \<open>items\<close>.
\<close>

section \<open>HAR\<close>

record harHeader =
  HName :: string
  HValue :: string

record harRequest =
  HMethod :: string
  HURL :: string
  HHeaders :: "harHeader list"
  HPostText :: string

record harResponse =
  HStatus :: int
  HRespHeaders :: "harHeader list"
  HContentText :: string

record harEntry =
  HRequest :: harRequest
  HResponse :: harResponse

definition header_fields :: "harHeader fields" where
  "header_fields =
     [(''name'', \<lambda>v st. map_option (\<lambda>x. st\<lparr>HName := x\<rparr>) (dec_string v (HName st))),
      (''value'', \<lambda>v st. map_option (\<lambda>x. st\<lparr>HValue := x\<rparr>) (dec_string v (HValue st)))]"

definition dec_headers :: "json \<Rightarrow> harHeader list option" where
  "dec_headers = dec_list (\<lambda>v. dec_struct header_fields v \<lparr>HName = [], HValue = []\<rparr>)"

text \<open>The structs of one field inside: \<^verbatim>\<open>postData\<close>, and \<^verbatim>\<open>content\<close>,
  whose MIME type is decoded and not used.\<close>

definition har_request_fields :: "harRequest fields" where
  "har_request_fields =
     [(''method'', \<lambda>v st. map_option (\<lambda>x. st\<lparr>HMethod := x\<rparr>) (dec_string v (HMethod st))),
      (''url'', \<lambda>v st. map_option (\<lambda>x. st\<lparr>HURL := x\<rparr>) (dec_string v (HURL st))),
      (''headers'', into (\<lambda>x st. st\<lparr>HHeaders := x\<rparr>) dec_headers),
      (''postData'', \<lambda>v st. dec_struct
         [(''text'', \<lambda>v st. map_option (\<lambda>x. st\<lparr>HPostText := x\<rparr>) (dec_string v (HPostText st)))] v st)]"

definition har_response_fields :: "harResponse fields" where
  "har_response_fields =
     [(''status'', \<lambda>v st. map_option (\<lambda>x. st\<lparr>HStatus := x\<rparr>) (dec_int v (HStatus st))),
      (''headers'', into (\<lambda>x st. st\<lparr>HRespHeaders := x\<rparr>) dec_headers),
      (''content'', \<lambda>v st. dec_struct
         [(''text'', \<lambda>v st. map_option (\<lambda>x. st\<lparr>HContentText := x\<rparr>) (dec_string v (HContentText st))),
          (''mimeType'', \<lambda>v st. map_option (\<lambda>_. st) (dec_string v []))] v st)]"

definition entry_fields :: "harEntry fields" where
  "entry_fields =
     [(''request'', \<lambda>v st. map_option (\<lambda>x. st\<lparr>HRequest := x\<rparr>) (dec_struct har_request_fields v (HRequest st))),
      (''response'', \<lambda>v st. map_option (\<lambda>x. st\<lparr>HResponse := x\<rparr>) (dec_struct har_response_fields v (HResponse st)))]"

definition zero_entry :: harEntry where
  "zero_entry =
     \<lparr>HRequest = \<lparr>HMethod = [], HURL = [], HHeaders = [], HPostText = []\<rparr>,
      HResponse = \<lparr>HStatus = 0, HRespHeaders = [], HContentText = []\<rparr>\<rparr>"

text \<open>\<^verbatim>\<open>harLog\<close>: the entries.\<close>

definition har_log :: "json \<Rightarrow> harEntry list option" where
  "har_log v =
     dec_struct [(''log'', \<lambda>v st. dec_struct
        [(''entries'', into (\<lambda>x _. x) (dec_list (\<lambda>v. dec_struct entry_fields v zero_entry)))] v st)] v []"

definition convertHeaders :: "harHeader list \<Rightarrow> headers" where
  "convertHeaders harHeaders = fold (\<lambda>h m. if HName h = [] then m else map_put (HName h) (HValue h) m) harHeaders []"

definition har_entry :: "harEntry \<Rightarrow> flow_error + ObservedRequest" where
  "har_entry entry =
     (let req = HRequest entry; resp = HResponse entry
      in if HMethod req \<notin> set validHTTPMethods then Inl (InvalidMethod (HMethod req))
         else
           let respHeaders = convertHeaders (HRespHeaders resp)
           in Inr (empty_request\<lparr>Method := HMethod req, URL := HURL req, Headers := convertHeaders (HHeaders req),
                QueryParams := extractQueryParams (HURL req), Body := HPostText req,
                Response := \<lparr>StatusCode = HStatus resp, RespHeaders = respHeaders,
                  ContentType = content_type respHeaders, RespBody = HContentText resp\<rparr>,
                Source := ''import:har''\<rparr>))"

text \<open>The loops of both importers stop at the first entry that is refused.\<close>

fun import_all :: "('a \<Rightarrow> flow_error + ObservedRequest) \<Rightarrow> 'a list \<Rightarrow> import_error + ObservedRequest list" where
  "import_all f [] = Inr []"
| "import_all f (x # xs) =
     (case f x of Inl e \<Rightarrow> Inl (ErrFlow e)
      | Inr req \<Rightarrow> (case import_all f xs of Inl e \<Rightarrow> Inl e | Inr reqs \<Rightarrow> Inr (req # reqs)))"

definition har_Import :: importer where
  "har_Import file at_limit =
     (let s = take maxImportSize file; large = too_large file at_limit
      in case json_value (2 * length s + 2) 10000 s of None \<Rightarrow> Inl (json_error large)
        | Some (v, _) \<Rightarrow>
            (case har_log v of None \<Rightarrow> Inl (json_error large) | Some entries \<Rightarrow> import_all har_entry entries))"

section \<open>Burp\<close>

record burpData =
  Base64 :: string
  Data :: string

record burpItem =
  BURL :: string
  BRequest :: burpData
  BStatus :: int
  BResponse :: burpData

definition decodeData :: "burpData \<Rightarrow> bytes option" where
  "decodeData d = (if equal_fold (Base64 d) ''true'' then base64_decode (Data d) else Some (Data d))"

text \<open>\<^verbatim>\<open>bytes.Index\<close> of a separator: what stands before and after it.\<close>

definition cut_at :: "string \<Rightarrow> string \<Rightarrow> (string \<times> string) option" where
  "cut_at sep s = map_option (\<lambda>(a, b). (a, drop (length sep) b)) (find_sub sep s)"

abbreviation cr :: char where "cr \<equiv> CHR 0x0D"
abbreviation lf :: char where "lf \<equiv> CHR 0x0A"

definition header_line :: "string \<Rightarrow> headers \<Rightarrow> headers" where
  "header_line line m =
     (let line = trim_right (\<lambda>c. c = cr) line
      in if line = [] then m
         else (case cut (CHR '':'') line of
             (name, Some value) \<Rightarrow> if name = [] then m else map_put (trim_space name) (trim_space value) m
           | (_, None) \<Rightarrow> m))"

definition splitHTTPMessage :: "bytes \<Rightarrow> (string \<times> headers \<times> bytes) option" where
  "splitHTTPMessage data =
     (case (case cut_at [cr, lf, cr, lf] data of None \<Rightarrow> cut_at [lf, lf] data | Some x \<Rightarrow> Some x) of
        None \<Rightarrow> None
      | Some (headerSection, body) \<Rightarrow>
          let lines = split_on lf headerSection
          in Some (trim_right (\<lambda>c. c = cr) (hd lines), fold header_line (tl lines) [], body))"

definition parseHTTPRequest :: "bytes \<Rightarrow> (string \<times> headers \<times> bytes) option" where
  "parseHTTPRequest data =
     (case splitHTTPMessage data of None \<Rightarrow> None
      | Some (firstLine, hs, body) \<Rightarrow>
          (case split_fields firstLine of
             meth # _ # _ \<Rightarrow> if meth \<notin> set validHTTPMethods then None else Some (meth, hs, body)
           | _ \<Rightarrow> None))"

definition parseHTTPResponse :: "bytes \<Rightarrow> (int \<times> headers \<times> bytes) option" where
  "parseHTTPResponse data =
     (case splitHTTPMessage data of None \<Rightarrow> None
      | Some (firstLine, hs, body) \<Rightarrow>
          (case split_fields firstLine of
             _ # code # _ \<Rightarrow> map_option (\<lambda>n. (n, hs, body)) (parseInt code)
           | _ \<Rightarrow> None))"

definition parseItem :: "burpItem \<Rightarrow> flow_error + ObservedRequest" where
  "parseItem item =
     (case decodeData (BRequest item) of None \<Rightarrow> Inl RequestBase64
      | Some reqBytes \<Rightarrow>
     (case decodeData (BResponse item) of None \<Rightarrow> Inl ResponseBase64
      | Some respBytes \<Rightarrow>
     (case parseHTTPRequest reqBytes of None \<Rightarrow> Inl RequestText
      | Some (meth, hs, body) \<Rightarrow>
          let req = empty_request\<lparr>Method := meth, URL := BURL item, Headers := hs,
                QueryParams := extractQueryParams (BURL item), Body := body, Source := ''import:burp''\<rparr>
          in if respBytes = [] then Inr (req\<lparr>Response := empty_response\<lparr>StatusCode := BStatus item\<rparr>\<rparr>)
             else (case parseHTTPResponse respBytes of None \<Rightarrow> Inl ResponseText
               | Some (statusCode, respHeaders, respBody) \<Rightarrow>
                   Inr (req\<lparr>Response := \<lparr>StatusCode = (if BStatus item \<noteq> 0 then BStatus item else statusCode),
                     RespHeaders = respHeaders, ContentType = content_type respHeaders, RespBody = respBody\<rparr>\<rparr>)))))"

text \<open>The whole file is read before it is decoded: the reader has come to the limit when the file is
  larger, and may have when it is as large.\<close>

definition burp_Import :: "(bytes \<Rightarrow> burpItem list option) \<Rightarrow> importer" where
  "burp_Import items file at_limit =
     (if length file > maxImportSize \<or> (length file = maxImportSize \<and> at_limit) then Inl ErrFileTooLarge
      else (case items file of None \<Rightarrow> Inl ErrXML | Some xs \<Rightarrow> import_all parseItem xs))"

section \<open>Registry\<close>

definition importer_Get ::
    "(string \<Rightarrow> 'f option) \<Rightarrow> (bytes \<Rightarrow> burpItem list option) \<Rightarrow> string \<Rightarrow> import_error + importer" where
  "importer_Get pf items format =
     (case map_get [(''burp'', burp_Import items), (''har'', har_Import), (''mitmproxy'', mitmproxy_Import pf)] format of
        None \<Rightarrow> Inl (ErrUnsupportedFormat format) | Some imp \<Rightarrow> Inr imp)"

text \<open>The blank line with carriage returns is looked for first, in the body too: here a line of the body
  becomes a header.\<close>

lemma splitHTTPMessage_mixed:
  "splitHTTPMessage (''POST / HTTP/1.1'' @ [lf] @ ''A: 1'' @ [lf, lf] @ ''X: evil'' @ [cr, lf, cr, lf] @ ''z'')
     = Some (''POST / HTTP/1.1'', [(''A'', ''1''), (''X'', ''evil'')], ''z'')"
  by code_simp

end
