(* ===== verification/Import_Spec.thy ===== *)
theory Import_Spec
  imports Import_Har_Burp Origin_Spec Tnet_Roundtrip
begin

text \<open>
  What the importers promise about files that anybody may have written: the reader with a limit, the URLs of
  imported flows, and that a native flow file is imported as it was encoded.
\<close>

section \<open>The reader with a limit\<close>

lemma limited_Read_step:
  assumes "io_source source" "limited_Read source p lr = (lr', data, eof)"
  shows "reader lr = data @ reader lr'" "remaining lr' = remaining lr - int (length data)"
    "0 \<le> remaining lr \<Longrightarrow> 0 \<le> remaining lr'"
    "eof \<Longrightarrow> \<not> hitLimit lr \<Longrightarrow> hitLimit lr' \<and> remaining lr' \<le> 0 \<or> \<not> hitLimit lr' \<and> reader lr' = []"
    "\<not> eof \<Longrightarrow> hitLimit lr' = hitLimit lr"
proof -
  let ?p = "if int p > remaining lr then nat (remaining lr) else p"
  obtain n e where n: "source ?p (reader lr) = (n, e)" by fastforce
  have s: "n \<le> ?p" "n \<le> length (reader lr)" "e \<Longrightarrow> n = length (reader lr)"
    using assms(1) n unfolding io_source_def by (metis fst_conv snd_conv)+
  note r = assms(2) [unfolded limited_Read_def Let_def n prod.case]
  show "reader lr = data @ reader lr'" "remaining lr' = remaining lr - int (length data)"
    using r s(1,2) by (auto split: if_splits)
  show "0 \<le> remaining lr \<Longrightarrow> 0 \<le> remaining lr'" using r s(1) by (auto split: if_splits)
  show "eof \<Longrightarrow> \<not> hitLimit lr \<Longrightarrow> hitLimit lr' \<and> remaining lr' \<le> 0 \<or> \<not> hitLimit lr' \<and> reader lr' = []"
    using r s(3) by (auto split: if_splits)
  show "\<not> eof \<Longrightarrow> hitLimit lr' = hitLimit lr" using r by (auto split: if_splits)
qed

lemma read_until_eof_parts:
  assumes "io_source source" "read_until_eof source ps lr = Some (lr', data)" "\<not> hitLimit lr" "0 \<le> remaining lr"
  shows "reader lr = data @ reader lr' \<and> remaining lr' = remaining lr - int (length data) \<and> 0 \<le> remaining lr'
    \<and> (hitLimit lr' \<and> remaining lr' = 0 \<or> \<not> hitLimit lr' \<and> reader lr' = [])"
  using assms(2-4)
proof (induction ps arbitrary: lr data)
  case (Cons p ps)
  obtain lr1 d eof where st: "limited_Read source p lr = (lr1, d, eof)" using prod_cases3 by blast
  note step = limited_Read_step [OF assms(1) st]
  show ?case
  proof (cases eof)
    case True
    then show ?thesis using Cons.prems st step by auto
  next
    case False
    then obtain more where more: "read_until_eof source ps lr1 = Some (lr', more)" "data = d @ more"
      using Cons.prems(1) st by auto
    then show ?thesis using Cons.IH [OF more(1)] Cons.prems(2,3) step False by auto
  qed
qed simp

text \<open>C8. However the source cuts the file into pieces, reading it to the end through the
  limit gives the first \<open>limit\<close> bytes, and the flag tells the truth: when it is not set nothing was
  cut off, and when it is set the file reaches the limit.\<close>

theorem limitedReader_spec:
  assumes "io_source source" "read_until_eof source ps (newLimitedReader file (int limit)) = Some (lr, data)"
  shows "data = take limit file \<and> (if hitLimit lr then limit \<le> length file else data = file)"
proof -
  have p: "file = data @ reader lr" "remaining lr = int limit - int (length data)" "0 \<le> remaining lr"
    "hitLimit lr \<and> remaining lr = 0 \<or> \<not> hitLimit lr \<and> reader lr = []"
    using read_until_eof_parts [OF assms] by (auto simp: newLimitedReader_def)
  show ?thesis
  proof (cases "hitLimit lr")
    case True
    then have "length data = limit" using p by simp
    then show ?thesis using True by (subst (1 2) p(1)) simp
  next
    case False
    then show ?thesis using p by auto
  qed
qed

definition piecewise :: source where
  "piecewise p r = (min p (length r), r = [])"

lemma limitedReader_spec_witness:
  "\<exists>(lr :: limited_reader) data. data = take 5 ''abcdefg'' \<and> (if hitLimit lr then 5 \<le> length ''abcdefg'' else data = ''abcdefg'')"
proof -
  have "io_source piecewise" by (simp add: io_source_def piecewise_def)
  moreover have "read_until_eof piecewise [3, 0, 4] (newLimitedReader ''abcdefg'' (int 5))
      = Some (\<lparr>reader = ''fg'', remaining = 0, hitLimit = True\<rparr>, ''abcde'')" by code_simp
  ultimately have "''abcde'' = take 5 ''abcdefg'' \<and> (if hitLimit \<lparr>reader = ''fg'', remaining = 0, hitLimit = True\<rparr>
      then 5 \<le> length ''abcdefg'' else ''abcde'' = ''abcdefg'')" by (rule limitedReader_spec)
  then show ?thesis
    by (intro exI [of _ "\<lparr>reader = ''fg'', remaining = 0, hitLimit = True\<rparr>"] exI [of _ "''abcde''"])
qed

text \<open>A file as long as the limit is taken for one that exceeds it, if the end is not reported with the last
  bytes.\<close>

lemma limitedReader_at_limit:
  "read_until_eof piecewise [4] (newLimitedReader ''abc'' 3) = Some (\<lparr>reader = [], remaining = 0, hitLimit = True\<rparr>, ''abc'')"
  by code_simp

section \<open>The URL of a flow\<close>

lemma unescape_escape_char:
  assumes "unescape EncHost (escape EncHost [c] @ t) = Some h"
  shows "\<exists>h'. h = c # h' \<and> unescape EncHost t = Some h'"
proof (cases "should_escape EncHost c")
  case True
  have v: "unhex2 (hex_digit (byte_at c div 16)) (hex_digit (byte_at c mod 16)) = c"
  proof -
    have "hex_val (hex_digit n) = n" if "n < 16" for n
    proof -
      have "list_all (\<lambda>n. hex_val (hex_digit n) = n) [0..<16]" by code_simp
      then show ?thesis using that by (simp add: list_all_iff)
    qed
    moreover have "byte_at c < 256" by (simp add: byte_at_def)
    ultimately have "unhex2 (hex_digit (byte_at c div 16)) (hex_digit (byte_at c mod 16)) = char_of (byte_at c)"
      by (simp add: unhex2_def)
    then show ?thesis by (simp add: byte_at_def)
  qed
  then show ?thesis using assms True by (auto simp: escape_def split: if_splits)
next
  case False
  moreover have "should_escape EncHost (CHR ''%'')" by code_simp
  ultimately have "c \<noteq> CHR ''%''" by metis
  then show ?thesis using assms False by (auto simp: escape_def split: if_splits)
qed

lemma unescape_escape:
  "unescape EncHost (escape EncHost s @ t) = Some h \<Longrightarrow> \<exists>h'. h = s @ h' \<and> unescape EncHost t = Some h'"
proof (induction s arbitrary: h)
  case (Cons c s)
  have "escape EncHost (c # s) @ t = escape EncHost [c] @ (escape EncHost s @ t)" by (simp add: escape_def)
  then obtain h1 where "h = c # h1" "unescape EncHost (escape EncHost s @ t) = Some h1"
    using unescape_escape_char Cons.prems by metis
  then show ?case using Cons.IH by auto
qed (simp add: escape_def)

lemma escape_host_chars: "c \<in> set (escape EncHost s) \<Longrightarrow> c \<in> set s \<or> c = CHR ''%'' \<or> is_hex c"
proof -
  assume "c \<in> set (escape EncHost s)"
  moreover have "is_hex (hex_digit n)" if "n < 16" for n
  proof -
    have "list_all (\<lambda>n. is_hex (hex_digit n)) [0..<16]" by code_simp
    then show ?thesis using that by (simp add: list_all_iff)
  qed
  moreover have "byte_at x < 256" for x by (simp add: byte_at_def)
  ultimately show ?thesis by (auto simp: escape_def less_mult_imp_div_less split: if_splits)
qed

definition safe_host_char :: "char \<Rightarrow> bool" where
  "safe_host_char c = (c \<notin> set ''@:/?#[]'' \<and> \<not> is_ctl c)"

lemma validateHost_chars:
  assumes "validateHost h"
  shows "h \<noteq> [] \<and> list_all safe_host_char h"
proof -
  have h: "h \<noteq> []" "CHR ''@'' \<notin> set h" "CHR '':'' \<notin> set h"
    "\<not> list_ex (\<lambda>c. c \<in> set (CHR 0x5C # ''/?#[]'')) h" "list_all (\<lambda>c. \<not> (byte_at c < 0x21 \<or> byte_at c = 0x7F)) h"
    using assms unfolding validateHost_def by presburger+
  have "safe_host_char c" if c: "c \<in> set h" for c
  proof -
    have "c \<notin> set (CHR 0x5C # ''/?#[]'')" using h(4) c unfolding list_ex_iff by blast
    moreover have "c \<noteq> CHR ''@''" "c \<noteq> CHR '':''" using h(2,3) c by blast+
    ultimately have "c \<notin> set ''@:/?#[]''" unfolding list.set by blast
    moreover have "\<not> is_ctl c" using h(5) c by (auto simp: is_ctl_def list_all_iff)
    ultimately show ?thesis unfolding safe_host_char_def by blast
  qed
  then show ?thesis using h(1) by (simp add: list_all_iff)
qed

lemma hex_safe:
  assumes "is_hex c"
  shows "safe_host_char c"
proof -
  have "list_all (\<lambda>x. \<not> is_hex x) ''@:/?#[]''" by code_simp
  then have "c \<notin> set ''@:/?#[]''" using assms unfolding list_all_iff by blast
  moreover have "\<not> is_ctl c" using assms
    by (auto simp: is_ctl_def is_hex_def is_digit_def in_range_def byte_at_def)
  ultimately show ?thesis unfolding safe_host_char_def by blast
qed

lemma escaped_host_safe:
  assumes "list_all safe_host_char h"
  shows "list_all safe_host_char (escape EncHost h)"
  unfolding list_all_iff
proof
  fix c assume c: "c \<in> set (escape EncHost h)"
  have "safe_host_char (CHR ''%'')" by code_simp
  then show "safe_host_char c" using escape_host_chars [OF c] assms hex_safe by (metis list_all_iff)
qed

text \<open>What is read back of a URL: an authority without marks is the host, up to escapes.\<close>

lemma before_first_append: "c \<notin> set k \<Longrightarrow> before_first c (k @ r) = k @ before_first c r"
  unfolding before_first_def by (rule takeWhile_append2) auto

lemma parse_rest_authority:
  assumes "parse_rest w (''//'' @ k @ r) = Some v" "Scheme w \<noteq> []"
    and "CHR ''/'' \<notin> set k" "CHR ''@'' \<notin> set k" "r = [] \<or> hd r = CHR ''/''"
  shows "Scheme v = Scheme w \<and> User v = None \<and> parseHost k = Some (Host v)"
proof -
  have b: "before_first (CHR ''/'') (k @ r) = k"
    using assms(5) before_first_append [OF assms(3), of r] by (cases r) (auto simp: before_first_def)
  have "parseAuthority k = map_option (\<lambda>h. (None, h)) (parseHost k)" using assms(4) by (simp add: parseAuthority_def cut_last_None)
  then show ?thesis using assms(1,2)
    by (auto simp: parse_rest_def has_prefix_def b setPath_def Let_def split: option.splits)
qed

lemma butlast_single_mark:
  assumes "has_suffix (k @ r) [q]" "length (filter (\<lambda>c. c = q) (k @ r)) = 1" "q \<notin> set k"
  shows "\<exists>r1. butlast (k @ r) = k @ r1 \<and> q \<notin> set r1 \<and> r = r1 @ [q]"
proof -
  obtain t where t: "k @ r = t @ [q]" using assms(1) unfolding has_suffix_iff by blast
  have "r \<noteq> []" using t assms(3) by (cases r rule: rev_cases) auto
  then obtain r1 where r: "r = r1 @ [q]" using t by (cases r rule: rev_cases) auto
  then have "length (filter (\<lambda>c. c = q) r1) = 0" using assms(2) by simp
  then have "q \<notin> set r1" by (auto simp: filter_empty_conv)
  then show ?thesis using r by (intro exI [of _ r1]) (simp add: butlast_append)
qed

lemma parse_nofrag_authority:
  assumes "parse_nofrag (s @ ''://'' @ k @ r) = Some v" "scheme_ok s" "s \<noteq> []" "to_lower s = s"
    and k: "CHR ''/'' \<notin> set k" "CHR ''?'' \<notin> set k" "CHR ''@'' \<notin> set k" and r: "r = [] \<or> hd r \<in> set ''/?''"
  shows "Scheme v = s \<and> User v = None \<and> parseHost k = Some (Host v)"
proof -
  let ?w = "s @ ''://'' @ k @ r" and ?q = "CHR ''?''"
  have g: "getScheme ?w = Some (s, ''//'' @ k @ r)"
    using scheme_from_run [of "[]" s ?w "''//'' @ k @ r"] assms(2,3) by (simp add: getScheme_def)
  have star: "?w \<noteq> ''*''" by (cases s) auto
  have q: "?q \<notin> set (''//'' @ k)" using k(2) by simp
  show ?thesis
  proof (cases "has_suffix (''//'' @ k @ r) [?q] \<and> length (filter (\<lambda>c. c = ?q) (''//'' @ k @ r)) = 1")
    case True
    then obtain r1 where r1: "butlast (''//'' @ k @ r) = ''//'' @ k @ r1" "?q \<notin> set r1" "r = r1 @ [?q]"
      using butlast_single_mark [of "''//'' @ k" r ?q] q by auto
    have "parse_rest (empty_url\<lparr>Scheme := to_lower s, ForceQuery := True\<rparr>) (''//'' @ k @ r1) = Some v"
      using assms(1) star g True r1(1) unfolding parse_nofrag_def by (simp add: Let_def split: if_splits del: append.simps)
    moreover have "r1 = [] \<or> hd r1 = CHR ''/''" using r r1 by (cases r1) auto
    ultimately show ?thesis using parse_rest_authority k assms(3,4) by fastforce
  next
    case False
    obtain c where c: "parse_rest (empty_url\<lparr>Scheme := to_lower s, RawQuery := c\<rparr>) (before_first ?q (''//'' @ k @ r)) = Some v"
      using assms(1) star g False unfolding parse_nofrag_def
      by (auto simp: Let_def cut_fst [symmetric] split: if_splits prod.splits simp del: append.simps)
    have "before_first ?q (''//'' @ k @ r) = ''//'' @ k @ before_first ?q r"
      using before_first_append [OF q, of r] by simp
    moreover have "before_first ?q r = [] \<or> hd (before_first ?q r) = CHR ''/''"
      using r by (cases r) (auto simp: before_first_def)
    ultimately show ?thesis using parse_rest_authority [of _ k "before_first ?q r" v] c k assms(3,4) by fastforce
  qed
qed

lemma parse_url_nofrag:
  assumes "parse_url raw = Some u"
  obtains v where "parse_nofrag (before_first (CHR ''#'') raw) = Some v" "Scheme u = Scheme v" "User u = User v" "Host u = Host v"
proof -
  obtain x f where c: "cut (CHR ''#'') raw = (x, f)" by fastforce
  then have "x = before_first (CHR ''#'') raw" using cut_fst [of "CHR ''#''" raw] by simp
  then show thesis using assms that c
    by (auto simp: parse_url_def setFragment_def split: option.splits if_splits)
qed

lemma parse_authority:
  assumes "parse_url (s @ ''://'' @ k @ r) = Some u" "scheme_ok s" "s \<noteq> []" "to_lower s = s"
    and k: "list_all (\<lambda>c. c \<notin> set ''@/?#'') k" and r: "r = [] \<or> hd r \<in> set ''/?#''"
  shows "Scheme u = s \<and> User u = None \<and> parseHost k = Some (Host u)"
proof -
  have free: "c \<notin> set k" if "c \<in> set ''@/?#''" for c using k that unfolding list_all_iff by blast
  have "CHR ''#'' \<notin> set s" using assms(2) scheme_char_plain by (fastforce simp: scheme_ok_def list_all_iff)
  then have "CHR ''#'' \<notin> set (s @ ''://'' @ k)" using free [of "CHR ''#''"] by simp
  from before_first_append [OF this, of r] have b: "before_first (CHR ''#'') (s @ ''://'' @ k @ r) = s @ ''://'' @ k @ before_first (CHR ''#'') r"
    by simp
  obtain v where v: "parse_nofrag (s @ ''://'' @ k @ before_first (CHR ''#'') r) = Some v"
    "Scheme u = Scheme v" "User u = User v" "Host u = Host v"
    using parse_url_nofrag [OF assms(1)] unfolding b by metis
  have "before_first (CHR ''#'') r = [] \<or> hd (before_first (CHR ''#'') r) \<in> set ''/?''"
    using r by (cases r) (auto simp: before_first_def)
  then show ?thesis using parse_nofrag_authority [OF v(1) assms(2-4)] free v(2-4) by simp
qed

definition is_default_port :: "string \<Rightarrow> int \<Rightarrow> bool" where
  "is_default_port scheme port = (scheme = ''https'' \<and> port = 443 \<or> scheme = ''http'' \<and> port = 80)"

lemma escape_append: "escape m (s @ t) = escape m s @ escape m t"
  by (simp add: escape_def)

lemma escape_port: "list_all is_digit p \<Longrightarrow> escape EncHost (port_suffix p) = port_suffix p"
proof -
  have "escape EncHost p = p" if "list_all is_digit p" for p
    using that by (induction p) (auto simp: escape_def should_escape_def is_alnum_def)
  moreover have "\<not> should_escape EncHost (CHR '':'')" by code_simp
  ultimately show "list_all is_digit p \<Longrightarrow> escape EncHost (port_suffix p) = port_suffix p"
    by (simp add: port_suffix_def) (simp add: escape_def)
qed

lemma url_string_authority:
  assumes "Scheme u \<noteq> []" "Host u \<noteq> []" "Opaque u = []" "User u = None" "Fragment u = []" "OmitHost u = False"
  shows "\<exists>r. url_string u = Scheme u @ ''://'' @ escape EncHost (Host u) @ r \<and> (r = [] \<or> hd r \<in> set ''/?#'')"
proof -
  let ?p = "escaped_path u"
  let ?slash = "if ?p \<noteq> [] \<and> hd ?p \<noteq> CHR ''/'' \<and> Host u \<noteq> [] then ''/'' else []"
  let ?r = "?slash @ ?p @ (if ForceQuery u \<or> RawQuery u \<noteq> [] then ''?'' @ RawQuery u else [])"
  have "url_string u = Scheme u @ ''://'' @ escape EncHost (Host u) @ ?r"
    using assms by (simp add: url_string_def Let_def)
  moreover have "?r = [] \<or> hd ?r \<in> set ''/?#''" using assms(2) by (cases ?p) auto
  ultimately show ?thesis by blast
qed

lemma constructURL_authority:
  assumes "scheme \<noteq> []" "host \<noteq> []" "list_all is_digit (formatInt port)"
  shows "\<exists>r. constructURL scheme host port path =
      scheme @ ''://'' @ (escape EncHost host @ port_suffix (if is_default_port scheme port then [] else formatInt port)) @ r
    \<and> (r = [] \<or> hd r \<in> set ''/?#'')"
proof -
  let ?p = "if is_default_port scheme port then [] else formatInt port"
  have e: "escape EncHost (host @ port_suffix ?p) = escape EncHost host @ port_suffix ?p"
    using escape_port assms(3) by (simp add: escape_append)
  have fi: "formatInt port \<noteq> []" by (simp add: formatInt_def)
  obtain part query where c: "cut (CHR ''?'') path = (part, query)" by fastforce
  have "\<exists>u. constructURL scheme host port path = url_string u \<and> Scheme u = scheme \<and> Host u = host @ port_suffix ?p
      \<and> Opaque u = [] \<and> User u = None \<and> Fragment u = [] \<and> OmitHost u = False"
    using fi unfolding constructURL_def c is_default_port_def [symmetric] Let_def prod.case
    by (cases "unescape EncPath part") (auto simp: empty_url_def port_suffix_def)
  then obtain u where u: "constructURL scheme host port path = url_string u" "Scheme u = scheme" "Host u = host @ port_suffix ?p"
      "Opaque u = []" "User u = None" "Fragment u = []" "OmitHost u = False" by blast
  have "Scheme u \<noteq> []" "Host u \<noteq> []" using u assms by simp_all
  from url_string_authority [OF this u(4-7)] show ?thesis unfolding u(1,2,3) e by simp
qed

lemma digits_unescape: "list_all is_digit p \<Longrightarrow> unescape EncHost (port_suffix p) = Some (port_suffix p)"
proof (rule unescape_host_id)
  assume p: "list_all is_digit p"
  have "\<not> is_digit (CHR ''%'')" by code_simp
  then show "CHR ''%'' \<notin> set (port_suffix p)" using p by (auto simp: port_suffix_def list_all_iff)
  show "list_all host_char (port_suffix p)" using p by (rule port_suffix_chars)
qed

lemma parseHost_unescape: "CHR ''['' \<notin> set k \<Longrightarrow> parseHost k = Some h \<Longrightarrow> unescape EncHost k = Some h"
  by (simp add: parseHost_def split: if_split_asm)

lemma constructURL_reparse:
  assumes "scheme \<in> set allowedSchemes" "validateHost host" "list_all is_digit (formatInt port)"
    and "parse_url (constructURL scheme host port path) = Some u"
  shows "Scheme u = scheme \<and> User u = None \<and> Hostname u = host
    \<and> Port u = (if is_default_port scheme port then [] else formatInt port)"
proof -
  let ?p = "if is_default_port scheme port then [] else formatInt port"
  let ?k = "escape EncHost host @ port_suffix ?p"
  have sch: "scheme = ''http'' \<or> scheme = ''https''" using assms(1) by (simp add: allowedSchemes_def)
  have s: "scheme_ok scheme" "scheme \<noteq> []" "to_lower scheme = scheme" using sch by (elim disjE; simp only: list.simps; code_simp)+
  have h: "host \<noteq> []" "list_all safe_host_char host" using validateHost_chars [OF assms(2)] by simp_all
  have pd: "list_all is_digit ?p" using assms(3) by simp
  obtain r where r: "constructURL scheme host port path = scheme @ ''://'' @ ?k @ r" "r = [] \<or> hd r \<in> set ''/?#''"
    using constructURL_authority [OF s(2) h(1) assms(3)] by blast
  have port: "c \<notin> set ''@/?#[]''" if c: "c \<in> set (port_suffix ?p)" for c
  proof -
    have "list_all (\<lambda>c. \<not> is_digit c) ''@/?#[]''" by code_simp
    then have d: "is_digit c \<Longrightarrow> c \<notin> set ''@/?#[]''" unfolding list_all_iff by blast
    have "c = CHR '':'' \<or> is_digit c" using c pd unfolding port_suffix_def list_all_iff by (auto split: if_splits)
    moreover have "CHR '':'' \<notin> set ''@/?#[]''" by code_simp
    ultimately show ?thesis using d by blast
  qed
  have sub: "set ''@/?#'' \<subseteq> set ''@:/?#[]''" "set ''@/?#'' \<subseteq> set ''@/?#[]''" by code_simp+
  have esc: "c \<notin> set ''@:/?#[]''" if "c \<in> set (escape EncHost host)" for c
    using escaped_host_safe [OF h(2)] that unfolding list_all_iff safe_host_char_def by blast
  have k: "list_all (\<lambda>c. c \<notin> set ''@/?#'') ?k" using esc port sub unfolding list_all_iff set_append by blast
  have u: "Scheme u = scheme" "User u = None" "parseHost ?k = Some (Host u)"
    using parse_authority [OF assms(4) [unfolded r(1)] s k r(2)] by simp_all
  have "CHR ''['' \<notin> set ?k" using esc [of "CHR ''[''"] port [of "CHR ''[''"] unfolding set_append by auto
  then have "unescape EncHost ?k = Some (Host u)" using u(3) by (rule parseHost_unescape)
  from unescape_escape [OF this] have host: "Host u = host @ port_suffix ?p"
    using digits_unescape [OF pd] by auto
  have "CHR '':'' \<notin> set host" "\<not> has_prefix host ''[''"
    using h(2) has_prefix_mem [of host "CHR ''[''"] by (auto simp: list_all_iff safe_host_char_def)
  then have "split_host_port (Host u) = (host, ?p)"
    using pd split_plain split_plain_port unfolding host by (cases "?p = []") (simp_all add: port_suffix_def)
  then show ?thesis using u by (simp add: Hostname_def Port_def)
qed

lemma port_digits: "validatePortRange port \<Longrightarrow> list_all is_digit (formatInt port)"
  using itoa_digits by (simp add: validatePortRange_def formatInt_def list_all_iff)

lemma parseFlow_accepts:
  assumes "parseFlow flow = Inr req"
  shows "validatePortRange (MPort (MRequest flow))" "MMethod (MRequest flow) \<in> set validHTTPMethods"
    "MScheme (MRequest flow) \<in> set allowedSchemes" "validateHost (MHost (MRequest flow))"
    "URL req = constructURL (MScheme (MRequest flow)) (MHost (MRequest flow)) (MPort (MRequest flow)) (MPath (MRequest flow))"
    "Method req = MMethod (MRequest flow)"
  using assms unfolding parseFlow_def Let_def by (simp_all split: if_split_asm) auto

lemma parseFlow_target:
  assumes "parseFlow flow = Inr req" "parse_url (URL req) = Some u"
  shows "Scheme u = MScheme (MRequest flow) \<and> Hostname u = MHost (MRequest flow) \<and> User u = None
    \<and> effective_port u = formatInt (MPort (MRequest flow))"
proof -
  note a = parseFlow_accepts [OF assms(1)]
  have d: "formatInt (MPort (MRequest flow)) \<noteq> []" by (simp add: formatInt_def)
  have ports: "defaultPortForScheme ''http'' = formatInt 80" "defaultPortForScheme ''https'' = formatInt 443" by code_simp+
  have r: "Scheme u = MScheme (MRequest flow) \<and> User u = None \<and> Hostname u = MHost (MRequest flow)
      \<and> Port u = (if is_default_port (MScheme (MRequest flow)) (MPort (MRequest flow)) then [] else formatInt (MPort (MRequest flow)))"
    using constructURL_reparse [OF a(3,4) port_digits [OF a(1)]] assms(2) a(5) by metis
  then show ?thesis using d ports by (auto simp: effective_port_def is_default_port_def split: if_splits)
qed

text \<open>C5. The URL of an imported flow means what the flow said. Wherever it is parsed again,
  its scheme, host name and effective port are those of the flow, and it has no user information: nothing in the
  host, the path or the query of a forged capture can change where a request goes.\<close>

theorem parseFlow_url:
  assumes "parseFlow flow = Inr req" "parse_url (URL req) = Some u"
  shows "Scheme u = MScheme (MRequest flow) \<and> Hostname u = MHost (MRequest flow) \<and> User u = None
    \<and> effective_port u = formatInt (MPort (MRequest flow))"
  using assms by (rule parseFlow_target)

definition sample_flow :: mitmproxyFlow where
  "sample_flow = \<lparr>MRequest = zero_request\<lparr>MMethod := ''GET'', MScheme := ''https'', MHost := ''h%1'', MPort := 8443,
     MPath := ''x//@evil:1/%zz?a=b''\<rparr>, MResponse = zero_response\<rparr>"

lemma parseFlow_url_witness:
  "\<exists>u. parse_url (constructURL ''https'' ''h%1'' 8443 ''x//@evil:1/%zz?a=b'') = Some u \<and> Scheme u = ''https'' \<and> Hostname u = ''h%1''
    \<and> User u = None \<and> effective_port u = formatInt 8443"
proof -
  obtain req where req: "parseFlow sample_flow = Inr req" "URL req = constructURL ''https'' ''h%1'' 8443 ''x//@evil:1/%zz?a=b''"
    by (simp add: parseFlow_def sample_flow_def zero_request_def validatePortRange_def validHTTPMethods_def allowedSchemes_def
        validateHost_def maxHostLength_def Let_def byte_at_def)
  have "parse_url (constructURL ''https'' ''h%1'' 8443 ''x//@evil:1/%zz?a=b'') \<noteq> None" by code_simp
  then obtain u where u: "parse_url (URL req) = Some u" using req(2) by auto
  from parseFlow_url [OF req(1) u] show ?thesis using u req(2) by (auto simp: sample_flow_def)
qed

text \<open>A host that passes the check may still give a URL that does not parse.\<close>

lemma validateHost_unparsed: "validateHost ''a^b'' \<and> parse_url (constructURL ''http'' ''a^b'' 80 ''/'') = None"
  by code_simp

section \<open>All importers\<close>

text \<open>What every importer promises of a request, and what follows for its users.\<close>

definition capped :: "url_values option \<Rightarrow> bool" where
  "capped q = (case q of None \<Rightarrow> True
     | Some m \<Rightarrow> length m \<le> MaxQueryParamKeys \<and> list_all (\<lambda>(k, vs). length vs \<le> MaxQueryParamValues) m)"

lemma extractQueryParams_capped: "capped (extractQueryParams url)"
proof -
  have "capped (Some (CapQueryValues (parse_query q)))" for q
  proof -
    note b = CapQueryValues_bounds [OF parse_query_wf, of q]
    have "list_all (\<lambda>(k, vs). length vs \<le> MaxQueryParamValues) (CapQueryValues (parse_query q))"
      unfolding list_all_iff by (rule ballI) (use b [THEN conjunct2, THEN conjunct2, THEN conjunct1] in \<open>fastforce split: prod.splits\<close>)
    then show ?thesis using b [THEN conjunct1] unfolding capped_def by (simp only: option.case simp_thms)
  qed
  then show ?thesis unfolding extractQueryParams_def Let_def
    by (simp add: capped_def [of None] split: option.split)
qed

locale traffic_importer =
  fixes imp :: importer and source :: string
  assumes imported: "imp file l = Inr reqs \<Longrightarrow> req \<in> set reqs \<Longrightarrow>
    Method req \<in> set validHTTPMethods \<and> Source req = source \<and> QueryParams req = extractQueryParams (URL req)"
begin

lemma with_options:
  assumes "ImportWithOptions imp file l opts = Inr reqs"
  shows "list_all (\<lambda>req. Method req \<in> set validHTTPMethods \<and> Source req = source \<and> capped (QueryParams req)
      \<and> matchesScope (URL req) (Scope opts)) reqs
    \<and> (if MaxEntries opts > 0 then int (length reqs) \<le> MaxEntries opts else True)"
proof -
  obtain all where all: "imp file l = Inr all"
    "reqs = (if Scope opts = [] then all else filter (\<lambda>req. matchesScope (URL req) (Scope opts)) all)"
    "\<not> (MaxEntries opts > 0 \<and> int (length all) > MaxEntries opts)"
    using assms by (auto simp: ImportWithOptions_def split: sum.splits if_splits)
  have "length reqs \<le> length all" using all(2) by simp
  then have "if MaxEntries opts > 0 then int (length reqs) \<le> MaxEntries opts else True" using all(3) by auto
  moreover have "matchesScope u []" for u by (simp add: matchesScope_def)
  ultimately show ?thesis using imported [OF all(1)] extractQueryParams_capped all(2) by (auto simp: list_all_iff)
qed

end

lemma importNative_flows:
  "importNative pf large seen r = Inr reqs \<Longrightarrow> req \<in> set reqs \<Longrightarrow> \<exists>flow. parseFlow flow = Inr req"
proof (induction pf large seen r arbitrary: reqs rule: importNative.induct)
  case (1 pf large seen r)
  from "1.prems" obtain raw rest q reqs' where step: "r \<noteq> []" "\<not> seen \<ge> maxNativeFlows"
    "decodeTnetstringStream pf r 0 = Inr (raw, rest)" "native_flow raw = Inr q"
    "importNative pf large (seen + 1) rest = Inr reqs'" "reqs = (case q of None \<Rightarrow> [] | Some q \<Rightarrow> [q]) @ reqs'"
    by (subst (asm) importNative.simps) (auto split: if_splits sum.splits)
  have "\<exists>flow. parseFlow flow = Inr x" if "native_flow raw = Inr (Some x)" for x
    using that by (auto simp: native_flow_def split: tnet.splits if_splits sum.splits)
  then show ?case using "1.IH" [OF step(1,2,3) refl step(4,5)] step(4,6) "1.prems"(2) by (auto split: option.splits)
qed

lemma parseJSONArray_flows:
  "parseJSONArray large first s = Inr reqs \<Longrightarrow> req \<in> set reqs \<Longrightarrow> \<exists>flow. parseFlow flow = Inr req"
proof (induction large first s arbitrary: reqs rule: parseJSONArray.induct)
  case (1 large first s)
  show ?case
  proof (cases "reqs = []")
    case False
    then obtain c r s1 flow s2 q reqs' where step: "skip_ws s = c # r" "c \<noteq> CHR '']''" "c \<noteq> CHR ''}''"
      "\<not> (\<not> first \<and> c \<noteq> CHR '','')" "s1 = (if first then c # r else r)" "decode_flow s1 = Some (flow, s2)"
      "length s2 < length s1" "parseFlow flow = Inr q" "parseJSONArray large False s2 = Inr reqs'" "reqs = q # reqs'"
      using "1.prems"(1) by (subst (asm) parseJSONArray.simps) (auto simp: Let_def split: list.splits if_splits option.splits sum.splits)
    then show ?thesis using "1.IH" [OF step(1-6) refl _ step(8)] "1.prems"(2) by auto
  qed (use "1.prems" in simp)
qed

lemma mitmproxy_flows:
  "mitmproxy_Import pf file l = Inr reqs \<Longrightarrow> req \<in> set reqs \<Longrightarrow> \<exists>flow. parseFlow flow = Inr req"
  using importNative_flows parseJSONArray_flows
  by (fastforce simp: mitmproxy_Import_def parseJSONObject_def Let_def split: list.splits if_splits option.splits sum.splits)

lemma import_all_entries: "import_all f xs = Inr reqs \<Longrightarrow> req \<in> set reqs \<Longrightarrow> \<exists>x. f x = Inr req"
  by (induction xs arbitrary: reqs) (auto split: sum.splits)

lemma parseFlow_imported:
  "parseFlow flow = Inr req \<Longrightarrow> Method req \<in> set validHTTPMethods \<and> Source req = ''import:mitmproxy''
    \<and> QueryParams req = extractQueryParams (URL req)"
  unfolding parseFlow_def Let_def by (simp split: if_split_asm) auto

lemma har_entry_imported:
  "har_entry x = Inr req \<Longrightarrow> Method req \<in> set validHTTPMethods \<and> Source req = ''import:har''
    \<and> QueryParams req = extractQueryParams (URL req)"
  unfolding har_entry_def Let_def by (simp split: if_split_asm) auto

lemma parseHTTPRequest_method: "parseHTTPRequest data = Some (meth, hs, body) \<Longrightarrow> meth \<in> set validHTTPMethods"
  by (auto simp: parseHTTPRequest_def split: option.splits list.splits if_splits)

lemma parseItem_imported:
  assumes "parseItem x = Inr req"
  shows "Method req \<in> set validHTTPMethods \<and> Source req = ''import:burp'' \<and> QueryParams req = extractQueryParams (URL req)"
proof -
  obtain data meth hs body where p: "parseHTTPRequest data = Some (meth, hs, body)"
    "Method req = meth" "Source req = ''import:burp''" "QueryParams req = extractQueryParams (URL req)"
    using assms unfolding parseItem_def Let_def by (auto split: option.splits if_split_asm)
  then show ?thesis using parseHTTPRequest_method by simp
qed

interpretation mitm: traffic_importer "mitmproxy_Import pf" "''import:mitmproxy''" for pf :: "string \<Rightarrow> 'f option"
  by unfold_locales (use mitmproxy_flows parseFlow_imported in blast)

interpretation har: traffic_importer har_Import "''import:har''"
proof
  fix input l reqs req assume "har_Import input l = Inr reqs" "req \<in> set reqs"
  then obtain entries where "import_all har_entry entries = Inr reqs" "req \<in> set reqs"
    by (auto simp: har_Import_def Let_def split: option.splits)
  then show "Method req \<in> set validHTTPMethods \<and> Source req = ''import:har'' \<and> QueryParams req = extractQueryParams (URL req)"
    using import_all_entries har_entry_imported by metis
qed

interpretation burp: traffic_importer "burp_Import items" "''import:burp''" for items
proof
  fix input l reqs req assume "burp_Import items input l = Inr reqs" "req \<in> set reqs"
  then obtain xs where "import_all parseItem xs = Inr reqs" "req \<in> set reqs"
    by (auto simp: burp_Import_def split: option.splits if_splits)
  then show "Method req \<in> set validHTTPMethods \<and> Source req = ''import:burp'' \<and> QueryParams req = extractQueryParams (URL req)"
    using import_all_entries parseItem_imported by metis
qed

text \<open>C7. Whatever the format and whatever the file holds, an import with options gives an
  error or only requests with a known HTTP method, marked with their importer, with capped query parameters, in
  the scope, and no more of them than allowed; an unknown format is refused.\<close>

theorem ImportWithOptions_requests:
  "case importer_Get pf items format of
     Inl e \<Rightarrow> e = ErrUnsupportedFormat format \<and> format \<notin> {''burp'', ''har'', ''mitmproxy''}
   | Inr imp \<Rightarrow>
       (case ImportWithOptions imp file at_limit opts of Inl _ \<Rightarrow> True
        | Inr reqs \<Rightarrow>
            list_all (\<lambda>req. Method req \<in> set validHTTPMethods \<and> Source req = ''import:'' @ format
              \<and> capped (QueryParams req) \<and> matchesScope (URL req) (Scope opts)) reqs
            \<and> (if MaxEntries opts > 0 then int (length reqs) \<le> MaxEntries opts else True))"
proof -
  consider "format = ''burp''" | "format = ''har''" | "format = ''mitmproxy''" | "format \<notin> {''burp'', ''har'', ''mitmproxy''}" by blast
  then show ?thesis
  proof cases
    case 1
    have "importer_Get pf items format = Inr (burp_Import items)" unfolding 1 by (simp add: importer_Get_def)
    then show ?thesis using burp.with_options [of items "file" at_limit opts] unfolding 1 by (auto split: sum.splits)
  next
    case 2
    have "importer_Get pf items format = Inr har_Import" unfolding 2 by (simp add: importer_Get_def)
    then show ?thesis using har.with_options [of "file" at_limit opts] unfolding 2 by (auto split: sum.splits)
  next
    case 3
    have "importer_Get pf items format = Inr (mitmproxy_Import pf)" unfolding 3 by (simp add: importer_Get_def)
    then show ?thesis using mitm.with_options [of pf "file" at_limit opts] unfolding 3 by (auto split: sum.splits)
  next
    case 4
    then have "importer_Get pf items format = Inl (ErrUnsupportedFormat format)"
      by (simp add: importer_Get_def)
    then show ?thesis using 4 by simp
  qed
qed

section \<open>Native files\<close>

text \<open>What a native file of these records means: one after the other, up to the first that is refused.\<close>

fun native_flows :: "'f tnet list \<Rightarrow> import_error + ObservedRequest list" where
  "native_flows [] = Inr []"
| "native_flows (v # vs) =
     (case native_flow v of Inl e \<Rightarrow> Inl e
      | Inr req \<Rightarrow> (case native_flows vs of Inl e \<Rightarrow> Inl e
          | Inr reqs \<Rightarrow> Inr ((case req of None \<Rightarrow> [] | Some q \<Rightarrow> [q]) @ reqs)))"

definition encodable :: "('f \<Rightarrow> string) \<Rightarrow> 'f tnet \<Rightarrow> bool" where
  "encodable ff v = (tnet_ok ff 0 v \<and> length (Encode ff v) \<le> maxTnetstringElement)"

lemma importNative_Encode:
  assumes pf: "\<And>x. pf (ff x) = Some x"
  shows "list_all (encodable ff) vs \<Longrightarrow> seen + length vs \<le> maxNativeFlows \<Longrightarrow>
    importNative pf large seen (concat (map (Encode ff) vs)) = native_flows (map tnet_norm vs)"
proof (induction vs arbitrary: seen)
  case Nil
  show ?case by (subst importNative.simps) simp
next
  case (Cons v vs)
  let ?rest = "concat (map (Encode ff) vs)"
  have d: "decodeTnetstringStream pf (Encode ff v @ ?rest) 0 = Inr (tnet_norm v, ?rest)"
    using Cons.prems(1) by (intro decodeStream_Encode pf) (simp_all add: encodable_def)
  then have ne: "Encode ff v @ ?rest \<noteq> []" using decodeStream_length [OF d] by auto
  have "importNative pf large (seen + 1) ?rest = native_flows (map tnet_norm vs)" using Cons by simp
  then show ?case using Cons.prems(2) ne d by (subst importNative.simps) (simp split: sum.splits)
qed

lemma itoa_head: "\<exists>c r. itoa n = c # r \<and> is_digit c"
proof (cases "itoa n")
  case (Cons c r)
  then show ?thesis using itoa_digits [of n] by simp
qed simp

lemma Encode_head: "\<exists>c r. Encode ff v = c # r \<and> is_digit c"
proof -
  have m: "\<exists>c r. encodeWithMarker p t = c # r \<and> is_digit c" for p t
    using itoa_head [of "length p"] by (auto simp: encodeWithMarker_def)
  have "is_digit (CHR ''0'')" "is_digit (CHR ''4'')" "is_digit (CHR ''5'')" by code_simp+
  then show ?thesis using m by (cases v) (simp_all only: Encode.simps split: if_split, auto)
qed

text \<open>C6. A native flow file is imported as it was written: the encodings of any records within
  the limits, one after the other, give the HTTP flows among them in order, or the error of the first flow that
  is refused. The reader depends on the encoder only by the contract of float formatting.\<close>

theorem mitmproxy_Import_encoded:
  assumes "\<And>x. pf (ff x) = Some x" "list_all (encodable ff) vs" "vs \<noteq> []" "length vs \<le> maxNativeFlows"
    and "length (concat (map (Encode ff) vs)) \<le> maxImportSize"
  shows "mitmproxy_Import pf (concat (map (Encode ff) vs)) at_limit = native_flows (map tnet_norm vs)"
proof -
  let ?file = "concat (map (Encode ff) vs)"
  obtain c r where c: "?file = c # r" "is_digit c"
    using assms(3) Encode_head [of ff "hd vs"] by (cases vs) auto
  have n: "list_all (\<lambda>x. \<not> is_digit x) (CHR 0x0A # CHR 0x0D # CHR 0x09 # '' [{'')" by code_simp
  then have neq: "\<not> json_space c" "c \<noteq> CHR ''[''" "c \<noteq> CHR ''{''" using c(2) by (auto simp: json_space_def)
  have "skip_ws (take maxImportSize ?file) = c # r" using assms(5) c(1) neq(1) by (simp add: skip_ws_def)
  then have "mitmproxy_Import pf ?file at_limit = importNative pf (too_large ?file at_limit) 0 ?file"
    using c neq by (simp add: mitmproxy_Import_def Let_def)
  also have "\<dots> = native_flows (map tnet_norm vs)"
    using importNative_Encode [OF assms(1,2), of 0] assms(4) by simp
  finally show ?thesis .
qed

definition sample_record :: "unit tnet" where
  "sample_record = TDict [(''type'', TStr ''http''),
     (''request'', TDict [(''method'', TStr ''GET''), (''scheme'', TStr ''http''), (''host'', TStr ''h''), (''port'', TInt 80)])]"

lemma mitmproxy_Import_encoded_witness:
  "mitmproxy_Import (\<lambda>s. if s = ''1'' then Some () else None) (concat (map (Encode (\<lambda>_. ''1'')) [TInt 7, sample_record])) False
     = native_flows (map tnet_norm [TInt 7, sample_record])"
proof (rule mitmproxy_Import_encoded)
  have len: "length (Encode (\<lambda>_. ''1'') sample_record) \<le> 200" by code_simp
  have "length (concat (map (Encode (\<lambda>_. ''1'')) [TInt 7, sample_record])) \<le> 300" by code_simp
  then show "length (concat (map (Encode (\<lambda>_. ''1'')) [TInt 7, sample_record])) \<le> maxImportSize"
    by (simp add: maxImportSize_def)
  let ?req = "TDict [(''method'', TStr ''GET''), (''scheme'', TStr ''http''), (''host'', TStr ''h''), (''port'', TInt 80 :: unit tnet)]"
  have "length (Encode (\<lambda>_. ''1'') ?req) \<le> 100" by code_simp
  then have "tnet_ok (\<lambda>_. ''1'') 0 sample_record" using len
    by (simp add: sample_record_def tnet_limits map_wf_def del: Encode.simps)
  moreover have "length (Encode (\<lambda>_. ''1'') (TInt 7 :: unit tnet)) \<le> 10" by code_simp
  ultimately show "list_all (encodable (\<lambda>_. ''1'')) [TInt 7, sample_record]"
    using len by (simp add: encodable_def tnet_limits del: Encode.simps)
qed (simp_all add: maxNativeFlows_def)

text \<open>The end of the stream is taken for the end of the file before the limit is asked about: a file cut
  off at the limit, between two flows, is imported as if it were whole.\<close>

lemma mitmproxy_Import_cut:
  assumes "length whole = maxImportSize"
  shows "mitmproxy_Import pf (whole @ extra) at_limit = mitmproxy_Import pf whole at_limit"
  using assms by (simp add: mitmproxy_Import_def too_large_def)

text \<open>The scope is compared letter by letter, without regard to the letter case of host names.\<close>

lemma matchesScope_case: "\<not> matchesScope ''https://API.Example.com/x'' ''*.example.com''"
  by code_simp

end
