(* ===== verification/Spec2Isabelle.thy ===== *)
theory Spec2Isabelle
  imports Tnet_Roundtrip Tnet_Bounds Grpc_Wire_Spec Media_Type Crawl_Engine Classifier Deduplicate Crawl_Headers Normalize_Names Rest_Schema_Spec Rest_Openapi_Spec Rest_Components_Spec Wsdl_Spec Js_Extract_Spec Js_Replay_Spec Pipeline_Spec Import_Spec
begin

text \<open>
  Vespasian finds the API of a web application from its traffic and writes a specification of it. The
  program is a pipeline. Traffic is captured by a concurrent crawl (\<^verbatim>\<open>pkg/crawl\<close>) or
  imported from another tool (\<^verbatim>\<open>pkg/importer\<close>); each request is classified as REST,
  GraphQL, SOAP or gRPC and duplicates are merged (\<^verbatim>\<open>pkg/classify\<close>); endpoints may be
  probed (\<^verbatim>\<open>pkg/probe\<close>); a generator (\<^verbatim>\<open>pkg/generate\<close>) prints
  OpenAPI, a GraphQL schema, WSDL or protobuf. Everything read is attacker-controlled, so every stage
  bounds what it accepts, and everything that opens a connection is checked for private addresses
  (\<^verbatim>\<open>pkg/ssrf\<close>).

  This development models the parts of that pipeline that decide something: what is parsed, what is
  visited, what counts as an endpoint, what may be requested, and what is printed for it.

  \<^bold>\<open>Values.\<close> Strings and byte slices are lists of 8-bit characters, with Go's bytewise order
  (\<open>Go_Prelude\<close>). Bytes and machine words whose wrap-around or masks matter are \<open>8 word\<close>,
  \<open>32 word\<close> and \<open>64 word\<close> (\<open>Grpc_Wire\<close>, \<open>Go_Netip\<close>). A Go map is an association list with
  distinct keys in the order of one \<^verbatim>\<open>range\<close>; Go leaves that order open, so results are shown not
  to depend on it. Structs are records, embedding is record extension, recursive structs and tagged
  values are datatypes; an error is a constructor of an error type or \<open>None\<close>, and its message text
  is dropped. The functions of \<^verbatim>\<open>strings\<close>, \<^verbatim>\<open>net\<close>, \<^verbatim>\<open>net/netip\<close>,
  \<^verbatim>\<open>net/url\<close> and \<^verbatim>\<open>encoding/json\<close> that the program uses are
  definitions (\<open>Go_Prelude\<close>, \<open>Go_Netip\<close>, \<open>Go_Url\<close>, \<open>Go_Json\<close>); letter case and white space
  are ASCII.

  \<^bold>\<open>Parameters.\<close> What is not in the repository is an argument of the definitions that use it,
  and no assumption is made about it unless a theorem states one: DNS and the dialer (\<open>Ssrf\<close>), the public
  suffix list and DNS (\<open>scope_env\<close>), what the browser finds on a page (\<open>Crawl_Engine\<close>), the
  browser's cookie call (\<open>Crawl_Headers\<close>), \<^verbatim>\<open>mime.ParseMediaType\<close> and SHA-256
  (\<open>dedup_env\<close>), float formatting and parsing (\<open>Tnet_Encode\<close>, \<open>Tnet_Decode\<close>), the XML
  tokeniser, the WSDL validity test and the XML printer (\<open>Soap_Body\<close>, \<open>Wsdl_Infer\<close>), the XML decoding of a
  Burp export (\<open>Import_Har_Burp\<close>), the HTTP
  client, which may answer any request as it likes (\<open>Probe_Http\<close>), the OpenAPI library's encoders and the
  readers of multipart bodies (\<open>openapi_env\<close>), and the order in which one range visits a map
  (\<open>replay_env\<close>).

  \<^bold>\<open>Theories.\<close>

  \<^item> Imports of captures. \<open>Tnet_Encode\<close> is \<^verbatim>\<open>internal/tnetenc/tnetenc.go\<close> and
    \<open>Tnet_Decode\<close> \<^verbatim>\<open>pkg/importer/tnetstring.go\<close>, all limits and error branches
    included. \<open>Tnet_Roundtrip\<close> shows that what is encoded within the limits is decoded again;
    \<open>Tnet_Bounds\<close>, that no accepted input exceeds the limits. The decoder recurses on the nesting depth,
    which the code bounds by \<open>maxTnetstringDepth\<close>; the lists inside are consumed byte by byte.
  \<^item> Importers. \<open>Importer\<close> is what they share (the reader with a limit, \<^verbatim>\<open>helpers.go\<close>,
    \<^verbatim>\<open>options.go\<close>, and base64); \<open>Import_Mitmproxy\<close> is \<^verbatim>\<open>mitmproxy.go\<close>,
    JSON and native files; \<open>Import_Har_Burp\<close> is \<^verbatim>\<open>har.go\<close>, \<^verbatim>\<open>burp.go\<close> and
    \<^verbatim>\<open>registry.go\<close>. \<open>Import_Spec\<close> has the contract of an importer, a locale that the three
    interpret, and shows that the limit hides nothing, that the URL of a flow means what the flow said, and that
    a native file is imported as it was encoded.
  \<^item> gRPC. \<open>Grpc_Wire\<close> is \<^verbatim>\<open>internal/grpcwire/frame.go\<close>: frames, varints, tags and
    the walk over fields. \<open>Grpc_Wire_Spec\<close> has reference encoders and the round trips, and the
    exact consumption of a varint.
  \<^item> Requests. \<open>Crawl_Types\<close> is \<^verbatim>\<open>pkg/crawl/types.go\<close> and the query caps of
    \<^verbatim>\<open>capture.go\<close>, \<open>Media_Type\<close> \<^verbatim>\<open>pkg/mediatype\<close>, \<open>Crawl_Headers\<close>
    \<^verbatim>\<open>headers.go\<close> and \<^verbatim>\<open>cookies.go\<close>. Header lookup is shown independent of map
    order, header parsing free of injection, cookie headers removed before the browser sees them.
  \<^item> Crawling. \<open>Ssrf\<close> is \<^verbatim>\<open>pkg/ssrf/ssrf.go\<close>, \<open>Scope\<close>
    \<^verbatim>\<open>pkg/crawl/scope.go\<close>, \<open>Frontier\<close> \<^verbatim>\<open>frontier.go\<close> and \<open>Crawl_Engine\<close> the
    worker loop of \<^verbatim>\<open>engine.go\<close> as a step relation: one step is one critical section of the
    frontier or one read of the context, workers interleave freely. \<open>Frontier\<close> gives the
    laws of \<open>Push\<close>, \<open>Pop\<close>, \<open>MarkIdle\<close> and \<open>Close\<close>; the engine's invariant yields
    safety (no page twice, none out of scope or over depth or budget), the absence of deadlock, and
    completeness of a crawl that was not cut short.
  \<^item> Classification. \<open>Classify_Types\<close> is \<^verbatim>\<open>pkg/classify/types.go\<close> and the contract of
    a classifier, a locale; \<open>Classify_Rest\<close> and \<open>Classify_Others\<close> are the four classifiers, which
    interpret it; \<open>Classifier\<close> is \<^verbatim>\<open>RunClassifiers\<close>, proved once for any list of
    classifiers with the contract. Confidences are exact multiples of \<open>2^-60\<close>.
  \<^item> Deduplication. \<open>Selection\<close> is the contract of a choice by a key, a locale; \<open>Deduplicate\<close>
    interprets it for the response and the ranking of \<^verbatim>\<open>Deduplicate\<close>, which gives the
    optimality of what is kept and its independence of the order of the observations.
  \<^item> REST paths. \<open>Rest_Normalize\<close> is \<^verbatim>\<open>pkg/generate/rest/normalize.go\<close>.
    \<open>Normalize_Spec\<close> refines the loops over positions and in-place updates to one operation on the
    set of observed paths; from it follow order independence and that slug promotion reaches a fixed point. A
    specification on sets (\<open>same_position\<close>, \<open>promotable\<close>, \<open>promote_all\<close>) says which segment becomes
    a parameter: one classified as an identifier, or a literal in a position with more spellings than the
    threshold. \<open>Normalize_Names\<close> is about the printed templates.
  \<^item> OpenAPI. \<open>Rest_Schema\<close> is \<^verbatim>\<open>schema.go\<close> and \<^verbatim>\<open>form.go\<close> of
    \<^verbatim>\<open>pkg/generate/rest\<close>: the schemas inferred from JSON values and forms, and their merge;
    \<open>Go_Float\<close> is what they use of 64-bit floats. \<open>Rest_Openapi\<close> and \<open>Rest_Components\<close> are
    \<^verbatim>\<open>openapi.go\<close>: servers, groups of endpoints, origins, operations, the placing of operations that
    share a template, shared schemas, and \<^verbatim>\<open>Generate\<close>. \<open>Rest_Schema_Spec\<close> shows that a merge is
    bounded by its observations, \<open>Rest_Openapi_Spec\<close> which URLs a server may come from and that the
    document does not depend on the order of the capture, \<open>Rest_Components_Spec\<close> what sharing schemas keeps.
  \<^item> SOAP. \<open>Soap_Body\<close> is \<^verbatim>\<open>soapbody.go\<close>, \<open>Wsdl_Infer\<close>
    \<^verbatim>\<open>types.go\<close>, \<^verbatim>\<open>infer.go\<close> and \<^verbatim>\<open>generator.go\<close> of
    \<^verbatim>\<open>pkg/generate/wsdl\<close>. \<open>Soap_Spec\<close> has the invariant of extracted parameters and what
    merging observations keeps; \<open>Wsdl_Spec\<close>, that the inferred document is internally consistent.

  \<^item> Origins. \<open>Go_Regexp\<close> is a model of Go's regular expressions (leftmost match, alternatives in
    order of preference), and \<open>Url_Laws\<close> has what the URL parser guarantees about schemes and hosts.
    \<open>Origin\<close> is the part of \<^verbatim>\<open>pkg/crawl/jsreplay.go\<close> that decides about URLs;
    \<open>Origin_Spec\<close> shows that comparing printed origins is comparing scheme, host and effective port, and
    when a printed origin can stand for the URL it came from.
  \<^item> Bundles. \<open>Js_Extract\<close> is the extraction of candidate paths from JavaScript in
    \<^verbatim>\<open>jsreplay.go\<close>: the patterns, the scanners of literals, chains of additions and argument
    lists, service prefixes and template literals. \<open>Js_Extract_Spec\<close> shows that a chain is read as it was
    written, and what a bundle, however hostile, can put into a candidate.
  \<^item> Replay. \<open>Js_Replay\<close> is the rest of \<^verbatim>\<open>jsreplay.go\<close>: fetching bundles over
    redirects, probing the candidates, and dropping the offline mirrors that were refuted; \<open>Go_Resolve\<close> is
    \<^verbatim>\<open>URL.ResolveReference\<close>. \<open>Js_Replay_Spec\<close> shows which requests a replay can send,
    how many, and with which headers, and that it adds to the capture but for announced refutations.
  \<^item> Probes. \<open>Probe_Http\<close> is what the probes of \<^verbatim>\<open>pkg/probe\<close> share and
    \<^verbatim>\<open>RunStrategies\<close>, with the contract of a strategy, a locale: which requests it may send and
    what of an endpoint it may not change. \<open>Probe_Rest\<close> (OPTIONS, schema, WSDL) and \<open>Probe_Graphql\<close>
    interpret it. \<open>Go_Query\<close> and \<open>Go_Json_Struct\<close> are the parts of \<^verbatim>\<open>net/url\<close> and
    \<^verbatim>\<open>encoding/json\<close> they use.
  \<^item> Pipeline. \<open>Probe_Gate\<close> is \<^verbatim>\<open>internal/pipeline/probe_origin_gate.go\<close>: the
    validators in front of every probe, and the stateful closure with its warnings, which is shown to answer as
    the stateless comparison does. \<open>Pipeline\<close> is the rest of \<^verbatim>\<open>internal/pipeline\<close> and
    \<^verbatim>\<open>pkg/generate/registry.go\<close>: detection of the API type, the classify, probe and generate
    stages, gRPC hosts and bindings, WSDL discovery and augmentation. \<open>Pipeline_Spec\<close> has the promises
    of the composition: which requests a run can send and how many, that a pinned target is not left, what probing
    may change, the errors, and what the gRPC passes add.

  \<^bold>\<open>Bounds and termination.\<close> Every definition is total. The loops that read tokens or bytes
  recurse on the remaining input; where the code's recursion is bounded by a depth counter
  (\<^verbatim>\<open>maxBodyDepth\<close>, \<open>maxTnetstringDepth\<close>) the model uses the same counter. Some guards compare the
  length of the input left over by a call with the length before it (\<open>collectParam\<close>,
  \<open>walkOperation_from\<close>, the scanners of \<open>Js_Extract\<close>): they only make the recursion well-founded, and
  \<open>collectParam_start\<close> and the equations of \<open>Js_Extract_Spec\<close> show the code's equations without them. Slug promotion runs the code's cap of eight rounds, and
  \<open>promotion_rounds_fixpoint\<close> shows for which numbers of literals this is enough.

  \<^bold>\<open>Not modelled.\<close> The control of the browser and the extraction of links, forms and JavaScript from
  pages (\<^verbatim>\<open>browser.go\<close>, \<^verbatim>\<open>network.go\<close>, \<^verbatim>\<open>links.go\<close>,
  \<^verbatim>\<open>forms.go\<close>, \<^verbatim>\<open>htmlextract.go\<close>, \<^verbatim>\<open>jsextract.go\<close>,
  \<^verbatim>\<open>http_crawler.go\<close>), which rest on third-party parsers; the static analysis of JavaScript (\<^verbatim>\<open>pkg/analyze\<close>);
  the gRPC probes, on third-party reflection; the generators for GraphQL and protobuf; the explanation lines of \<^verbatim>\<open>reasons.go\<close>; the
  command line and the SDK; the test servers. Where \<open>Pipeline\<close> calls one of these, it is a field of
  \<open>pipeline_env\<close>, and the properties of the probe stage are stated for the API types whose probes are modelled.
\<close>

end
